(* ===== verification/Knet_Prelude.thy ===== *)
theory Knet_Prelude
  imports Main "HOL-Library.Word"
begin

unbundle bit_operations_syntax

text \<open>
  Shared vocabulary of the development: the widths the C++ code uses, little-endian byte
  images of integers (the memory layout of the structs that the code casts buffers to),
  the signed distance of two 32-bit counters, and generic facts on lists and words that
  the component theories rely on.
\<close>

section \<open>Machine types\<close>

type_synonym u8 = "8 word"
type_synonym u16 = "16 word"
type_synonym u32 = "32 word"
type_synonym u64 = "64 word"

text \<open>A \<^verbatim>\<open>char *\<close> with a length, or a \<^verbatim>\<open>std::string\<close> used as a byte container.\<close>

type_synonym bytes = "u8 list"

named_theorems knet_bits \<open>byte images of integers\<close>
named_theorems knet_len \<open>lengths of encoded data\<close>
named_theorems knet_inv \<open>preservation of component invariants\<close>

section \<open>Little-endian images\<close>

text \<open>
  \<open>leN w\<close> is what a store of \<open>w\<close> through a \<^verbatim>\<open>uintN_t *\<close> leaves in memory on the
  little-endian targets the library is built for; \<open>rdN p\<close> is the corresponding load.
\<close>

definition le16 :: "u16 \<Rightarrow> bytes" where
  "le16 w = [ucast w, ucast (drop_bit 8 w)]"

definition le32 :: "u32 \<Rightarrow> bytes" where
  "le32 w = [ucast w, ucast (drop_bit 8 w), ucast (drop_bit 16 w), ucast (drop_bit 24 w)]"

definition le64 :: "u64 \<Rightarrow> bytes" where
  "le64 w = le32 (ucast w) @ le32 (ucast (drop_bit 32 w))"

definition rd16 :: "bytes \<Rightarrow> u16" where
  "rd16 p = ucast (p ! 0) OR push_bit 8 (ucast (p ! 1))"

definition rd32 :: "bytes \<Rightarrow> u32" where
  "rd32 p = ucast (p ! 0) OR push_bit 8 (ucast (p ! 1)) OR push_bit 16 (ucast (p ! 2))
     OR push_bit 24 (ucast (p ! 3))"

definition rd64 :: "bytes \<Rightarrow> u64" where
  "rd64 p = ucast (rd32 p) OR push_bit 32 (ucast (rd32 (drop 4 p)))"

lemma length_le16 [simp, knet_len]: "length (le16 w) = 2"
  by (simp add: le16_def)

lemma length_le32 [simp, knet_len]: "length (le32 w) = 4"
  by (simp add: le32_def)

lemma length_le64 [simp, knet_len]: "length (le64 w) = 8"
  by (simp add: le64_def)

lemma rd16_le16 [simp, knet_bits]: "rd16 (le16 w @ xs) = w"
  by (rule bit_word_eqI) (auto simp: rd16_def le16_def bit_simps)

lemma rd32_le32 [simp, knet_bits]: "rd32 (le32 w @ xs) = w"
proof (rule bit_word_eqI)
  fix n assume "n < LENGTH(32)"
  then have "n < 8 \<or> (8 \<le> n \<and> n < 16) \<or> (16 \<le> n \<and> n < 24) \<or> (24 \<le> n \<and> n < 32)"
    by auto
  then show "bit (rd32 (le32 w @ xs)) n = bit w n"
    by (elim disjE) (auto simp: rd32_def le32_def bit_simps)
qed

lemma rd64_le64 [simp, knet_bits]: "rd64 (le64 w @ xs) = w"
  by (rule bit_word_eqI) (auto simp: rd64_def le64_def bit_simps)

lemmas rd_le_nil [simp] =
  rd16_le16 [where xs = "[]", simplified]
  rd32_le32 [where xs = "[]", simplified]
  rd64_le64 [where xs = "[]", simplified]

text \<open>A load depends only on the bytes it covers.\<close>

lemma rd16_append: "2 \<le> length p \<Longrightarrow> rd16 (p @ q) = rd16 p"
  by (auto simp: rd16_def nth_append)

lemma rd32_append: "4 \<le> length p \<Longrightarrow> rd32 (p @ q) = rd32 p"
  by (auto simp: rd32_def nth_append)

lemma rd64_append: "8 \<le> length p \<Longrightarrow> rd64 (p @ q) = rd64 p"
  by (simp add: rd64_def rd32_append)

lemma rd32_take: "4 \<le> n \<Longrightarrow> rd32 (take n p) = rd32 p"
  by (simp add: rd32_def)

section \<open>Signed distance of two counters\<close>

text \<open>
  \<^verbatim>\<open>(IINT32)(later - earlier)\<close>: the 32-bit difference read as two's complement. The
  protocol compares sequence numbers and time stamps only through it.
\<close>

definition sdiff :: "u32 \<Rightarrow> u32 \<Rightarrow> int" where
  "sdiff later earlier = sint (later - earlier)"

lemma sdiff_self [simp]: "sdiff a a = 0"
  by (simp add: sdiff_def)

lemma sint_of_nat_small: "k < 2 ^ 31 \<Longrightarrow> sint (of_nat k :: u32) = int k"
  by (simp add: signed_of_nat signed_take_bit_int_eq_self)

lemma sint_minus_of_nat_small: "k \<le> 2 ^ 31 \<Longrightarrow> sint (- of_nat k :: u32) = - int k"
proof -
  assume k: "k \<le> 2 ^ 31"
  have "- of_nat k = (word_of_int (- int k) :: u32)"
    by simp
  then have "sint (- of_nat k :: u32) = signed_take_bit 31 (- int k)"
    by (simp only: signed_of_int) simp
  also have "\<dots> = - int k"
    using k by (simp add: signed_take_bit_int_eq_self_iff)
  finally show ?thesis .
qed

lemma sdiff_ahead: "k < 2 ^ 31 \<Longrightarrow> sdiff (a + of_nat k) a = int k"
  by (simp add: sdiff_def sint_of_nat_small)

lemma sdiff_behind: "k \<le> 2 ^ 31 \<Longrightarrow> sdiff a (a + of_nat k) = - int k"
  by (simp add: sdiff_def sint_minus_of_nat_small)

lemma sdiff_eq_0_iff: "sdiff a b = 0 \<longleftrightarrow> a = b"
  by (simp add: sdiff_def signed_eq_0_iff)

lemma sdiff_bounds: "- (2 ^ 31) \<le> sdiff a b" "sdiff a b < 2 ^ 31"
  using sint_ge [of "a - b"] sint_lt [of "a - b"] by (simp_all add: sdiff_def)

section \<open>Unsigned words and naturals\<close>

lemma unat_of_nat32: "n < 2 ^ 32 \<Longrightarrow> unat (of_nat n :: u32) = n"
  by (simp add: unat_of_nat take_bit_nat_eq_self)

lemma unat_of_nat64: "n < 2 ^ 64 \<Longrightarrow> unat (of_nat n :: u64) = n"
  by (simp add: unat_of_nat take_bit_nat_eq_self)

lemma unat_lt_32 [simp]: "unat (x :: u32) < 4294967296"
  using unsigned_less [of x] by simp

lemma unat_sint32: "0 \<le> sint (w :: u32) \<Longrightarrow> unat w = nat (sint w)"
proof -
  assume nn: "0 \<le> sint w"
  have w: "of_nat (nat (sint w)) = w"
    using nn by simp
  have "nat (sint w) < 2 ^ 32"
    using sint_lt [of w] nn by simp
  from unat_of_nat32 [OF this] show ?thesis unfolding w .
qed

lemma sint_unat32: "unat (w :: u32) < 2 ^ 31 \<Longrightarrow> sint w = int (unat w)"
  using sint_of_nat_small [of "unat w"] by simp

text \<open>Narrowing loses nothing on a value that fits.\<close>

lemma ucast_narrow:
  fixes w :: u32
  assumes "unat w < 2 ^ LENGTH('b)" "LENGTH('b::len) \<le> 32"
  shows "(ucast (ucast w :: 'b word) :: u32) = w"
proof (rule unsigned_word_eqI)
  show "unat (ucast (ucast w :: 'b word) :: u32) = unat w"
    using assms by (simp add: unsigned_ucast_eq unsigned_take_bit_eq take_bit_nat_eq_self)
qed

section \<open>Lists\<close>

text \<open>\<^verbatim>\<open>memcpy(&buf[pos], src, n)\<close> on an array, for a range inside it.\<close>

definition blit :: "'a list \<Rightarrow> nat \<Rightarrow> 'a list \<Rightarrow> 'a list" where
  "blit buf pos src = take pos buf @ src @ drop (pos + length src) buf"

lemma length_blit: "pos + length src \<le> length buf \<Longrightarrow> length (blit buf pos src) = length buf"
  by (simp add: blit_def)

lemma nth_blit:
  "pos + length src \<le> length buf \<Longrightarrow> i < length buf \<Longrightarrow>
   blit buf pos src ! i = (if pos \<le> i \<and> i < pos + length src then src ! (i - pos) else buf ! i)"
  by (auto simp: blit_def nth_append min_def)

lemma take_Suc_append_nth: "n < length xs \<Longrightarrow> take (Suc n) xs = take n xs @ [xs ! n]"
  by (rule take_Suc_conv_app_nth)

lemma concat_map_singleton [simp]: "concat (map (\<lambda>x. [x]) xs) = xs"
  by (induction xs) auto

lemma drop_append_same: "n = length xs \<Longrightarrow> drop n (xs @ ys) = ys"
  by simp

lemma sorted_wrt_snoc_last:
  "sorted_wrt P (xs @ [x]) \<longleftrightarrow> sorted_wrt P xs \<and> (\<forall>y\<in>set xs. P y x)"
  by (simp add: sorted_wrt_append)

lemma list_all2_setD: "list_all2 P xs ys \<Longrightarrow> y \<in> set ys \<Longrightarrow> \<exists>x\<in>set xs. P x y"
  by (induction rule: list_all2_induct) auto

end
