(* ===== verification/Loop_Buffer.thy ===== *)
theory Loop_Buffer
  imports Knet_Prelude
begin

text \<open>
  \<^verbatim>\<open>utils/loop_buffer.hpp\<close>: the byte ring \<^verbatim>\<open>LoopBuffer<kMaxSize, Mutex>\<close>. The two
  cursors are free-running 32-bit counters that wrap around; the write and read positions
  are their low bits. The theory gives the operations, the invariant, the abstraction to
  the queue of unread bytes, and shows that the ring refines that queue.
\<close>

section \<open>Size of the ring\<close>

definition get_power_of_two :: "u32 \<Rightarrow> u32" where
  "get_power_of_two n =
     (let n = n - 1;
          n = n OR drop_bit 1 n;
          n = n OR drop_bit 2 n;
          n = n OR drop_bit 4 n;
          n = n OR drop_bit 8 n;
          n = n OR drop_bit 16 n
      in n + 1)"

definition LoopBuffer_BufferSize :: "u64 \<Rightarrow> u32" where
  "LoopBuffer_BufferSize kMaxSize =
     (if kMaxSize AND (kMaxSize - 1) \<noteq> 0 then get_power_of_two (ucast kMaxSize)
      else ucast kMaxSize)"

section \<open>State and operations\<close>

text \<open>
  \<open>lb_size\<close> is the constant \<^verbatim>\<open>BufferSize\<close> of the instantiation, \<open>lb_buffer\<close> the
  \<^verbatim>\<open>std::array\<close> of that many bytes.
\<close>

record loop_buffer =
  lb_head :: u32
  lb_tail :: u32
  lb_buffer :: bytes
  lb_size :: u32

definition LoopBuffer_init :: "u64 \<Rightarrow> bytes \<Rightarrow> loop_buffer" where
  "LoopBuffer_init kMaxSize storage =
     \<lparr>lb_head = 0, lb_tail = 0, lb_buffer = storage, lb_size = LoopBuffer_BufferSize kMaxSize\<rparr>"

fun calc_data_length :: "bytes list \<Rightarrow> u32" where
  "calc_data_length [] = 0"
| "calc_data_length (data # rest) = of_nat (length data) + calc_data_length rest"

definition LoopBuffer_push :: "loop_buffer \<Rightarrow> bytes \<Rightarrow> u32 \<Rightarrow> u32 \<times> loop_buffer" where
  "LoopBuffer_push b data dataLen =
     (let bufLen = lb_size b - (lb_tail b - lb_head b) in
      if bufLen < dataLen then (0, b)
      else
        let writePos = lb_tail b AND (lb_size b - 1);
            tailSize = lb_size b - writePos;
            buf = (if dataLen > tailSize
                   then blit (blit (lb_buffer b) (unat writePos) (take (unat tailSize) data)) 0
                          (take (unat (dataLen - tailSize)) (drop (unat tailSize) data))
                   else blit (lb_buffer b) (unat writePos) (take (unat dataLen) data))
        in (dataLen, b\<lparr>lb_buffer := buf, lb_tail := lb_tail b + dataLen\<rparr>))"

definition LoopBuffer_push_string :: "loop_buffer \<Rightarrow> bytes \<Rightarrow> u32 \<times> loop_buffer" where
  "LoopBuffer_push_string b data = LoopBuffer_push b data (of_nat (length data))"

fun LoopBuffer_mpush :: "loop_buffer \<Rightarrow> bytes list \<Rightarrow> u32 \<times> loop_buffer" where
  "LoopBuffer_mpush b [] = (0, b)"
| "LoopBuffer_mpush b (data # rest) =
     (let (ret, b1) = LoopBuffer_push_string b data in
      if ret > 0 then (let (r, b2) = LoopBuffer_mpush b1 rest in (ret + r, b2)) else (0, b1))"

text \<open>
  \<^verbatim>\<open>read()\<close> and \<^verbatim>\<open>read(handler)\<close> expose the first contiguous run of unread bytes: \<open>None\<close>
  is the null pointer (and the handler not being called).
\<close>

definition LoopBuffer_read :: "loop_buffer \<Rightarrow> bytes option \<times> u32" where
  "LoopBuffer_read b =
     (let dataLen = lb_tail b - lb_head b in
      if dataLen = 0 then (None, 0)
      else
        let readPos = lb_head b AND (lb_size b - 1);
            len = min dataLen (lb_size b - readPos)
        in (Some (take (unat len) (drop (unat readPos) (lb_buffer b))), len))"

definition LoopBuffer_commit :: "loop_buffer \<Rightarrow> u32 \<Rightarrow> u32 \<times> loop_buffer" where
  "LoopBuffer_commit b len = (len, b\<lparr>lb_head := lb_head b + len\<rparr>)"

definition LoopBuffer_pop :: "loop_buffer \<Rightarrow> bytes option \<times> u32 \<times> loop_buffer" where
  "LoopBuffer_pop b =
     (let dataLen = lb_tail b - lb_head b in
      if dataLen = 0 then (None, 0, b)
      else
        let readPos = lb_head b AND (lb_size b - 1);
            len = min dataLen (lb_size b - readPos)
        in (Some (take (unat len) (drop (unat readPos) (lb_buffer b))), len,
            b\<lparr>lb_head := lb_head b + len\<rparr>))"

definition LoopBuffer_empty :: "loop_buffer \<Rightarrow> bool" where
  "LoopBuffer_empty b \<longleftrightarrow> lb_head b = lb_tail b"

definition LoopBuffer_peek :: "loop_buffer \<Rightarrow> u32" where
  "LoopBuffer_peek b = lb_size b - (lb_tail b - lb_head b)"

definition LoopBuffer_size :: "loop_buffer \<Rightarrow> u32" where
  "LoopBuffer_size b = lb_tail b - lb_head b"

text \<open>The condition \<^verbatim>\<open>wait\<close> blocks on.\<close>

definition LoopBuffer_wait_done :: "loop_buffer \<Rightarrow> u32 \<Rightarrow> bool" where
  "LoopBuffer_wait_done b len \<longleftrightarrow> lb_size b - (lb_tail b - lb_head b) \<ge> len"

definition LoopBuffer_clear :: "loop_buffer \<Rightarrow> loop_buffer" where
  "LoopBuffer_clear b = b\<lparr>lb_head := 0, lb_tail := 0\<rparr>"

section \<open>Invariant and abstraction\<close>

definition LoopBuffer_inv :: "loop_buffer \<Rightarrow> bool" where
  "LoopBuffer_inv b \<longleftrightarrow>
     (\<exists>k<32. lb_size b = 2 ^ k) \<and> length (lb_buffer b) = unat (lb_size b) \<and>
     unat (lb_tail b - lb_head b) \<le> unat (lb_size b)"

definition ring_slice :: "'a list \<Rightarrow> nat \<Rightarrow> nat \<Rightarrow> 'a list" where
  "ring_slice buf h n = map (\<lambda>i. buf ! ((h + i) mod length buf)) [0..<n]"

text \<open>The unread bytes, oldest first.\<close>

definition LoopBuffer_contents :: "loop_buffer \<Rightarrow> bytes" where
  "LoopBuffer_contents b =
     ring_slice (lb_buffer b) (unat (lb_head b)) (unat (lb_tail b - lb_head b))"

section \<open>Rings over naturals\<close>

definition ring_write :: "'a list \<Rightarrow> nat \<Rightarrow> 'a list \<Rightarrow> 'a list" where
  "ring_write buf w src =
     (if length src > length buf - w
      then blit (blit buf w (take (length buf - w) src)) 0 (drop (length buf - w) src)
      else blit buf w src)"

lemma length_ring_slice [simp]: "length (ring_slice buf h n) = n"
  by (simp add: ring_slice_def)

lemma length_ring_write:
  "w < length buf \<Longrightarrow> length src \<le> length buf \<Longrightarrow> length (ring_write buf w src) = length buf"
  by (simp add: ring_write_def length_blit)

lemma nth_ring_write:
  assumes "w < length buf" "length src \<le> length buf" "j < length buf"
  shows "ring_write buf w src ! ((w + j) mod length buf) =
    (if j < length src then src ! j else buf ! ((w + j) mod length buf))"
proof (cases "w + j < length buf")
  case True
  then show ?thesis
    using assms by (auto simp: ring_write_def nth_blit length_blit)
next
  case False
  then have "(w + j) mod length buf = w + j - length buf"
    using assms by (simp add: mod_if)
  then show ?thesis
    using assms False by (auto simp: ring_write_def nth_blit length_blit)
qed

lemma ring_slice_write:
  assumes "0 < length buf" "n + length src \<le> length buf"
  shows "ring_slice (ring_write buf ((h + n) mod length buf) src) h (n + length src) =
    ring_slice buf h n @ src"
proof (rule nth_equalityI)
  let ?N = "length buf" and ?w = "(h + n) mod length buf"
  have len: "length (ring_write buf ?w src) = ?N"
    using assms by (simp add: length_ring_write)
  fix i assume "i < length (ring_slice (ring_write buf ?w src) h (n + length src))"
  then have i: "i < n + length src" by simp
  show "ring_slice (ring_write buf ?w src) h (n + length src) ! i = (ring_slice buf h n @ src) ! i"
  proof (cases "i < n")
    case True
    have pos: "(?w + (i + ?N - n)) mod ?N = (h + i) mod ?N"
    proof -
      have "(?w + (i + ?N - n)) mod ?N = (h + n + (i + ?N - n)) mod ?N"
        by (simp only: mod_simps)
      also have "h + n + (i + ?N - n) = (h + i) + ?N"
        using assms by simp
      finally show ?thesis by simp
    qed
    have lt: "i + ?N - n < ?N" and ge: "\<not> i + ?N - n < length src" and w: "?w < ?N"
      using assms True by auto
    have "ring_write buf ?w src ! ((?w + (i + ?N - n)) mod ?N) = buf ! ((?w + (i + ?N - n)) mod ?N)"
      using nth_ring_write [OF w _ lt] assms ge by simp
    then have "ring_write buf ?w src ! ((h + i) mod ?N) = buf ! ((h + i) mod ?N)"
      by (simp only: pos)
    then show ?thesis
      using True by (simp add: ring_slice_def nth_append len)
  next
    case False
    have pos: "(?w + (i - n)) mod ?N = (h + i) mod ?N"
    proof -
      have "(?w + (i - n)) mod ?N = (h + n + (i - n)) mod ?N"
        by (simp only: mod_simps)
      also have "h + n + (i - n) = h + i"
        using False by simp
      finally show ?thesis .
    qed
    have lt: "i - n < ?N" and src: "i - n < length src" and w: "?w < ?N"
      using assms False i by auto
    have "ring_write buf ?w src ! ((?w + (i - n)) mod ?N) = src ! (i - n)"
      using nth_ring_write [OF w _ lt] assms src by simp
    then have "ring_write buf ?w src ! ((h + i) mod ?N) = src ! (i - n)"
      by (simp only: pos)
    then show ?thesis
      using False i by (simp add: ring_slice_def nth_append len)
  qed
qed simp

lemma ring_slice_drop:
  "m \<le> n \<Longrightarrow> ring_slice buf (h + m) (n - m) = drop m (ring_slice buf h n)"
  by (rule nth_equalityI) (auto simp: ring_slice_def add.assoc)

text \<open>A run that does not cross the end of the array is a plain sublist.\<close>

lemma ring_slice_run:
  assumes "h mod length buf + n \<le> length buf" "0 < length buf"
  shows "ring_slice buf h n = take n (drop (h mod length buf) buf)"
proof (rule nth_equalityI)
  show "length (ring_slice buf h n) = length (take n (drop (h mod length buf) buf))"
    using assms by simp
  fix i assume "i < length (ring_slice buf h n)"
  then have i: "i < n" by simp
  have "(h + i) mod length buf = (h mod length buf + i) mod length buf"
    by (simp add: mod_simps)
  also have "\<dots> = h mod length buf + i"
    using i assms by simp
  finally have "(h + i) mod length buf = h mod length buf + i" .
  then show "ring_slice buf h n ! i = take n (drop (h mod length buf) buf) ! i"
    using i assms by (simp add: ring_slice_def)
qed

lemma ring_slice_take: "m \<le> n \<Longrightarrow> take m (ring_slice buf h n) = ring_slice buf h m"
  by (simp add: ring_slice_def take_map)

lemma ring_slice_mod: "ring_slice buf (h mod length buf) n = ring_slice buf h n"
  by (simp add: ring_slice_def mod_simps)

section \<open>From word cursors to ring positions\<close>

lemma unat_pow2: "k < 32 \<Longrightarrow> unat ((2 :: u32) ^ k) = 2 ^ k"
proof -
  assume "k < 32"
  then have "(2 :: nat) ^ k < 2 ^ 32" by (rule power_strict_increasing) simp
  then have "unat (of_nat (2 ^ k) :: u32) = 2 ^ k" by (rule unat_of_nat32)
  then show ?thesis by simp
qed

lemma unat_and_mask: "k < 32 \<Longrightarrow> unat ((x :: u32) AND (2 ^ k - 1)) = unat x mod 2 ^ k"
proof -
  assume "k < 32"
  have "x AND (2 ^ k - 1) = take_bit k x"
    by (simp only: take_bit_eq_mask mask_eq_exp_minus_1)
  then have "unat (x AND (2 ^ k - 1)) = take_bit k (unat x)"
    by (simp only: unsigned_take_bit_eq)
  then show ?thesis by (simp only: take_bit_eq_mod)
qed

lemma unat_add_mod:
  "k \<le> 32 \<Longrightarrow> unat ((a :: u32) + b) mod 2 ^ k = (unat a + unat b) mod 2 ^ k"
proof -
  assume k: "k \<le> 32"
  have "(2 :: nat) ^ k dvd 2 ^ 32"
    using k by (rule le_imp_power_dvd)
  moreover have "unat (a + b) = (unat a + unat b) mod 2 ^ 32"
    by (simp add: unat_word_ariths)
  ultimately have "unat (a + b) mod 2 ^ k = (unat a + unat b) mod 2 ^ k"
    by (simp only: mod_mod_cancel)
  then show ?thesis .
qed

lemma LoopBuffer_invE:
  assumes "LoopBuffer_inv b"
  obtains k where "k < 32" "lb_size b = 2 ^ k" "length (lb_buffer b) = 2 ^ k"
    "unat (lb_size b) = 2 ^ k" "unat (lb_tail b - lb_head b) \<le> 2 ^ k"
    "\<And>x. unat (x AND (lb_size b - 1)) = unat x mod 2 ^ k"
proof -
  obtain k where k: "k < 32" "lb_size b = 2 ^ k"
    using assms by (auto simp: LoopBuffer_inv_def)
  then have "unat (lb_size b) = 2 ^ k" by (simp add: unat_pow2)
  with k assms unat_and_mask [of k] show ?thesis
    by (intro that [of k]) (auto simp: LoopBuffer_inv_def)
qed

lemma tail_position:
  fixes t h :: u32
  assumes "k \<le> 32"
  shows "unat t mod 2 ^ k = (unat h + unat (t - h)) mod 2 ^ k"
  using unat_add_mod [OF assms, of h "t - h"] by simp

lemma unat_diff_le: "unat (b :: u32) \<le> unat a \<Longrightarrow> unat (a - b) = unat a - unat b"
  by (simp add: unat_sub word_le_nat_alt)

lemma LoopBuffer_free: "LoopBuffer_inv b \<Longrightarrow>
  unat (lb_size b - (lb_tail b - lb_head b)) = unat (lb_size b) - length (LoopBuffer_contents b)"
  by (simp add: LoopBuffer_contents_def LoopBuffer_inv_def unat_diff_le)

section \<open>The ring refines a bounded byte queue\<close>

lemma LoopBuffer_push_ring:
  assumes inv: "LoopBuffer_inv b" and len: "length data = unat dataLen"
    and fits: "length (LoopBuffer_contents b) + length data \<le> unat (lb_size b)"
  shows "LoopBuffer_push b data dataLen =
    (dataLen, b\<lparr>lb_buffer := ring_write (lb_buffer b)
                  ((unat (lb_head b) + length (LoopBuffer_contents b)) mod length (lb_buffer b)) data,
                lb_tail := lb_tail b + dataLen\<rparr>)"
proof -
  obtain k where k: "k < 32" "lb_size b = 2 ^ k" "length (lb_buffer b) = 2 ^ k"
      "unat (lb_size b) = 2 ^ k" "unat (lb_tail b - lb_head b) \<le> 2 ^ k"
      "\<And>x. unat (x AND (lb_size b - 1)) = unat x mod 2 ^ k"
    using inv by (rule LoopBuffer_invE) blast
  let ?w = "lb_tail b AND (lb_size b - 1)"
  have w: "unat ?w = (unat (lb_head b) + length (LoopBuffer_contents b)) mod 2 ^ k"
    using k tail_position [of k "lb_tail b" "lb_head b"] by (simp add: LoopBuffer_contents_def)
  then have "unat ?w < 2 ^ k" by simp
  then have ts: "unat (lb_size b - ?w) = 2 ^ k - unat ?w"
    using k by (simp add: unat_diff_le)
  have nofull: "\<not> lb_size b - (lb_tail b - lb_head b) < dataLen"
    using LoopBuffer_free [OF inv] fits len by (simp add: word_less_nat_alt)
  have gt: "dataLen > lb_size b - ?w \<longleftrightarrow> length data > 2 ^ k - unat ?w"
    using ts len by (simp add: word_less_nat_alt)
  have rest: "unat (dataLen - (lb_size b - ?w)) = length data - (2 ^ k - unat ?w)"
    if "length data > 2 ^ k - unat ?w"
    using that ts len by (simp add: unat_diff_le)
  show ?thesis
    using nofull gt rest ts w k len
    by (auto simp: LoopBuffer_push_def Let_def ring_write_def)
qed

lemma LoopBuffer_push_full:
  assumes "LoopBuffer_inv b" "unat (lb_size b) < length (LoopBuffer_contents b) + unat dataLen"
  shows "LoopBuffer_push b data dataLen = (0, b)"
  using assms LoopBuffer_free [OF assms(1)]
  by (auto simp: LoopBuffer_push_def word_less_nat_alt LoopBuffer_inv_def LoopBuffer_contents_def)

lemma LoopBuffer_push_ok:
  assumes inv: "LoopBuffer_inv b" and len: "length data = unat dataLen"
    and fits: "length (LoopBuffer_contents b) + length data \<le> unat (lb_size b)"
  shows "fst (LoopBuffer_push b data dataLen) = dataLen"
    and "LoopBuffer_inv (snd (LoopBuffer_push b data dataLen))"
    and "LoopBuffer_contents (snd (LoopBuffer_push b data dataLen)) = LoopBuffer_contents b @ data"
proof -
  let ?b = "snd (LoopBuffer_push b data dataLen)"
  obtain k where k: "k < 32" "lb_size b = 2 ^ k" "length (lb_buffer b) = 2 ^ k"
      "unat (lb_size b) = 2 ^ k" "unat (lb_tail b - lb_head b) \<le> 2 ^ k"
    using inv by (rule LoopBuffer_invE) blast
  let ?n = "length (LoopBuffer_contents b)"
  have n: "?n = unat (lb_tail b - lb_head b)" by (simp add: LoopBuffer_contents_def)
  have "unat (lb_tail b - lb_head b + dataLen) = ?n + length data"
  proof -
    have "?n + length data < 2 ^ 32"
      using fits k by (metis le_less_trans one_less_numeral_iff power_strict_increasing_iff semiring_norm(76))
    then show ?thesis using n len by (simp add: unat_word_ariths)
  qed
  then have sz: "unat (lb_tail b + dataLen - lb_head b) = ?n + length data"
    by (simp add: algebra_simps)
  note r = LoopBuffer_push_ring [OF inv len fits]
  show "fst (LoopBuffer_push b data dataLen) = dataLen" by (simp add: r)
  show "LoopBuffer_inv ?b"
    using k fits sz length_ring_write [of _ "lb_buffer b" data]
    by (auto simp: r LoopBuffer_inv_def)
  show "LoopBuffer_contents ?b = LoopBuffer_contents b @ data"
    using ring_slice_write [of "lb_buffer b" ?n data "unat (lb_head b)"] k fits sz n
    by (simp add: r LoopBuffer_contents_def)
qed

lemma LoopBuffer_read_run:
  assumes inv: "LoopBuffer_inv b" and "LoopBuffer_contents b \<noteq> []"
  obtains len where "LoopBuffer_read b = (Some (take len (LoopBuffer_contents b)), of_nat len)"
    "0 < len" "len \<le> length (LoopBuffer_contents b)" "len < 2 ^ 32"
    "len = length (LoopBuffer_contents b) \<or>
       (unat (lb_head b) + len) mod unat (lb_size b) = 0"
proof -
  obtain k where k: "k < 32" "lb_size b = 2 ^ k" "length (lb_buffer b) = 2 ^ k"
      "unat (lb_size b) = 2 ^ k" "unat (lb_tail b - lb_head b) \<le> 2 ^ k"
      "\<And>x. unat (x AND (lb_size b - 1)) = unat x mod 2 ^ k"
    using inv by (rule LoopBuffer_invE) blast
  let ?n = "length (LoopBuffer_contents b)" and ?r = "unat (lb_head b) mod 2 ^ k"
  let ?len = "min ?n (2 ^ k - ?r)"
  let ?wlen = "min (lb_tail b - lb_head b) (lb_size b - (lb_head b AND (lb_size b - 1)))"
  have n: "?n = unat (lb_tail b - lb_head b)" by (simp add: LoopBuffer_contents_def)
  have "unat (lb_size b - (lb_head b AND (lb_size b - 1))) = 2 ^ k - ?r"
    using k by (simp add: unat_diff_le)
  then have wlen: "unat ?wlen = ?len"
    using n by (auto simp: min_def word_le_nat_alt)
  have ne: "lb_tail b - lb_head b \<noteq> 0"
    using assms(2) n by (metis length_0_conv unat_0)
  have "?r < 2 ^ k" "?len \<le> 2 ^ k - ?r" by simp_all
  then have "?r + ?len \<le> 2 ^ k" by linarith
  then have run: "take ?len (LoopBuffer_contents b) = take ?len (drop ?r (lb_buffer b))"
    using ring_slice_run [of "unat (lb_head b)" "lb_buffer b" ?len] k n
    by (simp add: LoopBuffer_contents_def ring_slice_take)
  have "LoopBuffer_read b = (Some (take ?len (LoopBuffer_contents b)), of_nat ?len)"
    using ne wlen k run
    by (auto simp: LoopBuffer_read_def Let_def simp flip: wlen)
  moreover have "0 < ?len" using assms(2) k by simp
  moreover have "?len < 2 ^ 32" using n by (simp add: min_less_iff_disj)
  moreover have "?len = ?n \<or> (unat (lb_head b) + ?len) mod unat (lb_size b) = 0"
  proof (cases "?n \<le> 2 ^ k - ?r")
    case False
    then have "?len = 2 ^ k - ?r" by simp
    moreover have "(unat (lb_head b) + (2 ^ k - ?r)) mod 2 ^ k = (?r + (2 ^ k - ?r)) mod 2 ^ k"
      by (simp only: mod_simps)
    ultimately show ?thesis using k \<open>?r < 2 ^ k\<close> by simp
  qed simp
  ultimately show ?thesis by (intro that) auto
qed

lemma LoopBuffer_commit_ok:
  assumes inv: "LoopBuffer_inv b" and len: "unat len \<le> length (LoopBuffer_contents b)"
  shows "LoopBuffer_inv (snd (LoopBuffer_commit b len))"
    and "LoopBuffer_contents (snd (LoopBuffer_commit b len)) = drop (unat len) (LoopBuffer_contents b)"
proof -
  obtain k where k: "k < 32" "lb_size b = 2 ^ k" "length (lb_buffer b) = 2 ^ k"
      "unat (lb_size b) = 2 ^ k" "unat (lb_tail b - lb_head b) \<le> 2 ^ k"
    using inv by (rule LoopBuffer_invE) blast
  let ?n = "unat (lb_tail b - lb_head b)"
  have n: "unat len \<le> ?n" using len by (simp add: LoopBuffer_contents_def)
  have "lb_tail b - (lb_head b + len) = (lb_tail b - lb_head b) - len" by simp
  then have sz: "unat (lb_tail b - (lb_head b + len)) = ?n - unat len"
    using n by (simp only: unat_diff_le)
  then show "LoopBuffer_inv (snd (LoopBuffer_commit b len))"
    using inv by (auto simp: LoopBuffer_commit_def LoopBuffer_inv_def)
  have pos: "unat (lb_head b + len) mod length (lb_buffer b) =
      (unat (lb_head b) + unat len) mod length (lb_buffer b)"
    using k unat_add_mod [of k "lb_head b" len] by simp
  have "ring_slice (lb_buffer b) (unat (lb_head b + len)) (?n - unat len) =
      ring_slice (lb_buffer b) (unat (lb_head b) + unat len) (?n - unat len)"
    by (metis pos ring_slice_mod)
  also have "\<dots> = drop (unat len) (ring_slice (lb_buffer b) (unat (lb_head b)) ?n)"
    using n by (rule ring_slice_drop)
  finally show "LoopBuffer_contents (snd (LoopBuffer_commit b len)) =
      drop (unat len) (LoopBuffer_contents b)"
    using sz by (simp add: LoopBuffer_contents_def LoopBuffer_commit_def)
qed

text \<open>\<^verbatim>\<open>pop\<close> is \<^verbatim>\<open>read\<close> followed by a commit of what was read.\<close>

lemma LoopBuffer_pop_read_commit:
  "LoopBuffer_pop b = (case LoopBuffer_read b of (d, len) \<Rightarrow> (d, len, snd (LoopBuffer_commit b len)))"
  by (cases b) (simp add: LoopBuffer_pop_def LoopBuffer_read_def LoopBuffer_commit_def Let_def)

section \<open>The queue contract\<close>

text \<open>
  What a user of the ring may rely on, stated over the queue of unread bytes only: a push
  appends all of its bytes or none, a read shows a non-empty prefix while there is data
  and changes nothing, a commit drops exactly what it is told to.
\<close>

locale byte_queue =
  fixes contents :: "'q \<Rightarrow> bytes" and invar :: "'q \<Rightarrow> bool" and capacity :: "'q \<Rightarrow> nat"
    and push :: "'q \<Rightarrow> bytes \<Rightarrow> u32 \<times> 'q" and read :: "'q \<Rightarrow> bytes option \<times> u32"
    and commit :: "'q \<Rightarrow> u32 \<Rightarrow> u32 \<times> 'q"
  assumes push_fits: "invar q \<Longrightarrow> length d < 2 ^ 32 \<Longrightarrow> length (contents q) + length d \<le> capacity q \<Longrightarrow>
      fst (push q d) = of_nat (length d) \<and> contents (snd (push q d)) = contents q @ d"
    and push_full: "invar q \<Longrightarrow> length d < 2 ^ 32 \<Longrightarrow> capacity q < length (contents q) + length d \<Longrightarrow>
      push q d = (0, q)"
    and push_invar: "invar q \<Longrightarrow> length d < 2 ^ 32 \<Longrightarrow> invar (snd (push q d))"
    and read_empty: "invar q \<Longrightarrow> contents q = [] \<Longrightarrow> read q = (None, 0)"
    and read_prefix: "invar q \<Longrightarrow> contents q \<noteq> [] \<Longrightarrow>
      \<exists>n. read q = (Some (take n (contents q)), of_nat n) \<and> 0 < n \<and> n \<le> length (contents q) \<and> n < 2 ^ 32"
    and commit_drops: "invar q \<Longrightarrow> unat n \<le> length (contents q) \<Longrightarrow>
      invar (snd (commit q n)) \<and> contents (snd (commit q n)) = drop (unat n) (contents q)"
begin

definition consume :: "'q \<Rightarrow> bytes \<times> 'q" where
  "consume q = (case read q of (None, _) \<Rightarrow> ([], q) | (Some d, n) \<Rightarrow> (d, snd (commit q n)))"

lemma consume_split:
  assumes "invar q"
  shows "fst (consume q) @ contents (snd (consume q)) = contents q"
    and "invar (snd (consume q))"
    and "contents q \<noteq> [] \<Longrightarrow> length (contents (snd (consume q))) < length (contents q)"
proof -
  have "fst (consume q) @ contents (snd (consume q)) = contents q \<and> invar (snd (consume q)) \<and>
    (contents q \<noteq> [] \<longrightarrow> length (contents (snd (consume q))) < length (contents q))"
  proof (cases "contents q = []")
    case True
    with assms show ?thesis by (simp add: consume_def read_empty)
  next
    case False
    then obtain n where n: "read q = (Some (take n (contents q)), of_nat n)" "0 < n"
        "n \<le> length (contents q)" "n < 2 ^ 32"
      using assms read_prefix by blast
    then have "unat (of_nat n :: u32) = n" by (simp add: unat_of_nat32)
    with n assms commit_drops [of q "of_nat n"] show ?thesis
      by (auto simp: consume_def)
  qed
  then show "fst (consume q) @ contents (snd (consume q)) = contents q"
    and "invar (snd (consume q))"
    and "contents q \<noteq> [] \<Longrightarrow> length (contents (snd (consume q))) < length (contents q)"
    by auto
qed

text \<open>Without the commit, the next read shows the old bytes again, before any newer ones.\<close>

lemma uncommitted_read_repeats:
  assumes "invar q" "contents q \<noteq> []" "length d < 2 ^ 32"
  shows "\<exists>n>0. fst (read (snd (push q d))) = Some (take n (contents q @ d)) \<or>
    fst (read (snd (push q d))) = Some (take n (contents q))"
proof (cases "length (contents q) + length d \<le> capacity q")
  case True
  then have "contents (snd (push q d)) = contents q @ d"
    using push_fits assms by blast
  then show ?thesis
    using read_prefix [OF push_invar [OF assms(1,3)]] assms(2) by fastforce
next
  case False
  then have "push q d = (0, q)" using push_full assms by simp
  then show ?thesis using read_prefix [OF assms(1,2)] by fastforce
qed

end

interpretation lb: byte_queue LoopBuffer_contents LoopBuffer_inv "\<lambda>b. unat (lb_size b)"
  LoopBuffer_push_string LoopBuffer_read LoopBuffer_commit
proof (unfold_locales, goal_cases)
  case (1 q d)
  then show ?case
    using LoopBuffer_push_ok [of q d "of_nat (length d)"]
    by (simp add: LoopBuffer_push_string_def unat_of_nat32)
next
  case (2 q d)
  then show ?case
    using LoopBuffer_push_full [of q "of_nat (length d)" d]
    by (simp add: LoopBuffer_push_string_def unat_of_nat32)
next
  case (3 q d)
  then show ?case
    using LoopBuffer_push_ok(2) [of q d "of_nat (length d)"]
      LoopBuffer_push_full [of q "of_nat (length d)" d]
    by (cases "length (LoopBuffer_contents q) + length d \<le> unat (lb_size q)")
      (simp_all add: LoopBuffer_push_string_def unat_of_nat32)
next
  case (4 q)
  then have "length (LoopBuffer_contents q) = 0" by simp
  then have "unat (lb_tail q - lb_head q) = 0" by (simp add: LoopBuffer_contents_def)
  then have "lb_tail q - lb_head q = 0" by (simp add: unat_eq_0)
  then show ?case by (simp add: LoopBuffer_read_def)
next
  case (5 q)
  then show ?case using LoopBuffer_read_run [of q] by metis
next
  case (6 q n)
  then show ?case using LoopBuffer_commit_ok by blast
qed

section \<open>Rounding up to a power of two\<close>

lemma smear_step:
  fixes x m :: u32
  assumes "\<And>i. bit x i \<longleftrightarrow> (\<exists>j<p. bit m (i + j))"
  shows "bit (x OR drop_bit p x) i \<longleftrightarrow> (\<exists>j<2 * p. bit m (i + j))"
proof
  assume "bit (x OR drop_bit p x) i"
  then consider "bit x i" | "bit x (p + i)" by (auto simp: bit_simps)
  then show "\<exists>j<2 * p. bit m (i + j)"
  proof cases
    case 1
    then obtain j where "j < p" "bit m (i + j)" using assms by blast
    then show ?thesis by (intro exI [of _ j]) simp
  next
    case 2
    then obtain j where "j < p" "bit m (p + i + j)" using assms by blast
    then show ?thesis by (intro exI [of _ "p + j"]) (simp add: ac_simps)
  qed
next
  assume "\<exists>j<2 * p. bit m (i + j)"
  then obtain j where j: "j < 2 * p" "bit m (i + j)" by blast
  show "bit (x OR drop_bit p x) i"
  proof (cases "j < p")
    case True
    then show ?thesis using j assms by (auto simp: bit_simps)
  next
    case False
    then have "bit x (p + i)"
      using j assms [of "p + i"] by (intro iffD2 [OF assms] exI [of _ "j - p"]) auto
    then show ?thesis by (simp add: bit_simps)
  qed
qed

lemma get_power_of_two_smear:
  obtains s where "get_power_of_two n = s + 1" "\<And>i. bit s i \<longleftrightarrow> (\<exists>j<32. bit (n - 1) (i + j))"
proof -
  define m where "m = n - 1"
  define s1 where "s1 = m OR drop_bit 1 m"
  define s2 where "s2 = s1 OR drop_bit 2 s1"
  define s4 where "s4 = s2 OR drop_bit 4 s2"
  define s8 where "s8 = s4 OR drop_bit 8 s4"
  define s16 where "s16 = s8 OR drop_bit 16 s8"
  have "bit s1 i \<longleftrightarrow> (\<exists>j<2. bit m (i + j))" for i
    using smear_step [of m 1 m i] unfolding s1_def by simp
  then have "bit s2 i \<longleftrightarrow> (\<exists>j<4. bit m (i + j))" for i
    using smear_step [of s1 2 m i] unfolding s2_def by simp
  then have "bit s4 i \<longleftrightarrow> (\<exists>j<8. bit m (i + j))" for i
    using smear_step [of s2 4 m i] unfolding s4_def by simp
  then have "bit s8 i \<longleftrightarrow> (\<exists>j<16. bit m (i + j))" for i
    using smear_step [of s4 8 m i] unfolding s8_def by simp
  then have "bit s16 i \<longleftrightarrow> (\<exists>j<32. bit m (i + j))" for i
    using smear_step [of s8 16 m i] unfolding s16_def by simp
  moreover have "get_power_of_two n = s16 + 1"
    by (simp add: get_power_of_two_def Let_def m_def s1_def s2_def s4_def s8_def s16_def)
  ultimately show ?thesis using that [of s16] by (simp add: m_def)
qed

lemma bit_high:
  fixes m :: "'a::len word"
  assumes "2 ^ t \<le> unat m" "unat m < 2 ^ Suc t"
  shows "bit m t" and "bit m i \<Longrightarrow> i \<le> t"
proof -
  have "unat m div 2 ^ t = 1"
    using assms by (simp add: div_nat_eqI)
  then have "bit (unat m) t" by (simp add: bit_iff_odd)
  then show "bit m t" by (simp add: bit_unsigned_iff)
  assume "bit m i"
  then have "bit (unat m) i"
    using bit_imp_le_length by (fastforce simp: bit_unsigned_iff)
  then have "2 ^ i \<le> unat m"
    by (intro leI notI) (simp add: bit_iff_odd)
  with assms(2) have "(2 :: nat) ^ i < 2 ^ Suc t" by simp
  then have "i < Suc t" by (rule power_less_imp_less_exp [rotated]) simp
  then show "i \<le> t" by simp
qed

lemma get_power_of_two_least:
  assumes "0 < n" "n \<le> 2 ^ 31"
  shows "\<exists>k<32. get_power_of_two n = 2 ^ k \<and> unat n \<le> 2 ^ k \<and> 2 ^ k < 2 * unat n"
proof -
  obtain s where s: "get_power_of_two n = s + 1" "\<And>i. bit s i \<longleftrightarrow> (\<exists>j<32. bit (n - 1) (i + j))"
    by (rule get_power_of_two_smear) blast
  have n1: "unat (n - 1) = unat n - 1"
    using assms by (simp add: unat_diff_le word_less_nat_alt)
  have n31: "unat n \<le> 2 ^ 31" using assms(2) by (simp add: word_le_nat_alt)
  show ?thesis
  proof (cases "n = 1")
    case True
    then have "s = 0" using s(2) by (intro bit_word_eqI) simp
    with s(1) True show ?thesis by (intro exI [of _ 0]) simp
  next
    case False
    then have "unat n \<noteq> unat (1 :: u32)" using unsigned_word_eqI by blast
    moreover have "0 < unat n" using assms(1) by (simp add: word_less_nat_alt)
    ultimately have ge: "1 \<le> unat (n - 1)" using n1 by simp
    obtain t where t: "2 ^ t \<le> unat (n - 1)" "unat (n - 1) < 2 ^ Suc t"
      using ex_power_ivl1 [of 2 "unat (n - 1)"] ge by auto
    have "(2 :: nat) ^ t < 2 ^ 31" using t(1) n1 n31 ge by simp
    then have t31: "t < 31" using nat_power_less_imp_less [of 2 t 31] by simp
    have bits: "bit s i \<longleftrightarrow> i \<le> t" for i
    proof
      assume "bit s i"
      then obtain j where "bit (n - 1) (i + j)" using s(2) by blast
      then show "i \<le> t" using bit_high(2) [OF t] by fastforce
    next
      assume "i \<le> t"
      then have "t - i < 32" "bit (n - 1) (i + (t - i))"
        using t31 bit_high(1) [OF t] by auto
      then show "bit s i" using s(2) by blast
    qed
    have "s = mask (Suc t)"
      by (rule bit_word_eqI) (simp only: bits bit_mask_iff less_Suc_eq_le, simp)
    then have "get_power_of_two n = 2 ^ Suc t"
      using s(1) by (simp add: mask_eq_exp_minus_1)
    moreover have "unat n \<le> 2 ^ Suc t" "2 ^ Suc t < 2 * unat n"
      using t n1 ge by auto
    ultimately show ?thesis
      using t31 by (intro exI [of _ "Suc t"]) simp
  qed
qed

lemma and_pred_0_power:
  fixes x :: "'a::len word"
  assumes "x AND (x - 1) = 0" "0 < unat x"
  shows "\<exists>t<LENGTH('a). unat x = 2 ^ t"
proof -
  obtain t where t: "2 ^ t \<le> unat x" "unat x < 2 ^ Suc t"
    using ex_power_ivl1 [of 2 "unat x"] assms(2) by auto
  have bt: "bit x t" by (rule bit_high(1) [OF t])
  have "unat (x - 1) = unat x - 1"
    using assms(2) by (simp add: unat_sub word_le_nat_alt Suc_le_eq)
  moreover have "\<not> bit (x - 1) t"
    using assms(1) bt by (metis bit_and_iff bit_0_eq bot_apply bot_bool_def)
  ultimately have "\<not> 2 ^ t \<le> unat x - 1"
    using bit_high(1) [of t "x - 1"] t(2) by fastforce
  then have "unat x = 2 ^ t" using t(1) by simp
  then show ?thesis using bt bit_imp_le_length by blast
qed

lemma LoopBuffer_BufferSize_power:
  assumes "0 < kMaxSize" "kMaxSize \<le> 2 ^ 31"
  shows "\<exists>k<32. LoopBuffer_BufferSize kMaxSize = 2 ^ k \<and> unat kMaxSize \<le> 2 ^ k \<and> 2 ^ k < 2 * unat kMaxSize"
proof -
  have pos: "0 < unat kMaxSize" and le: "unat kMaxSize \<le> 2 ^ 31"
    using assms by (simp_all add: word_less_nat_alt word_le_nat_alt)
  have uc: "unat (ucast kMaxSize :: u32) = unat kMaxSize"
    using le by (simp add: unsigned_ucast_eq take_bit_nat_eq_self)
  show ?thesis
  proof (cases "kMaxSize AND (kMaxSize - 1) = 0")
    case True
    then obtain t where t: "unat kMaxSize = 2 ^ t"
      using and_pred_0_power pos by blast
    have "(2 :: nat) ^ t < 2 ^ 32" using le t by simp
    then have t32: "t < 32" by (rule power_less_imp_less_exp [rotated]) simp
    have "unat (ucast kMaxSize :: u32) = unat ((2 :: u32) ^ t)"
      using uc t t32 by (simp add: unat_pow2)
    then have "(ucast kMaxSize :: u32) = 2 ^ t" by (rule unsigned_word_eqI)
    then show ?thesis using True t t32 by (auto simp: LoopBuffer_BufferSize_def)
  next
    case False
    have "0 < (ucast kMaxSize :: u32)" "(ucast kMaxSize :: u32) \<le> 2 ^ 31"
      using uc pos le by (simp_all add: word_less_nat_alt word_le_nat_alt)
    from get_power_of_two_least [OF this] show ?thesis
      using False uc by (simp add: LoopBuffer_BufferSize_def)
  qed
qed

section \<open>Properties of the ring buffer\<close>

text \<open>
  For every template argument from 1 to 2^31 the ring has a power-of-two size that is
  at least the requested one and less than twice it, and a fresh ring satisfies the
  invariant and holds no bytes.
\<close>

theorem LoopBuffer_init_ok:
  assumes "0 < kMaxSize" "kMaxSize \<le> 2 ^ 31"
    and "length storage = unat (LoopBuffer_BufferSize kMaxSize)"
  shows "LoopBuffer_inv (LoopBuffer_init kMaxSize storage) \<and>
    LoopBuffer_contents (LoopBuffer_init kMaxSize storage) = [] \<and>
    unat kMaxSize \<le> unat (lb_size (LoopBuffer_init kMaxSize storage)) \<and>
    unat (lb_size (LoopBuffer_init kMaxSize storage)) < 2 * unat kMaxSize"
proof -
  obtain k where k: "k < 32" "LoopBuffer_BufferSize kMaxSize = 2 ^ k"
      "unat kMaxSize \<le> 2 ^ k" "2 ^ k < 2 * unat kMaxSize"
    using LoopBuffer_BufferSize_power [OF assms(1,2)] by blast
  then have "unat (LoopBuffer_BufferSize kMaxSize) = 2 ^ k" by (simp add: unat_pow2)
  with k assms(3) show ?thesis
    by (auto simp: LoopBuffer_init_def LoopBuffer_inv_def LoopBuffer_contents_def ring_slice_def)
qed

theorem LoopBuffer_init_ok_witness:
  "LoopBuffer_BufferSize 5 = 8 \<and> LoopBuffer_inv (LoopBuffer_init 5 (replicate 8 0))"
proof -
  have sz: "LoopBuffer_BufferSize 5 = 8" by code_simp
  show ?thesis using LoopBuffer_init_ok [of 5 "replicate 8 0"] by (simp add: sz)
qed

text \<open>A schedule of calls by the producer and the consumer, with what each side saw.\<close>

datatype lb_op = LbPush bytes | LbPop

fun lb_step :: "lb_op \<Rightarrow> bytes \<times> bytes \<times> loop_buffer \<Rightarrow> bytes \<times> bytes \<times> loop_buffer" where
  "lb_step (LbPush d) (acc, out, b) =
     (let (r, b') = LoopBuffer_push_string b d in (acc @ take (unat r) d, out, b'))"
| "lb_step LbPop (acc, out, b) =
     (case LoopBuffer_pop b of (d, len, b') \<Rightarrow>
        (acc, out @ (case d of None \<Rightarrow> [] | Some x \<Rightarrow> x), b'))"

fun lb_op_ok :: "lb_op \<Rightarrow> bool" where
  "lb_op_ok (LbPush d) \<longleftrightarrow> length d < 2 ^ 32"
| "lb_op_ok LbPop \<longleftrightarrow> True"

lemma lb_step_inv:
  assumes "lb_step op (acc, out, b) = (acc', out', b')" "lb_op_ok op"
    "LoopBuffer_inv b" "out @ LoopBuffer_contents b = acc"
  shows "LoopBuffer_inv b' \<and> out' @ LoopBuffer_contents b' = acc' \<and> lb_size b' = lb_size b"
proof (cases op)
  case (LbPush d)
  have sz: "lb_size (snd (LoopBuffer_push_string b d)) = lb_size b"
    by (simp add: LoopBuffer_push_string_def LoopBuffer_push_def Let_def)
  show ?thesis
  proof (cases "length (LoopBuffer_contents b) + length d \<le> unat (lb_size b)")
    case True
    with LbPush assms lb.push_fits [of b d] lb.push_invar [of b d] sz show ?thesis
      by (auto simp: unat_of_nat32 split: prod.splits)
  next
    case False
    with LbPush assms lb.push_full [of b d] show ?thesis by auto
  qed
next
  case LbPop
  have c: "fst (lb.consume b) @ LoopBuffer_contents (snd (lb.consume b)) = LoopBuffer_contents b"
    "LoopBuffer_inv (snd (lb.consume b))"
    using lb.consume_split assms(3) by auto
  have "fst (LoopBuffer_read b) = None \<Longrightarrow> snd (LoopBuffer_read b) = 0"
    by (simp add: LoopBuffer_read_def Let_def split: if_splits)
  then have "snd (lb.consume b) = b'" "out' = out @ fst (lb.consume b)" "acc' = acc"
    using assms(1) LbPop
    by (auto simp: lb.consume_def LoopBuffer_pop_read_commit LoopBuffer_commit_def
        split: prod.splits option.splits)
  moreover have "lb_size b' = lb_size b"
    using assms(1) LbPop by (auto simp: LoopBuffer_pop_def Let_def split: if_splits)
  ultimately show ?thesis using c assms(4) by auto
qed

text \<open>
  C9: the ring is a FIFO byte queue. Whatever the interleaving of pushes and pops, and
  however often the 32-bit cursors wrap around, the bytes taken out followed by the bytes
  still stored are exactly the bytes the pushes reported as accepted, in order; the
  invariant holds throughout.
\<close>

theorem LoopBuffer_fifo:
  assumes "LoopBuffer_inv b0" "LoopBuffer_contents b0 = []" "\<forall>op\<in>set ops. lb_op_ok op"
    and "fold lb_step ops ([], [], b0) = (acc, out, b)"
  shows "out @ LoopBuffer_contents b = acc \<and> LoopBuffer_inv b \<and>
    length (LoopBuffer_contents b) \<le> unat (lb_size b0)"
proof -
  have "LoopBuffer_inv b \<and> out @ LoopBuffer_contents b = acc \<and> lb_size b = lb_size b0"
    if "fold lb_step ops (a, p, q) = (acc, out, b)" "LoopBuffer_inv q" "p @ LoopBuffer_contents q = a"
      "\<forall>op\<in>set ops. lb_op_ok op" "lb_size q = lb_size b0" for a p q
    using that
  proof (induction ops arbitrary: a p q)
    case (Cons op ops)
    obtain a' p' q' where st: "lb_step op (a, p, q) = (a', p', q')"
      by (cases "lb_step op (a, p, q)")
    with Cons.prems show ?case
      using lb_step_inv [OF st] by (intro Cons.IH [of a' p' q']) auto
  qed auto
  from this [OF assms(4)] show ?thesis
    using assms by (auto simp: LoopBuffer_inv_def LoopBuffer_contents_def)
qed

theorem LoopBuffer_fifo_witness:
  "fold lb_step [LbPush [1, 2, 3], LbPop, LbPush [4, 5], LbPop, LbPop] ([], [], LoopBuffer_init 4 [0, 0, 0, 0])
     = ([1, 2, 3, 4, 5], [1, 2, 3, 4, 5], \<lparr>lb_head = 5, lb_tail = 5, lb_buffer = [5, 2, 3, 4], lb_size = 4\<rparr>) \<and>
   [1, 2, 3, 4, 5] @ LoopBuffer_contents \<lparr>lb_head = 5, lb_tail = 5, lb_buffer = [5, 2, 3, 4], lb_size = 4\<rparr>
     = ([1, 2, 3, 4, 5] :: bytes)"
proof -
  let ?b0 = "LoopBuffer_init 4 [0, 0, 0, 0]"
  let ?ops = "[LbPush [1, 2, 3], LbPop, LbPush [4, 5], LbPop, LbPop]"
  have run: "fold lb_step ?ops ([], [], ?b0) = ([1, 2, 3, 4, 5], [1, 2, 3, 4, 5],
      \<lparr>lb_head = 5, lb_tail = 5, lb_buffer = [5, 2, 3, 4], lb_size = 4\<rparr>)"
    by code_simp
  have inv: "LoopBuffer_inv ?b0" "LoopBuffer_contents ?b0 = []" by code_simp+
  show ?thesis using LoopBuffer_fifo [OF inv _ run] run by simp
qed

lemma LoopBuffer_mpush_cons:
  assumes "LoopBuffer_inv b" "data \<noteq> []" "length data < 2 ^ 32"
    "length (LoopBuffer_contents b) + length data \<le> unat (lb_size b)"
  shows "LoopBuffer_mpush b (data # rest) =
    (of_nat (length data) + fst (LoopBuffer_mpush (snd (LoopBuffer_push_string b data)) rest),
     snd (LoopBuffer_mpush (snd (LoopBuffer_push_string b data)) rest))"
proof -
  have "fst (LoopBuffer_push_string b data) = of_nat (length data)"
    using lb.push_fits assms by blast
  moreover have "0 < unat (of_nat (length data) :: u32)"
    using assms(2,3) by (simp add: unat_of_nat32)
  ultimately show ?thesis
    by (auto simp: word_less_nat_alt split: prod.splits)
qed

text \<open>
  A gathered push of several non-empty blocks that fit together stores their
  concatenation and returns its length, which is what \<^verbatim>\<open>calc_data_length\<close> computes.
\<close>

theorem LoopBuffer_mpush_all:
  assumes "LoopBuffer_inv b" "[] \<notin> set ds" "length (concat ds) < 2 ^ 32"
    and "length (LoopBuffer_contents b) + length (concat ds) \<le> unat (lb_size b)"
  shows "fst (LoopBuffer_mpush b ds) = calc_data_length ds \<and>
    LoopBuffer_contents (snd (LoopBuffer_mpush b ds)) = LoopBuffer_contents b @ concat ds \<and>
    LoopBuffer_inv (snd (LoopBuffer_mpush b ds)) \<and>
    unat (calc_data_length ds) = length (concat ds)"
  using assms
proof (induction ds arbitrary: b)
  case (Cons d ds)
  let ?b = "snd (LoopBuffer_push_string b d)"
  have d: "d \<noteq> []" "length d < 2 ^ 32" using Cons.prems by auto
  have p: "LoopBuffer_contents ?b = LoopBuffer_contents b @ d" "LoopBuffer_inv ?b"
    using lb.push_fits [of b d] lb.push_invar [of b d] Cons.prems d by auto
  have sz: "lb_size ?b = lb_size b"
    by (simp add: LoopBuffer_push_string_def LoopBuffer_push_def Let_def)
  have ih: "fst (LoopBuffer_mpush ?b ds) = calc_data_length ds \<and>
    LoopBuffer_contents (snd (LoopBuffer_mpush ?b ds)) = LoopBuffer_contents ?b @ concat ds \<and>
    LoopBuffer_inv (snd (LoopBuffer_mpush ?b ds)) \<and>
    unat (calc_data_length ds) = length (concat ds)"
    using Cons.prems p sz by (intro Cons.IH) auto
  moreover have "unat (of_nat (length d) + calc_data_length ds) = length d + length (concat ds)"
    using ih d Cons.prems(3) by (simp add: unat_word_ariths unat_of_nat32 take_bit_nat_eq_self)
  ultimately show ?case
    using LoopBuffer_mpush_cons [of b d ds] Cons.prems d p by simp
qed simp

theorem LoopBuffer_mpush_all_witness:
  "fst (LoopBuffer_mpush (LoopBuffer_init 4 [0, 0, 0, 0]) [[1], [2, 3]]) = 3 \<and>
   LoopBuffer_contents (snd (LoopBuffer_mpush (LoopBuffer_init 4 [0, 0, 0, 0]) [[1], [2, 3]])) = [1, 2, 3]"
proof -
  let ?b = "LoopBuffer_init 4 [0, 0, 0, 0]"
  have inv: "LoopBuffer_inv ?b" "LoopBuffer_contents ?b = []" "unat (lb_size ?b) = 4" by code_simp+
  show ?thesis using LoopBuffer_mpush_all [OF inv(1), of "[[1], [2, 3]]"] inv by simp
qed

text \<open>An empty block ends a gathered push: the blocks after it are silently dropped.\<close>

lemma LoopBuffer_mpush_empty_block: "LoopBuffer_inv b \<Longrightarrow> LoopBuffer_mpush b ([] # rest) = (0, b)"
  by (cases b) (simp add: LoopBuffer_push_string_def LoopBuffer_push_def blit_def Let_def)

end
