(* ===== verification/Ikcp_Segment.thy ===== *)
theory Ikcp_Segment
  imports Knet_Prelude "HOL-Library.Signed_Division"
begin

text \<open>
  \<^verbatim>\<open>kcp/ikcp.h\<close> and the first part of \<^verbatim>\<open>kcp/ikcp.c\<close>: the constants of the KCP protocol, the
  segment, its 24-byte wire header and the integer helpers. The encoders return the bytes
  they store at the write pointer, the decoders the value at the read pointer.
\<close>

section \<open>Constants\<close>

definition IKCP_RTO_NDL :: u32 where "IKCP_RTO_NDL = 30"
definition IKCP_RTO_MIN :: u32 where "IKCP_RTO_MIN = 100"
definition IKCP_RTO_DEF :: u32 where "IKCP_RTO_DEF = 200"
definition IKCP_RTO_MAX :: u32 where "IKCP_RTO_MAX = 60000"
definition IKCP_CMD_PUSH :: u32 where "IKCP_CMD_PUSH = 81"
definition IKCP_CMD_ACK :: u32 where "IKCP_CMD_ACK = 82"
definition IKCP_CMD_WASK :: u32 where "IKCP_CMD_WASK = 83"
definition IKCP_CMD_WINS :: u32 where "IKCP_CMD_WINS = 84"
definition IKCP_ASK_SEND :: u32 where "IKCP_ASK_SEND = 1"
definition IKCP_ASK_TELL :: u32 where "IKCP_ASK_TELL = 2"
definition IKCP_WND_SND :: u32 where "IKCP_WND_SND = 32"
definition IKCP_WND_RCV :: u32 where "IKCP_WND_RCV = 128"
definition IKCP_MTU_DEF :: u32 where "IKCP_MTU_DEF = 1400"
definition IKCP_INTERVAL :: u32 where "IKCP_INTERVAL = 100"
definition IKCP_OVERHEAD :: u32 where "IKCP_OVERHEAD = 24"
definition IKCP_DEADLINK :: u32 where "IKCP_DEADLINK = 20"
definition IKCP_THRESH_INIT :: u32 where "IKCP_THRESH_INIT = 2"
definition IKCP_THRESH_MIN :: u32 where "IKCP_THRESH_MIN = 2"
definition IKCP_PROBE_INIT :: u32 where "IKCP_PROBE_INIT = 7000"
definition IKCP_PROBE_LIMIT :: u32 where "IKCP_PROBE_LIMIT = 120000"
definition IKCP_FASTACK_LIMIT :: u32 where "IKCP_FASTACK_LIMIT = 5"

lemmas ikcp_consts =
  IKCP_RTO_NDL_def IKCP_RTO_MIN_def IKCP_RTO_DEF_def IKCP_RTO_MAX_def IKCP_CMD_PUSH_def
  IKCP_CMD_ACK_def IKCP_CMD_WASK_def IKCP_CMD_WINS_def IKCP_ASK_SEND_def IKCP_ASK_TELL_def
  IKCP_WND_SND_def IKCP_WND_RCV_def IKCP_MTU_DEF_def IKCP_INTERVAL_def IKCP_OVERHEAD_def
  IKCP_DEADLINK_def IKCP_THRESH_INIT_def IKCP_THRESH_MIN_def IKCP_PROBE_INIT_def
  IKCP_PROBE_LIMIT_def IKCP_FASTACK_LIMIT_def

section \<open>Integer helpers\<close>

definition ikcp_imin :: "u32 \<Rightarrow> u32 \<Rightarrow> u32" where
  "ikcp_imin a b = (if a \<le> b then a else b)"

definition ikcp_imax :: "u32 \<Rightarrow> u32 \<Rightarrow> u32" where
  "ikcp_imax a b = (if a \<ge> b then a else b)"

definition ikcp_ibound :: "u32 \<Rightarrow> u32 \<Rightarrow> u32 \<Rightarrow> u32" where
  "ikcp_ibound lower middle upper = ikcp_imin (ikcp_imax lower middle) upper"

definition ikcp_itimediff :: "u32 \<Rightarrow> u32 \<Rightarrow> int" where
  "ikcp_itimediff later earlier = sdiff later earlier"

text \<open>Storing an unsigned value in an \<^verbatim>\<open>IINT32\<close> reads its 32 bits as two's complement.\<close>

definition i32 :: "int \<Rightarrow> int" where
  "i32 x = sint (word_of_int x :: u32)"

lemma i32_small: "- (2 ^ 31) \<le> x \<Longrightarrow> x < 2 ^ 31 \<Longrightarrow> i32 x = x"
  by (simp add: i32_def signed_of_int signed_take_bit_int_eq_self)

section \<open>Segment\<close>

text \<open>
  \<open>sg_data\<close> is the flexible array behind the header; \<open>sg_len\<close> the length the code uses when it
  copies it. The list node of the C struct is the position in the Isabelle list.
\<close>

record ikcpseg =
  sg_conv :: u32
  sg_cmd :: u32
  sg_frg :: u32
  sg_wnd :: u32
  sg_ts :: u32
  sg_sn :: u32
  sg_una :: u32
  sg_len :: u32
  sg_resendts :: u32
  sg_rto :: u32
  sg_fastack :: u32
  sg_xmit :: u32
  sg_data :: bytes

text \<open>
  \<^verbatim>\<open>ikcp_segment_new\<close> returns uninitialised memory; every field is stored before it is read,
  and zero stands for the value it has until then.
\<close>

definition ikcp_segment_new :: ikcpseg where
  "ikcp_segment_new = \<lparr>sg_conv = 0, sg_cmd = 0, sg_frg = 0, sg_wnd = 0, sg_ts = 0, sg_sn = 0,
     sg_una = 0, sg_len = 0, sg_resendts = 0, sg_rto = 0, sg_fastack = 0, sg_xmit = 0, sg_data = []\<rparr>"

text \<open>The bytes a copy of \<^verbatim>\<open>seg->len\<close> bytes out of \<^verbatim>\<open>seg->data\<close> yields.\<close>

definition seg_bytes :: "ikcpseg \<Rightarrow> bytes" where
  "seg_bytes seg = take (unat (sg_len seg)) (sg_data seg)"

definition seg_ok :: "ikcpseg \<Rightarrow> bool" where
  "seg_ok seg \<longleftrightarrow> length (sg_data seg) = unat (sg_len seg)"

lemma seg_bytes_ok [simp]: "seg_ok seg \<Longrightarrow> seg_bytes seg = sg_data seg"
  by (simp add: seg_ok_def seg_bytes_def)

section \<open>Wire format\<close>

definition ikcp_encode8u :: "u8 \<Rightarrow> bytes" where
  "ikcp_encode8u c = [c]"

definition ikcp_decode8u :: "bytes \<Rightarrow> u8" where
  "ikcp_decode8u p = p ! 0"

definition ikcp_encode16u :: "u16 \<Rightarrow> bytes" where
  "ikcp_encode16u w = le16 w"

definition ikcp_decode16u :: "bytes \<Rightarrow> u16" where
  "ikcp_decode16u p = rd16 p"

definition ikcp_encode32u :: "u32 \<Rightarrow> bytes" where
  "ikcp_encode32u l = le32 l"

definition ikcp_decode32u :: "bytes \<Rightarrow> u32" where
  "ikcp_decode32u p = rd32 p"

lemma ikcp_decode_encode [simp]:
  "ikcp_decode8u (ikcp_encode8u c @ p) = c"
  "ikcp_decode16u (ikcp_encode16u w @ p) = w"
  "ikcp_decode32u (ikcp_encode32u l @ p) = l"
  by (simp_all add: ikcp_decode8u_def ikcp_encode8u_def ikcp_decode16u_def ikcp_encode16u_def
      ikcp_decode32u_def ikcp_encode32u_def)

lemma ikcp_encode_length [simp]:
  "length (ikcp_encode8u c) = 1" "length (ikcp_encode16u w) = 2" "length (ikcp_encode32u l) = 4"
  by (simp_all add: ikcp_encode8u_def ikcp_encode16u_def ikcp_encode32u_def)

definition ikcp_encode_seg :: "ikcpseg \<Rightarrow> bytes" where
  "ikcp_encode_seg seg =
     ikcp_encode32u (sg_conv seg) @ ikcp_encode8u (ucast (sg_cmd seg)) @
     ikcp_encode8u (ucast (sg_frg seg)) @ ikcp_encode16u (ucast (sg_wnd seg)) @
     ikcp_encode32u (sg_ts seg) @ ikcp_encode32u (sg_sn seg) @ ikcp_encode32u (sg_una seg) @
     ikcp_encode32u (sg_len seg)"

definition ikcp_getconv :: "bytes \<Rightarrow> u32" where
  "ikcp_getconv ptr = ikcp_decode32u ptr"

text \<open>The header fields as \<^verbatim>\<open>ikcp_input\<close> reads them, each at the offset its pointer has reached.\<close>

record ikcp_header =
  h_conv :: u32
  h_cmd :: u8
  h_frg :: u8
  h_wnd :: u16
  h_ts :: u32
  h_sn :: u32
  h_una :: u32
  h_len :: u32

definition ikcp_decode_header :: "bytes \<Rightarrow> ikcp_header" where
  "ikcp_decode_header data = \<lparr>
     h_conv = ikcp_decode32u data,
     h_cmd = ikcp_decode8u (drop 4 data),
     h_frg = ikcp_decode8u (drop 5 data),
     h_wnd = ikcp_decode16u (drop 6 data),
     h_ts = ikcp_decode32u (drop 8 data),
     h_sn = ikcp_decode32u (drop 12 data),
     h_una = ikcp_decode32u (drop 16 data),
     h_len = ikcp_decode32u (drop 20 data)\<rparr>"

lemma length_ikcp_encode_seg [simp, knet_len]: "length (ikcp_encode_seg seg) = 24"
  by (simp add: ikcp_encode_seg_def)

text \<open>Decoding what \<^verbatim>\<open>ikcp_encode_seg\<close> wrote gives the fields back at their wire widths.\<close>

lemma ikcp_decode_encode_seg [simp]:
  "ikcp_decode_header (ikcp_encode_seg seg @ rest) = \<lparr>
     h_conv = sg_conv seg, h_cmd = ucast (sg_cmd seg), h_frg = ucast (sg_frg seg),
     h_wnd = ucast (sg_wnd seg), h_ts = sg_ts seg, h_sn = sg_sn seg, h_una = sg_una seg,
     h_len = sg_len seg\<rparr>"
proof -
  have d: "drop n (ikcp_encode32u a @ p) = drop (n - 4) p" if "4 \<le> n" for n a p
    using that by simp
  have e: "drop n (ikcp_encode8u b @ p) = drop (n - 1) p" if "1 \<le> n" for n b p
    using that by simp
  have f: "drop n (ikcp_encode16u w @ p) = drop (n - 2) p" if "2 \<le> n" for n w p
    using that by simp
  show ?thesis
    by (simp add: ikcp_decode_header_def ikcp_encode_seg_def d e f)
qed

text \<open>
  C22: the KCP header round trip. The encoder writes exactly 24 bytes and the decoder of
  \<^verbatim>\<open>ikcp_input\<close> recovers every field, whatever follows the header, provided the fields that
  are narrower on the wire (command, fragment number, window) fit their wire width.
\<close>

theorem ikcp_header_roundtrip:
  assumes "unat (sg_cmd seg) < 2 ^ 8" "unat (sg_frg seg) < 2 ^ 8" "unat (sg_wnd seg) < 2 ^ 16"
  shows "length (ikcp_encode_seg seg) = 24 \<and>
    (let h = ikcp_decode_header (ikcp_encode_seg seg @ payload) in
      h_conv h = sg_conv seg \<and> ucast (h_cmd h) = sg_cmd seg \<and> ucast (h_frg h) = sg_frg seg \<and>
      ucast (h_wnd h) = sg_wnd seg \<and> h_ts h = sg_ts seg \<and> h_sn h = sg_sn seg \<and>
      h_una h = sg_una seg \<and> h_len h = sg_len seg) \<and>
    ikcp_getconv (ikcp_encode_seg seg @ payload) = sg_conv seg"
proof -
  have gc: "ikcp_getconv (ikcp_encode_seg seg @ payload) = sg_conv seg"
    by (simp add: ikcp_getconv_def ikcp_encode_seg_def)
  show ?thesis using assms by (simp add: ucast_narrow gc Let_def)
qed

theorem ikcp_header_roundtrip_witness:
  "ucast (h_wnd (ikcp_decode_header (ikcp_encode_seg
     (ikcp_segment_new\<lparr>sg_cmd := 81, sg_wnd := 300, sg_sn := 7\<rparr>) @ [1, 2, 3]))) = (300 :: u32)"
  using ikcp_header_roundtrip
    [of "ikcp_segment_new\<lparr>sg_cmd := 81, sg_wnd := 300, sg_sn := 7\<rparr>" "[1, 2, 3]"]
  by (simp add: ikcp_segment_new_def)

end
