(* ===== verification/Ikcp.thy ===== *)
theory Ikcp
  imports Ikcp_Segment
begin

text \<open>
  \<^verbatim>\<open>kcp/ikcp.c\<close>: the KCP control block and its operations. The intrusive queues are lists
  of segments (head first) next to the counters the code keeps for them; \<open>k_buflen\<close> is the
  size of the block behind \<^verbatim>\<open>kcp->buffer\<close>. The datagrams handed to the output callback are
  returned as a list. Logging and the user pointer are left out.
\<close>

section \<open>Control block\<close>

record ikcpcb =
  k_conv :: u32
  k_mtu :: u32
  k_mss :: u32
  k_state :: u32
  k_snd_una :: u32
  k_snd_nxt :: u32
  k_rcv_nxt :: u32
  k_ssthresh :: u32
  k_rx_rttval :: int
  k_rx_srtt :: int
  k_rx_rto :: int
  k_rx_minrto :: int
  k_snd_wnd :: u32
  k_rcv_wnd :: u32
  k_rmt_wnd :: u32
  k_cwnd :: u32
  k_probe :: u32
  k_current :: u32
  k_interval :: u32
  k_ts_flush :: u32
  k_xmit :: u32
  k_nrcv_buf :: u32
  k_nsnd_buf :: u32
  k_nrcv_que :: u32
  k_nsnd_que :: u32
  k_nodelay :: u32
  k_updated :: u32
  k_ts_probe :: u32
  k_probe_wait :: u32
  k_dead_link :: u32
  k_incr :: u32
  k_snd_queue :: "ikcpseg list"
  k_rcv_queue :: "ikcpseg list"
  k_snd_buf :: "ikcpseg list"
  k_rcv_buf :: "ikcpseg list"
  k_acklist :: "u32 list"
  k_ackcount :: u32
  k_ackblock :: u32
  k_buflen :: nat
  k_fastresend :: int
  k_fastlimit :: int
  k_nocwnd :: int
  k_stream :: int

text \<open>The control block when both allocations succeed; \<^verbatim>\<open>ts_recent\<close> and \<^verbatim>\<open>ts_lastack\<close> are never read.\<close>

definition ikcp_create :: "u32 \<Rightarrow> ikcpcb" where
  "ikcp_create conv = \<lparr>
     k_conv = conv, k_mtu = IKCP_MTU_DEF, k_mss = IKCP_MTU_DEF - IKCP_OVERHEAD, k_state = 0,
     k_snd_una = 0, k_snd_nxt = 0, k_rcv_nxt = 0, k_ssthresh = IKCP_THRESH_INIT,
     k_rx_rttval = 0, k_rx_srtt = 0, k_rx_rto = uint IKCP_RTO_DEF, k_rx_minrto = uint IKCP_RTO_MIN,
     k_snd_wnd = IKCP_WND_SND, k_rcv_wnd = IKCP_WND_RCV, k_rmt_wnd = IKCP_WND_RCV,
     k_cwnd = 0, k_probe = 0, k_current = 0, k_interval = IKCP_INTERVAL,
     k_ts_flush = IKCP_INTERVAL, k_xmit = 0,
     k_nrcv_buf = 0, k_nsnd_buf = 0, k_nrcv_que = 0, k_nsnd_que = 0,
     k_nodelay = 0, k_updated = 0, k_ts_probe = 0, k_probe_wait = 0,
     k_dead_link = IKCP_DEADLINK, k_incr = 0,
     k_snd_queue = [], k_rcv_queue = [], k_snd_buf = [], k_rcv_buf = [],
     k_acklist = [], k_ackcount = 0, k_ackblock = 0,
     k_buflen = unat ((IKCP_MTU_DEF + IKCP_OVERHEAD) * 3),
     k_fastresend = 0, k_fastlimit = uint IKCP_FASTACK_LIMIT, k_nocwnd = 0, k_stream = 0\<rparr>"

section \<open>Receiving by the user\<close>

fun ikcp_peek_sum :: "ikcpseg list \<Rightarrow> int" where
  "ikcp_peek_sum [] = 0"
| "ikcp_peek_sum (seg # q) =
     sint (sg_len seg) + (if sg_frg seg = 0 then 0 else ikcp_peek_sum q)"

definition ikcp_peeksize :: "ikcpcb \<Rightarrow> int" where
  "ikcp_peeksize kcp =
     (case k_rcv_queue kcp of
        [] \<Rightarrow> -1
      | seg # _ \<Rightarrow>
          if sg_frg seg = 0 then sint (sg_len seg)
          else if k_nrcv_que kcp < sg_frg seg + 1 then -1
          else ikcp_peek_sum (k_rcv_queue kcp))"

text \<open>
  The two copies of the loop that moves in-order segments from \<^verbatim>\<open>rcv_buf\<close> to \<^verbatim>\<open>rcv_queue\<close>;
  the recursion is on the buffer, which loses a segment per round.
\<close>

fun ikcp_move_rcv :: "ikcpseg list \<Rightarrow> ikcpcb \<Rightarrow> ikcpcb" where
  "ikcp_move_rcv [] kcp = kcp\<lparr>k_rcv_buf := []\<rparr>"
| "ikcp_move_rcv (seg # buf) kcp =
     (if sg_sn seg = k_rcv_nxt kcp \<and> k_nrcv_que kcp < k_rcv_wnd kcp
      then ikcp_move_rcv buf (kcp\<lparr>
             k_nrcv_buf := k_nrcv_buf kcp - 1,
             k_rcv_queue := k_rcv_queue kcp @ [seg],
             k_nrcv_que := k_nrcv_que kcp + 1,
             k_rcv_nxt := k_rcv_nxt kcp + 1\<rparr>)
      else kcp\<lparr>k_rcv_buf := seg # buf\<rparr>)"

text \<open>The merge loop: bytes copied, their count, and the queue and counter after it.\<close>

fun ikcp_recv_merge :: "bool \<Rightarrow> ikcpseg list \<Rightarrow> u32 \<Rightarrow> bytes \<times> int \<times> ikcpseg list \<times> u32" where
  "ikcp_recv_merge ispeek [] n = ([], 0, [], n)"
| "ikcp_recv_merge ispeek (seg # q) n =
     (let n' = (if ispeek then n else n - 1) in
      if sg_frg seg = 0
      then (seg_bytes seg, sint (sg_len seg), if ispeek then seg # q else q, n')
      else
        let (d, l, q', m) = ikcp_recv_merge ispeek q n'
        in (seg_bytes seg @ d, sint (sg_len seg) + l, if ispeek then seg # q' else q', m))"

definition ikcp_recv :: "ikcpcb \<Rightarrow> int \<Rightarrow> int \<times> bytes \<times> ikcpcb" where
  "ikcp_recv kcp len =
     (let ispeek = len < 0 in
      if k_rcv_queue kcp = [] then (-1, [], kcp)
      else
        let len = (if len < 0 then - len else len);
            peeksize = ikcp_peeksize kcp
        in
          if peeksize < 0 then (-2, [], kcp)
          else if peeksize > len then (-3, [], kcp)
          else
            let recover = k_nrcv_que kcp \<ge> k_rcv_wnd kcp;
                (data, len, q, n) = ikcp_recv_merge ispeek (k_rcv_queue kcp) (k_nrcv_que kcp);
                kcp1 = kcp\<lparr>k_rcv_queue := q, k_nrcv_que := n\<rparr>;
                kcp2 = ikcp_move_rcv (k_rcv_buf kcp1) kcp1;
                kcp3 = (if k_nrcv_que kcp2 < k_rcv_wnd kcp2 \<and> recover
                        then kcp2\<lparr>k_probe := k_probe kcp2 OR IKCP_ASK_TELL\<rparr> else kcp2)
            in (len, data, kcp3))"

section \<open>Sending by the user\<close>

text \<open>
  The fragmentation loop from index \<open>i\<close> on: \<open>len\<close> bytes of \<open>buffer\<close> are left and \<open>n\<close> rounds
  are still to run.
\<close>

fun ikcp_fragment :: "nat \<Rightarrow> int \<Rightarrow> int \<Rightarrow> bytes \<Rightarrow> int \<Rightarrow> ikcpcb \<Rightarrow> ikcpcb" where
  "ikcp_fragment 0 count i buffer len kcp = kcp"
| "ikcp_fragment (Suc n) count i buffer len kcp =
     (let size = (if len > sint (k_mss kcp) then sint (k_mss kcp) else len);
          seg = ikcp_segment_new\<lparr>
                  sg_data := (if len > 0 then take (nat size) buffer else []),
                  sg_len := word_of_int size,
                  sg_frg := (if k_stream kcp = 0 then word_of_int (count - i - 1) else 0)\<rparr>
      in ikcp_fragment n count (i + 1) (drop (nat size) buffer) (len - size)
           (kcp\<lparr>k_snd_queue := k_snd_queue kcp @ [seg], k_nsnd_que := k_nsnd_que kcp + 1\<rparr>))"

text \<open>The append to the last queued segment in streaming mode: bytes taken, and the new state.\<close>

definition ikcp_send_extend :: "ikcpcb \<Rightarrow> bytes \<Rightarrow> int \<Rightarrow> int \<times> ikcpcb" where
  "ikcp_send_extend kcp buffer len =
     (if k_snd_queue kcp = [] then (0, kcp)
      else
        let old = last (k_snd_queue kcp) in
        if sg_len old < k_mss kcp then
          let capacity = sint (k_mss kcp - sg_len old);
              extend = (if len < capacity then len else capacity);
              seg = ikcp_segment_new\<lparr>
                      sg_data := seg_bytes old @ take (nat extend) buffer,
                      sg_len := sg_len old + word_of_int extend,
                      sg_frg := 0\<rparr>
          in (extend, kcp\<lparr>k_snd_queue := butlast (k_snd_queue kcp) @ [seg]\<rparr>)
        else (0, kcp))"

definition ikcp_send :: "ikcpcb \<Rightarrow> bytes \<Rightarrow> int \<Rightarrow> int \<times> ikcpcb" where
  "ikcp_send kcp buffer len =
     (if len < 0 then (-1, kcp)
      else
        let (extend, kcp) = (if k_stream kcp \<noteq> 0 then ikcp_send_extend kcp buffer len else (0, kcp));
            buffer = drop (nat extend) buffer;
            len = len - extend
        in
          if k_stream kcp \<noteq> 0 \<and> len \<le> 0 then (0, kcp)
          else
            let count = (if len \<le> sint (k_mss kcp) then 1
                         else sint ((word_of_int len + k_mss kcp - 1) div k_mss kcp))
            in
              if count \<ge> sint IKCP_WND_RCV then (-2, kcp)
              else
                let count = (if count = 0 then 1 else count)
                in (0, ikcp_fragment (nat count) count 0 buffer len kcp))"

section \<open>Acknowledgements\<close>

text \<open>
  \<^verbatim>\<open>long\<close> and \<^verbatim>\<open>int\<close> arithmetic on the round-trip estimates is over the integers, division
  truncates; the sum with an unsigned operand and the stores of unsigned values wrap.
\<close>

definition ikcp_update_ack :: "ikcpcb \<Rightarrow> int \<Rightarrow> ikcpcb" where
  "ikcp_update_ack kcp rtt =
     (let (srtt, rttval) =
        (if k_rx_srtt kcp = 0 then (rtt, rtt sdiv 2)
         else
           let delta = rtt - k_rx_srtt kcp;
               delta = (if delta < 0 then - delta else delta);
               rttval = i32 ((3 * k_rx_rttval kcp + delta) sdiv 4);
               srtt = (7 * k_rx_srtt kcp + rtt) sdiv 8
           in (if srtt < 1 then 1 else srtt, rttval));
          rto = sint ((word_of_int srtt :: u32) + ikcp_imax (k_interval kcp) (word_of_int (4 * rttval)))
      in kcp\<lparr>k_rx_srtt := srtt, k_rx_rttval := rttval,
             k_rx_rto := sint (ikcp_ibound (word_of_int (k_rx_minrto kcp)) (word_of_int rto) IKCP_RTO_MAX)\<rparr>)"

definition ikcp_shrink_buf :: "ikcpcb \<Rightarrow> ikcpcb" where
  "ikcp_shrink_buf kcp =
     (case k_snd_buf kcp of
        seg # _ \<Rightarrow> kcp\<lparr>k_snd_una := sg_sn seg\<rparr>
      | [] \<Rightarrow> kcp\<lparr>k_snd_una := k_snd_nxt kcp\<rparr>)"

text \<open>The acknowledged segment, if it is met before a later one; the flag says that one was deleted.\<close>

fun ikcp_ack_remove :: "u32 \<Rightarrow> ikcpseg list \<Rightarrow> bool \<times> ikcpseg list" where
  "ikcp_ack_remove sn [] = (False, [])"
| "ikcp_ack_remove sn (seg # buf) =
     (if sn = sg_sn seg then (True, buf)
      else if ikcp_itimediff sn (sg_sn seg) < 0 then (False, seg # buf)
      else let (r, buf') = ikcp_ack_remove sn buf in (r, seg # buf'))"

definition ikcp_parse_ack :: "ikcpcb \<Rightarrow> u32 \<Rightarrow> ikcpcb" where
  "ikcp_parse_ack kcp sn =
     (if ikcp_itimediff sn (k_snd_una kcp) < 0 \<or> ikcp_itimediff sn (k_snd_nxt kcp) \<ge> 0 then kcp
      else
        let (r, buf) = ikcp_ack_remove sn (k_snd_buf kcp)
        in kcp\<lparr>k_snd_buf := buf, k_nsnd_buf := (if r then k_nsnd_buf kcp - 1 else k_nsnd_buf kcp)\<rparr>)"

fun ikcp_una_loop :: "u32 \<Rightarrow> ikcpseg list \<Rightarrow> u32 \<Rightarrow> ikcpseg list \<times> u32" where
  "ikcp_una_loop una [] n = ([], n)"
| "ikcp_una_loop una (seg # buf) n =
     (if ikcp_itimediff una (sg_sn seg) > 0 then ikcp_una_loop una buf (n - 1) else (seg # buf, n))"

definition ikcp_parse_una :: "ikcpcb \<Rightarrow> u32 \<Rightarrow> ikcpcb" where
  "ikcp_parse_una kcp una =
     (let (buf, n) = ikcp_una_loop una (k_snd_buf kcp) (k_nsnd_buf kcp)
      in kcp\<lparr>k_snd_buf := buf, k_nsnd_buf := n\<rparr>)"

fun ikcp_fastack_loop :: "u32 \<Rightarrow> ikcpseg list \<Rightarrow> ikcpseg list" where
  "ikcp_fastack_loop sn [] = []"
| "ikcp_fastack_loop sn (seg # buf) =
     (if ikcp_itimediff sn (sg_sn seg) < 0 then seg # buf
      else if sn \<noteq> sg_sn seg then seg\<lparr>sg_fastack := sg_fastack seg + 1\<rparr> # ikcp_fastack_loop sn buf
      else seg # ikcp_fastack_loop sn buf)"

definition ikcp_parse_fastack :: "ikcpcb \<Rightarrow> u32 \<Rightarrow> u32 \<Rightarrow> ikcpcb" where
  "ikcp_parse_fastack kcp sn ts =
     (if ikcp_itimediff sn (k_snd_una kcp) < 0 \<or> ikcp_itimediff sn (k_snd_nxt kcp) \<ge> 0 then kcp
      else kcp\<lparr>k_snd_buf := ikcp_fastack_loop sn (k_snd_buf kcp)\<rparr>)"

text \<open>
  The capacity loop \<^verbatim>\<open>for (newblock = 8; newblock < newsize; newblock <<= 1)\<close>; the block is
  never 0, which the recursion needs to know.
\<close>

function ikcp_newblock :: "nat \<Rightarrow> nat \<Rightarrow> nat" where
  "ikcp_newblock newblock newsize =
     (if 0 < newblock \<and> newblock < newsize then ikcp_newblock (newblock * 2) newsize else newblock)"
  by pat_completeness auto
termination
  by (relation "measure (\<lambda>(newblock, newsize). newsize - newblock)") auto

declare ikcp_newblock.simps [simp del]

definition ikcp_ack_push :: "ikcpcb \<Rightarrow> u32 \<Rightarrow> u32 \<Rightarrow> ikcpcb" where
  "ikcp_ack_push kcp sn ts =
     (let newsize = unat (k_ackcount kcp + 1);
          kcp = (if newsize > unat (k_ackblock kcp) then
                   let newblock = ikcp_newblock 8 newsize in
                   kcp\<lparr>k_acklist := take (2 * unat (k_ackcount kcp)) (k_acklist kcp)
                         @ replicate (2 * newblock - 2 * unat (k_ackcount kcp)) 0,
                       k_ackblock := of_nat newblock\<rparr>
                 else kcp);
          p = 2 * unat (k_ackcount kcp)
      in kcp\<lparr>k_acklist := (k_acklist kcp)[p := sn, Suc p := ts], k_ackcount := k_ackcount kcp + 1\<rparr>)"

definition ikcp_ack_get :: "ikcpcb \<Rightarrow> nat \<Rightarrow> u32 \<times> u32" where
  "ikcp_ack_get kcp p = (k_acklist kcp ! (p * 2), k_acklist kcp ! (p * 2 + 1))"

section \<open>Receiving from the network\<close>

text \<open>
  The backward scan of \<^verbatim>\<open>rcv_buf\<close> that finds the insertion point: the buffer is scanned from
  its reversal and rebuilt; \<open>None\<close> is a repeated segment.
\<close>

fun ikcp_insert_rev :: "ikcpseg \<Rightarrow> ikcpseg list \<Rightarrow> ikcpseg list option" where
  "ikcp_insert_rev newseg [] = Some [newseg]"
| "ikcp_insert_rev newseg (seg # rbuf) =
     (if sg_sn seg = sg_sn newseg then None
      else if ikcp_itimediff (sg_sn newseg) (sg_sn seg) > 0 then Some (newseg # seg # rbuf)
      else map_option (\<lambda>b. seg # b) (ikcp_insert_rev newseg rbuf))"

definition ikcp_parse_data :: "ikcpcb \<Rightarrow> ikcpseg \<Rightarrow> ikcpcb" where
  "ikcp_parse_data kcp newseg =
     (let sn = sg_sn newseg in
      if ikcp_itimediff sn (k_rcv_nxt kcp + k_rcv_wnd kcp) \<ge> 0 \<or> ikcp_itimediff sn (k_rcv_nxt kcp) < 0
      then kcp
      else
        let kcp = (case ikcp_insert_rev newseg (rev (k_rcv_buf kcp)) of
                     Some rbuf \<Rightarrow> kcp\<lparr>k_rcv_buf := rev rbuf, k_nrcv_buf := k_nrcv_buf kcp + 1\<rparr>
                   | None \<Rightarrow> kcp)
        in ikcp_move_rcv (k_rcv_buf kcp) kcp)"

text \<open>The locals of \<^verbatim>\<open>ikcp_input\<close> that live across rounds.\<close>

record ikcp_in =
  in_kcp :: ikcpcb
  in_flag :: bool
  in_maxack :: u32
  in_latest_ts :: u32
  in_cmd :: u8

definition ikcp_input_ack :: "ikcp_header \<Rightarrow> ikcp_in \<Rightarrow> ikcp_in" where
  "ikcp_input_ack h st =
     (let kcp = in_kcp st;
          kcp = (if ikcp_itimediff (k_current kcp) (h_ts h) \<ge> 0
                 then ikcp_update_ack kcp (ikcp_itimediff (k_current kcp) (h_ts h)) else kcp);
          kcp = ikcp_shrink_buf (ikcp_parse_ack kcp (h_sn h));
          st = st\<lparr>in_kcp := kcp\<rparr>
      in
        if \<not> in_flag st then st\<lparr>in_flag := True, in_maxack := h_sn h, in_latest_ts := h_ts h\<rparr>
        else if ikcp_itimediff (h_sn h) (in_maxack st) > 0
        then st\<lparr>in_maxack := h_sn h, in_latest_ts := h_ts h\<rparr>
        else st)"

definition ikcp_input_push :: "ikcp_header \<Rightarrow> bytes \<Rightarrow> ikcpcb \<Rightarrow> ikcpcb" where
  "ikcp_input_push h payload kcp =
     (if ikcp_itimediff (h_sn h) (k_rcv_nxt kcp + k_rcv_wnd kcp) < 0 then
        let kcp = ikcp_ack_push kcp (h_sn h) (h_ts h) in
        if ikcp_itimediff (h_sn h) (k_rcv_nxt kcp) \<ge> 0 then
          ikcp_parse_data kcp (ikcp_segment_new\<lparr>
            sg_conv := h_conv h, sg_cmd := ucast (h_cmd h), sg_frg := ucast (h_frg h),
            sg_wnd := ucast (h_wnd h), sg_ts := h_ts h, sg_sn := h_sn h, sg_una := h_una h,
            sg_len := h_len h, sg_data := take (unat (h_len h)) payload\<rparr>)
        else kcp
      else kcp)"

text \<open>
  One round of the loop on a header \<open>h\<close> and the bytes after it: \<open>Inl\<close> carries an early
  return with its code and the state reached.
\<close>

definition ikcp_input_seg :: "ikcp_header \<Rightarrow> bytes \<Rightarrow> ikcp_in \<Rightarrow> (int \<times> ikcpcb) + ikcp_in" where
  "ikcp_input_seg h payload st =
     (if h_conv h \<noteq> k_conv (in_kcp st) then Inl (-1, in_kcp st)
      else if int (length payload) < uint (h_len h) \<or> sint (h_len h) < 0 then Inl (-2, in_kcp st)
      else if (ucast (h_cmd h) :: u32) \<notin> {IKCP_CMD_PUSH, IKCP_CMD_ACK, IKCP_CMD_WASK, IKCP_CMD_WINS}
      then Inl (-3, in_kcp st)
      else
        let kcp = (in_kcp st)\<lparr>k_rmt_wnd := ucast (h_wnd h)\<rparr>;
            kcp = ikcp_shrink_buf (ikcp_parse_una kcp (h_una h));
            st = st\<lparr>in_kcp := kcp, in_cmd := h_cmd h\<rparr>;
            cmd = (ucast (h_cmd h) :: u32)
        in
          if cmd = IKCP_CMD_ACK then Inr (ikcp_input_ack h st)
          else if cmd = IKCP_CMD_PUSH then Inr (st\<lparr>in_kcp := ikcp_input_push h payload kcp\<rparr>)
          else if cmd = IKCP_CMD_WASK then Inr (st\<lparr>in_kcp := kcp\<lparr>k_probe := k_probe kcp OR IKCP_ASK_TELL\<rparr>\<rparr>)
          else Inr st)"

function ikcp_input_loop :: "bytes \<Rightarrow> ikcp_in \<Rightarrow> (int \<times> ikcpcb) + ikcp_in" where
  "ikcp_input_loop data st =
     (if length data < 24 then Inr st
      else
        let h = ikcp_decode_header data in
        case ikcp_input_seg h (drop 24 data) st of
          Inl e \<Rightarrow> Inl e
        | Inr st' \<Rightarrow> ikcp_input_loop (drop (unat (h_len h)) (drop 24 data)) st')"
  by pat_completeness auto
termination
  by (relation "measure (\<lambda>(data, st). length data)") auto

declare ikcp_input_loop.simps [simp del]

text \<open>The growth of the congestion window after new data was acknowledged.\<close>

definition ikcp_input_cwnd :: "u32 \<Rightarrow> ikcpcb \<Rightarrow> ikcpcb" where
  "ikcp_input_cwnd prev_una kcp =
     (if ikcp_itimediff (k_snd_una kcp) prev_una > 0 \<and> k_cwnd kcp < k_rmt_wnd kcp then
        let mss = k_mss kcp;
            kcp = (if k_cwnd kcp < k_ssthresh kcp
                   then kcp\<lparr>k_cwnd := k_cwnd kcp + 1, k_incr := k_incr kcp + mss\<rparr>
                   else
                     let incr = (if k_incr kcp < mss then mss else k_incr kcp);
                         incr = incr + ((mss * mss) div incr + mss div 16);
                         cwnd = (if (k_cwnd kcp + 1) * mss \<le> incr
                                 then (incr + mss - 1) div (if mss > 0 then mss else 1)
                                 else k_cwnd kcp)
                     in kcp\<lparr>k_cwnd := cwnd, k_incr := incr\<rparr>)
        in if k_cwnd kcp > k_rmt_wnd kcp
           then kcp\<lparr>k_cwnd := k_rmt_wnd kcp, k_incr := k_rmt_wnd kcp * mss\<rparr> else kcp
      else kcp)"

text \<open>\<open>None\<close> is a null data pointer. The result is the return code and the new state.\<close>

definition ikcp_input :: "ikcpcb \<Rightarrow> bytes option \<Rightarrow> int \<times> ikcpcb" where
  "ikcp_input kcp dat =
     (case dat of
        None \<Rightarrow> (-1, kcp)
      | Some data \<Rightarrow>
          if sint (of_nat (length data) :: u32) < sint IKCP_OVERHEAD then (-1, kcp)
          else
            case ikcp_input_loop data
                   \<lparr>in_kcp = kcp, in_flag = False, in_maxack = 0, in_latest_ts = 0, in_cmd = 0\<rparr> of
              Inl e \<Rightarrow> e
            | Inr st \<Rightarrow>
                let kcp1 = (if in_flag st
                            then ikcp_parse_fastack (in_kcp st) (in_maxack st) (in_latest_ts st)
                            else in_kcp st)
                in (uint (in_cmd st), ikcp_input_cwnd (k_snd_una kcp) kcp1))"

section \<open>Flushing\<close>

definition ikcp_wnd_unused :: "ikcpcb \<Rightarrow> int" where
  "ikcp_wnd_unused kcp =
     (if k_nrcv_que kcp < k_rcv_wnd kcp then sint (k_rcv_wnd kcp - k_nrcv_que kcp) else 0)"

text \<open>
  The output side of \<^verbatim>\<open>ikcp_flush\<close>: the datagrams handed to the callback so far and the bytes
  between \<^verbatim>\<open>buffer\<close> and \<^verbatim>\<open>ptr\<close>.
\<close>

type_synonym ikcp_out = "bytes list \<times> bytes"

definition ikcp_output :: "bytes \<Rightarrow> bytes list" where
  "ikcp_output data = (if data = [] then [] else [data])"

text \<open>Make room for \<open>need\<close> bytes: the pending bytes go out if they would exceed the MTU.\<close>

definition ikcp_make_room :: "u32 \<Rightarrow> int \<Rightarrow> ikcp_out \<Rightarrow> ikcp_out" where
  "ikcp_make_room mtu need ob =
     (if int (length (snd ob)) + need > sint mtu then (fst ob @ ikcp_output (snd ob), []) else ob)"

definition ikcp_put :: "u32 \<Rightarrow> int \<Rightarrow> bytes \<Rightarrow> ikcp_out \<Rightarrow> ikcp_out" where
  "ikcp_put mtu need enc ob = (let (outs, pend) = ikcp_make_room mtu need ob in (outs, pend @ enc))"

fun ikcp_flush_acks :: "ikcpcb \<Rightarrow> ikcpseg \<Rightarrow> nat list \<Rightarrow> ikcp_out \<Rightarrow> ikcpseg \<times> ikcp_out" where
  "ikcp_flush_acks kcp seg [] ob = (seg, ob)"
| "ikcp_flush_acks kcp seg (i # is) ob =
     (let (sn, ts) = ikcp_ack_get kcp i;
          seg = seg\<lparr>sg_sn := sn, sg_ts := ts\<rparr>
      in ikcp_flush_acks kcp seg is (ikcp_put (k_mtu kcp) 24 (ikcp_encode_seg seg) ob))"

definition ikcp_flush_probe :: "ikcpcb \<Rightarrow> ikcpcb" where
  "ikcp_flush_probe kcp =
     (if k_rmt_wnd kcp = 0 then
        if k_probe_wait kcp = 0
        then kcp\<lparr>k_probe_wait := IKCP_PROBE_INIT, k_ts_probe := k_current kcp + IKCP_PROBE_INIT\<rparr>
        else if ikcp_itimediff (k_current kcp) (k_ts_probe kcp) \<ge> 0 then
          let w = (if k_probe_wait kcp < IKCP_PROBE_INIT then IKCP_PROBE_INIT else k_probe_wait kcp);
              w = w + w div 2;
              w = (if w > IKCP_PROBE_LIMIT then IKCP_PROBE_LIMIT else w)
          in kcp\<lparr>k_probe_wait := w, k_ts_probe := k_current kcp + w,
                 k_probe := k_probe kcp OR IKCP_ASK_SEND\<rparr>
        else kcp
      else kcp\<lparr>k_ts_probe := 0, k_probe_wait := 0\<rparr>)"

text \<open>The move from \<^verbatim>\<open>snd_queue\<close> to \<^verbatim>\<open>snd_buf\<close> while the window allows.\<close>

fun ikcp_flush_move :: "u32 \<Rightarrow> u32 \<Rightarrow> u32 \<Rightarrow> ikcpseg list \<Rightarrow> ikcpcb \<Rightarrow> ikcpcb" where
  "ikcp_flush_move cwnd wnd current [] kcp = kcp\<lparr>k_snd_queue := []\<rparr>"
| "ikcp_flush_move cwnd wnd current (seg # q) kcp =
     (if ikcp_itimediff (k_snd_nxt kcp) (k_snd_una kcp + cwnd) < 0 then
        let newseg = seg\<lparr>sg_conv := k_conv kcp, sg_cmd := IKCP_CMD_PUSH, sg_wnd := wnd,
              sg_ts := current, sg_sn := k_snd_nxt kcp, sg_una := k_rcv_nxt kcp,
              sg_resendts := current, sg_rto := word_of_int (k_rx_rto kcp),
              sg_fastack := 0, sg_xmit := 0\<rparr>
        in ikcp_flush_move cwnd wnd current q (kcp\<lparr>
             k_snd_buf := k_snd_buf kcp @ [newseg], k_nsnd_que := k_nsnd_que kcp - 1,
             k_nsnd_buf := k_nsnd_buf kcp + 1, k_snd_nxt := k_snd_nxt kcp + 1\<rparr>)
      else kcp\<lparr>k_snd_queue := seg # q\<rparr>)"

text \<open>
  The decision on one segment of \<^verbatim>\<open>snd_buf\<close>: first transmission, time-out, fast resend or
  nothing; the segment after it and whether it is sent, counted as lost, counted as change.
\<close>

definition ikcp_flush_decide ::
  "ikcpcb \<Rightarrow> u32 \<Rightarrow> u32 \<Rightarrow> u32 \<Rightarrow> ikcpseg \<Rightarrow> ikcpseg \<times> bool \<times> bool \<times> bool" where
  "ikcp_flush_decide kcp current resent rtomin seg =
     (if sg_xmit seg = 0 then
        let rto = word_of_int (k_rx_rto kcp) in
        (seg\<lparr>sg_xmit := sg_xmit seg + 1, sg_rto := rto, sg_resendts := current + rto + rtomin\<rparr>,
         True, False, False)
      else if ikcp_itimediff current (sg_resendts seg) \<ge> 0 then
        let rto = sg_rto seg + word_of_int (if k_nodelay kcp = 0 then k_rx_rto kcp else k_rx_rto kcp sdiv 2) in
        (seg\<lparr>sg_xmit := sg_xmit seg + 1, sg_rto := rto, sg_resendts := current + rto\<rparr>,
         True, True, False)
      else if sg_fastack seg \<ge> resent \<and> (sint (sg_xmit seg) \<le> k_fastlimit kcp \<or> k_fastlimit kcp \<le> 0) then
        (seg\<lparr>sg_xmit := sg_xmit seg + 1, sg_fastack := 0, sg_resendts := current + sg_rto seg\<rparr>,
         True, False, True)
      else (seg, False, False, False))"

record ikcp_fl =
  fl_kcp :: ikcpcb
  fl_done :: "ikcpseg list"
  fl_out :: ikcp_out
  fl_change :: nat
  fl_lost :: bool

definition ikcp_flush_seg :: "u32 \<Rightarrow> u32 \<Rightarrow> u32 \<Rightarrow> u32 \<Rightarrow> ikcpseg \<Rightarrow> ikcp_fl \<Rightarrow> ikcp_fl" where
  "ikcp_flush_seg current resent rtomin wnd seg fl =
     (let kcp = fl_kcp fl;
          (seg, needsend, islost, ischange) = ikcp_flush_decide kcp current resent rtomin seg;
          kcp = (if islost then kcp\<lparr>k_xmit := k_xmit kcp + 1\<rparr> else kcp);
          fl = fl\<lparr>fl_kcp := kcp, fl_lost := fl_lost fl \<or> islost,
                  fl_change := (if ischange then fl_change fl + 1 else fl_change fl)\<rparr>
      in
        if needsend then
          let seg = seg\<lparr>sg_ts := current, sg_wnd := wnd, sg_una := k_rcv_nxt kcp\<rparr>;
              need = sint (IKCP_OVERHEAD + sg_len seg);
              ob = ikcp_put (k_mtu kcp) need (ikcp_encode_seg seg @ seg_bytes seg) (fl_out fl)
          in fl\<lparr>fl_out := ob, fl_done := fl_done fl @ [seg],
                fl_kcp := (if sg_xmit seg \<ge> k_dead_link kcp then kcp\<lparr>k_state := -1\<rparr> else kcp)\<rparr>
        else fl\<lparr>fl_done := fl_done fl @ [seg]\<rparr>)"

definition ikcp_flush_window :: "nat \<Rightarrow> bool \<Rightarrow> u32 \<Rightarrow> u32 \<Rightarrow> ikcpcb \<Rightarrow> ikcpcb" where
  "ikcp_flush_window change lost resent cwnd kcp =
     (let kcp = (if change \<noteq> 0 then
                   let inflight = k_snd_nxt kcp - k_snd_una kcp;
                       ssthresh = inflight div 2;
                       ssthresh = (if ssthresh < IKCP_THRESH_MIN then IKCP_THRESH_MIN else ssthresh)
                   in kcp\<lparr>k_ssthresh := ssthresh, k_cwnd := ssthresh + resent,
                          k_incr := (ssthresh + resent) * k_mss kcp\<rparr>
                 else kcp);
          kcp = (if lost then
                   let ssthresh = cwnd div 2;
                       ssthresh = (if ssthresh < IKCP_THRESH_MIN then IKCP_THRESH_MIN else ssthresh)
                   in kcp\<lparr>k_ssthresh := ssthresh, k_cwnd := 1, k_incr := k_mss kcp\<rparr>
                 else kcp)
      in if k_cwnd kcp < 1 then kcp\<lparr>k_cwnd := 1, k_incr := k_mss kcp\<rparr> else kcp)"

text \<open>The window of the sender: \<^verbatim>\<open>snd_wnd\<close>, the peer's window and, unless disabled, \<^verbatim>\<open>cwnd\<close>.\<close>

definition ikcp_flush_cwnd :: "ikcpcb \<Rightarrow> u32" where
  "ikcp_flush_cwnd kcp =
     (let cwnd = ikcp_imin (k_snd_wnd kcp) (k_rmt_wnd kcp)
      in if k_nocwnd kcp = 0 then ikcp_imin (k_cwnd kcp) cwnd else cwnd)"

text \<open>Acknowledgements and window probes: the control segments of a flush.\<close>

definition ikcp_flush_control :: "ikcpcb \<Rightarrow> ikcpseg \<Rightarrow> ikcpcb \<times> ikcp_out" where
  "ikcp_flush_control kcp seg =
     (let (seg, ob) = ikcp_flush_acks kcp seg [0..<unat (k_ackcount kcp)] ([], []);
          kcp = ikcp_flush_probe (kcp\<lparr>k_ackcount := 0\<rparr>);
          ob = (if k_probe kcp AND IKCP_ASK_SEND \<noteq> 0
                then ikcp_put (k_mtu kcp) 24 (ikcp_encode_seg (seg\<lparr>sg_cmd := IKCP_CMD_WASK\<rparr>)) ob else ob);
          ob = (if k_probe kcp AND IKCP_ASK_TELL \<noteq> 0
                then ikcp_put (k_mtu kcp) 24 (ikcp_encode_seg (seg\<lparr>sg_cmd := IKCP_CMD_WINS\<rparr>)) ob else ob)
      in (kcp\<lparr>k_probe := 0\<rparr>, ob))"

definition ikcp_flush :: "ikcpcb \<Rightarrow> bytes list \<times> ikcpcb" where
  "ikcp_flush kcp =
     (if k_updated kcp = 0 then ([], kcp)
      else
        let current = k_current kcp;
            wnd = word_of_int (ikcp_wnd_unused kcp);
            seg = ikcp_segment_new\<lparr>sg_conv := k_conv kcp, sg_cmd := IKCP_CMD_ACK, sg_frg := 0,
                    sg_wnd := wnd, sg_una := k_rcv_nxt kcp, sg_len := 0, sg_sn := 0, sg_ts := 0\<rparr>;
            (kcp, ob) = ikcp_flush_control kcp seg;
            cwnd = ikcp_flush_cwnd kcp;
            kcp = ikcp_flush_move cwnd wnd current (k_snd_queue kcp) kcp;
            resent = (if k_fastresend kcp > 0 then word_of_int (k_fastresend kcp) else 0xffffffff);
            rtomin = (if k_nodelay kcp = 0 then word_of_int (k_rx_rto kcp div 8) else 0);
            fl = fold (ikcp_flush_seg current resent rtomin wnd) (k_snd_buf kcp)
                   \<lparr>fl_kcp = kcp, fl_done = [], fl_out = ob, fl_change = 0, fl_lost = False\<rparr>;
            kcp = (fl_kcp fl)\<lparr>k_snd_buf := fl_done fl\<rparr>
        in (fst (fl_out fl) @ ikcp_output (snd (fl_out fl)),
            ikcp_flush_window (fl_change fl) (fl_lost fl) resent cwnd kcp))"

section \<open>Clock and settings\<close>

definition ikcp_update :: "ikcpcb \<Rightarrow> u32 \<Rightarrow> bytes list \<times> ikcpcb" where
  "ikcp_update kcp current =
     (let kcp = kcp\<lparr>k_current := current\<rparr>;
          kcp = (if k_updated kcp = 0 then kcp\<lparr>k_updated := 1, k_ts_flush := k_current kcp\<rparr> else kcp);
          slap = ikcp_itimediff (k_current kcp) (k_ts_flush kcp);
          (kcp, slap) = (if slap \<ge> 10000 \<or> slap < -10000
                         then (kcp\<lparr>k_ts_flush := k_current kcp\<rparr>, 0) else (kcp, slap))
      in
        if slap \<ge> 0 then
          let kcp = kcp\<lparr>k_ts_flush := k_ts_flush kcp + k_interval kcp\<rparr>;
              kcp = (if ikcp_itimediff (k_current kcp) (k_ts_flush kcp) \<ge> 0
                     then kcp\<lparr>k_ts_flush := k_current kcp + k_interval kcp\<rparr> else kcp)
          in ikcp_flush kcp
        else ([], kcp))"

text \<open>The scan of \<^verbatim>\<open>snd_buf\<close> in \<^verbatim>\<open>ikcp_check\<close>: \<open>None\<close> is the early return for an expired segment.\<close>

fun ikcp_check_scan :: "u32 \<Rightarrow> ikcpseg list \<Rightarrow> int \<Rightarrow> int option" where
  "ikcp_check_scan current [] tm_packet = Some tm_packet"
| "ikcp_check_scan current (seg # buf) tm_packet =
     (let diff = ikcp_itimediff (sg_resendts seg) current in
      if diff \<le> 0 then None
      else ikcp_check_scan current buf (if diff < tm_packet then diff else tm_packet))"

definition ikcp_check :: "ikcpcb \<Rightarrow> u32 \<Rightarrow> u32" where
  "ikcp_check kcp current =
     (if k_updated kcp = 0 then current
      else
        let ts_flush = (if ikcp_itimediff current (k_ts_flush kcp) \<ge> 10000 \<or>
                          ikcp_itimediff current (k_ts_flush kcp) < -10000
                        then current else k_ts_flush kcp)
        in
          if ikcp_itimediff current ts_flush \<ge> 0 then current
          else
            let tm_flush = ikcp_itimediff ts_flush current in
            case ikcp_check_scan current (k_snd_buf kcp) 0x7fffffff of
              None \<Rightarrow> current
            | Some tm_packet \<Rightarrow>
                let minimal = word_of_int (if tm_packet < tm_flush then tm_packet else tm_flush);
                    minimal = (if minimal \<ge> k_interval kcp then k_interval kcp else minimal)
                in current + minimal)"

text \<open>\<open>alloc\<close> says whether the allocation of the new buffer succeeds.\<close>

definition ikcp_setmtu :: "bool \<Rightarrow> ikcpcb \<Rightarrow> int \<Rightarrow> int \<times> ikcpcb" where
  "ikcp_setmtu alloc kcp mtu =
     (if mtu < 50 \<or> mtu < sint IKCP_OVERHEAD then (-1, kcp)
      else if \<not> alloc then (-2, kcp)
      else (0, kcp\<lparr>k_mtu := word_of_int mtu, k_mss := word_of_int mtu - IKCP_OVERHEAD,
                   k_buflen := unat ((word_of_int mtu + IKCP_OVERHEAD) * 3)\<rparr>))"

definition ikcp_clamp_interval :: "int \<Rightarrow> int" where
  "ikcp_clamp_interval interval =
     (if interval > 5000 then 5000 else if interval < 10 then 10 else interval)"

definition ikcp_interval :: "ikcpcb \<Rightarrow> int \<Rightarrow> int \<times> ikcpcb" where
  "ikcp_interval kcp interval = (0, kcp\<lparr>k_interval := word_of_int (ikcp_clamp_interval interval)\<rparr>)"

definition ikcp_nodelay :: "ikcpcb \<Rightarrow> int \<Rightarrow> int \<Rightarrow> int \<Rightarrow> int \<Rightarrow> int \<times> ikcpcb" where
  "ikcp_nodelay kcp nodelay interval resend nc =
     (let kcp = (if nodelay \<ge> 0
                 then kcp\<lparr>k_nodelay := word_of_int nodelay,
                          k_rx_minrto := uint (if nodelay \<noteq> 0 then IKCP_RTO_NDL else IKCP_RTO_MIN)\<rparr>
                 else kcp);
          kcp = (if interval \<ge> 0
                 then kcp\<lparr>k_interval := word_of_int (ikcp_clamp_interval interval)\<rparr> else kcp);
          kcp = (if resend \<ge> 0 then kcp\<lparr>k_fastresend := resend\<rparr> else kcp);
          kcp = (if nc \<ge> 0 then kcp\<lparr>k_nocwnd := nc\<rparr> else kcp)
      in (0, kcp))"

definition ikcp_wndsize :: "ikcpcb \<Rightarrow> int \<Rightarrow> int \<Rightarrow> int \<times> ikcpcb" where
  "ikcp_wndsize kcp sndwnd rcvwnd =
     (let kcp = (if sndwnd > 0 then kcp\<lparr>k_snd_wnd := word_of_int sndwnd\<rparr> else kcp);
          kcp = (if rcvwnd > 0 then kcp\<lparr>k_rcv_wnd := ikcp_imax (word_of_int rcvwnd) IKCP_WND_RCV\<rparr> else kcp)
      in (0, kcp))"

definition ikcp_waitsnd :: "ikcpcb \<Rightarrow> int" where
  "ikcp_waitsnd kcp = sint (k_nsnd_buf kcp + k_nsnd_que kcp)"

end
