(* ===== verification/Ikcp_Send.thy ===== *)
theory Ikcp_Send
  imports Ikcp
begin

text \<open>
  The sending half of KCP: fragmentation by \<^verbatim>\<open>ikcp_send\<close>, the move into the send buffer, and
  the fact that whatever \<^verbatim>\<open>ikcp_flush\<close> puts on the wire is a segment the user queued, under
  the sequence number it was given.
\<close>

section \<open>Fragmentation as a function on lists\<close>

text \<open>What a segment means to the peer's user: its fragment number and its bytes.\<close>

type_synonym item = "u32 \<times> bytes"

definition seg_item :: "ikcpseg \<Rightarrow> item" where
  "seg_item seg = (sg_frg seg, sg_data seg)"

definition seg_fit :: "ikcpseg \<Rightarrow> bool" where
  "seg_fit seg \<longleftrightarrow> seg_ok seg \<and> unat (sg_len seg) < 2 ^ 31 \<and> unat (sg_frg seg) < 2 ^ 8"

function chunks :: "nat \<Rightarrow> 'a list \<Rightarrow> 'a list list" where
  "chunks m xs = (if length xs \<le> m \<or> m = 0 then [xs] else take m xs # chunks m (drop m xs))"
  by pat_completeness auto
termination
  by (relation "measure (\<lambda>(m, xs). length xs)") auto

declare chunks.simps [simp del]

lemma chunks_short: "length xs \<le> m \<Longrightarrow> chunks m xs = [xs]"
  by (simp add: chunks.simps)

lemma chunks_long: "0 < m \<Longrightarrow> m < length xs \<Longrightarrow> chunks m xs = take m xs # chunks m (drop m xs)"
  by (subst chunks.simps) simp

lemma concat_chunks [simp]: "concat (chunks m xs) = xs"
proof (induction m xs rule: chunks.induct)
  case (1 m xs)
  then show ?case by (subst chunks.simps) simp
qed

lemma chunks_bound: "0 < m \<Longrightarrow> c \<in> set (chunks m xs) \<Longrightarrow> length c \<le> m"
proof (induction m xs rule: chunks.induct)
  case (1 m xs)
  then show ?case
    by (cases "length xs \<le> m") (auto simp: chunks_short chunks_long)
qed

lemma length_chunks:
  assumes "0 < m"
  shows "length (chunks m xs) = (if length xs \<le> m then 1 else (length xs + m - 1) div m)"
  using assms
proof (induction m xs rule: chunks.induct)
  case (1 m xs)
  show ?case
  proof (cases "length xs \<le> m")
    case False
    then obtain d where d: "length xs = m + d" "0 < d"
      by (metis less_imp_add_positive linorder_not_le)
    have "length (chunks m (drop m xs)) = (if d \<le> m then 1 else (d + m - 1) div m)"
      using "1.IH" [OF _ "1.prems"] False d(1) "1.prems" by (simp del: drop_eq_Nil)
    moreover have "(m + d + m - 1) div m = Suc ((d + m - 1) div m)"
    proof -
      have "m + d + m - 1 = m + (d + m - 1)" using d by simp
      then show ?thesis using "1.prems" by (simp only: div_add_self1)
    qed
    moreover have "(d + m - 1) div m = 1" if "d \<le> m"
      using d that by (intro div_nat_eqI) auto
    ultimately show ?thesis
      using False d "1.prems" by (auto simp: chunks_long)
  qed (simp add: chunks_short)
qed

text \<open>A message as fragments: the numbers count down to 0, which marks the last one.\<close>

definition frags :: "nat \<Rightarrow> bytes \<Rightarrow> item list" where
  "frags m xs = (let cs = chunks m xs in zip (map of_nat (rev [0..<length cs])) cs)"

definition whole_message :: "item list \<Rightarrow> bool" where
  "whole_message its \<longleftrightarrow> its \<noteq> [] \<and> length its \<le> 128 \<and>
     map fst its = map of_nat (rev [0..<length its])"

definition message_bytes :: "item list \<Rightarrow> bytes" where
  "message_bytes its = concat (map snd its)"

lemma chunks_nonempty: "chunks m xs \<noteq> []"
  by (subst chunks.simps) simp

lemma message_bytes_frags [simp]: "message_bytes (frags m xs) = xs"
  by (simp add: message_bytes_def frags_def Let_def)

lemma whole_message_frags: "length (chunks m xs) \<le> 128 \<Longrightarrow> whole_message (frags m xs)"
  using chunks_nonempty [of m xs]
  by (simp add: whole_message_def frags_def Let_def flip: length_greater_0_conv)

section \<open>The fragmentation loop\<close>

definition frag_seg :: "item \<Rightarrow> ikcpseg" where
  "frag_seg it = ikcp_segment_new\<lparr>sg_data := snd it, sg_len := of_nat (length (snd it)), sg_frg := fst it\<rparr>"

lemma ikcp_fragment_frags:
  assumes "m = nat (sint (k_mss kcp))" "0 < m" "k_stream kcp = 0"
    and "length (chunks m buffer) = n" "count = i + int n"
  shows "ikcp_fragment n count i buffer (int (length buffer)) kcp =
    kcp\<lparr>k_snd_queue := k_snd_queue kcp @ map frag_seg (frags m buffer),
        k_nsnd_que := k_nsnd_que kcp + of_nat n\<rparr>"
  using assms
proof (induction m buffer arbitrary: n i kcp rule: chunks.induct)
  case (1 m xs)
  have mss: "sint (k_mss kcp) = int m" using "1.prems" by simp
  note prems = "1.prems"(2-5)
  show ?case
  proof (cases "length xs \<le> m")
    case True
    then have n: "n = 1" using prems by (simp add: chunks_short)
    show ?thesis
      using True prems
      by (simp add: n mss chunks_short frags_def frag_seg_def ikcp_segment_new_def)
  next
    case False
    then have ch: "chunks m xs = take m xs # chunks m (drop m xs)"
      using "1.prems" by (intro chunks_long) auto
    define k where "k = length (chunks m (drop m xs))"
    have n: "n = Suc k" using "1.prems" ch by (simp add: k_def)
    let ?seg = "frag_seg (of_nat k, take m xs)"
    let ?kcp = "kcp\<lparr>k_snd_queue := k_snd_queue kcp @ [?seg], k_nsnd_que := k_nsnd_que kcp + 1\<rparr>"
    have ih: "ikcp_fragment k count (i + 1) (drop m xs) (int (length (drop m xs))) ?kcp =
      ?kcp\<lparr>k_snd_queue := k_snd_queue ?kcp @ map frag_seg (frags m (drop m xs)),
           k_nsnd_que := k_nsnd_que ?kcp + of_nat k\<rparr>"
      using "1.prems" False n by (intro "1.IH") (auto simp: k_def)
    have fr: "frags m xs = (of_nat k, take m xs) # frags m (drop m xs)"
      by (simp add: frags_def ch k_def Let_def)
    have "int (length (drop m xs)) = int (length xs) - int m" "xs \<noteq> []" using False by auto
    with ih show ?thesis
      using False prems
      by (simp add: n mss fr frag_seg_def ikcp_segment_new_def Let_def add.assoc)
  qed
qed

lemma ceil_div_le: "0 < m \<Longrightarrow> 0 < a \<Longrightarrow> (a + m - 1) div m \<le> (a :: nat)"
proof -
  assume m: "0 < m" and a: "0 < a"
  obtain a' m' where "a = Suc a'" "m = Suc m'"
    using m a by (metis gr0_implies_Suc)
  then have "a + m - 1 \<le> a * m" by simp
  then have "(a + m - 1) div m \<le> a * m div m" by (rule div_le_mono)
  then show ?thesis using m by simp
qed

lemma count_chunks:
  fixes mss :: u32
  assumes "0 < sint mss" "length buffer < 2 ^ 31" "int (length buffer) > sint mss"
  shows "sint ((word_of_int (int (length buffer)) + mss - 1) div mss) =
    int (length (chunks (nat (sint mss)) buffer))"
proof -
  let ?m = "nat (sint mss)"
  have m: "unat mss = ?m" "?m < 2 ^ 31"
  proof -
    have lt: "sint mss < 2 ^ 31" using sint_lt [of mss] by simp
    show "unat mss = ?m" using assms(1) by (intro unat_sint32) simp
    show "?m < 2 ^ 31" using lt assms(1) by simp
  qed
  have bm: "?m < length buffer" using assms by linarith
  have "unat (word_of_int (int (length buffer)) + mss - 1 :: u32) = length buffer + ?m - 1"
  proof -
    have "word_of_int (int (length buffer)) + mss - 1 = (of_nat (length buffer + ?m - 1) :: u32)"
      using bm unfolding m(1) [symmetric] by (simp add: of_nat_diff)
    then show ?thesis using assms(2) m(2) by (simp add: unat_of_nat take_bit_nat_eq_self)
  qed
  then have "unat ((word_of_int (int (length buffer)) + mss - 1) div mss) =
    length (chunks ?m buffer)"
    using bm m(1) assms(1) by (simp add: length_chunks unat_div)
  moreover have "length (chunks ?m buffer) < 2 ^ 31"
  proof -
    have "(length buffer + ?m - 1) div ?m \<le> length buffer"
      using bm assms(1) by (intro ceil_div_le) auto
    then show ?thesis using bm assms by (simp add: length_chunks)
  qed
  ultimately show ?thesis
    by (simp add: sint_unat32)
qed

section \<open>The send operation in message mode\<close>

lemma ikcp_send_message:
  assumes "k_stream kcp = 0" "0 < sint (k_mss kcp)" "length buffer < 2 ^ 31"
  shows "ikcp_send kcp buffer (int (length buffer)) =
    (let fs = frags (nat (sint (k_mss kcp))) buffer in
     if length fs \<ge> 128 then (-2, kcp)
     else (0, kcp\<lparr>k_snd_queue := k_snd_queue kcp @ map frag_seg fs,
                   k_nsnd_que := k_nsnd_que kcp + of_nat (length fs)\<rparr>))"
proof -
  let ?m = "nat (sint (k_mss kcp))" and ?len = "int (length buffer)"
  let ?n = "length (chunks ?m buffer)"
  have cnt: "(if ?len \<le> sint (k_mss kcp) then 1
      else sint ((word_of_int ?len + k_mss kcp - 1) div k_mss kcp)) = int ?n"
  proof (cases "?len \<le> sint (k_mss kcp)")
    case True
    then have "chunks ?m buffer = [buffer]" by (intro chunks_short) linarith
    then show ?thesis using True by simp
  next
    case False
    then show ?thesis using count_chunks [of "k_mss kcp" buffer] assms by simp
  qed
  have n: "0 < ?n" using chunks_nonempty by auto
  have fl: "length (frags ?m buffer) = ?n" by (simp add: frags_def Let_def)
  have wnd: "sint IKCP_WND_RCV = 128" by code_simp
  have frag: "ikcp_fragment ?n (int ?n) 0 buffer ?len kcp =
    kcp\<lparr>k_snd_queue := k_snd_queue kcp @ map frag_seg (frags ?m buffer),
        k_nsnd_que := k_nsnd_que kcp + of_nat ?n\<rparr>"
    using assms by (intro ikcp_fragment_frags) auto
  define n where "n = ?n"
  have "ikcp_send kcp buffer ?len =
    (if int n \<ge> 128 then (-2, kcp) else (0, ikcp_fragment n (int n) 0 buffer ?len kcp))"
    using n assms(1) unfolding n_def [symmetric]
    apply (simp only: ikcp_send_def Let_def)
    apply (simp only: split if_False simp_thms refl drop_0 diff_zero nat_0)
    apply (simp only: cnt n_def [symmetric] wnd)
    apply simp
    done
  then show ?thesis
    using frag unfolding n_def Let_def fl by auto
qed

lemma seg_fit_frag:
  assumes "m < 2 ^ 31" "0 < m" "it \<in> set (frags m xs)" "length (frags m xs) < 128"
  shows "seg_fit (frag_seg it)" "seg_item (frag_seg it) = it"
    "length (sg_data (frag_seg it)) \<le> m"
proof -
  have "snd it \<in> set (chunks m xs)"
    using assms(3) by (auto simp: frags_def Let_def set_zip)
  then have len: "length (snd it) \<le> m" using assms(2) by (rule chunks_bound [rotated])
  moreover have "\<exists>k<128. fst it = of_nat k"
  proof -
    have "fst it \<in> set (map of_nat (rev [0..<length (chunks m xs)]))"
      using assms(3) unfolding frags_def Let_def by (metis prod.collapse set_zip_leftD)
    moreover have "length (chunks m xs) < 128"
      using assms(4) by (simp add: frags_def Let_def)
    ultimately show ?thesis by (auto, metis order.strict_trans)
  qed
  ultimately show "seg_fit (frag_seg it)"
    using assms(1) by (auto simp: seg_fit_def seg_ok_def frag_seg_def unat_of_nat32)
  show "seg_item (frag_seg it) = it" "length (sg_data (frag_seg it)) \<le> m"
    using len by (simp_all add: seg_item_def frag_seg_def)
qed



end
