(* ===== verification/Ikcp_Flush.thy ===== *)
theory Ikcp_Flush
  imports Ikcp_Send
begin

text \<open>
  What \<^verbatim>\<open>ikcp_flush\<close> does to the control block and what it hands to the output callback: the
  frame of each stage, the size of the datagrams, their contents, and the windows.
\<close>

section \<open>Frames of the stages\<close>

lemma ikcp_flush_probe_frame:
  "\<exists>w t p. ikcp_flush_probe kcp = kcp\<lparr>k_probe_wait := w, k_ts_probe := t, k_probe := p\<rparr>"
  by (rule exI [of _ "k_probe_wait (ikcp_flush_probe kcp)"], rule exI [of _ "k_ts_probe (ikcp_flush_probe kcp)"],
      rule exI [of _ "k_probe (ikcp_flush_probe kcp)"]) (simp add: ikcp_flush_probe_def Let_def)

lemma ikcp_flush_control_frame:
  "\<exists>w t. fst (ikcp_flush_control kcp seg) =
     kcp\<lparr>k_ackcount := 0, k_probe_wait := w, k_ts_probe := t, k_probe := 0\<rparr>"
proof -
  obtain w t p where "ikcp_flush_probe (kcp\<lparr>k_ackcount := 0\<rparr>) =
      kcp\<lparr>k_ackcount := 0, k_probe_wait := w, k_ts_probe := t, k_probe := p\<rparr>"
    using ikcp_flush_probe_frame by blast
  then show ?thesis
    by (auto simp: ikcp_flush_control_def Let_def split: prod.splits)
qed

lemma ikcp_flush_window_frame:
  "\<exists>s c i. ikcp_flush_window change lost resent cwnd kcp = kcp\<lparr>k_ssthresh := s, k_cwnd := c, k_incr := i\<rparr>"
proof -
  let ?k = "ikcp_flush_window change lost resent cwnd kcp"
  have "?k = kcp\<lparr>k_ssthresh := k_ssthresh ?k, k_cwnd := k_cwnd ?k, k_incr := k_incr ?k\<rparr>"
    by (simp add: ikcp_flush_window_def Let_def)
  then show ?thesis by blast
qed

text \<open>What a segment keeps when it is transmitted.\<close>

definition seg_same :: "ikcpseg \<Rightarrow> ikcpseg \<Rightarrow> bool" where
  "seg_same s s' \<longleftrightarrow> sg_conv s' = sg_conv s \<and> sg_cmd s' = sg_cmd s \<and> sg_frg s' = sg_frg s \<and>
     sg_sn s' = sg_sn s \<and> sg_len s' = sg_len s \<and> sg_data s' = sg_data s"

lemma seg_same_refl [simp]: "seg_same s s"
  by (simp add: seg_same_def)

lemma seg_same_trans: "seg_same a b \<Longrightarrow> seg_same b c \<Longrightarrow> seg_same a c"
  by (simp add: seg_same_def)

lemma ikcp_flush_decide_same: "seg_same seg (fst (ikcp_flush_decide kcp current resent rtomin seg))"
  by (simp add: ikcp_flush_decide_def seg_same_def Let_def)

definition seg_wire :: "ikcpseg \<Rightarrow> bytes" where
  "seg_wire seg = ikcp_encode_seg seg @ seg_bytes seg"

lemma ikcp_flush_seg_step:
  "\<exists>seg' x st. seg_same seg seg' \<and>
     fl_done (ikcp_flush_seg current resent rtomin wnd seg fl) = fl_done fl @ [seg'] \<and>
     fl_kcp (ikcp_flush_seg current resent rtomin wnd seg fl) = (fl_kcp fl)\<lparr>k_xmit := x, k_state := st\<rparr> \<and>
     (fl_out (ikcp_flush_seg current resent rtomin wnd seg fl) = fl_out fl \<or>
      fl_out (ikcp_flush_seg current resent rtomin wnd seg fl) =
        ikcp_put (k_mtu (fl_kcp fl)) (sint (IKCP_OVERHEAD + sg_len seg')) (seg_wire seg') (fl_out fl))"
proof -
  obtain s ns il ic where d: "ikcp_flush_decide (fl_kcp fl) current resent rtomin seg = (s, ns, il, ic)"
    by (cases "ikcp_flush_decide (fl_kcp fl) current resent rtomin seg")
  have same: "seg_same seg s" using ikcp_flush_decide_same [of seg "fl_kcp fl"] d by (metis fst_conv)
  let ?s = "s\<lparr>sg_ts := current, sg_wnd := wnd, sg_una := k_rcv_nxt (fl_kcp fl)\<rparr>"
  let ?x = "if il then k_xmit (fl_kcp fl) + 1 else k_xmit (fl_kcp fl)"
  let ?st = "if ns \<and> k_dead_link (fl_kcp fl) \<le> sg_xmit s then -1 else k_state (fl_kcp fl)"
  have "seg_same seg ?s" using same by (simp add: seg_same_def)
  with same show ?thesis
    by (intro exI [of _ "if ns then ?s else s"] exI [of _ ?x] exI [of _ ?st])
      (simp add: ikcp_flush_seg_def d seg_wire_def Let_def)
qed

section \<open>Datagrams handed to the callback\<close>

text \<open>
  A property of byte blocks that an encoding can be appended to whenever the loop does so:
  to an empty block, or to a block that leaves room for it.
\<close>

definition put_closed :: "(bytes \<Rightarrow> bool) \<Rightarrow> u32 \<Rightarrow> int \<Rightarrow> bytes \<Rightarrow> bool" where
  "put_closed Q mtu need enc \<longleftrightarrow>
     Q enc \<and> (\<forall>p. Q p \<and> int (length p) + need \<le> sint mtu \<longrightarrow> Q (p @ enc))"

definition out_all :: "(bytes \<Rightarrow> bool) \<Rightarrow> ikcp_out \<Rightarrow> bool" where
  "out_all Q ob \<longleftrightarrow> (\<forall>d\<in>set (fst ob). Q d) \<and> Q (snd ob)"

lemma out_all_put:
  assumes "out_all Q ob" "put_closed Q mtu need enc"
  shows "out_all Q (ikcp_put mtu need enc ob)"
  using assms
  by (cases ob) (auto simp: ikcp_put_def ikcp_make_room_def ikcp_output_def out_all_def put_closed_def)

lemma out_all_acks:
  assumes "out_all Q ob"
    and "\<And>s. sg_conv s = sg_conv seg \<Longrightarrow> sg_cmd s = sg_cmd seg \<Longrightarrow> sg_frg s = sg_frg seg \<Longrightarrow>
           sg_len s = sg_len seg \<Longrightarrow> sg_data s = sg_data seg \<Longrightarrow>
           put_closed Q (k_mtu kcp) 24 (ikcp_encode_seg s)"
  shows "out_all Q (snd (ikcp_flush_acks kcp seg is ob)) \<and>
    (\<exists>sn ts. fst (ikcp_flush_acks kcp seg is ob) = seg\<lparr>sg_sn := sn, sg_ts := ts\<rparr>)"
  using assms
proof (induction kcp seg "is" ob rule: ikcp_flush_acks.induct)
  case (1 kcp seg ob)
  then show ?case by (cases seg) simp
next
  case (2 kcp seg i "is" ob)
  obtain sn ts where a: "ikcp_ack_get kcp i = (sn, ts)" by (cases "ikcp_ack_get kcp i")
  let ?seg = "seg\<lparr>sg_sn := sn, sg_ts := ts\<rparr>"
  have "out_all Q (ikcp_put (k_mtu kcp) 24 (ikcp_encode_seg ?seg) ob)"
    using 2 by (intro out_all_put) auto
  then have "out_all Q (snd (ikcp_flush_acks kcp ?seg is (ikcp_put (k_mtu kcp) 24 (ikcp_encode_seg ?seg) ob))) \<and>
    (\<exists>sn ts. fst (ikcp_flush_acks kcp ?seg is (ikcp_put (k_mtu kcp) 24 (ikcp_encode_seg ?seg) ob)) =
      ?seg\<lparr>sg_sn := sn, sg_ts := ts\<rparr>)"
    using 2 a by (intro "2.IH") auto
  then show ?case using a by (auto simp: Let_def)
qed

text \<open>A control segment of a flush: no payload, not a push.\<close>

definition ctl_seg :: "u32 \<Rightarrow> ikcpseg \<Rightarrow> bool" where
  "ctl_seg conv s \<longleftrightarrow> sg_conv s = conv \<and> sg_cmd s \<in> {IKCP_CMD_ACK, IKCP_CMD_WASK, IKCP_CMD_WINS} \<and>
     sg_frg s = 0 \<and> sg_len s = 0 \<and> sg_data s = []"

lemma out_all_control:
  assumes "Q []" "\<And>s. ctl_seg (k_conv kcp) s \<Longrightarrow> put_closed Q (k_mtu kcp) 24 (ikcp_encode_seg s)"
    and "ctl_seg (k_conv kcp) seg" "sg_cmd seg = IKCP_CMD_ACK"
  shows "out_all Q (snd (ikcp_flush_control kcp seg))"
proof -
  let ?acks = "ikcp_flush_acks kcp seg [0..<unat (k_ackcount kcp)] ([], [])"
  have a: "out_all Q (snd ?acks)"
    and b: "\<exists>sn ts. fst ?acks = seg\<lparr>sg_sn := sn, sg_ts := ts\<rparr>"
    using out_all_acks [of Q "([], [])" seg kcp "[0..<unat (k_ackcount kcp)]"] assms
    by (auto simp: out_all_def ctl_seg_def)
  obtain w t p where fr: "ikcp_flush_probe (kcp\<lparr>k_ackcount := 0\<rparr>) =
      kcp\<lparr>k_ackcount := 0, k_probe_wait := w, k_ts_probe := t, k_probe := p\<rparr>"
    using ikcp_flush_probe_frame by blast
  have wask: "put_closed Q (k_mtu kcp) 24 (ikcp_encode_seg ((fst ?acks)\<lparr>sg_cmd := IKCP_CMD_WASK\<rparr>))"
    and wins: "put_closed Q (k_mtu kcp) 24 (ikcp_encode_seg ((fst ?acks)\<lparr>sg_cmd := IKCP_CMD_WINS\<rparr>))"
    using b assms(2,3) by (auto simp: ctl_seg_def)
  show ?thesis
    using a wask wins
    by (auto simp: ikcp_flush_control_def Let_def fr split: prod.splits intro!: out_all_put)
qed

lemma flush_seg_fold:
  assumes "out_all Q (fl_out fl)"
    and "\<And>s s'. s \<in> set segs \<Longrightarrow> seg_same s s' \<Longrightarrow>
       put_closed Q (k_mtu (fl_kcp fl)) (sint (IKCP_OVERHEAD + sg_len s')) (seg_wire s')"
  shows "let fl' = fold (ikcp_flush_seg current resent rtomin wnd) segs fl in
    out_all Q (fl_out fl') \<and>
    (\<exists>done'. fl_done fl' = fl_done fl @ done' \<and> list_all2 seg_same segs done') \<and>
    (\<exists>x st. fl_kcp fl' = (fl_kcp fl)\<lparr>k_xmit := x, k_state := st\<rparr>)"
  using assms
proof (induction segs arbitrary: fl)
  case Nil
  have "fl_kcp fl = (fl_kcp fl)\<lparr>k_xmit := k_xmit (fl_kcp fl), k_state := k_state (fl_kcp fl)\<rparr>" by simp
  then have "\<exists>x st. fl_kcp fl = (fl_kcp fl)\<lparr>k_xmit := x, k_state := st\<rparr>" by blast
  with Nil show ?case by simp
next
  case (Cons s segs)
  let ?fl = "ikcp_flush_seg current resent rtomin wnd s fl"
  obtain s' x st where st: "seg_same s s'" "fl_done ?fl = fl_done fl @ [s']"
    "fl_kcp ?fl = (fl_kcp fl)\<lparr>k_xmit := x, k_state := st\<rparr>"
    "fl_out ?fl = fl_out fl \<or> fl_out ?fl =
        ikcp_put (k_mtu (fl_kcp fl)) (sint (IKCP_OVERHEAD + sg_len s')) (seg_wire s') (fl_out fl)"
    using ikcp_flush_seg_step by blast
  have out: "out_all Q (fl_out ?fl)"
    using st Cons.prems(1) Cons.prems(2) [of s s'] by (auto intro: out_all_put)
  have "let fl' = fold (ikcp_flush_seg current resent rtomin wnd) segs ?fl in
    out_all Q (fl_out fl') \<and>
    (\<exists>done'. fl_done fl' = fl_done ?fl @ done' \<and> list_all2 seg_same segs done') \<and>
    (\<exists>x st. fl_kcp fl' = (fl_kcp ?fl)\<lparr>k_xmit := x, k_state := st\<rparr>)"
    using out Cons.prems st(3) by (intro Cons.IH) auto
  then show ?case
    using st by (auto simp: Let_def)
qed

section \<open>From the queue to the buffer\<close>

text \<open>\<open>new\<close> is the queued segment \<open>old\<close> after it got the sequence number \<open>sn\<close>.\<close>

definition seg_numbered :: "u32 \<Rightarrow> u32 \<Rightarrow> ikcpseg \<Rightarrow> ikcpseg \<Rightarrow> bool" where
  "seg_numbered conv sn old new \<longleftrightarrow> sg_conv new = conv \<and> sg_cmd new = IKCP_CMD_PUSH \<and>
     sg_sn new = sn \<and> sg_frg new = sg_frg old \<and> sg_len new = sg_len old \<and> sg_data new = sg_data old"

lemma ikcp_flush_move_spec:
  "\<exists>k new. k \<le> length q \<and> length new = k \<and>
     ikcp_flush_move cwnd wnd current q kcp = kcp\<lparr>
       k_snd_queue := drop k q, k_snd_buf := k_snd_buf kcp @ new,
       k_nsnd_que := k_nsnd_que kcp - of_nat k, k_nsnd_buf := k_nsnd_buf kcp + of_nat k,
       k_snd_nxt := k_snd_nxt kcp + of_nat k\<rparr> \<and>
     (\<forall>i<k. seg_numbered (k_conv kcp) (k_snd_nxt kcp + of_nat i) (q ! i) (new ! i))"
proof (induction q arbitrary: kcp)
  case Nil
  then show ?case by simp
next
  case (Cons s q)
  show ?case
  proof (cases "ikcp_itimediff (k_snd_nxt kcp) (k_snd_una kcp + cwnd) < 0")
    case False
    then show ?thesis by (intro exI [of _ 0] exI [of _ "[]"]) simp
  next
    case True
    let ?new = "s\<lparr>sg_conv := k_conv kcp, sg_cmd := IKCP_CMD_PUSH, sg_wnd := wnd,
              sg_ts := current, sg_sn := k_snd_nxt kcp, sg_una := k_rcv_nxt kcp,
              sg_resendts := current, sg_rto := word_of_int (k_rx_rto kcp),
              sg_fastack := 0, sg_xmit := 0\<rparr>"
    let ?kcp = "kcp\<lparr>k_snd_buf := k_snd_buf kcp @ [?new], k_nsnd_que := k_nsnd_que kcp - 1,
             k_nsnd_buf := k_nsnd_buf kcp + 1, k_snd_nxt := k_snd_nxt kcp + 1\<rparr>"
    obtain k new where ih: "k \<le> length q" "length new = k"
      "ikcp_flush_move cwnd wnd current q ?kcp = ?kcp\<lparr>
         k_snd_queue := drop k q, k_snd_buf := k_snd_buf ?kcp @ new,
         k_nsnd_que := k_nsnd_que ?kcp - of_nat k, k_nsnd_buf := k_nsnd_buf ?kcp + of_nat k,
         k_snd_nxt := k_snd_nxt ?kcp + of_nat k\<rparr>"
      "\<forall>i<k. seg_numbered (k_conv ?kcp) (k_snd_nxt ?kcp + of_nat i) (q ! i) (new ! i)"
      using Cons.IH by blast
    have "seg_numbered (k_conv kcp) (k_snd_nxt kcp + of_nat i) ((s # q) ! i) ((?new # new) ! i)"
      if "i < Suc k" for i
      using that ih(4) by (cases i) (auto simp: seg_numbered_def add.assoc)
    moreover have "ikcp_flush_move cwnd wnd current (s # q) kcp = kcp\<lparr>
       k_snd_queue := drop (Suc k) (s # q), k_snd_buf := k_snd_buf kcp @ ?new # new,
       k_nsnd_que := k_nsnd_que kcp - of_nat (Suc k), k_nsnd_buf := k_nsnd_buf kcp + of_nat (Suc k),
       k_snd_nxt := k_snd_nxt kcp + of_nat (Suc k)\<rparr>"
      using True ih(3) by (simp add: Let_def algebra_simps)
    ultimately show ?thesis
      using ih(1,2) by (intro exI [of _ "Suc k"] exI [of _ "?new # new"]) auto
  qed
qed

section \<open>The whole flush\<close>

text \<open>The control block between the move of new segments and the transmission loop.\<close>

definition ikcp_flush_ack_seg :: "ikcpcb \<Rightarrow> ikcpseg" where
  "ikcp_flush_ack_seg kcp = ikcp_segment_new\<lparr>sg_conv := k_conv kcp, sg_cmd := IKCP_CMD_ACK, sg_frg := 0,
     sg_wnd := word_of_int (ikcp_wnd_unused kcp), sg_una := k_rcv_nxt kcp, sg_len := 0, sg_sn := 0,
     sg_ts := 0\<rparr>"

definition ikcp_flush_moved :: "ikcpcb \<Rightarrow> ikcpcb" where
  "ikcp_flush_moved kcp =
     (let kcp1 = fst (ikcp_flush_control kcp (ikcp_flush_ack_seg kcp))
      in ikcp_flush_move (ikcp_flush_cwnd kcp1) (word_of_int (ikcp_wnd_unused kcp)) (k_current kcp)
           (k_snd_queue kcp1) kcp1)"

lemma ikcp_flush_moved_spec:
  "\<exists>k new w t. k \<le> length (k_snd_queue kcp) \<and> length new = k \<and>
     ikcp_flush_moved kcp = kcp\<lparr>
       k_ackcount := 0, k_probe_wait := w, k_ts_probe := t, k_probe := 0,
       k_snd_queue := drop k (k_snd_queue kcp), k_snd_buf := k_snd_buf kcp @ new,
       k_nsnd_que := k_nsnd_que kcp - of_nat k, k_nsnd_buf := k_nsnd_buf kcp + of_nat k,
       k_snd_nxt := k_snd_nxt kcp + of_nat k\<rparr> \<and>
     (\<forall>i<k. seg_numbered (k_conv kcp) (k_snd_nxt kcp + of_nat i) (k_snd_queue kcp ! i) (new ! i))"
proof -
  obtain w t where c: "fst (ikcp_flush_control kcp (ikcp_flush_ack_seg kcp)) =
      kcp\<lparr>k_ackcount := 0, k_probe_wait := w, k_ts_probe := t, k_probe := 0\<rparr>" (is "_ = ?kcp")
    using ikcp_flush_control_frame by blast
  obtain k new where "k \<le> length (k_snd_queue ?kcp)" "length new = k"
    "ikcp_flush_moved kcp = ?kcp\<lparr>
       k_snd_queue := drop k (k_snd_queue ?kcp), k_snd_buf := k_snd_buf ?kcp @ new,
       k_nsnd_que := k_nsnd_que ?kcp - of_nat k, k_nsnd_buf := k_nsnd_buf ?kcp + of_nat k,
       k_snd_nxt := k_snd_nxt ?kcp + of_nat k\<rparr>"
    "\<forall>i<k. seg_numbered (k_conv ?kcp) (k_snd_nxt ?kcp + of_nat i) (k_snd_queue ?kcp ! i) (new ! i)"
    using ikcp_flush_move_spec [of "k_snd_queue ?kcp" "ikcp_flush_cwnd ?kcp"
        "word_of_int (ikcp_wnd_unused kcp)" "k_current kcp" ?kcp]
    unfolding ikcp_flush_moved_def c Let_def by blast
  then show ?thesis
    by (intro exI [of _ k] exI [of _ new] exI [of _ w] exI [of _ t]) simp
qed

lemma ikcp_flush_shape:
  assumes "k_updated kcp \<noteq> 0" "Q []"
    and ctl: "\<And>s. ctl_seg (k_conv kcp) s \<Longrightarrow> put_closed Q (k_mtu kcp) 24 (ikcp_encode_seg s)"
    and seg: "\<And>s s'. s \<in> set (k_snd_buf (ikcp_flush_moved kcp)) \<Longrightarrow> seg_same s s' \<Longrightarrow>
      put_closed Q (k_mtu kcp) (sint (IKCP_OVERHEAD + sg_len s')) (seg_wire s')"
  shows "(\<forall>d\<in>set (fst (ikcp_flush kcp)). Q d) \<and>
    (\<exists>x st buf s c i. list_all2 seg_same (k_snd_buf (ikcp_flush_moved kcp)) buf \<and>
       snd (ikcp_flush kcp) = (ikcp_flush_moved kcp)\<lparr>k_xmit := x, k_state := st, k_snd_buf := buf,
          k_ssthresh := s, k_cwnd := c, k_incr := i\<rparr>)"
proof -
  let ?seg = "ikcp_flush_ack_seg kcp"
  let ?ctl = "ikcp_flush_control kcp ?seg" and ?kcp = "ikcp_flush_moved kcp"
  have "ctl_seg (k_conv kcp) ?seg" "sg_cmd ?seg = IKCP_CMD_ACK"
    by (simp_all add: ctl_seg_def ikcp_flush_ack_seg_def ikcp_segment_new_def)
  then have ob: "out_all Q (snd ?ctl)"
    using assms(2) ctl by (intro out_all_control) auto
  obtain w t where c: "fst ?ctl = kcp\<lparr>k_ackcount := 0, k_probe_wait := w, k_ts_probe := t, k_probe := 0\<rparr>"
    using ikcp_flush_control_frame by blast
  have mtu: "k_mtu ?kcp = k_mtu kcp"
    using ikcp_flush_moved_spec [of kcp] by auto
  define resent where
    "resent = (if k_fastresend ?kcp > 0 then word_of_int (k_fastresend ?kcp) else 0xffffffff :: u32)"
  define rtomin where
    "rtomin = (if k_nodelay ?kcp = 0 then word_of_int (k_rx_rto ?kcp div 8) else 0 :: u32)"
  let ?fl0 = "\<lparr>fl_kcp = ?kcp, fl_done = [], fl_out = snd ?ctl, fl_change = 0, fl_lost = False\<rparr>"
  define fl where "fl = fold (ikcp_flush_seg (k_current kcp) resent rtomin
      (word_of_int (ikcp_wnd_unused kcp))) (k_snd_buf ?kcp) ?fl0"
  have loop: "out_all Q (fl_out fl)"
      "\<exists>buf. fl_done fl = buf \<and> list_all2 seg_same (k_snd_buf ?kcp) buf"
      "\<exists>x st. fl_kcp fl = ?kcp\<lparr>k_xmit := x, k_state := st\<rparr>"
    using flush_seg_fold [of Q ?fl0 "k_snd_buf ?kcp" "k_current kcp" resent rtomin
        "word_of_int (ikcp_wnd_unused kcp)"] ob seg
    by (auto simp: Let_def fl_def mtu)
  have run: "ikcp_flush kcp = (fst (fl_out fl) @ ikcp_output (snd (fl_out fl)),
      ikcp_flush_window (fl_change fl) (fl_lost fl) resent (ikcp_flush_cwnd (fst ?ctl))
        ((fl_kcp fl)\<lparr>k_snd_buf := fl_done fl\<rparr>))"
    using assms(1)
    unfolding ikcp_flush_def fl_def resent_def rtomin_def ikcp_flush_moved_def
      ikcp_flush_ack_seg_def Let_def case_prod_beta
    by (simp only: if_False)
  have out: "\<forall>d\<in>set (fst (ikcp_flush kcp)). Q d"
    using loop(1) unfolding run by (auto simp: out_all_def ikcp_output_def)
  obtain s c i where win: "snd (ikcp_flush kcp) =
      ((fl_kcp fl)\<lparr>k_snd_buf := fl_done fl\<rparr>)\<lparr>k_ssthresh := s, k_cwnd := c, k_incr := i\<rparr>"
    using ikcp_flush_window_frame [of "fl_change fl" "fl_lost fl" resent
        "ikcp_flush_cwnd (fst ?ctl)" "(fl_kcp fl)\<lparr>k_snd_buf := fl_done fl\<rparr>"]
    unfolding run snd_conv by blast
  obtain x st where "fl_kcp fl = ?kcp\<lparr>k_xmit := x, k_state := st\<rparr>"
    using loop(3) by blast
  note win [unfolded this]
  with out loop(2) show ?thesis by blast
qed

text \<open>The last stage works on the control block after the move, up to the transmission fields.\<close>

lemma ikcp_flush_last:
  assumes "k_updated kcp \<noteq> 0"
  shows "\<exists>change lost resent cwnd k. snd (ikcp_flush kcp) = ikcp_flush_window change lost resent cwnd k \<and>
    k_ssthresh k = k_ssthresh (ikcp_flush_moved kcp) \<and> k_snd_nxt k = k_snd_nxt (ikcp_flush_moved kcp) \<and>
    k_snd_una k = k_snd_una (ikcp_flush_moved kcp)"
proof -
  let ?kcp = "ikcp_flush_moved kcp" and ?wnd = "word_of_int (ikcp_wnd_unused kcp)"
  let ?ctl = "ikcp_flush_control kcp (ikcp_flush_ack_seg kcp)"
  define resent where
    "resent = (if k_fastresend ?kcp > 0 then word_of_int (k_fastresend ?kcp) else 0xffffffff :: u32)"
  define rtomin where
    "rtomin = (if k_nodelay ?kcp = 0 then word_of_int (k_rx_rto ?kcp div 8) else 0 :: u32)"
  let ?start = "\<lparr>fl_kcp = ?kcp, fl_done = [], fl_out = snd ?ctl, fl_change = 0, fl_lost = False\<rparr>"
  define fl where "fl = fold (ikcp_flush_seg (k_current kcp) resent rtomin ?wnd) (k_snd_buf ?kcp) ?start"
  have run: "snd (ikcp_flush kcp) = ikcp_flush_window (fl_change fl) (fl_lost fl) resent
      (ikcp_flush_cwnd (fst ?ctl)) ((fl_kcp fl)\<lparr>k_snd_buf := fl_done fl\<rparr>)"
    using assms
    unfolding ikcp_flush_def fl_def resent_def rtomin_def ikcp_flush_moved_def
      ikcp_flush_ack_seg_def Let_def case_prod_beta
    by (simp only: if_False snd_conv)
  have "\<exists>x st. fl_kcp fl = ?kcp\<lparr>k_xmit := x, k_state := st\<rparr>"
    using flush_seg_fold [of "\<lambda>_. True" ?start "k_snd_buf ?kcp" "k_current kcp" resent rtomin ?wnd]
    by (auto simp: Let_def fl_def out_all_def put_closed_def)
  then obtain x st where fk: "fl_kcp fl = ?kcp\<lparr>k_xmit := x, k_state := st\<rparr>" by blast
  show ?thesis
    by (rule exI, rule exI, rule exI, rule exI, rule exI, rule conjI [OF run]) (simp add: fk)
qed

lemma ikcp_flush_idle: "k_updated kcp = 0 \<Longrightarrow> ikcp_flush kcp = ([], kcp)"
  by (simp add: ikcp_flush_def)

section \<open>Size of the datagrams\<close>

text \<open>Every segment that waits for transmission fits one datagram.\<close>

definition snd_fit :: "ikcpcb \<Rightarrow> bool" where
  "snd_fit kcp \<longleftrightarrow> k_mtu kcp = k_mss kcp + IKCP_OVERHEAD \<and>
     24 < k_mtu kcp \<and> k_mtu kcp < 2 ^ 29 \<and>
     k_buflen kcp = 3 * (unat (k_mtu kcp) + 24) \<and>
     (\<forall>s\<in>set (k_snd_queue kcp @ k_snd_buf kcp). seg_ok s \<and> sg_len s \<le> k_mss kcp)"

lemma snd_fit_mss:
  assumes "k_mtu kcp = k_mss kcp + IKCP_OVERHEAD" "24 < unat (k_mtu kcp)"
  shows "unat (k_mss kcp) + 24 = unat (k_mtu kcp)"
proof -
  have "k_mss kcp = k_mtu kcp - 24" using assms(1) by (simp add: IKCP_OVERHEAD_def)
  then show ?thesis using assms(2) by (simp add: unat_sub word_le_nat_alt)
qed

lemma snd_fit_moved:
  assumes "snd_fit kcp" "s \<in> set (k_snd_buf (ikcp_flush_moved kcp))"
  shows "seg_ok s \<and> sg_len s \<le> k_mss kcp"
proof -
  obtain k new w t where m: "k \<le> length (k_snd_queue kcp)" "length new = k"
    "ikcp_flush_moved kcp = kcp\<lparr>
       k_ackcount := 0, k_probe_wait := w, k_ts_probe := t, k_probe := 0,
       k_snd_queue := drop k (k_snd_queue kcp), k_snd_buf := k_snd_buf kcp @ new,
       k_nsnd_que := k_nsnd_que kcp - of_nat k, k_nsnd_buf := k_nsnd_buf kcp + of_nat k,
       k_snd_nxt := k_snd_nxt kcp + of_nat k\<rparr>"
    "\<forall>i<k. seg_numbered (k_conv kcp) (k_snd_nxt kcp + of_nat i) (k_snd_queue kcp ! i) (new ! i)"
    using ikcp_flush_moved_spec [of kcp] by blast
  show ?thesis
  proof (cases "s \<in> set (k_snd_buf kcp)")
    case True
    then show ?thesis using assms(1) by (auto simp: snd_fit_def)
  next
    case False
    then obtain i where "i < k" "s = new ! i"
      using assms(2) m(2,3) by (auto simp: in_set_conv_nth)
    moreover have "k_snd_queue kcp ! i \<in> set (k_snd_queue kcp)"
      using \<open>i < k\<close> m(1) by simp
    ultimately show ?thesis
      using m(4) assms(1) unfolding snd_fit_def seg_numbered_def seg_ok_def by simp
  qed
qed

text \<open>What a flush writes into a datagram keeps the datagram within the MTU.\<close>

lemma snd_fit_puts:
  assumes "snd_fit kcp"
  shows "put_closed (\<lambda>d. length d \<le> unat (k_mtu kcp)) (k_mtu kcp) 24 (ikcp_encode_seg c)"
    and "s \<in> set (k_snd_buf (ikcp_flush_moved kcp)) \<Longrightarrow> seg_same s s' \<Longrightarrow>
      put_closed (\<lambda>d. length d \<le> unat (k_mtu kcp)) (k_mtu kcp) (sint (IKCP_OVERHEAD + sg_len s')) (seg_wire s')"
proof -
  have mt: "24 < unat (k_mtu kcp)" "unat (k_mtu kcp) < 2 ^ 29"
    and eq: "k_mtu kcp = k_mss kcp + IKCP_OVERHEAD"
    using assms unfolding snd_fit_def by (auto simp only: word_less_nat_alt) simp_all
  have mtu: "sint (k_mtu kcp) = int (unat (k_mtu kcp))" "24 < unat (k_mtu kcp)"
    using mt sint_unat32 [of "k_mtu kcp"] by simp_all
  have mss: "unat (k_mss kcp) + 24 = unat (k_mtu kcp)"
    by (rule snd_fit_mss [OF eq mt(1)])
  show "put_closed (\<lambda>d. length d \<le> unat (k_mtu kcp)) (k_mtu kcp) 24 (ikcp_encode_seg c)"
    using mtu by (auto simp: put_closed_def simp del: of_nat_unat)
  assume s: "s \<in> set (k_snd_buf (ikcp_flush_moved kcp))" "seg_same s s'"
  have len: "seg_ok s'" "unat (sg_len s') \<le> unat (k_mss kcp)"
    using snd_fit_moved [OF assms s(1)] s(2)
    by (auto simp: seg_same_def seg_ok_def word_le_nat_alt)
  have lt: "24 + unat (sg_len s') < 2 ^ 29"
    using len mss mt by simp
  then have "unat (IKCP_OVERHEAD + sg_len s') = 24 + unat (sg_len s')"
    by (simp add: IKCP_OVERHEAD_def unat_word_ariths)
  then have "sint (IKCP_OVERHEAD + sg_len s') = 24 + int (unat (sg_len s'))"
    using lt by (simp add: sint_unat32)
  then show "put_closed (\<lambda>d. length d \<le> unat (k_mtu kcp)) (k_mtu kcp) (sint (IKCP_OVERHEAD + sg_len s')) (seg_wire s')"
    using len mtu mss by (auto simp: put_closed_def seg_wire_def seg_ok_def simp del: of_nat_unat)
qed

lemma snd_fit_same:
  assumes "snd_fit kcp" "list_all2 seg_same (k_snd_buf (ikcp_flush_moved kcp)) buf"
  shows "snd_fit ((ikcp_flush_moved kcp)\<lparr>k_xmit := x, k_state := st, k_snd_buf := buf, k_ssthresh := t, k_cwnd := c, k_incr := i\<rparr>)"
proof -
  obtain k where mv: "k_mtu (ikcp_flush_moved kcp) = k_mtu kcp"
      "k_mss (ikcp_flush_moved kcp) = k_mss kcp" "k_buflen (ikcp_flush_moved kcp) = k_buflen kcp"
      "k_snd_queue (ikcp_flush_moved kcp) = drop k (k_snd_queue kcp)"
    using ikcp_flush_moved_spec [of kcp] by auto
  have "seg_ok s' \<and> sg_len s' \<le> k_mss kcp" if mem: "s' \<in> set buf" for s'
  proof -
    obtain s where "s \<in> set (k_snd_buf (ikcp_flush_moved kcp))" "seg_same s s'"
      using list_all2_setD [OF assms(2) mem] by blast
    then show ?thesis
      using snd_fit_moved [OF assms(1)] by (simp add: seg_same_def seg_ok_def)
  qed
  then show ?thesis using assms(1) by (auto simp: snd_fit_def mv dest: in_set_dropD)
qed



end
