(* ===== verification/Ikcp_Sender.thy ===== *)
theory Ikcp_Sender
  imports Ikcp_Flush
begin

text \<open>
  The invariant of a sending endpoint in message mode: every segment in the send buffer is
  one of the fragments the user queued, under the sequence number that is its position in
  the stream of all fragments. It survives every operation and every input, whatever bytes
  the network delivers, and it describes what a flush puts on the wire.
\<close>

section \<open>The invariant\<close>

text \<open>\<open>sent\<close> lists the fragments queued since the control block was created.\<close>

definition seg_sent :: "u32 \<Rightarrow> item list \<Rightarrow> ikcpseg \<Rightarrow> bool" where
  "seg_sent conv sent s \<longleftrightarrow> sg_conv s = conv \<and> sg_cmd s = IKCP_CMD_PUSH \<and> seg_fit s \<and>
     (\<exists>i<length sent. sg_sn s = of_nat i \<and> seg_item s = sent ! i)"

definition snd_inv :: "u32 \<Rightarrow> item list \<Rightarrow> ikcpcb \<Rightarrow> bool" where
  "snd_inv conv sent kcp \<longleftrightarrow> k_conv kcp = conv \<and> k_stream kcp = 0 \<and> 0 < sint (k_mss kcp) \<and>
     (\<forall>s\<in>set (k_snd_queue kcp). seg_fit s) \<and>
     (\<exists>N\<le>length sent. k_snd_nxt kcp = of_nat N \<and> map seg_item (k_snd_queue kcp) = drop N sent \<and>
        (\<forall>s\<in>set (k_snd_buf kcp). seg_sent conv (take N sent) s))"

lemma seg_sent_same: "seg_sent conv sent s \<Longrightarrow> seg_same s s' \<Longrightarrow> seg_sent conv sent s'"
  by (simp add: seg_sent_def seg_same_def seg_fit_def seg_ok_def seg_item_def)

lemma seg_sent_extend: "seg_sent conv sent s \<Longrightarrow> seg_sent conv (sent @ later) s"
  by (auto simp: seg_sent_def nth_append intro: less_imp_le trans_less_add1)

lemma seg_sent_take: "seg_sent conv (take n sent) s \<Longrightarrow> seg_sent conv sent s"
  using seg_sent_extend [of conv "take n sent" s "drop n sent"] by simp

text \<open>
  The sending fields of \<open>kcp'\<close> are those of \<open>kcp\<close>, except that the buffer may have lost
  segments and its transmission fields may have changed.
\<close>

definition snd_le :: "ikcpcb \<Rightarrow> ikcpcb \<Rightarrow> bool" where
  "snd_le kcp kcp' \<longleftrightarrow> k_conv kcp' = k_conv kcp \<and> k_stream kcp' = k_stream kcp \<and>
     k_mss kcp' = k_mss kcp \<and> k_snd_queue kcp' = k_snd_queue kcp \<and> k_snd_nxt kcp' = k_snd_nxt kcp \<and>
     (\<forall>s'\<in>set (k_snd_buf kcp'). \<exists>s\<in>set (k_snd_buf kcp). seg_same s s')"

lemma snd_leI:
  "k_conv kcp' = k_conv kcp \<Longrightarrow> k_stream kcp' = k_stream kcp \<Longrightarrow> k_mss kcp' = k_mss kcp \<Longrightarrow>
   k_snd_queue kcp' = k_snd_queue kcp \<Longrightarrow> k_snd_nxt kcp' = k_snd_nxt kcp \<Longrightarrow>
   set (k_snd_buf kcp') \<subseteq> set (k_snd_buf kcp) \<Longrightarrow> snd_le kcp kcp'"
  unfolding snd_le_def using seg_same_refl by blast

lemma snd_le_refl [simp]: "snd_le kcp kcp"
  by (rule snd_leI) auto

lemma snd_le_trans: "snd_le a b \<Longrightarrow> snd_le b c \<Longrightarrow> snd_le a c"
  unfolding snd_le_def using seg_same_trans by metis

lemma snd_inv_le:
  assumes "snd_inv conv sent kcp" "snd_le kcp kcp'"
  shows "snd_inv conv sent kcp'"
proof -
  obtain N where N: "N \<le> length sent" "k_snd_nxt kcp = of_nat N"
    "map seg_item (k_snd_queue kcp) = drop N sent"
    "\<forall>s\<in>set (k_snd_buf kcp). seg_sent conv (take N sent) s"
    using assms(1) unfolding snd_inv_def by blast
  have "\<forall>s\<in>set (k_snd_buf kcp'). seg_sent conv (take N sent) s"
    using assms(2) N(4) seg_sent_same unfolding snd_le_def by blast
  then show ?thesis
    using assms N unfolding snd_inv_def snd_le_def by auto
qed

lemma snd_inv_create: "snd_inv conv [] (ikcp_create conv)"
  by (simp add: snd_inv_def ikcp_create_def ikcp_consts)

section \<open>Sending\<close>

lemma snd_inv_send_frags:
  assumes "snd_inv conv sent kcp" "length buffer < 2 ^ 31"
    and "ikcp_send kcp buffer (int (length buffer)) = (0, kcp')"
  shows "snd_inv conv (sent @ frags (nat (sint (k_mss kcp))) buffer) kcp' \<and>
    whole_message (frags (nat (sint (k_mss kcp))) buffer)"
proof -
  let ?m = "nat (sint (k_mss kcp))"
  let ?fs = "frags ?m buffer"
  have st: "k_stream kcp = 0" "0 < sint (k_mss kcp)" using assms(1) by (auto simp: snd_inv_def)
  note send = ikcp_send_message [OF st assms(2)]
  have short: "length ?fs < 128" and kcp': "kcp' = kcp\<lparr>k_snd_queue := k_snd_queue kcp @ map frag_seg ?fs,
                   k_nsnd_que := k_nsnd_que kcp + of_nat (length ?fs)\<rparr>"
    using assms(3) unfolding send Let_def by (auto split: if_splits)
  have m: "?m < 2 ^ 31" "0 < ?m" using sint_lt [of "k_mss kcp"] st(2) by auto
  have whole: "whole_message ?fs"
    using short by (intro whole_message_frags) (simp add: frags_def Let_def)
  have fit: "\<forall>it\<in>set ?fs. seg_fit (frag_seg it) \<and> seg_item (frag_seg it) = it"
    using seg_fit_frag [OF m] short by simp
  obtain N where N: "N \<le> length sent" "k_snd_nxt kcp = of_nat N"
    "map seg_item (k_snd_queue kcp) = drop N sent"
    "\<forall>s\<in>set (k_snd_buf kcp). seg_sent conv (take N sent) s"
    using assms(1) unfolding snd_inv_def by blast
  have "map (seg_item \<circ> frag_seg) ?fs = ?fs" using fit by (simp add: map_idI)
  then have q: "map seg_item (k_snd_queue kcp') = drop N (sent @ ?fs)"
    using N by (simp add: kcp')
  have "snd_inv conv (sent @ ?fs) kcp'"
    unfolding snd_inv_def
  proof (intro conjI exI [of _ N])
    show "\<forall>s\<in>set (k_snd_queue kcp'). seg_fit s" using assms(1) fit by (auto simp: snd_inv_def kcp')
    show "\<forall>s\<in>set (k_snd_buf kcp'). seg_sent conv (take N (sent @ ?fs)) s" using N by (simp add: kcp')
  qed (use assms(1) q N in \<open>simp_all add: snd_inv_def kcp'\<close>)
  with whole show ?thesis by blast
qed

section \<open>Flushing\<close>

lemma snd_inv_moved:
  assumes "snd_inv conv sent kcp"
  shows "snd_inv conv sent (ikcp_flush_moved kcp)"
proof -
  obtain k new w t where m: "k \<le> length (k_snd_queue kcp)" "length new = k"
    "ikcp_flush_moved kcp = kcp\<lparr>
       k_ackcount := 0, k_probe_wait := w, k_ts_probe := t, k_probe := 0,
       k_snd_queue := drop k (k_snd_queue kcp), k_snd_buf := k_snd_buf kcp @ new,
       k_nsnd_que := k_nsnd_que kcp - of_nat k, k_nsnd_buf := k_nsnd_buf kcp + of_nat k,
       k_snd_nxt := k_snd_nxt kcp + of_nat k\<rparr>"
    "\<forall>i<k. seg_numbered (k_conv kcp) (k_snd_nxt kcp + of_nat i) (k_snd_queue kcp ! i) (new ! i)"
    using ikcp_flush_moved_spec [of kcp] by blast
  obtain N where N: "N \<le> length sent" "k_snd_nxt kcp = of_nat N"
    "map seg_item (k_snd_queue kcp) = drop N sent"
    "\<forall>s\<in>set (k_snd_buf kcp). seg_sent conv (take N sent) s"
    using assms unfolding snd_inv_def by blast
  have fit: "\<forall>s\<in>set (k_snd_queue kcp). seg_fit s" and conv: "k_conv kcp = conv"
    using assms by (simp_all add: snd_inv_def)
  have len: "N + k \<le> length sent"
    using m(1) N(1) arg_cong [OF N(3), of length] by simp
  have new: "seg_sent conv (take (N + k) sent) s" if mem: "s \<in> set new" for s
  proof -
    obtain i where i: "i < k" "s = new ! i" using mem m(2) by (auto simp: in_set_conv_nth)
    then have num: "seg_numbered conv (of_nat (N + i)) (k_snd_queue kcp ! i) s"
      using m(4) N(2) conv by simp
    have "seg_item s = seg_item (k_snd_queue kcp ! i)"
      using num by (simp add: seg_numbered_def seg_item_def)
    also have "\<dots> = drop N sent ! i"
      using i(1) m(1) unfolding N(3) [symmetric] by simp
    also have "\<dots> = take (N + k) sent ! (N + i)"
      using i(1) len by simp
    finally have "seg_item s = take (N + k) sent ! (N + i)" .
    moreover have "seg_fit s"
      using num fit i(1) m(1) by (simp add: seg_numbered_def seg_fit_def seg_ok_def)
    ultimately show ?thesis
      using num i(1) len unfolding seg_sent_def seg_numbered_def
      by (intro conjI exI [of _ "N + i"]) simp_all
  qed
  have old: "seg_sent conv (take (N + k) sent) s" if "s \<in> set (k_snd_buf kcp)" for s
    using N(4) that seg_sent_extend [of conv "take N sent" s "take k (drop N sent)"]
    by (simp add: take_add)
  show ?thesis
    unfolding snd_inv_def
  proof (intro conjI exI [of _ "N + k"])
    show "\<forall>s\<in>set (k_snd_queue (ikcp_flush_moved kcp)). seg_fit s"
      using fit by (auto simp: m(3) dest: in_set_dropD)
    show "map seg_item (k_snd_queue (ikcp_flush_moved kcp)) = drop (N + k) sent"
      by (simp add: m(3) drop_map [symmetric] N(3) add.commute)
    show "\<forall>s\<in>set (k_snd_buf (ikcp_flush_moved kcp)). seg_sent conv (take (N + k) sent) s"
      using new old by (auto simp: m(3))
  qed (use assms N(2) len in \<open>simp_all add: snd_inv_def m(3)\<close>)
qed

text \<open>
  A datagram as the receiver may rely on it: a sequence of segments of this conversation in
  which every push is a queued fragment under its own number.
\<close>

definition seg_genuine :: "u32 \<Rightarrow> item list \<Rightarrow> ikcpseg \<Rightarrow> bool" where
  "seg_genuine conv sent s \<longleftrightarrow> seg_sent conv sent s \<or> ctl_seg conv s"

definition dgram_genuine :: "u32 \<Rightarrow> item list \<Rightarrow> bytes \<Rightarrow> bool" where
  "dgram_genuine conv sent d \<longleftrightarrow>
     (\<exists>segs. d = concat (map seg_wire segs) \<and> (\<forall>s\<in>set segs. seg_genuine conv sent s))"

lemma dgram_genuine_extend: "dgram_genuine conv sent d \<Longrightarrow> dgram_genuine conv (sent @ later) d"
  unfolding dgram_genuine_def seg_genuine_def using seg_sent_extend by blast

lemma put_closed_genuine:
  assumes "seg_genuine conv sent s"
  shows "put_closed (dgram_genuine conv sent) mtu need (seg_wire s)"
proof -
  have "dgram_genuine conv sent (p @ seg_wire s)" if p: "dgram_genuine conv sent p" for p
  proof -
    obtain segs where "p = concat (map seg_wire segs)" "\<forall>s\<in>set segs. seg_genuine conv sent s"
      using p unfolding dgram_genuine_def by blast
    then show ?thesis
      using assms unfolding dgram_genuine_def by (intro exI [of _ "segs @ [s]"]) auto
  qed
  moreover have "dgram_genuine conv sent []"
    unfolding dgram_genuine_def by (rule exI [of _ "[]"]) simp
  ultimately show ?thesis unfolding put_closed_def by (metis append_Nil)
qed

lemma ctl_seg_wire: "ctl_seg conv s \<Longrightarrow> seg_wire s = ikcp_encode_seg s"
  by (simp add: ctl_seg_def seg_wire_def seg_bytes_def)

lemma snd_inv_flush:
  assumes "snd_inv conv sent kcp"
  shows "snd_inv conv sent (snd (ikcp_flush kcp)) \<and>
    (\<forall>d\<in>set (fst (ikcp_flush kcp)). dgram_genuine conv sent d)"
proof (cases "k_updated kcp = 0")
  case True
  then show ?thesis using assms by (simp add: ikcp_flush_idle)
next
  case False
  let ?m = "ikcp_flush_moved kcp"
  have conv: "k_conv kcp = conv" using assms by (simp add: snd_inv_def)
  note moved = snd_inv_moved [OF assms]
  have sent: "seg_sent conv sent s" if "s \<in> set (k_snd_buf ?m)" for s
    using moved that seg_sent_take unfolding snd_inv_def by blast
  have ctl: "put_closed (dgram_genuine conv sent) (k_mtu kcp) 24 (ikcp_encode_seg s)"
    if "ctl_seg (k_conv kcp) s" for s
    using that put_closed_genuine [of conv sent s] ctl_seg_wire [of conv s]
    by (simp add: conv seg_genuine_def)
  have seg: "put_closed (dgram_genuine conv sent) (k_mtu kcp) (sint (IKCP_OVERHEAD + sg_len s')) (seg_wire s')"
    if "s \<in> set (k_snd_buf ?m)" "seg_same s s'" for s s'
    using seg_sent_same [OF sent [OF that(1)] that(2)]
    by (intro put_closed_genuine) (simp add: seg_genuine_def)
  have "dgram_genuine conv sent []"
    unfolding dgram_genuine_def by (rule exI [of _ "[]"]) simp
  note nil = this
  have shape: "(\<forall>d\<in>set (fst (ikcp_flush kcp)). dgram_genuine conv sent d) \<and>
    (\<exists>x st buf s c i. list_all2 seg_same (k_snd_buf ?m) buf \<and>
       snd (ikcp_flush kcp) = ?m\<lparr>k_xmit := x, k_state := st, k_snd_buf := buf,
          k_ssthresh := s, k_cwnd := c, k_incr := i\<rparr>)"
    by (rule ikcp_flush_shape [OF False nil ctl seg])
  then obtain x st buf s c i where buf: "list_all2 seg_same (k_snd_buf ?m) buf" and
    res: "snd (ikcp_flush kcp) = ?m\<lparr>k_xmit := x, k_state := st, k_snd_buf := buf,
          k_ssthresh := s, k_cwnd := c, k_incr := i\<rparr>"
    by blast
  have "snd_inv conv sent (snd (ikcp_flush kcp))"
    using list_all2_setD [OF buf] unfolding res by (intro snd_inv_le [OF moved]) (auto simp: snd_le_def)
  with shape show ?thesis by blast
qed

section \<open>Input and the other operations\<close>

lemma ikcp_una_loop_suffix: "set (fst (ikcp_una_loop una buf n)) \<subseteq> set buf"
  by (induction una buf n rule: ikcp_una_loop.induct) auto

lemma ikcp_ack_remove_subset: "set (snd (ikcp_ack_remove sn buf)) \<subseteq> set buf"
  by (induction sn buf rule: ikcp_ack_remove.induct) (auto split: prod.splits)

lemma ikcp_fastack_loop_same: "list_all2 seg_same buf (ikcp_fastack_loop sn buf)"
  by (induction sn buf rule: ikcp_fastack_loop.induct) (auto simp: seg_same_def list_all2_refl)

lemma snd_le_parse_una: "snd_le kcp (ikcp_parse_una kcp una)"
  using ikcp_una_loop_suffix [of una "k_snd_buf kcp" "k_nsnd_buf kcp"]
  by (intro snd_leI) (auto simp: ikcp_parse_una_def split: prod.splits)

lemma snd_le_shrink_buf: "snd_le kcp (ikcp_shrink_buf kcp)"
  by (rule snd_leI) (auto simp: ikcp_shrink_buf_def split: list.splits)

lemma snd_le_update_ack: "snd_le kcp (ikcp_update_ack kcp rtt)"
  by (rule snd_leI) (simp_all add: ikcp_update_ack_def Let_def case_prod_beta)

lemma snd_le_parse_ack: "snd_le kcp (ikcp_parse_ack kcp sn)"
  using ikcp_ack_remove_subset [of sn "k_snd_buf kcp"]
  by (intro snd_leI) (auto simp: ikcp_parse_ack_def split: prod.splits)

lemma snd_le_parse_fastack: "snd_le kcp (ikcp_parse_fastack kcp sn ts)"
  using list_all2_setD [OF ikcp_fastack_loop_same [of "k_snd_buf kcp" sn]]
  by (cases "ikcp_parse_fastack kcp sn ts = kcp") (auto simp: snd_le_def ikcp_parse_fastack_def)

lemma snd_le_ack_push: "snd_le kcp (ikcp_ack_push kcp sn ts)"
  by (rule snd_leI) (simp_all add: ikcp_ack_push_def Let_def)

lemma snd_le_move_rcv: "snd_le kcp (ikcp_move_rcv buf kcp)"
proof (induction buf kcp rule: ikcp_move_rcv.induct)
  case (2 seg buf kcp)
  let ?kcp = "kcp\<lparr>k_nrcv_buf := k_nrcv_buf kcp - 1, k_rcv_queue := k_rcv_queue kcp @ [seg],
             k_nrcv_que := k_nrcv_que kcp + 1, k_rcv_nxt := k_rcv_nxt kcp + 1\<rparr>"
  have "snd_le kcp ?kcp" by (rule snd_leI) simp_all
  moreover have "snd_le kcp (kcp\<lparr>k_rcv_buf := seg # buf\<rparr>)" by (rule snd_leI) simp_all
  ultimately show ?case using 2 snd_le_trans by auto
qed (rule snd_leI, simp_all)

lemma snd_le_parse_data: "snd_le kcp (ikcp_parse_data kcp seg)"
proof -
  have "snd_le kcp (kcp\<lparr>k_rcv_buf := b, k_nrcv_buf := n\<rparr>)" for b n
    by (rule snd_leI) simp_all
  then have "snd_le kcp (ikcp_move_rcv c (kcp\<lparr>k_rcv_buf := b, k_nrcv_buf := n\<rparr>))" for b n c
    by (rule snd_le_trans [OF _ snd_le_move_rcv])
  then show ?thesis
    by (auto simp: ikcp_parse_data_def Let_def snd_le_move_rcv split: option.splits)
qed

lemma snd_le_input_push: "snd_le kcp (ikcp_input_push h payload kcp)"
  unfolding ikcp_input_push_def Let_def
  by (auto intro: snd_le_trans [OF snd_le_ack_push snd_le_parse_data] snd_le_ack_push)

lemma snd_le_input_ack: "snd_le (in_kcp st) (in_kcp (ikcp_input_ack h st))"
proof -
  let ?k = "if ikcp_itimediff (k_current (in_kcp st)) (h_ts h) \<ge> 0
    then ikcp_update_ack (in_kcp st) (ikcp_itimediff (k_current (in_kcp st)) (h_ts h)) else in_kcp st"
  have "snd_le (in_kcp st) ?k" by (simp add: snd_le_update_ack)
  moreover have "snd_le ?k (ikcp_shrink_buf (ikcp_parse_ack ?k (h_sn h)))"
    by (rule snd_le_trans [OF snd_le_parse_ack snd_le_shrink_buf])
  ultimately have "snd_le (in_kcp st) (ikcp_shrink_buf (ikcp_parse_ack ?k (h_sn h)))"
    by (rule snd_le_trans)
  moreover have "in_kcp (ikcp_input_ack h st) = ikcp_shrink_buf (ikcp_parse_ack ?k (h_sn h))"
    unfolding ikcp_input_ack_def Let_def by simp
  ultimately show ?thesis by simp
qed

lemma snd_le_input_seg:
  "case ikcp_input_seg h payload st of
     Inl e \<Rightarrow> snd_le (in_kcp st) (snd e) | Inr st' \<Rightarrow> snd_le (in_kcp st) (in_kcp st')"
proof -
  let ?base = "(in_kcp st)\<lparr>k_rmt_wnd := ucast (h_wnd h)\<rparr>"
  let ?k = "ikcp_shrink_buf (ikcp_parse_una ?base (h_una h))"
  have "snd_le (in_kcp st) ?base" by (rule snd_leI) simp_all
  from snd_le_trans [OF this snd_le_trans [OF snd_le_parse_una snd_le_shrink_buf]]
  have k: "snd_le (in_kcp st) ?k" .
  have ack: "snd_le (in_kcp st) (in_kcp (ikcp_input_ack h (st\<lparr>in_kcp := ?k, in_cmd := h_cmd h\<rparr>)))"
    using snd_le_trans [OF k] snd_le_input_ack [of "st\<lparr>in_kcp := ?k, in_cmd := h_cmd h\<rparr>" h] by simp
  have push: "snd_le (in_kcp st) (ikcp_input_push h payload ?k)"
    by (rule snd_le_trans [OF k snd_le_input_push])
  have "snd_le ?k (?k\<lparr>k_probe := p\<rparr>)" for p by (rule snd_leI) simp_all
  then have wask: "snd_le (in_kcp st) (?k\<lparr>k_probe := p\<rparr>)" for p by (rule snd_le_trans [OF k])
  show ?thesis
    unfolding ikcp_input_seg_def Let_def using k ack push wask by simp
qed

lemma snd_le_input_loop:
  "case ikcp_input_loop data st of
     Inl e \<Rightarrow> snd_le (in_kcp st) (snd e) | Inr st' \<Rightarrow> snd_le (in_kcp st) (in_kcp st')"
proof (induction data st rule: ikcp_input_loop.induct)
  case (1 data st)
  let ?h = "ikcp_decode_header data"
  show ?case
  proof (cases "length data < 24")
    case True
    then show ?thesis by (simp add: ikcp_input_loop.simps)
  next
    case False
    show ?thesis
    proof (cases "ikcp_input_seg ?h (drop 24 data) st")
      case (Inl e)
      then show ?thesis
        using False snd_le_input_seg [of st ?h "drop 24 data"]
        by (simp add: ikcp_input_loop.simps [of data] Let_def)
    next
      case (Inr st')
      have step: "snd_le (in_kcp st) (in_kcp st')"
        using Inr snd_le_input_seg [of st ?h "drop 24 data"] by simp
      have eq: "ikcp_input_loop data st = ikcp_input_loop (drop (unat (h_len ?h)) (drop 24 data)) st'"
        using False Inr by (simp add: ikcp_input_loop.simps [of data] Let_def)
      have "case ikcp_input_loop (drop (unat (h_len ?h)) (drop 24 data)) st' of
         Inl e \<Rightarrow> snd_le (in_kcp st') (snd e) | Inr st'' \<Rightarrow> snd_le (in_kcp st') (in_kcp st'')"
        using "1.IH" [OF False refl Inr] by simp
      then show ?thesis
        unfolding eq using snd_le_trans [OF step] by (auto split: sum.splits)
    qed
  qed
qed

lemma snd_le_input_cwnd: "snd_le kcp (ikcp_input_cwnd una kcp)"
  by (rule snd_leI) (simp_all add: ikcp_input_cwnd_def Let_def)

lemma snd_le_input: "snd_le kcp (snd (ikcp_input kcp dat))"
proof (cases dat)
  case None
  then show ?thesis by (simp add: ikcp_input_def)
next
  case (Some data)
  let ?st = "\<lparr>in_kcp = kcp, in_flag = False, in_maxack = 0, in_latest_ts = 0, in_cmd = 0\<rparr>"
  have loop: "case ikcp_input_loop data ?st of
     Inl e \<Rightarrow> snd_le kcp (snd e) | Inr st' \<Rightarrow> snd_le kcp (in_kcp st')"
    using snd_le_input_loop [of ?st data] by (auto split: sum.splits)
  show ?thesis
  proof (cases "ikcp_input_loop data ?st")
    case (Inl e)
    then show ?thesis using loop Some by (simp add: ikcp_input_def)
  next
    case (Inr st)
    let ?k = "if in_flag st then ikcp_parse_fastack (in_kcp st) (in_maxack st) (in_latest_ts st)
      else in_kcp st"
    have "snd_le kcp (in_kcp st)" using loop Inr by simp
    moreover have "snd_le (in_kcp st) ?k" by (simp add: snd_le_parse_fastack)
    ultimately have "snd_le kcp (ikcp_input_cwnd (k_snd_una kcp) ?k)"
      using snd_le_trans snd_le_input_cwnd by blast
    then show ?thesis using Inr Some by (simp add: ikcp_input_def Let_def)
  qed
qed

lemma snd_le_recv: "snd_le kcp (snd (snd (ikcp_recv kcp len)))"
proof -
  have k: "snd_le kcp (kcp\<lparr>k_rcv_queue := q, k_nrcv_que := n\<rparr>)" for q n
    by (rule snd_leI) simp_all
  have m: "snd_le kcp (ikcp_move_rcv b (kcp\<lparr>k_rcv_queue := q, k_nrcv_que := n\<rparr>))" for b q n
    by (rule snd_le_trans [OF k snd_le_move_rcv])
  have "snd_le a (a\<lparr>k_probe := p\<rparr>)" for a p by (rule snd_leI) simp_all
  then have p: "snd_le kcp ((ikcp_move_rcv b (kcp\<lparr>k_rcv_queue := q, k_nrcv_que := n\<rparr>))\<lparr>k_probe := x\<rparr>)" for b q n x
    by (rule snd_le_trans [OF m])
  show ?thesis
    unfolding ikcp_recv_def Let_def case_prod_beta by (simp add: m p)
qed

text \<open>\<^verbatim>\<open>ikcp_update\<close> is a change of the clock fields followed by a flush or nothing.\<close>

lemma ikcp_update_shape:
  "\<exists>c u t. ikcp_update kcp current = ikcp_flush (kcp\<lparr>k_current := c, k_updated := u, k_ts_flush := t\<rparr>) \<or>
     ikcp_update kcp current = ([], kcp\<lparr>k_current := c, k_updated := u, k_ts_flush := t\<rparr>)"
proof -
  define k0 where "k0 = kcp\<lparr>k_current := current\<rparr>"
  define k1 where "k1 = (if k_updated k0 = 0 then k0\<lparr>k_updated := 1, k_ts_flush := k_current k0\<rparr> else k0)"
  have k1: "\<exists>u t. k1\<lparr>k_ts_flush := x\<rparr> = kcp\<lparr>k_current := current, k_updated := u, k_ts_flush := t\<rparr>" for x
    by (rule exI [of _ "k_updated k1"], rule exI [of _ x]) (simp add: k1_def k0_def)
  define slap where "slap = ikcp_itimediff (k_current k1) (k_ts_flush k1)"
  define k2 where "k2 = (if slap \<ge> 10000 \<or> slap < -10000 then k1\<lparr>k_ts_flush := k_current k1\<rparr> else k1)"
  have k2: "\<exists>t. k2\<lparr>k_ts_flush := x\<rparr> = k1\<lparr>k_ts_flush := t\<rparr>" "\<exists>t. k2 = k1\<lparr>k_ts_flush := t\<rparr>" for x
    by (rule exI [of _ x], simp add: k2_def, rule exI [of _ "k_ts_flush k2"], simp add: k2_def)
  have "ikcp_update kcp current =
    (let kcp = k2; slap = (if slap \<ge> 10000 \<or> slap < -10000 then 0 else slap)
     in if slap \<ge> 0 then
          let kcp = kcp\<lparr>k_ts_flush := k_ts_flush kcp + k_interval kcp\<rparr>;
              kcp = (if ikcp_itimediff (k_current kcp) (k_ts_flush kcp) \<ge> 0
                     then kcp\<lparr>k_ts_flush := k_current kcp + k_interval kcp\<rparr> else kcp)
          in ikcp_flush kcp
        else ([], kcp))"
    unfolding ikcp_update_def k0_def [symmetric]
    unfolding Let_def k1_def [symmetric] slap_def [symmetric] k2_def
    by (cases "slap \<ge> 10000 \<or> slap < -10000") (simp_all only: if_True if_False split)
  then have "\<exists>t. ikcp_update kcp current = ikcp_flush (k2\<lparr>k_ts_flush := t\<rparr>) \<or>
      ikcp_update kcp current = ([], k2)"
    unfolding Let_def by (auto split: if_splits)
  then obtain t where t: "ikcp_update kcp current = ikcp_flush (k2\<lparr>k_ts_flush := t\<rparr>) \<or>
      ikcp_update kcp current = ([], k2)" by blast
  show ?thesis
    using t k1 k2 by metis
qed

lemma ikcp_update_cases:
  obtains kcp' where "snd_le kcp kcp'" "k_rcv_nxt kcp' = k_rcv_nxt kcp" "k_rcv_queue kcp' = k_rcv_queue kcp"
    "k_rcv_buf kcp' = k_rcv_buf kcp" "k_nrcv_que kcp' = k_nrcv_que kcp" "k_nrcv_buf kcp' = k_nrcv_buf kcp"
    "k_rcv_wnd kcp' = k_rcv_wnd kcp"
    "ikcp_update kcp current = ikcp_flush kcp' \<or> ikcp_update kcp current = ([], kcp')"
proof -
  let ?P = "\<lambda>kcp'. snd_le kcp kcp' \<and> k_rcv_nxt kcp' = k_rcv_nxt kcp \<and> k_rcv_queue kcp' = k_rcv_queue kcp \<and>
    k_rcv_buf kcp' = k_rcv_buf kcp \<and> k_nrcv_que kcp' = k_nrcv_que kcp \<and> k_nrcv_buf kcp' = k_nrcv_buf kcp \<and>
    k_rcv_wnd kcp' = k_rcv_wnd kcp"
  have upd: "?P (kcp\<lparr>k_current := c, k_updated := u, k_ts_flush := t\<rparr>)" for c u t
    by (simp add: snd_leI)
  obtain c u t' where r: "ikcp_update kcp current = ikcp_flush (kcp\<lparr>k_current := c, k_updated := u, k_ts_flush := t'\<rparr>) \<or>
      ikcp_update kcp current = ([], kcp\<lparr>k_current := c, k_updated := u, k_ts_flush := t'\<rparr>)"
    using ikcp_update_shape by blast
  show thesis
    by (rule that [of "kcp\<lparr>k_current := c, k_updated := u, k_ts_flush := t'\<rparr>"])
      (use upd r in \<open>blast+\<close>)
qed

lemma snd_inv_update:
  assumes "snd_inv conv sent kcp"
  shows "snd_inv conv sent (snd (ikcp_update kcp current)) \<and>
    (\<forall>d\<in>set (fst (ikcp_update kcp current)). dgram_genuine conv sent d)"
proof -
  obtain kcp' where k: "snd_le kcp kcp'"
    "ikcp_update kcp current = ikcp_flush kcp' \<or> ikcp_update kcp current = ([], kcp')"
    using ikcp_update_cases by blast
  have "snd_inv conv sent kcp'" by (rule snd_inv_le [OF assms k(1)])
  from k(2) this snd_inv_flush [OF this] show ?thesis by auto
qed

lemma snd_le_nodelay: "snd_le kcp (snd (ikcp_nodelay kcp nodelay interval resend nc))"
  by (rule snd_leI) (simp_all add: ikcp_nodelay_def Let_def)

lemma snd_le_wndsize: "snd_le kcp (snd (ikcp_wndsize kcp sndwnd rcvwnd))"
  by (rule snd_leI) (simp_all add: ikcp_wndsize_def Let_def)

lemma snd_inv_setmtu:
  assumes "snd_inv conv sent kcp" "mtu < 2 ^ 31"
  shows "snd_inv conv sent (snd (ikcp_setmtu alloc kcp mtu))"
proof (cases "fst (ikcp_setmtu alloc kcp mtu) = 0")
  case True
  then have m: "50 \<le> mtu" by (auto simp: ikcp_setmtu_def split: if_splits)
  have "sint (word_of_int mtu - IKCP_OVERHEAD) = sint (word_of_int (mtu - 24) :: u32)"
    by (simp add: IKCP_OVERHEAD_def)
  also have "\<dots> = mtu - 24"
    using m assms(2) by (simp add: signed_of_int signed_take_bit_int_eq_self del: of_int_diff)
  finally show ?thesis
    using assms(1) m by (auto simp: snd_inv_def ikcp_setmtu_def)
next
  case False
  then show ?thesis using assms(1) by (auto simp: ikcp_setmtu_def split: if_splits)
qed

end
