(* ===== verification/Ikcp_Recv.thy ===== *)
theory Ikcp_Recv
  imports Ikcp_Sender
begin

text \<open>
  The receiving half of KCP. A receiver that is fed segments of one stream, each under its
  own number, in any order and any number of times, keeps a prefix of the stream: what it
  has handed over, what waits in the queue, and beyond it the out-of-order segments, sorted
  and without duplicates. The sequence numbers wrap around; positions in the stream do not.
\<close>

section \<open>Numbers near each other\<close>

lemma sdiff_near:
  assumes "- (2 ^ 31) \<le> int i - int j" "int i - int j < 2 ^ 31"
  shows "sdiff (of_nat i) (of_nat j) = int i - int j"
proof -
  have "of_nat i - of_nat j = (word_of_int (int i - int j) :: u32)" by simp
  then have "sdiff (of_nat i) (of_nat j) = signed_take_bit 31 (int i - int j)"
    by (simp add: sdiff_def signed_of_int del: of_int_diff)
  then show ?thesis using assms by (simp add: signed_take_bit_int_eq_self)
qed

lemma of_nat_near:
  assumes "(of_nat i :: u32) = of_nat j" "- (2 ^ 31) \<le> int i - int j" "int i - int j < 2 ^ 31"
  shows "i = j"
  using sdiff_near [OF assms(2,3)] assms(1) by simp

section \<open>The invariant\<close>

text \<open>Segment \<open>s\<close> carries the fragment at position \<open>i\<close> of the stream.\<close>

definition seg_at :: "item list \<Rightarrow> nat \<Rightarrow> ikcpseg \<Rightarrow> bool" where
  "seg_at sent i s \<longleftrightarrow> i < length sent \<and> sg_sn s = of_nat i \<and> seg_item s = sent ! i \<and> seg_fit s"

text \<open>
  \<open>m\<close> fragments have been taken by the user and \<open>n\<close> received in order; the out-of-order
  buffer \<open>buf\<close> holds positions from \<open>n\<close> up to \<open>U\<close>.
\<close>

definition rcv_rel :: "item list \<Rightarrow> nat \<Rightarrow> nat \<Rightarrow> nat \<Rightarrow> ikcpseg list \<Rightarrow> ikcpcb \<Rightarrow> bool" where
  "rcv_rel sent U m n buf kcp \<longleftrightarrow>
     k_rcv_nxt kcp = of_nat n \<and> m \<le> n \<and> n \<le> length sent \<and>
     map seg_item (k_rcv_queue kcp) = drop m (take n sent) \<and> (\<forall>s\<in>set (k_rcv_queue kcp). seg_fit s) \<and>
     k_nrcv_que kcp = of_nat (length (k_rcv_queue kcp)) \<and> length (k_rcv_queue kcp) \<le> 2 ^ 29 \<and>
     k_nrcv_buf kcp = of_nat (length buf) \<and>
     unat (k_rcv_wnd kcp) \<le> 2 ^ 29 \<and> n \<le> U \<and> U \<le> n + 2 ^ 29 \<and>
     (\<exists>is. sorted_wrt (<) is \<and> (\<forall>i\<in>set is. n \<le> i \<and> i < U) \<and> list_all2 (seg_at sent) is buf)"

definition rcv_inv :: "item list \<Rightarrow> nat \<Rightarrow> nat \<Rightarrow> nat \<Rightarrow> ikcpcb \<Rightarrow> bool" where
  "rcv_inv sent U m n kcp \<longleftrightarrow> rcv_rel sent U m n (k_rcv_buf kcp) kcp"

lemma seg_at_extend: "seg_at sent i s \<Longrightarrow> seg_at (sent @ later) i s"
  by (simp add: seg_at_def nth_append)

lemma rcv_inv_extend: "rcv_inv sent U m n kcp \<Longrightarrow> rcv_inv (sent @ later) U m n kcp"
  unfolding rcv_inv_def rcv_rel_def
  by (auto intro: list_all2_mono seg_at_extend)

lemma rcv_inv_create: "rcv_inv [] U 0 0 (ikcp_create conv)" if "U \<le> 2 ^ 29"
  using that by (simp add: rcv_inv_def rcv_rel_def ikcp_create_def ikcp_consts)

text \<open>The receiving fields, which the sending operations do not touch.\<close>

definition rcv_same :: "ikcpcb \<Rightarrow> ikcpcb \<Rightarrow> bool" where
  "rcv_same kcp kcp' \<longleftrightarrow> k_rcv_nxt kcp' = k_rcv_nxt kcp \<and> k_rcv_queue kcp' = k_rcv_queue kcp \<and>
     k_rcv_buf kcp' = k_rcv_buf kcp \<and> k_nrcv_que kcp' = k_nrcv_que kcp \<and>
     k_nrcv_buf kcp' = k_nrcv_buf kcp \<and> k_rcv_wnd kcp' = k_rcv_wnd kcp"

lemma rcv_same_refl [simp]: "rcv_same kcp kcp"
  by (simp add: rcv_same_def)

lemma rcv_same_trans: "rcv_same a b \<Longrightarrow> rcv_same b c \<Longrightarrow> rcv_same a c"
  by (simp add: rcv_same_def)

lemma rcv_inv_same: "rcv_inv sent U m n kcp \<Longrightarrow> rcv_same kcp kcp' \<Longrightarrow> rcv_inv sent U m n kcp'"
  by (simp add: rcv_inv_def rcv_rel_def rcv_same_def)

section \<open>In-order delivery to the queue\<close>

lemma rcv_rel_move:
  assumes "rcv_rel sent U m n buf kcp"
  shows "\<exists>n'\<ge>n. rcv_inv sent U m n' (ikcp_move_rcv buf kcp)"
  using assms
proof (induction buf kcp arbitrary: n rule: ikcp_move_rcv.induct)
  case (1 kcp)
  then show ?case by (auto simp: rcv_inv_def rcv_rel_def)
next
  case (2 seg buf kcp)
  show ?case
  proof (cases "sg_sn seg = k_rcv_nxt kcp \<and> k_nrcv_que kcp < k_rcv_wnd kcp")
    case False
    then have "ikcp_move_rcv (seg # buf) kcp = kcp\<lparr>k_rcv_buf := seg # buf\<rparr>"
      by (simp only: ikcp_move_rcv.simps if_False)
    then have "rcv_inv sent U m n (ikcp_move_rcv (seg # buf) kcp)"
      using "2.prems" by (simp add: rcv_inv_def rcv_rel_def)
    then show ?thesis by blast
  next
    case True
    obtain "is" where ix: "sorted_wrt (<) is" "\<forall>i\<in>set is. n \<le> i \<and> i < U"
      "list_all2 (seg_at sent) is (seg # buf)"
      using "2.prems" by (auto simp: rcv_rel_def)
    then obtain i js where "is": "is = i # js" "seg_at sent i seg" "list_all2 (seg_at sent) js buf"
      by (auto simp: list_all2_Cons2)
    have "i = n"
      using True "is" ix(2) "2.prems"
      by (intro of_nat_near) (auto simp: seg_at_def rcv_rel_def)
    then have n: "seg_at sent n seg" "\<forall>j\<in>set js. Suc n \<le> j \<and> j < U" "sorted_wrt (<) js" "n < U"
      using ix "is" by (auto simp: Suc_le_eq)
    let ?kcp = "kcp\<lparr>k_nrcv_buf := k_nrcv_buf kcp - 1, k_rcv_queue := k_rcv_queue kcp @ [seg],
             k_nrcv_que := k_nrcv_que kcp + 1, k_rcv_nxt := k_rcv_nxt kcp + 1\<rparr>"
    have "drop m (take (Suc n) sent) = drop m (take n sent) @ [sent ! n]"
      using n(1) "2.prems" by (simp add: seg_at_def rcv_rel_def take_Suc_conv_app_nth)
    moreover have "length (k_rcv_queue kcp) < 2 ^ 29"
    proof -
      have q: "k_nrcv_que kcp = of_nat (length (k_rcv_queue kcp))" "length (k_rcv_queue kcp) \<le> 2 ^ 29"
        "unat (k_rcv_wnd kcp) \<le> 2 ^ 29" using "2.prems" by (auto simp: rcv_rel_def)
      have "unat (k_nrcv_que kcp) < unat (k_rcv_wnd kcp)" using True by (simp add: word_less_nat_alt)
      then show ?thesis using q by (simp add: unat_of_nat32)
    qed
    ultimately have "rcv_rel sent U m (Suc n) buf ?kcp"
      using "2.prems" n "is"(3) by (auto simp: rcv_rel_def seg_at_def)
    then obtain n' where "n' \<ge> Suc n" "rcv_inv sent U m n' (ikcp_move_rcv buf ?kcp)"
      using "2.IH" True by blast
    with True show ?thesis by (intro exI [of _ n']) simp
  qed
qed

section \<open>Insertion of an out-of-order segment\<close>

lemma ikcp_insert_rev_spec:
  assumes "sorted_wrt (>) js" "list_all2 (seg_at sent) js rbuf" "seg_at sent i s"
    and "\<forall>j\<in>set js. \<bar>int i - int j\<bar> < 2 ^ 31"
  shows "case ikcp_insert_rev s rbuf of
      None \<Rightarrow> i \<in> set js
    | Some rbuf' \<Rightarrow> \<exists>js'. sorted_wrt (>) js' \<and> set js' = insert i (set js) \<and> length rbuf' = Suc (length rbuf) \<and>
        list_all2 (seg_at sent) js' rbuf'"
  using assms
proof (induction s rbuf arbitrary: js rule: ikcp_insert_rev.induct)
  case (1 s)
  then show ?case by (auto intro: exI [of _ "[i]"])
next
  case (2 s t rbuf)
  obtain j ks where js: "js = j # ks" "seg_at sent j t" "list_all2 (seg_at sent) ks rbuf"
    using "2.prems"(2) by (auto simp: list_all2_Cons2)
  have near: "\<bar>int i - int j\<bar> < 2 ^ 31" using "2.prems"(4) js by simp
  have sn: "sg_sn s = of_nat i" "sg_sn t = of_nat j" using "2.prems"(3) js by (auto simp: seg_at_def)
  have eq: "sg_sn t = sg_sn s \<longleftrightarrow> j = i"
    using of_nat_near [of j i] near sn by auto
  have gt: "ikcp_itimediff (sg_sn s) (sg_sn t) > 0 \<longleftrightarrow> i > j"
    using near by (simp add: sn ikcp_itimediff_def sdiff_near)
  consider "j = i" | "i > j" | "i < j" by linarith
  then show ?case
  proof cases
    case 1
    then show ?thesis using js eq by simp
  next
    case 2
    then have "sorted_wrt (>) (i # js)" using "2.prems"(1) js by auto
    with 2 show ?thesis using js eq gt "2.prems"(2,3) by (auto intro!: exI [of _ "i # js"])
  next
    case 3
    have ih: "case ikcp_insert_rev s rbuf of
      None \<Rightarrow> i \<in> set ks
    | Some rbuf' \<Rightarrow> \<exists>js'. sorted_wrt (>) js' \<and> set js' = insert i (set ks) \<and> length rbuf' = Suc (length rbuf) \<and>
        list_all2 (seg_at sent) js' rbuf'"
      using 3 eq gt js "2.prems" by (intro "2.IH") auto
    show ?thesis
    proof (cases "ikcp_insert_rev s rbuf")
      case None
      then show ?thesis using ih 3 eq gt js by simp
    next
      case (Some rb)
      then obtain js' where "sorted_wrt (>) js'" "set js' = insert i (set ks)"
        "length rb = Suc (length rbuf)" "list_all2 (seg_at sent) js' rb" using ih by auto
      with Some 3 eq gt js "2.prems"(1) show ?thesis
        by (auto intro!: exI [of _ "j # js'"])
    qed
  qed
qed

lemma rcv_inv_parse_data:
  assumes "rcv_inv sent U m n kcp" "seg_at sent i s" "i < U" "n < i + 2 ^ 30"
  shows "\<exists>n'\<ge>n. rcv_inv sent U m n' (ikcp_parse_data kcp s)"
proof -
  have inv: "k_rcv_nxt kcp = of_nat n" "U \<le> n + 2 ^ 29" "unat (k_rcv_wnd kcp) \<le> 2 ^ 29"
    using assms(1) by (auto simp: rcv_inv_def rcv_rel_def)
  have sn: "sg_sn s = of_nat i" using assms(2) by (simp add: seg_at_def)
  have lo: "ikcp_itimediff (sg_sn s) (k_rcv_nxt kcp) < 0 \<longleftrightarrow> i < n"
    using assms(3,4) inv by (simp add: sn ikcp_itimediff_def sdiff_near)
  show ?thesis
  proof (cases "ikcp_itimediff (sg_sn s) (k_rcv_nxt kcp + k_rcv_wnd kcp) \<ge> 0 \<or> i < n")
    case True
    then have "ikcp_parse_data kcp s = kcp" by (auto simp: ikcp_parse_data_def lo)
    with assms(1) show ?thesis by auto
  next
    case False
    then have "n \<le> i" by simp
    obtain "is" where ix: "sorted_wrt (<) is" "\<forall>j\<in>set is. n \<le> j \<and> j < U"
      "list_all2 (seg_at sent) is (k_rcv_buf kcp)"
      using assms(1) unfolding rcv_inv_def rcv_rel_def by blast
    have rev: "sorted_wrt (>) (rev is)" "list_all2 (seg_at sent) (rev is) (rev (k_rcv_buf kcp))"
      "\<forall>j\<in>set (rev is). \<bar>int i - int j\<bar> < 2 ^ 31"
      using ix \<open>n \<le> i\<close> assms(3) inv(2) by (auto simp: sorted_wrt_rev)
    note ins = ikcp_insert_rev_spec [OF rev(1,2) assms(2) rev(3)]
    show ?thesis
    proof (cases "ikcp_insert_rev s (rev (k_rcv_buf kcp))")
      case None
      then have "ikcp_parse_data kcp s = ikcp_move_rcv (k_rcv_buf kcp) kcp"
        using False by (simp add: ikcp_parse_data_def lo)
      then show ?thesis using rcv_rel_move assms(1) by (simp add: rcv_inv_def)
    next
      case (Some rb)
      then obtain js where js: "sorted_wrt (>) js" "set js = insert i (set is)"
        "length rb = Suc (length (k_rcv_buf kcp))" "list_all2 (seg_at sent) js rb"
        using ins by auto
      let ?kcp = "kcp\<lparr>k_rcv_buf := rev rb, k_nrcv_buf := k_nrcv_buf kcp + 1\<rparr>"
      have "sorted_wrt (<) (rev js)" "\<forall>j\<in>set (rev js). n \<le> j \<and> j < U"
        "list_all2 (seg_at sent) (rev js) (rev rb)"
        using js ix \<open>n \<le> i\<close> assms(3) by (auto simp: sorted_wrt_rev)
      moreover have "k_nrcv_buf kcp + 1 = of_nat (length (rev rb))"
        using assms(1) js(3) by (simp add: rcv_inv_def rcv_rel_def)
      ultimately have "rcv_rel sent U m n (rev rb) ?kcp"
        using assms(1) unfolding rcv_inv_def rcv_rel_def by auto
      moreover have "ikcp_parse_data kcp s = ikcp_move_rcv (rev rb) ?kcp"
        using False Some by (simp add: ikcp_parse_data_def lo)
      ultimately show ?thesis using rcv_rel_move by simp
    qed
  qed
qed

section \<open>Input of a datagram\<close>

lemma rcv_same_parse_una: "rcv_same kcp (ikcp_parse_una kcp una)"
  by (simp add: rcv_same_def ikcp_parse_una_def case_prod_beta)

lemma rcv_same_shrink_buf: "rcv_same kcp (ikcp_shrink_buf kcp)"
  by (simp add: rcv_same_def ikcp_shrink_buf_def split: list.split)

lemma rcv_same_update_ack: "rcv_same kcp (ikcp_update_ack kcp rtt)"
  by (simp add: rcv_same_def ikcp_update_ack_def Let_def case_prod_beta)

lemma rcv_same_parse_ack: "rcv_same kcp (ikcp_parse_ack kcp sn)"
  by (simp add: rcv_same_def ikcp_parse_ack_def case_prod_beta)

lemma rcv_same_parse_fastack: "rcv_same kcp (ikcp_parse_fastack kcp sn ts)"
  by (simp add: rcv_same_def ikcp_parse_fastack_def)

lemma rcv_same_ack_push: "rcv_same kcp (ikcp_ack_push kcp sn ts)"
  by (simp add: rcv_same_def ikcp_ack_push_def Let_def)

lemma rcv_same_input_cwnd: "rcv_same kcp (ikcp_input_cwnd una kcp)"
  by (simp add: rcv_same_def ikcp_input_cwnd_def Let_def)

lemma rcv_same_input_ack: "rcv_same (in_kcp st) (in_kcp (ikcp_input_ack h st))"
proof -
  let ?k = "if ikcp_itimediff (k_current (in_kcp st)) (h_ts h) \<ge> 0
    then ikcp_update_ack (in_kcp st) (ikcp_itimediff (k_current (in_kcp st)) (h_ts h)) else in_kcp st"
  have "rcv_same (in_kcp st) ?k" by (simp add: rcv_same_update_ack)
  moreover have "rcv_same ?k (ikcp_shrink_buf (ikcp_parse_ack ?k (h_sn h)))"
    by (rule rcv_same_trans [OF rcv_same_parse_ack rcv_same_shrink_buf])
  ultimately have "rcv_same (in_kcp st) (ikcp_shrink_buf (ikcp_parse_ack ?k (h_sn h)))"
    by (rule rcv_same_trans)
  moreover have "in_kcp (ikcp_input_ack h st) = ikcp_shrink_buf (ikcp_parse_ack ?k (h_sn h))"
    unfolding ikcp_input_ack_def Let_def by simp
  ultimately show ?thesis by simp
qed

text \<open>A segment the receiver can be given now: control, or a fragment near its own position.\<close>

definition seg_fresh :: "u32 \<Rightarrow> item list \<Rightarrow> nat \<Rightarrow> nat \<Rightarrow> ikcpseg \<Rightarrow> bool" where
  "seg_fresh conv sent lo U s \<longleftrightarrow> ctl_seg conv s \<or>
     (sg_conv s = conv \<and> sg_cmd s = IKCP_CMD_PUSH \<and> (\<exists>i. seg_at sent i s \<and> lo \<le> i \<and> i < U))"

lemma rcv_inv_input_push:
  assumes "rcv_inv sent U m n kcp" "seg_at sent i s" "i < U" "n < i + 2 ^ 30" "sg_cmd s = IKCP_CMD_PUSH"
  shows "\<exists>n'\<ge>n. rcv_inv sent U m n'
    (ikcp_input_push (ikcp_decode_header (seg_wire s @ rest)) (seg_bytes s @ rest) kcp)"
proof -
  let ?h = "ikcp_decode_header (seg_wire s @ rest)"
  have h: "?h = \<lparr>h_conv = sg_conv s, h_cmd = ucast (sg_cmd s), h_frg = ucast (sg_frg s),
     h_wnd = ucast (sg_wnd s), h_ts = sg_ts s, h_sn = sg_sn s, h_una = sg_una s, h_len = sg_len s\<rparr>"
    by (simp add: seg_wire_def)
  have fit: "seg_ok s" "unat (sg_frg s) < 2 ^ 8" using assms(2) by (auto simp: seg_at_def seg_fit_def)
  have frg: "(ucast (ucast (sg_frg s) :: u8) :: u32) = sg_frg s"
    using fit(2) by (intro ucast_narrow) simp_all
  let ?new = "ikcp_segment_new\<lparr>
            sg_conv := h_conv ?h, sg_cmd := ucast (h_cmd ?h), sg_frg := ucast (h_frg ?h),
            sg_wnd := ucast (h_wnd ?h), sg_ts := h_ts ?h, sg_sn := h_sn ?h, sg_una := h_una ?h,
            sg_len := h_len ?h, sg_data := take (unat (h_len ?h)) (seg_bytes s @ rest)\<rparr>"
  have "seg_at sent i ?new"
    using assms(2) fit(1) frg by (simp add: h seg_at_def seg_item_def seg_fit_def seg_ok_def)
  moreover have "rcv_inv sent U m n (ikcp_ack_push kcp sn ts)" for sn ts
    by (rule rcv_inv_same [OF assms(1) rcv_same_ack_push])
  ultimately have "\<exists>n'\<ge>n. rcv_inv sent U m n' (ikcp_parse_data (ikcp_ack_push kcp sn ts) ?new)"
    "\<exists>n'\<ge>n. rcv_inv sent U m n' (ikcp_ack_push kcp sn ts)" for sn ts
    using rcv_inv_parse_data assms(3,4) by blast+
  then show ?thesis
    using assms(1) unfolding ikcp_input_push_def Let_def by auto
qed

lemma rcv_inv_input_seg:
  assumes "rcv_inv sent U m n (in_kcp st)" "seg_fresh conv sent lo U s" "U < lo + 2 ^ 30"
    and "k_conv (in_kcp st) = conv"
  shows "\<exists>st' n'. n \<le> n' \<and> rcv_inv sent U m n' (in_kcp st') \<and> k_conv (in_kcp st') = conv \<and>
    ikcp_input_seg (ikcp_decode_header (seg_wire s @ rest)) (seg_bytes s @ rest) st = Inr st'"
proof -
  let ?h = "ikcp_decode_header (seg_wire s @ rest)"
  have h: "?h = \<lparr>h_conv = sg_conv s, h_cmd = ucast (sg_cmd s), h_frg = ucast (sg_frg s),
     h_wnd = ucast (sg_wnd s), h_ts = sg_ts s, h_sn = sg_sn s, h_una = sg_una s, h_len = sg_len s\<rparr>"
    by (simp add: seg_wire_def)
  have fit: "seg_ok s" "unat (sg_len s) < 2 ^ 31" "sg_conv s = conv"
    "sg_cmd s \<in> {IKCP_CMD_PUSH, IKCP_CMD_ACK, IKCP_CMD_WASK, IKCP_CMD_WINS}"
    using assms(2) by (auto simp: seg_fresh_def ctl_seg_def seg_at_def seg_fit_def seg_ok_def)
  have cmd: "(ucast (ucast (sg_cmd s) :: u8) :: u32) = sg_cmd s"
    using fit(4) by (intro ucast_narrow) (auto simp: ikcp_consts)
  have len: "\<not> (int (length (seg_bytes s @ rest)) < uint (sg_len s) \<or> sint (sg_len s) < 0)"
  proof -
    have "uint (sg_len s) = int (length (seg_bytes s))" using fit(1) by (simp add: seg_ok_def)
    then show ?thesis using sint_unat32 [OF fit(2)] by simp
  qed
  let ?base = "(in_kcp st)\<lparr>k_rmt_wnd := ucast (h_wnd ?h)\<rparr>"
  let ?k = "ikcp_shrink_buf (ikcp_parse_una ?base (h_una ?h))"
  have "rcv_same (in_kcp st) ?base" by (simp add: rcv_same_def)
  from rcv_same_trans [OF this rcv_same_trans [OF rcv_same_parse_una rcv_same_shrink_buf]]
  have k: "rcv_inv sent U m n ?k" by (rule rcv_inv_same [OF assms(1)])
  let ?st = "st\<lparr>in_kcp := ?k, in_cmd := h_cmd ?h\<rparr>"
  let ?r = "if sg_cmd s = IKCP_CMD_ACK then ikcp_input_ack ?h ?st
    else if sg_cmd s = IKCP_CMD_PUSH then ?st\<lparr>in_kcp := ikcp_input_push ?h (seg_bytes s @ rest) ?k\<rparr>
    else if sg_cmd s = IKCP_CMD_WASK then ?st\<lparr>in_kcp := ?k\<lparr>k_probe := k_probe ?k OR IKCP_ASK_TELL\<rparr>\<rparr>
    else ?st"
  have run: "ikcp_input_seg ?h (seg_bytes s @ rest) st = Inr ?r"
    using fit(3,4) len cmd assms(4) unfolding ikcp_input_seg_def Let_def by (simp add: h)
  have "snd_le (in_kcp st) (in_kcp ?r)"
    using snd_le_input_seg [of st ?h "seg_bytes s @ rest"] unfolding run sum.case .
  then have conv: "k_conv (in_kcp ?r) = conv" using assms(4) unfolding snd_le_def by metis
  have "\<exists>n'\<ge>n. rcv_inv sent U m n' (in_kcp ?r)"
  proof (cases "sg_cmd s = IKCP_CMD_PUSH")
    case True
    then obtain i where i: "seg_at sent i s" "lo \<le> i" "i < U"
      using assms(2) by (auto simp: seg_fresh_def ctl_seg_def ikcp_consts)
    have "n \<le> U" using k by (simp add: rcv_inv_def rcv_rel_def)
    then have "n < i + 2 ^ 30" using i assms(3) by simp
    then show ?thesis
      using True rcv_inv_input_push [OF k i(1,3) _ True] by (simp add: ikcp_consts)
  next
    case False
    have "rcv_inv sent U m n (in_kcp (ikcp_input_ack ?h ?st))"
      using rcv_inv_same [OF _ rcv_same_input_ack] k by simp
    moreover have "rcv_inv sent U m n (?k\<lparr>k_probe := p\<rparr>)" for p
      by (rule rcv_inv_same [OF k]) (simp add: rcv_same_def)
    ultimately show ?thesis using k False by auto
  qed
  then show ?thesis using run conv by blast
qed

lemma rcv_inv_input_loop:
  assumes "rcv_inv sent U m n (in_kcp st)" "\<forall>s\<in>set segs. seg_fresh conv sent lo U s" "U < lo + 2 ^ 30"
    and "k_conv (in_kcp st) = conv"
  shows "\<exists>st' n'. n \<le> n' \<and> rcv_inv sent U m n' (in_kcp st') \<and>
    ikcp_input_loop (concat (map seg_wire segs)) st = Inr st'"
  using assms
proof (induction segs arbitrary: n st)
  case Nil
  then show ?case by (intro exI [of _ st] exI [of _ n]) (simp add: ikcp_input_loop.simps)
next
  case (Cons s segs)
  let ?rest = "concat (map seg_wire segs)"
  obtain st' n' where st': "n \<le> n'" "rcv_inv sent U m n' (in_kcp st')" "k_conv (in_kcp st') = conv"
    "ikcp_input_seg (ikcp_decode_header (seg_wire s @ ?rest)) (seg_bytes s @ ?rest) st = Inr st'"
    using rcv_inv_input_seg [OF Cons.prems(1) _ Cons.prems(3,4), of s ?rest] Cons.prems(2) by auto
  have "seg_ok s"
    using Cons.prems(2) by (auto simp: seg_fresh_def ctl_seg_def seg_at_def seg_fit_def seg_ok_def)
  then have len: "length (seg_bytes s) = unat (sg_len s)" by (simp add: seg_ok_def)
  have hl: "h_len (ikcp_decode_header (seg_wire s @ ?rest)) = sg_len s" by (simp add: seg_wire_def)
  have w: "drop 24 (seg_wire s @ ?rest) = seg_bytes s @ ?rest" "\<not> length (seg_wire s @ ?rest) < 24"
    by (simp_all add: seg_wire_def)
  have "ikcp_input_loop (seg_wire s @ ?rest) st = ikcp_input_loop ?rest st'"
    unfolding ikcp_input_loop.simps [of "seg_wire s @ ?rest"] Let_def w(1) hl st'(4) sum.case
    using w(2) len by simp
  moreover obtain st'' n'' where "n' \<le> n''" "rcv_inv sent U m n'' (in_kcp st'')"
    "ikcp_input_loop ?rest st' = Inr st''"
    using Cons.IH [OF st'(2) _ Cons.prems(3) st'(3)] Cons.prems(2) by auto
  ultimately show ?case using st'(1) by (intro exI [of _ st''] exI [of _ n'']) auto
qed

lemma rcv_inv_widen:
  assumes le: "n \<le> n'" and inv: "rcv_inv sent (n + 2 ^ 29) m n' k"
  shows "rcv_inv sent (n' + 2 ^ 29) m n' k"
proof -
  obtain "is" where "sorted_wrt (<) is" "\<forall>i\<in>set is. n' \<le> i \<and> i < n + 2 ^ 29"
    "list_all2 (seg_at sent) is (k_rcv_buf k)"
    using inv unfolding rcv_inv_def rcv_rel_def by blast
  moreover from this le have "\<forall>i\<in>set is. n' \<le> i \<and> i < n' + 2 ^ 29" by auto
  ultimately show ?thesis
    using inv unfolding rcv_inv_def rcv_rel_def by auto
qed

definition dgram_fresh :: "u32 \<Rightarrow> item list \<Rightarrow> nat \<Rightarrow> bytes \<Rightarrow> bool" where
  "dgram_fresh conv sent n d \<longleftrightarrow> (\<exists>segs. d = concat (map seg_wire segs) \<and>
     (\<forall>s\<in>set segs. seg_fresh conv sent (n - (2 ^ 29 - 1)) (n + 2 ^ 29) s))"

lemma ikcp_input_keeps_prefix:
  assumes "rcv_inv sent (n + 2 ^ 29) m n kcp" "dgram_fresh (k_conv kcp) sent n d"
  shows "\<exists>n'\<ge>n. rcv_inv sent (n' + 2 ^ 29) m n' (snd (ikcp_input kcp (Some d)))"
proof -
  let ?U = "n + 2 ^ 29" and ?lo = "n - (2 ^ 29 - 1)"
  let ?st = "\<lparr>in_kcp = kcp, in_flag = False, in_maxack = 0, in_latest_ts = 0, in_cmd = 0\<rparr>"
  obtain segs where segs: "d = concat (map seg_wire segs)"
    "\<forall>s\<in>set segs. seg_fresh (k_conv kcp) sent ?lo ?U s"
    using assms(2) unfolding dgram_fresh_def by blast
  have "rcv_inv sent ?U m n (in_kcp ?st)" "k_conv (in_kcp ?st) = k_conv kcp" using assms(1) by simp_all
  moreover have "?U < ?lo + 2 ^ 30" by simp
  ultimately obtain st n' where
    st: "n \<le> n'" "rcv_inv sent ?U m n' (in_kcp st)" "ikcp_input_loop d ?st = Inr st"
    using rcv_inv_input_loop [of sent ?U m n ?st segs "k_conv kcp" ?lo] segs by blast
  let ?k = "if in_flag st then ikcp_parse_fastack (in_kcp st) (in_maxack st) (in_latest_ts st) else in_kcp st"
  have "rcv_same (in_kcp st) ?k" by (simp add: rcv_same_parse_fastack)
  from rcv_same_trans [OF this rcv_same_input_cwnd]
  have "rcv_inv sent ?U m n' (ikcp_input_cwnd (k_snd_una kcp) ?k)" by (rule rcv_inv_same [OF st(2)])
  then have "snd (ikcp_input kcp (Some d)) = kcp \<or> rcv_inv sent ?U m n' (snd (ikcp_input kcp (Some d)))"
    using st(3) by (simp add: ikcp_input_def Let_def)
  then show ?thesis
  proof
    assume "snd (ikcp_input kcp (Some d)) = kcp"
    with assms(1) show ?thesis by auto
  next
    assume "rcv_inv sent ?U m n' (snd (ikcp_input kcp (Some d)))"
    with rcv_inv_widen [OF st(1)] st(1) show ?thesis by blast
  qed
qed

text \<open>
  C2: exactly-once, in-order reassembly. A receiver that holds a prefix of the stream keeps
  holding a prefix, and never a shorter one, when it is given a datagram of stream segments:
  duplicates, stale segments, reordering and gaps change nothing but how long the prefix is.
  The positions of the segments may lie anywhere within 2^29 of the receiver's own position,
  so the 32-bit sequence numbers may wrap around in between.
\<close>

theorem ikcp_input_reassembly:
  assumes "rcv_inv sent (n + 2 ^ 29) m n kcp" "dgram_fresh (k_conv kcp) sent n d"
  shows "\<exists>n'\<ge>n. rcv_inv sent (n' + 2 ^ 29) m n' (snd (ikcp_input kcp (Some d)))"
  by (rule ikcp_input_keeps_prefix [OF assms])

theorem ikcp_input_reassembly_witness:
  "let s = frag_seg (0, [7, 8])\<lparr>sg_conv := 9, sg_cmd := 81\<rparr>;
       kcp = snd (ikcp_input (ikcp_create 9) (Some (seg_wire s @ seg_wire s)))
   in map sg_data (k_rcv_queue kcp) = [[7, 8]] \<and> k_rcv_nxt kcp = 1 \<and>
      (\<exists>n'. rcv_inv [(0, [7, 8])] (n' + 2 ^ 29) 0 n' kcp)"
proof -
  let ?s = "frag_seg (0, [7, 8])\<lparr>sg_conv := 9, sg_cmd := 81\<rparr>"
  let ?d = "seg_wire ?s @ seg_wire ?s"
  have inv: "rcv_inv [(0, [7, 8])] (0 + 2 ^ 29) 0 0 (ikcp_create 9)"
    using rcv_inv_extend [OF rcv_inv_create [of "2 ^ 29" 9], of "[(0, [7, 8])]"] by simp
  have "seg_at [(0, [7, 8])] 0 ?s"
    by (simp add: seg_at_def frag_seg_def ikcp_segment_new_def seg_item_def seg_fit_def seg_ok_def)
  then have "seg_fresh 9 [(0, [7, 8])] 0 (2 ^ 29) ?s"
    unfolding seg_fresh_def by (intro disjI2 conjI exI [of _ 0])
      (simp_all add: frag_seg_def ikcp_segment_new_def IKCP_CMD_PUSH_def)
  then have fresh: "dgram_fresh (k_conv (ikcp_create 9)) [(0, [7, 8])] 0 ?d"
    unfolding dgram_fresh_def by (intro exI [of _ "[?s, ?s]"]) (simp add: ikcp_create_def)
  have run: "map sg_data (k_rcv_queue (snd (ikcp_input (ikcp_create 9) (Some ?d)))) = [[7, 8]]"
    "k_rcv_nxt (snd (ikcp_input (ikcp_create 9) (Some ?d))) = 1" by code_simp+
  show ?thesis using ikcp_input_reassembly [OF inv fresh] run by (auto simp: Let_def)
qed

section \<open>Reading a message\<close>

lemma whole_message_Cons:
  assumes "whole_message msg"
  obtains it rest where "msg = it # rest" "fst it = of_nat (length rest)" "length rest < 128"
    "rest \<noteq> [] \<Longrightarrow> whole_message rest"
proof -
  obtain it rest where m: "msg = it # rest" using assms by (cases msg) (auto simp: whole_message_def)
  then have "fst it = of_nat (length rest)" "map fst rest = map of_nat (rev [0..<length rest])"
    using assms by (auto simp: whole_message_def)
  then show thesis using m assms by (intro that) (auto simp: whole_message_def)
qed

lemma frg_0_iff: "n < 128 \<Longrightarrow> (of_nat n :: u32) = 0 \<longleftrightarrow> n = 0"
  using unat_of_nat32 [of n] by (auto simp: unat_eq_0)

text \<open>The merge loop on a queue that starts with a whole message takes exactly that message.\<close>

lemma ikcp_recv_merge_message:
  assumes "whole_message msg" "map seg_item q = msg @ later" "\<forall>s\<in>set q. seg_fit s"
  shows "ikcp_recv_merge False q cnt =
      (message_bytes msg, int (length (message_bytes msg)), drop (length msg) q, cnt - of_nat (length msg))"
    and "ikcp_peek_sum q = int (length (message_bytes msg))"
  using assms
proof (induction q arbitrary: msg cnt)
  case Nil
  {
    case 1
    then show ?case by (auto simp: whole_message_def)
  next
    case 2
    then show ?case by (auto simp: whole_message_def)
  }
next
  case (Cons s q)
  have *: "ikcp_recv_merge False (s # q) cnt =
      (message_bytes msg, int (length (message_bytes msg)), drop (length msg) (s # q), cnt - of_nat (length msg)) \<and>
      ikcp_peek_sum (s # q) = int (length (message_bytes msg))"
    if msg: "whole_message msg" "map seg_item (s # q) = msg @ later" "\<forall>s\<in>set (s # q). seg_fit s" for msg cnt
  proof -
    obtain it rest where m: "msg = it # rest" "fst it = of_nat (length rest)" "length rest < 128"
      "rest \<noteq> [] \<Longrightarrow> whole_message rest" using whole_message_Cons [OF msg(1)] by blast
    have fit: "seg_ok s" "unat (sg_len s) < 2 ^ 31" using msg(3) by (auto simp: seg_fit_def)
    have s: "sg_frg s = of_nat (length rest)" "sg_data s = snd it" "map seg_item q = rest @ later"
      using msg(2) m(1,2) by (auto simp: seg_item_def)
    have len: "sint (sg_len s) = int (length (snd it))"
      using fit sint_unat32 [OF fit(2)] s(2) by (simp add: seg_ok_def)
    show ?thesis
    proof (cases "rest = []")
      case True
      then show ?thesis using m(1) s fit len by (simp add: message_bytes_def)
    next
      case False
      then have "sg_frg s \<noteq> 0" using s(1) m(3) frg_0_iff by simp
      moreover have "ikcp_recv_merge False q (cnt - 1) = (message_bytes rest, int (length (message_bytes rest)),
          drop (length rest) q, cnt - 1 - of_nat (length rest))"
        "ikcp_peek_sum q = int (length (message_bytes rest))"
        using Cons.IH [OF m(4) [OF False] s(3)] msg(3) by auto
      ultimately show ?thesis
        using m(1) s(2) fit(1) len by (simp add: message_bytes_def algebra_simps)
    qed
  qed
  {
    case 1
    then show ?case using * by blast
  next
    case 2
    then show ?case using * by blast
  }
qed

text \<open>
  Reading: the queue holds the stream from position \<open>m\<close> to \<open>n\<close>, and \<open>msg\<close> is the message that
  starts at \<open>m\<close>. Either the call fails and changes nothing, or it returns the message and the
  receiver holds the stream from the end of the message on.
\<close>

text \<open>If \<^verbatim>\<open>ikcp_peeksize\<close> sees a message, all its fragments are in the queue.\<close>

lemma message_queued:
  assumes "whole_message msg" "map seg_item (k_rcv_queue kcp) = take l (msg @ later)" "k_rcv_queue kcp \<noteq> []"
    and "\<not> ikcp_peeksize kcp < 0" "k_nrcv_que kcp = of_nat (length (k_rcv_queue kcp))"
    and "length (k_rcv_queue kcp) \<le> 2 ^ 29" "length (k_rcv_queue kcp) = l"
  shows "length msg \<le> l"
proof -
  obtain it rest where m: "msg = it # rest" "fst it = of_nat (length rest)" "length rest < 128"
    "rest \<noteq> [] \<Longrightarrow> whole_message rest" using whole_message_Cons [OF assms(1)] by blast
  obtain s q' where sq: "k_rcv_queue kcp = s # q'" using assms(3) by (cases "k_rcv_queue kcp") auto
  have frg: "sg_frg s = of_nat (length rest)"
    using assms(2) sq m(1,2) by (cases l) (auto simp: seg_item_def)
  show ?thesis
  proof (cases "rest = []")
    case True
    then show ?thesis using m(1) sq assms(7) by (cases l) auto
  next
    case False
    then have "sg_frg s \<noteq> 0" using frg m(3) frg_0_iff by simp
    then have "\<not> k_nrcv_que kcp < sg_frg s + 1"
      using assms(4) sq by (auto simp: ikcp_peeksize_def)
    moreover have "sg_frg s + 1 = of_nat (length msg)" using frg m(1) by simp
    ultimately have "\<not> unat (of_nat l :: u32) < unat (of_nat (length msg) :: u32)"
      using assms(5,7) by (simp add: word_less_nat_alt)
    moreover have "length msg < 2 ^ 32" "l < 2 ^ 32" using assms(6,7) m(1,3) by simp_all
    then have "unat (of_nat l :: u32) = l" "unat (of_nat (length msg) :: u32) = length msg"
      by (simp_all only: unat_of_nat32)
    ultimately show ?thesis by simp
  qed
qed

lemma rcv_inv_recv:
  assumes inv: "rcv_inv sent (n + 2 ^ 29) m n kcp" and msg: "drop m sent = msg @ later" "whole_message msg"
    and len: "0 \<le> len"
  shows "case ikcp_recv kcp len of (r, d, kcp') \<Rightarrow>
    if r < 0 then kcp' = kcp
    else d = message_bytes msg \<and> r = int (length d) \<and>
      (\<exists>n'\<ge>n. rcv_inv sent (n' + 2 ^ 29) (m + length msg) n' kcp')"
proof (cases "k_rcv_queue kcp = [] \<or> ikcp_peeksize kcp < 0 \<or> ikcp_peeksize kcp > len")
  case True
  then show ?thesis using len by (auto simp: ikcp_recv_def Let_def)
next
  case False
  let ?q = "k_rcv_queue kcp"
  have r: "k_rcv_nxt kcp = of_nat n" "m \<le> n" "n \<le> length sent" "map seg_item ?q = drop m (take n sent)"
    "\<forall>s\<in>set ?q. seg_fit s" "k_nrcv_que kcp = of_nat (length ?q)" "length ?q \<le> 2 ^ 29"
    using inv unfolding rcv_inv_def rcv_rel_def by auto
  have q: "map seg_item ?q = take (n - m) (msg @ later)"
    using r(4) msg(1) by (simp add: drop_take)
  have ql: "length ?q = n - m" using arg_cong [OF r(4), of length] r(3) by simp
  have enough: "length msg \<le> n - m"
    using message_queued [OF msg(2) q _ _ r(6)] False r(7) ql by simp
  then have qm: "map seg_item ?q = msg @ take (n - m - length msg) later" using q by simp
  note merge = ikcp_recv_merge_message [OF msg(2) qm r(5)]
  obtain s q' where sq: "?q = s # q'" using False by (cases ?q) auto
  have frg0: "sg_frg s = 0 \<Longrightarrow> sint (sg_len s) = int (length (message_bytes msg))"
    using merge(2) sq by simp
  have peek: "ikcp_peeksize kcp = int (length (message_bytes msg))"
    using False sq merge(2) frg0 unfolding ikcp_peeksize_def by (auto split: if_splits)
  let ?kcp1 = "kcp\<lparr>k_rcv_queue := drop (length msg) ?q, k_nrcv_que := k_nrcv_que kcp - of_nat (length msg)\<rparr>"
  let ?kcp2 = "ikcp_move_rcv (k_rcv_buf kcp) ?kcp1"
  have "map seg_item (drop (length msg) ?q) = drop (m + length msg) (take n sent)"
    by (simp add: drop_map [symmetric] r(4) add.commute)
  moreover have "k_nrcv_que kcp - of_nat (length msg) = of_nat (length (drop (length msg) ?q))"
    using of_nat_diff [OF enough, where ?'a = u32] ql r(6) by simp
  moreover have "m + length msg \<le> n" using enough r(2) by simp
  ultimately have "rcv_rel sent (n + 2 ^ 29) (m + length msg) n (k_rcv_buf kcp) ?kcp1"
    using inv unfolding rcv_inv_def rcv_rel_def by (auto dest: in_set_dropD)
  then obtain n' where n': "n \<le> n'" "rcv_inv sent (n + 2 ^ 29) (m + length msg) n' ?kcp2"
    using rcv_rel_move by blast
  then have wide: "rcv_inv sent (n' + 2 ^ 29) (m + length msg) n' ?kcp2"
    by (rule rcv_inv_widen)
  have "rcv_inv sent (n' + 2 ^ 29) (m + length msg) n' (?kcp2\<lparr>k_probe := p\<rparr>)" for p
    by (rule rcv_inv_same [OF wide]) (simp add: rcv_same_def)
  moreover have "ikcp_recv kcp len = (int (length (message_bytes msg)), message_bytes msg,
      if k_nrcv_que ?kcp2 < k_rcv_wnd ?kcp2 \<and> k_nrcv_que kcp \<ge> k_rcv_wnd kcp
      then ?kcp2\<lparr>k_probe := k_probe ?kcp2 OR IKCP_ASK_TELL\<rparr> else ?kcp2)"
    using False len by (simp add: ikcp_recv_def Let_def merge(1))
  ultimately show ?thesis using wide n'(1) by auto
qed

end
