(* ===== verification/Ikcp_Link.thy ===== *)
theory Ikcp_Link
  imports Ikcp_Recv
begin

text \<open>
  Two KCP endpoints and the network between them. Endpoint A sends messages, endpoint B reads
  them. The network may lose, duplicate and reorder A's datagrams, and it may hand A any bytes
  at all: the acknowledgements A sees need not come from B. Both endpoints may change their
  settings, and B may send messages of its own.
\<close>

section \<open>The transition system\<close>

text \<open>
  \<open>w_sent\<close> and \<open>w_got\<close> are the messages accepted from A's user and returned to B's user,
  \<open>w_frags\<close> the fragments of each accepted message, \<open>w_net\<close> every datagram A ever sent.
\<close>

record kcp_world =
  w_a :: ikcpcb
  w_b :: ikcpcb
  w_net :: "bytes set"
  w_sent :: "bytes list"
  w_frags :: "item list list"
  w_got :: "bytes list"

definition kcp_world_init :: "u32 \<Rightarrow> kcp_world" where
  "kcp_world_init conv = \<lparr>w_a = ikcp_create conv, w_b = ikcp_create conv, w_net = {},
     w_sent = [], w_frags = [], w_got = []\<rparr>"

inductive kcp_step :: "kcp_world \<Rightarrow> kcp_world \<Rightarrow> bool" where
  a_send: "length msg < 2 ^ 31 \<Longrightarrow> ikcp_send (w_a w) msg (int (length msg)) = (0, a) \<Longrightarrow>
    fs = frags (nat (sint (k_mss (w_a w)))) msg \<Longrightarrow>
    length (concat (w_frags w @ [fs])) < 2 ^ 29 \<Longrightarrow>
    kcp_step w (w\<lparr>w_a := a, w_sent := w_sent w @ [msg], w_frags := w_frags w @ [fs]\<rparr>)"
| a_update: "ikcp_update (w_a w) current = (outs, a) \<Longrightarrow>
    kcp_step w (w\<lparr>w_a := a, w_net := w_net w \<union> set outs\<rparr>)"
| a_input: "kcp_step w (w\<lparr>w_a := snd (ikcp_input (w_a w) dat)\<rparr>)"
| a_recv: "kcp_step w (w\<lparr>w_a := snd (snd (ikcp_recv (w_a w) len))\<rparr>)"
| a_nodelay: "kcp_step w (w\<lparr>w_a := snd (ikcp_nodelay (w_a w) nodelay interval resend nc)\<rparr>)"
| a_wndsize: "kcp_step w (w\<lparr>w_a := snd (ikcp_wndsize (w_a w) sndwnd rcvwnd)\<rparr>)"
| a_setmtu: "mtu < 2 ^ 31 \<Longrightarrow> kcp_step w (w\<lparr>w_a := snd (ikcp_setmtu alloc (w_a w) mtu)\<rparr>)"
| b_input: "d \<in> w_net w \<Longrightarrow> kcp_step w (w\<lparr>w_b := snd (ikcp_input (w_b w) (Some d))\<rparr>)"
| b_recv: "0 \<le> len \<Longrightarrow> ikcp_recv (w_b w) len = (r, d, b) \<Longrightarrow>
    kcp_step w (w\<lparr>w_b := b, w_got := (if r < 0 then w_got w else w_got w @ [d])\<rparr>)"
| b_send: "kcp_step w (w\<lparr>w_b := snd (ikcp_send (w_b w) buffer len)\<rparr>)"
| b_update: "kcp_step w (w\<lparr>w_b := snd (ikcp_update (w_b w) current)\<rparr>)"
| b_nodelay: "kcp_step w (w\<lparr>w_b := snd (ikcp_nodelay (w_b w) nodelay interval resend nc)\<rparr>)"
| b_wndsize: "rcvwnd \<le> 2 ^ 29 \<Longrightarrow> kcp_step w (w\<lparr>w_b := snd (ikcp_wndsize (w_b w) sndwnd rcvwnd)\<rparr>)"
| b_setmtu: "kcp_step w (w\<lparr>w_b := snd (ikcp_setmtu alloc (w_b w) mtu)\<rparr>)"

section \<open>The invariant\<close>

definition w_pos :: "kcp_world \<Rightarrow> nat" where
  "w_pos w = length (concat (take (length (w_got w)) (w_frags w)))"

definition link_inv :: "u32 \<Rightarrow> kcp_world \<Rightarrow> bool" where
  "link_inv conv w \<longleftrightarrow> snd_inv conv (concat (w_frags w)) (w_a w) \<and> k_conv (w_b w) = conv \<and>
     (\<forall>d\<in>w_net w. dgram_genuine conv (concat (w_frags w)) d) \<and>
     (\<forall>fs\<in>set (w_frags w). whole_message fs) \<and> map message_bytes (w_frags w) = w_sent w \<and>
     length (concat (w_frags w)) < 2 ^ 29 \<and>
     length (w_got w) \<le> length (w_frags w) \<and> w_got w = map message_bytes (take (length (w_got w)) (w_frags w)) \<and>
     (\<exists>n. rcv_inv (concat (w_frags w)) (n + 2 ^ 29) (w_pos w) n (w_b w))"

lemma link_inv_a:
  assumes "link_inv conv w" "snd_inv conv (concat (w_frags w)) a"
    "\<forall>d\<in>outs. dgram_genuine conv (concat (w_frags w)) d"
  shows "link_inv conv (w\<lparr>w_a := a, w_net := w_net w \<union> outs\<rparr>)"
  using assms by (auto simp: link_inv_def w_pos_def)

lemma link_inv_a_le:
  assumes "link_inv conv w" "snd_le (w_a w) a"
  shows "link_inv conv (w\<lparr>w_a := a\<rparr>)"
proof -
  have "snd_inv conv (concat (w_frags w)) a"
    using assms snd_inv_le by (auto simp: link_inv_def)
  from link_inv_a [OF assms(1) this, of "{}"] show ?thesis by simp
qed

lemma link_inv_b_got:
  assumes "link_inv conv w" "k_conv b = conv" "length got \<le> length (w_frags w)"
    "got = map message_bytes (take (length got) (w_frags w))"
    "\<exists>n. rcv_inv (concat (w_frags w)) (n + 2 ^ 29) (length (concat (take (length got) (w_frags w)))) n b"
  shows "link_inv conv (w\<lparr>w_b := b, w_got := got\<rparr>)"
proof -
  let ?w = "w\<lparr>w_b := b, w_got := got\<rparr>"
  have v: "w_frags ?w = w_frags w" "w_a ?w = w_a w" "w_b ?w = b" "w_net ?w = w_net w"
    "w_sent ?w = w_sent w" "w_got ?w = got" by simp_all
  show ?thesis using assms unfolding link_inv_def w_pos_def v by blast
qed

lemma link_inv_b:
  assumes "link_inv conv w" "rcv_same (w_b w) b" "k_conv b = conv"
  shows "link_inv conv (w\<lparr>w_b := b\<rparr>)"
  using assms by (auto simp: link_inv_def w_pos_def intro: rcv_inv_same)

text \<open>A genuine datagram of a conversation this short is never stale.\<close>

lemma dgram_genuine_fresh:
  assumes "dgram_genuine conv sent d" "length sent < 2 ^ 29" "n \<le> length sent"
  shows "dgram_fresh conv sent n d"
proof -
  obtain segs where "d = concat (map seg_wire segs)" "\<forall>s\<in>set segs. seg_genuine conv sent s"
    using assms(1) unfolding dgram_genuine_def by blast
  moreover have "seg_fresh conv sent (n - (2 ^ 29 - 1)) (n + 2 ^ 29) s" if "seg_genuine conv sent s" for s
    using that assms(2,3) unfolding seg_genuine_def seg_fresh_def seg_sent_def seg_at_def by fastforce
  ultimately show ?thesis unfolding dgram_fresh_def by blast
qed

section \<open>Frames of B's other operations\<close>

lemma rcv_same_fragment: "rcv_same kcp (ikcp_fragment n count i buffer len kcp) \<and>
    k_conv (ikcp_fragment n count i buffer len kcp) = k_conv kcp"
proof (induction n count i buffer len kcp rule: ikcp_fragment.induct)
  case (2 n count i buffer len kcp)
  then show ?case by (simp add: Let_def rcv_same_def)
qed simp

lemma rcv_same_send: "rcv_same kcp (snd (ikcp_send kcp buffer len)) \<and>
    k_conv (snd (ikcp_send kcp buffer len)) = k_conv kcp"
proof -
  let ?e = "if k_stream kcp \<noteq> 0 then ikcp_send_extend kcp buffer len else (0, kcp)"
  have e: "rcv_same kcp (snd ?e) \<and> k_conv (snd ?e) = k_conv kcp"
    by (simp add: ikcp_send_extend_def Let_def rcv_same_def)
  obtain x k where ek: "?e = (x, k)" by (cases ?e)
  with e have k: "rcv_same kcp k \<and> k_conv k = k_conv kcp" by simp
  then have "rcv_same kcp (ikcp_fragment n count i b l k) \<and>
      k_conv (ikcp_fragment n count i b l k) = k_conv kcp" for n count i b l
    using rcv_same_fragment rcv_same_trans by metis
  with k show ?thesis
    unfolding ikcp_send_def Let_def ek prod.case by (simp only: if_distrib [of snd] snd_conv) simp
qed

lemma rcv_same_flush: "rcv_same kcp (snd (ikcp_flush kcp)) \<and> k_conv (snd (ikcp_flush kcp)) = k_conv kcp"
proof (cases "k_updated kcp = 0")
  case True
  then show ?thesis by (simp add: ikcp_flush_idle)
next
  case False
  have c: "put_closed (\<lambda>_. True) mtu need enc" for mtu need enc by (simp add: put_closed_def)
  have "(\<forall>d\<in>set (fst (ikcp_flush kcp)). True) \<and>
    (\<exists>x st buf s c i. list_all2 seg_same (k_snd_buf (ikcp_flush_moved kcp)) buf \<and>
       snd (ikcp_flush kcp) = (ikcp_flush_moved kcp)\<lparr>k_xmit := x, k_state := st, k_snd_buf := buf,
          k_ssthresh := s, k_cwnd := c, k_incr := i\<rparr>)"
    by (rule ikcp_flush_shape [OF False TrueI c c])
  then obtain x st buf s c i where
    "snd (ikcp_flush kcp) = (ikcp_flush_moved kcp)\<lparr>k_xmit := x, k_state := st, k_snd_buf := buf,
          k_ssthresh := s, k_cwnd := c, k_incr := i\<rparr>" by blast
  moreover have "rcv_same kcp (ikcp_flush_moved kcp) \<and> k_conv (ikcp_flush_moved kcp) = k_conv kcp"
    using ikcp_flush_moved_spec [of kcp] by (auto simp: rcv_same_def)
  ultimately show ?thesis by (simp add: rcv_same_def)
qed

lemma rcv_same_update:
  "rcv_same kcp (snd (ikcp_update kcp t)) \<and> k_conv (snd (ikcp_update kcp t)) = k_conv kcp"
proof -
  obtain kcp' where k: "snd_le kcp kcp'" "rcv_same kcp kcp'"
    "ikcp_update kcp t = ikcp_flush kcp' \<or> ikcp_update kcp t = ([], kcp')"
    by (rule ikcp_update_cases [of kcp t]) (simp add: rcv_same_def)
  then show ?thesis
    using rcv_same_flush [of kcp'] rcv_same_trans [OF k(2)] by (auto simp: snd_le_def)
qed

section \<open>Preservation\<close>

lemma link_inv_send:
  assumes inv: "link_inv conv w" and len: "length msg < 2 ^ 31"
    and run: "ikcp_send (w_a w) msg (int (length msg)) = (0, a)"
    and fs: "fs = frags (nat (sint (k_mss (w_a w)))) msg"
    and small: "length (concat (w_frags w @ [fs])) < 2 ^ 29"
  shows "link_inv conv (w\<lparr>w_a := a, w_sent := w_sent w @ [msg], w_frags := w_frags w @ [fs]\<rparr>)"
proof -
  have si: "snd_inv conv (concat (w_frags w)) (w_a w)" using inv by (simp add: link_inv_def)
  note snd = snd_inv_send_frags [OF si len run, folded fs]
  have pos: "w_pos (w\<lparr>w_a := a, w_sent := w_sent w @ [msg], w_frags := w_frags w @ [fs]\<rparr>) = w_pos w"
    using inv by (simp add: w_pos_def link_inv_def)
  have "\<forall>d\<in>w_net w. dgram_genuine conv (concat (w_frags w) @ fs) d"
    using inv dgram_genuine_extend unfolding link_inv_def by blast
  moreover obtain n where "rcv_inv (concat (w_frags w) @ fs) (n + 2 ^ 29) (w_pos w) n (w_b w)"
    using inv rcv_inv_extend unfolding link_inv_def by blast
  moreover have "message_bytes fs = msg" by (simp add: fs)
  ultimately show ?thesis
    using inv snd small unfolding link_inv_def pos by auto
qed

lemma link_inv_recv:
  assumes inv: "link_inv conv w" and len: "0 \<le> len" and run: "ikcp_recv (w_b w) len = (r, d, b)"
  shows "link_inv conv (w\<lparr>w_b := b, w_got := (if r < 0 then w_got w else w_got w @ [d])\<rparr>)"
proof (cases "k_rcv_queue (w_b w) = []")
  case True
  then have "r < 0" "b = w_b w" using run by (auto simp: ikcp_recv_def Let_def)
  with inv show ?thesis by (simp add: link_inv_def w_pos_def)
next
  case ne: False
  let ?k = "length (w_got w)"
  obtain n where n: "rcv_inv (concat (w_frags w)) (n + 2 ^ 29) (w_pos w) n (w_b w)"
    using inv unfolding link_inv_def by blast
  have lt: "?k < length (w_frags w)"
  proof (rule ccontr)
    assume "\<not> ?thesis"
    then have "w_pos w = length (concat (w_frags w))" by (simp add: w_pos_def)
    then have "drop (w_pos w) (take n (concat (w_frags w))) = []" by simp
    then show False using n ne unfolding rcv_inv_def rcv_rel_def by (metis map_is_Nil_conv)
  qed
  let ?msg = "w_frags w ! ?k"
  have split: "concat (w_frags w) = concat (take ?k (w_frags w)) @ ?msg @ concat (drop (Suc ?k) (w_frags w))"
    using lt by (metis append.assoc append_take_drop_id concat.simps(2) concat_append Cons_nth_drop_Suc)
  have dr: "drop (w_pos w) (concat (w_frags w)) = ?msg @ concat (drop (Suc ?k) (w_frags w))"
    by (subst split) (simp add: w_pos_def)
  have whole: "whole_message ?msg" using inv lt by (simp add: link_inv_def)
  note rec = rcv_inv_recv [OF n dr whole len, unfolded run prod.case]
  show ?thesis
  proof (cases "r < 0")
    case True
    then have "b = w_b w" using rec by simp
    with True inv show ?thesis by (simp add: link_inv_def w_pos_def)
  next
    case False
    have d: "d = message_bytes ?msg"
      and b: "\<exists>n'\<ge>n. rcv_inv (concat (w_frags w)) (n' + 2 ^ 29) (w_pos w + length ?msg) n' b"
      using rec False by auto
    have conv: "k_conv b = conv"
      using snd_le_recv [of "w_b w" len] run inv by (simp add: snd_le_def link_inv_def)
    have pos: "length (concat (take (Suc ?k) (w_frags w))) = w_pos w + length ?msg"
      using lt by (simp add: w_pos_def take_Suc_conv_app_nth)
    have "w_got w = map message_bytes (take ?k (w_frags w))" using inv by (simp add: link_inv_def)
    then have "w_got w @ [d] = map message_bytes (take (length (w_got w @ [d])) (w_frags w))"
      using d lt by (simp add: take_Suc_conv_app_nth)
    moreover have "\<exists>n. rcv_inv (concat (w_frags w)) (n + 2 ^ 29) (length (concat (take (length (w_got w @ [d])) (w_frags w)))) n b"
      using b pos by auto
    moreover have "length (w_got w @ [d]) \<le> length (w_frags w)" using lt by simp
    ultimately have "link_inv conv (w\<lparr>w_b := b, w_got := w_got w @ [d]\<rparr>)"
      by (intro link_inv_b_got [OF inv conv])
    with False show ?thesis by simp
  qed
qed

lemma link_inv_input:
  assumes inv: "link_inv conv w" and d: "d \<in> w_net w"
  shows "link_inv conv (w\<lparr>w_b := snd (ikcp_input (w_b w) (Some d))\<rparr>)"
proof -
  obtain n where n: "rcv_inv (concat (w_frags w)) (n + 2 ^ 29) (w_pos w) n (w_b w)"
    using inv unfolding link_inv_def by blast
  then have "n \<le> length (concat (w_frags w))" unfolding rcv_inv_def rcv_rel_def by blast
  then have "dgram_fresh conv (concat (w_frags w)) n d"
    using inv d by (intro dgram_genuine_fresh) (auto simp: link_inv_def)
  then have "dgram_fresh (k_conv (w_b w)) (concat (w_frags w)) n d"
    using inv by (simp add: link_inv_def)
  note ikcp_input_keeps_prefix [OF n this]
  moreover have "k_conv (snd (ikcp_input (w_b w) (Some d))) = conv"
    using snd_le_input [of "w_b w" "Some d"] inv by (simp add: snd_le_def link_inv_def)
  ultimately show ?thesis using inv by (auto simp: link_inv_def w_pos_def)
qed

lemma link_inv_step:
  assumes "kcp_step w w'" "link_inv conv w"
  shows "link_inv conv w'"
  using assms
proof (cases rule: kcp_step.cases)
  case (a_send msg a fs)
  with assms(2) show ?thesis by (auto intro: link_inv_send)
next
  case (a_update current outs a)
  have "snd_inv conv (concat (w_frags w)) (w_a w)" using assms(2) by (simp add: link_inv_def)
  from snd_inv_update [OF this, of current] a_update(2) link_inv_a [OF assms(2)]
  show ?thesis unfolding a_update(1) by simp
next
  case (a_setmtu mtu alloc)
  have "snd_inv conv (concat (w_frags w)) (w_a w)" using assms(2) by (simp add: link_inv_def)
  from snd_inv_setmtu [OF this a_setmtu(2), of alloc] link_inv_a [OF assms(2), of _ "{}"]
  show ?thesis unfolding a_setmtu(1) by simp
next
  case (b_input d)
  with assms(2) show ?thesis by (auto intro: link_inv_input)
next
  case (b_recv len r d b)
  show ?thesis unfolding b_recv(1) by (rule link_inv_recv [OF assms(2) b_recv(2,3)])
next
  case (b_wndsize rcvwnd sndwnd)
  let ?b = "snd (ikcp_wndsize (w_b w) sndwnd rcvwnd)"
  have eqs: "k_rcv_nxt ?b = k_rcv_nxt (w_b w)" "k_rcv_queue ?b = k_rcv_queue (w_b w)"
    "k_rcv_buf ?b = k_rcv_buf (w_b w)" "k_nrcv_que ?b = k_nrcv_que (w_b w)"
    "k_nrcv_buf ?b = k_nrcv_buf (w_b w)" "k_conv ?b = k_conv (w_b w)"
    by (simp_all add: ikcp_wndsize_def Let_def)
  have "unat (word_of_int rcvwnd :: u32) \<le> 2 ^ 29" if "0 < rcvwnd"
    using that b_wndsize(2) by (simp add: unat_eq_nat_uint take_bit_int_eq_self uint_word_of_int)
  then have wnd: "unat (k_rcv_wnd ?b) \<le> 2 ^ 29 \<or> k_rcv_wnd ?b = k_rcv_wnd (w_b w)"
    by (auto simp: ikcp_wndsize_def Let_def ikcp_imax_def IKCP_WND_RCV_def)
  have keep: "rcv_inv sent U m n ?b" if "rcv_inv sent U m n (w_b w)" for sent U m n
    using that wnd unfolding rcv_inv_def rcv_rel_def eqs by auto
  have "link_inv conv (w\<lparr>w_b := ?b, w_got := w_got w\<rparr>)"
    by (rule link_inv_b_got [OF assms(2)])
      (use assms(2) keep eqs(6) in \<open>unfold link_inv_def w_pos_def, (blast | metis)+\<close>)
  then show ?thesis unfolding b_wndsize(1) by simp
next
  case (b_setmtu alloc mtu)
  show ?thesis unfolding b_setmtu(1)
    by (rule link_inv_b [OF assms(2)]) (use assms(2) in \<open>auto simp: rcv_same_def ikcp_setmtu_def link_inv_def\<close>)
next
  case (b_nodelay nodelay interval resend nc)
  show ?thesis unfolding b_nodelay
    by (rule link_inv_b [OF assms(2)]) (use assms(2) in \<open>simp_all add: rcv_same_def ikcp_nodelay_def link_inv_def Let_def\<close>)
next
  case (b_send buffer len)
  then show ?thesis using rcv_same_send link_inv_b [OF assms(2)] assms(2) by (simp add: link_inv_def)
next
  case (b_update current)
  then show ?thesis using rcv_same_update link_inv_b [OF assms(2)] assms(2) by (simp add: link_inv_def)
qed (auto intro!: link_inv_a_le snd_le_input snd_le_recv snd_le_nodelay snd_le_wndsize)

lemma conv_create [simp]: "k_conv (ikcp_create conv) = conv"
  by (simp add: ikcp_create_def)

lemma link_inv_init: "link_inv conv (kcp_world_init conv)"
proof -
  have "rcv_inv [] (0 + 2 ^ 29) 0 0 (ikcp_create conv)" using rcv_inv_create [of "2 ^ 29"] by simp
  then have "\<exists>n. rcv_inv [] (n + 2 ^ 29) 0 n (ikcp_create conv)" by blast
  then show ?thesis
    using snd_inv_create [of conv] by (simp add: link_inv_def kcp_world_init_def w_pos_def)
qed

lemma link_inv_reach: "kcp_step\<^sup>*\<^sup>* (kcp_world_init conv) w \<Longrightarrow> link_inv conv w"
  by (induction rule: rtranclp_induct) (auto intro: link_inv_init link_inv_step)

lemma link_delivers: "link_inv conv w \<Longrightarrow> w_got w = take (length (w_got w)) (w_sent w)"
  unfolding link_inv_def by (metis take_map)



end
