(* ===== verification/Ikcp_Control.thy ===== *)
theory Ikcp_Control
  imports Ikcp_Recv
begin

text \<open>
  The control loops of KCP: the round-trip estimator, the windows, the list of pending
  acknowledgements, the time of the next update, and the queue counters.
\<close>

section \<open>Round-trip estimation\<close>

text \<open>The estimates are non-negative and small enough for the \<^verbatim>\<open>int\<close> arithmetic of the code.\<close>

definition rtt_ok :: "ikcpcb \<Rightarrow> bool" where
  "rtt_ok kcp \<longleftrightarrow> 0 \<le> k_rx_srtt kcp \<and> k_rx_srtt kcp < 2 ^ 28 \<and>
     0 \<le> k_rx_rttval kcp \<and> k_rx_rttval kcp < 2 ^ 28 \<and>
     0 < k_rx_minrto kcp \<and> k_rx_minrto kcp \<le> 60000 \<and> k_interval kcp \<le> 5000"

lemma sdiv_nonneg: "0 \<le> a \<Longrightarrow> 0 < b \<Longrightarrow> (a :: int) sdiv b = a div b"
  by (cases "a = 0") (simp_all add: signed_divide_int_def)

lemma ikcp_ibound_range:
  "lower \<le> upper \<Longrightarrow> lower \<le> ikcp_ibound lower middle upper \<and> ikcp_ibound lower middle upper \<le> upper"
  by (auto simp: ikcp_ibound_def ikcp_imin_def ikcp_imax_def)



section \<open>Windows\<close>

lemma ikcp_flush_window_bounds:
  assumes "2 \<le> k_ssthresh kcp"
  shows "2 \<le> k_ssthresh (ikcp_flush_window change lost resent cwnd kcp)"
    and "1 \<le> k_cwnd (ikcp_flush_window change lost resent cwnd kcp)"
proof -
  have lt: "\<not> x < 1 \<Longrightarrow> 1 \<le> x" for x :: u32 by (simp only: not_less)
  have min: "2 \<le> (if x < IKCP_THRESH_MIN then IKCP_THRESH_MIN else x)" for x :: u32
    by (auto simp: IKCP_THRESH_MIN_def)
  show "2 \<le> k_ssthresh (ikcp_flush_window change lost resent cwnd kcp)"
    using assms min by (simp add: ikcp_flush_window_def Let_def)
  show "1 \<le> k_cwnd (ikcp_flush_window change lost resent cwnd kcp)"
    unfolding ikcp_flush_window_def Let_def using lt by (simp split: if_split)
qed

text \<open>New segments enter the send buffer only while fewer than \<open>cwnd\<close> are in flight.\<close>

lemma ikcp_flush_move_inflight:
  assumes "unat (k_snd_nxt kcp - k_snd_una kcp) < 2 ^ 30" "unat cwnd < 2 ^ 30"
  shows "unat (k_snd_nxt (ikcp_flush_move cwnd wnd current q kcp) - k_snd_una kcp) \<le>
    max (unat (k_snd_nxt kcp - k_snd_una kcp)) (unat cwnd)"
  using assms
proof (induction q arbitrary: kcp)
  case (Cons s q)
  let ?f = "k_snd_nxt kcp - k_snd_una kcp"
  show ?case
  proof (cases "ikcp_itimediff (k_snd_nxt kcp) (k_snd_una kcp + cwnd) < 0")
    case True
    have "k_snd_nxt kcp - (k_snd_una kcp + cwnd) = of_nat (unat ?f) - of_nat (unat cwnd)"
      by (simp add: algebra_simps)
    then have "ikcp_itimediff (k_snd_nxt kcp) (k_snd_una kcp + cwnd) = sdiff (of_nat (unat ?f)) (of_nat (unat cwnd))"
      by (simp add: ikcp_itimediff_def sdiff_def diff_diff_eq)
    also have "\<dots> = int (unat ?f) - int (unat cwnd)"
      using Cons.prems by (intro sdiff_near) (simp_all del: of_nat_unat)
    finally have lt: "unat ?f < unat cwnd" using True by linarith
    have up: "k_snd_nxt kcp + 1 - k_snd_una kcp = ?f + 1" by (simp add: algebra_simps)
    have "unat (?f + 1) = unat ?f + 1"
      using Cons.prems(1) by (simp add: unat_word_ariths)
    then have nxt: "unat (k_snd_nxt kcp + 1 - k_snd_una kcp) = unat ?f + 1" by (simp only: up)
    let ?kcp = "kcp\<lparr>k_snd_buf := k_snd_buf kcp @ [s\<lparr>sg_conv := k_conv kcp, sg_cmd := IKCP_CMD_PUSH, sg_wnd := wnd,
              sg_ts := current, sg_sn := k_snd_nxt kcp, sg_una := k_rcv_nxt kcp,
              sg_resendts := current, sg_rto := word_of_int (k_rx_rto kcp),
              sg_fastack := 0, sg_xmit := 0\<rparr>], k_nsnd_que := k_nsnd_que kcp - 1,
             k_nsnd_buf := k_nsnd_buf kcp + 1, k_snd_nxt := k_snd_nxt kcp + 1\<rparr>"
    have "unat (k_snd_nxt (ikcp_flush_move cwnd wnd current q ?kcp) - k_snd_una ?kcp) \<le>
        max (unat (k_snd_nxt ?kcp - k_snd_una ?kcp)) (unat cwnd)"
      using nxt lt Cons.prems by (intro Cons.IH) simp_all
    then show ?thesis using True nxt lt by (simp add: Let_def)
  qed simp
qed simp

text \<open>
  C19: the sender's windows. A flush leaves the congestion window at least 1 and the slow-start
  threshold at least 2, and it raises the number of unacknowledged segments at most to the
  send window, the peer's window and, unless switched off, the congestion window.
\<close>

theorem ikcp_flush_windows:
  assumes "k_updated kcp \<noteq> 0" "2 \<le> k_ssthresh kcp"
    and "unat (k_snd_nxt kcp - k_snd_una kcp) < 2 ^ 30" "unat (ikcp_flush_cwnd kcp) < 2 ^ 30"
  shows "1 \<le> k_cwnd (snd (ikcp_flush kcp)) \<and> 2 \<le> k_ssthresh (snd (ikcp_flush kcp)) \<and>
    unat (k_snd_nxt (snd (ikcp_flush kcp)) - k_snd_una (snd (ikcp_flush kcp))) \<le>
      max (unat (k_snd_nxt kcp - k_snd_una kcp)) (unat (ikcp_flush_cwnd kcp))"
proof -
  obtain change lost resent cwnd k where fl: "snd (ikcp_flush kcp) = ikcp_flush_window change lost resent cwnd k"
    "k_ssthresh k = k_ssthresh (ikcp_flush_moved kcp)" "k_snd_nxt k = k_snd_nxt (ikcp_flush_moved kcp)"
    "k_snd_una k = k_snd_una (ikcp_flush_moved kcp)"
    using ikcp_flush_last [OF assms(1)] by blast
  have th: "2 \<le> k_ssthresh k" using assms(2) fl(2) ikcp_flush_moved_spec [of kcp] by auto
  obtain s c i where fr: "ikcp_flush_window change lost resent cwnd k = k\<lparr>k_ssthresh := s, k_cwnd := c, k_incr := i\<rparr>"
    using ikcp_flush_window_frame by blast
  obtain w t where ctl: "fst (ikcp_flush_control kcp (ikcp_flush_ack_seg kcp)) =
      kcp\<lparr>k_ackcount := 0, k_probe_wait := w, k_ts_probe := t, k_probe := 0\<rparr>" (is "_ = ?k1")
    using ikcp_flush_control_frame by blast
  have cw: "ikcp_flush_cwnd ?k1 = ikcp_flush_cwnd kcp" by (simp add: ikcp_flush_cwnd_def Let_def)
  have mv: "ikcp_flush_moved kcp = ikcp_flush_move (ikcp_flush_cwnd kcp) (word_of_int (ikcp_wnd_unused kcp))
      (k_current kcp) (k_snd_queue kcp) ?k1"
    unfolding ikcp_flush_moved_def ctl Let_def cw by simp
  have "unat (k_snd_nxt (ikcp_flush_moved kcp) - k_snd_una ?k1) \<le>
      max (unat (k_snd_nxt ?k1 - k_snd_una ?k1)) (unat (ikcp_flush_cwnd kcp))"
    unfolding mv using assms(3,4) by (intro ikcp_flush_move_inflight) simp_all
  moreover have "k_snd_una (ikcp_flush_moved kcp) = k_snd_una kcp"
    using ikcp_flush_moved_spec [of kcp] by auto
  ultimately have "unat (k_snd_nxt (snd (ikcp_flush kcp)) - k_snd_una (snd (ikcp_flush kcp))) \<le>
      max (unat (k_snd_nxt kcp - k_snd_una kcp)) (unat (ikcp_flush_cwnd kcp))"
    using fl(3,4) unfolding fl(1) fr by simp
  moreover have "1 \<le> k_cwnd (snd (ikcp_flush kcp))" "2 \<le> k_ssthresh (snd (ikcp_flush kcp))"
    unfolding fl(1) using ikcp_flush_window_bounds [OF th] by blast+
  ultimately show ?thesis by blast
qed

theorem ikcp_flush_windows_witness:
  "let kcp = (snd (ikcp_send (ikcp_create 9) [1, 2, 3] 3))\<lparr>k_updated := 1\<rparr>
   in 1 \<le> k_cwnd (snd (ikcp_flush kcp)) \<and> k_snd_nxt (snd (ikcp_flush kcp)) = k_snd_una (snd (ikcp_flush kcp))"
proof -
  let ?kcp = "(snd (ikcp_send (ikcp_create 9) [1, 2, 3] 3))\<lparr>k_updated := 1\<rparr>"
  have h: "k_updated ?kcp \<noteq> 0" "2 \<le> k_ssthresh ?kcp" "k_snd_nxt ?kcp = k_snd_una ?kcp" "ikcp_flush_cwnd ?kcp = 0"
    by code_simp+
  have "unat (k_snd_nxt (snd (ikcp_flush ?kcp)) - k_snd_una (snd (ikcp_flush ?kcp))) = 0"
    "1 \<le> k_cwnd (snd (ikcp_flush ?kcp))"
    using ikcp_flush_windows [OF h(1,2)] by (simp_all add: h(3,4))
  then show ?thesis by (simp add: Let_def unat_eq_0)
qed

section \<open>Pending acknowledgements\<close>

definition ack_ok :: "ikcpcb \<Rightarrow> bool" where
  "ack_ok kcp \<longleftrightarrow> length (k_acklist kcp) = 2 * unat (k_ackblock kcp) \<and>
     unat (k_ackcount kcp) \<le> unat (k_ackblock kcp) \<and> unat (k_ackblock kcp) < 2 ^ 31"

definition pending_acks :: "ikcpcb \<Rightarrow> (u32 \<times> u32) list" where
  "pending_acks kcp = map (ikcp_ack_get kcp) [0..<unat (k_ackcount kcp)]"

lemma ikcp_newblock_spec:
  assumes "0 < nb"
  shows "ns \<le> ikcp_newblock nb ns \<and> nb \<le> ikcp_newblock nb ns \<and> ikcp_newblock nb ns \<le> max nb (2 * ns)"
  using assms
proof (induction nb ns rule: ikcp_newblock.induct)
  case (1 nb ns)
  then show ?case by (subst (1 2 3) ikcp_newblock.simps) fastforce
qed

text \<open>
  The growing array of pending acknowledgements. A push appends one pair to the pending
  list and keeps the earlier ones, in place or after a move to a larger block; every store is
  inside the block.
\<close>

theorem ikcp_ack_push_appends:
  assumes "ack_ok kcp" "unat (k_ackcount kcp) < 2 ^ 29"
  shows "ack_ok (ikcp_ack_push kcp sn ts) \<and>
    pending_acks (ikcp_ack_push kcp sn ts) = pending_acks kcp @ [(sn, ts)]"
proof -
  let ?c = "unat (k_ackcount kcp)"
  have c1: "unat (k_ackcount kcp + 1) = Suc ?c" using assms(2) by (simp add: unat_word_ariths)
  define nb where "nb = ikcp_newblock 8 (Suc ?c)"
  have nb: "Suc ?c \<le> nb" "nb < 2 ^ 31"
    using ikcp_newblock_spec [of 8 "Suc ?c"] assms(2) by (auto simp: nb_def)
  have unb: "unat (of_nat nb :: u32) = nb" using nb(2) by (simp add: unat_of_nat32)
  define al where "al = (if Suc ?c > unat (k_ackblock kcp)
     then take (2 * ?c) (k_acklist kcp) @ replicate (2 * nb - 2 * ?c) 0 else k_acklist kcp)"
  define bl where "bl = (if Suc ?c > unat (k_ackblock kcp) then of_nat nb else k_ackblock kcp)"
  have push: "ikcp_ack_push kcp sn ts = kcp\<lparr>k_acklist := al[2 * ?c := sn, Suc (2 * ?c) := ts],
      k_ackblock := bl, k_ackcount := k_ackcount kcp + 1\<rparr>"
    by (simp add: ikcp_ack_push_def Let_def c1 al_def bl_def nb_def)
  have old: "2 * ?c \<le> length (k_acklist kcp)" using assms(1) by (simp add: ack_ok_def)
  have al: "length al = 2 * unat bl" "Suc ?c \<le> unat bl" "unat bl < 2 ^ 31"
    using assms(1) nb old by (auto simp: al_def bl_def ack_ok_def unb)
  have keep: "al ! j = k_acklist kcp ! j" if "j < 2 * ?c" for j
    using that old by (simp add: al_def nth_append)
  have "ack_ok (ikcp_ack_push kcp sn ts)" using al by (simp add: push ack_ok_def c1)
  moreover have "ikcp_ack_get (ikcp_ack_push kcp sn ts) i = ikcp_ack_get kcp i" if "i < ?c" for i
    using that keep by (simp add: push ikcp_ack_get_def)
  moreover have "ikcp_ack_get (ikcp_ack_push kcp sn ts) ?c = (sn, ts)"
    using al by (simp add: push ikcp_ack_get_def mult.commute [of _ 2])
  ultimately show ?thesis by (simp add: pending_acks_def push c1)
qed

theorem ikcp_ack_push_appends_witness:
  "pending_acks (ikcp_ack_push (ikcp_ack_push (ikcp_create 9) 5 6) 7 8) = [(5, 6), (7, 8)]"
proof -
  have ok: "ack_ok (ikcp_create 9)" "unat (k_ackcount (ikcp_create 9)) < 2 ^ 29"
    by (simp_all add: ack_ok_def ikcp_create_def)
  have ok2: "ack_ok (ikcp_ack_push (ikcp_create 9) 5 6)" "pending_acks (ikcp_ack_push (ikcp_create 9) 5 6) = [(5, 6)]"
    using ikcp_ack_push_appends [OF ok, of 5 6] by (simp_all add: pending_acks_def ikcp_create_def)
  have "unat (k_ackcount (ikcp_ack_push (ikcp_create 9) 5 6)) < 2 ^ 29"
    by (simp add: ikcp_ack_push_def ikcp_create_def Let_def)
  from ikcp_ack_push_appends [OF ok2(1) this, of 7 8] ok2(2) show ?thesis by simp
qed

section \<open>Time of the next update\<close>

lemma ikcp_check_scan_Some:
  assumes "ikcp_check_scan current buf tm = Some t"
  shows "t \<le> tm \<and> (0 < tm \<longrightarrow> 0 < t) \<and> (\<forall>s\<in>set buf. t \<le> ikcp_itimediff (sg_resendts s) current)"
  using assms
proof (induction current buf tm rule: ikcp_check_scan.induct)
  case (2 current seg buf tm)
  let ?d = "ikcp_itimediff (sg_resendts seg) current"
  have "\<not> ?d \<le> 0" using "2.prems" by (auto simp: Let_def)
  moreover from this have "ikcp_check_scan current buf (if ?d < tm then ?d else tm) = Some t"
    using "2.prems" by (simp add: Let_def)
  ultimately show ?case using "2.IH" [of ?d] by (auto split: if_splits)
qed auto

lemma sdiff_add_nat:
  assumes "int k < 2 ^ 31"
  shows "sdiff (a + of_nat k) a = int k"
  using assms by (intro sdiff_ahead) simp

lemma itimediff_flip:
  assumes "ikcp_itimediff a b < 0" "- 10000 \<le> ikcp_itimediff a b"
  shows "0 < ikcp_itimediff b a"
proof -
  have n: "- sint (a - b) = i32 (- sint (a - b))"
    using assms by (intro i32_small [symmetric]) (auto simp: ikcp_itimediff_def sdiff_def)
  also have "\<dots> = sint (b - a)"
  proof -
    have "word_of_int (- sint (a - b)) = (b - a :: u32)" by simp
    then show ?thesis by (simp add: i32_def)
  qed
  finally show ?thesis using assms(1) by (simp add: ikcp_itimediff_def sdiff_def)
qed

text \<open>
  C21: \<^verbatim>\<open>ikcp_check\<close> never tells the caller to come back too late. The time it returns is the
  current one or later by at most one interval, and if it is later, neither the next flush
  nor the retransmission of any segment is due before it.
\<close>

theorem ikcp_check_in_time:
  assumes "k_updated kcp \<noteq> 0" "unat (k_interval kcp) < 2 ^ 31"
  shows "0 \<le> sdiff (ikcp_check kcp current) current \<and>
    sdiff (ikcp_check kcp current) current \<le> int (unat (k_interval kcp)) \<and>
    (ikcp_check kcp current \<noteq> current \<longrightarrow>
       sdiff (ikcp_check kcp current) current \<le> sdiff (k_ts_flush kcp) current \<and>
       (\<forall>s\<in>set (k_snd_buf kcp). sdiff (ikcp_check kcp current) current \<le> sdiff (sg_resendts s) current))"
proof (cases "ikcp_check kcp current = current")
  case True
  then show ?thesis by simp
next
  case False
  let ?ts = "k_ts_flush kcp"
  have near: "\<not> (ikcp_itimediff current ?ts \<ge> 10000 \<or> ikcp_itimediff current ?ts < -10000)"
    using False assms(1) by (auto simp: ikcp_check_def ikcp_itimediff_def)
  have early: "\<not> ikcp_itimediff current ?ts \<ge> 0"
    using False assms(1) near by (auto simp: ikcp_check_def)
  let ?fl = "ikcp_itimediff ?ts current"
  have fl: "0 < ?fl" "?fl < 2 ^ 31"
    using itimediff_flip [of current ?ts] near early sdiff_bounds by (auto simp: ikcp_itimediff_def)
  obtain tm where tm: "ikcp_check_scan current (k_snd_buf kcp) 0x7fffffff = Some tm"
    using False assms(1) near early
    by (cases "ikcp_check_scan current (k_snd_buf kcp) 0x7fffffff") (auto simp: ikcp_check_def Let_def)
  note scan = ikcp_check_scan_Some [OF tm]
  define lo where "lo = (if tm < ?fl then tm else ?fl)"
  have lo: "0 < lo" "lo < 2 ^ 31" "lo \<le> tm" "lo \<le> ?fl" using scan fl by (auto simp: lo_def)
  let ?m = "word_of_int lo :: u32"
  have um: "unat ?m = nat lo" using lo by (simp add: unat_eq_nat_uint uint_word_of_int take_bit_int_eq_self)
  define k where "k = min (nat lo) (unat (k_interval kcp))"
  have k: "(if ?m \<ge> k_interval kcp then k_interval kcp else ?m) = of_nat k"
    using lo by (auto simp: k_def word_le_nat_alt um min_def)
  have res: "ikcp_check kcp current = current + of_nat k"
    using assms(1) near early
    unfolding ikcp_check_def Let_def by (simp only: if_False tm option.case lo_def [symmetric] k)
  have "int k < 2 ^ 31" using lo by (simp add: k_def)
  then have d: "sdiff (ikcp_check kcp current) current = int k" unfolding res by (rule sdiff_add_nat)
  have "int k \<le> lo" "int k \<le> int (unat (k_interval kcp))" using lo(1) by (auto simp: k_def simp del: of_nat_unat)
  then show ?thesis
    unfolding d using scan lo(3,4) by (auto simp: ikcp_itimediff_def simp del: of_nat_unat)
qed

theorem ikcp_check_in_time_witness:
  "let kcp = snd (ikcp_update (ikcp_create 9) 1000)
   in ikcp_check kcp 1030 = 1100 \<and> sdiff (ikcp_check kcp 1030) 1030 \<le> 100"
proof -
  let ?kcp = "snd (ikcp_update (ikcp_create 9) 1000)"
  have h: "k_updated ?kcp \<noteq> 0" "k_interval ?kcp = 100" "ikcp_check ?kcp 1030 = 1100" by code_simp+
  show ?thesis using ikcp_check_in_time [OF h(1), of 1030] by (simp add: h Let_def)
qed

section \<open>Counters\<close>

text \<open>The sending counters agree with the lengths of the lists they count, modulo 2^32.\<close>

definition snd_counts :: "ikcpcb \<Rightarrow> bool" where
  "snd_counts kcp \<longleftrightarrow> k_nsnd_que kcp = of_nat (length (k_snd_queue kcp)) \<and>
     k_nsnd_buf kcp = of_nat (length (k_snd_buf kcp))"

lemma ikcp_fragment_counts:
  "snd_counts kcp \<Longrightarrow> snd_counts (ikcp_fragment n count i buffer len kcp)"
proof (induction n count i buffer len kcp rule: ikcp_fragment.induct)
  case (2 n count i buffer len kcp)
  then show ?case unfolding ikcp_fragment.simps Let_def
    by (intro "2.IH" [OF refl refl]) (simp add: snd_counts_def)
qed simp

lemma ikcp_send_counts: "snd_counts kcp \<Longrightarrow> snd_counts (snd (ikcp_send kcp buffer len))"
proof -
  assume c: "snd_counts kcp"
  let ?e = "if k_stream kcp \<noteq> 0 then ikcp_send_extend kcp buffer len else (0, kcp)"
  have e: "snd_counts (snd ?e)"
    using c by (auto simp: ikcp_send_extend_def Let_def snd_counts_def)
  obtain x k where ek: "?e = (x, k)" by (cases ?e)
  with e have "snd_counts k" by simp
  with c ikcp_fragment_counts show ?thesis
    unfolding ikcp_send_def Let_def ek prod.case by (simp only: if_distrib [of snd] snd_conv) simp
qed

lemma ikcp_una_loop_counts:
  "n = of_nat (length buf) \<Longrightarrow>
   snd (ikcp_una_loop una buf n) = of_nat (length (fst (ikcp_una_loop una buf n)))"
  by (induction una buf n rule: ikcp_una_loop.induct) auto

lemma ikcp_ack_remove_counts:
  "length buf = length (snd (ikcp_ack_remove sn buf)) + (if fst (ikcp_ack_remove sn buf) then 1 else 0)"
  by (induction sn buf rule: ikcp_ack_remove.induct) (auto split: prod.splits if_splits)

lemma length_fastack_loop [simp]: "length (ikcp_fastack_loop sn buf) = length buf"
  by (induction sn buf rule: ikcp_fastack_loop.induct) auto

lemma snd_counts_parse_una: "snd_counts kcp \<Longrightarrow> snd_counts (ikcp_parse_una kcp una)"
  using ikcp_una_loop_counts [of "k_nsnd_buf kcp" "k_snd_buf kcp" una]
  by (simp add: snd_counts_def ikcp_parse_una_def case_prod_beta)

lemma snd_counts_parse_ack: "snd_counts kcp \<Longrightarrow> snd_counts (ikcp_parse_ack kcp sn)"
  using ikcp_ack_remove_counts [of "k_snd_buf kcp" sn]
  by (auto simp: snd_counts_def ikcp_parse_ack_def case_prod_beta)

text \<open>The fields that count: stages that keep them keep the invariant.\<close>

definition snd_cnt_same :: "ikcpcb \<Rightarrow> ikcpcb \<Rightarrow> bool" where
  "snd_cnt_same kcp kcp' \<longleftrightarrow> k_nsnd_que kcp' = k_nsnd_que kcp \<and> k_nsnd_buf kcp' = k_nsnd_buf kcp \<and>
     length (k_snd_queue kcp') = length (k_snd_queue kcp) \<and> length (k_snd_buf kcp') = length (k_snd_buf kcp)"

lemma snd_counts_same: "snd_counts kcp \<Longrightarrow> snd_cnt_same kcp kcp' \<Longrightarrow> snd_counts kcp'"
  by (simp add: snd_counts_def snd_cnt_same_def)

lemma snd_cnt_same_ops:
  "snd_cnt_same kcp (ikcp_shrink_buf kcp)" "snd_cnt_same kcp (ikcp_update_ack kcp rtt)"
  "snd_cnt_same kcp (ikcp_parse_fastack kcp sn ts)" "snd_cnt_same kcp (ikcp_ack_push kcp sn ts)"
  "snd_cnt_same kcp (ikcp_input_cwnd una kcp)"
  by (simp_all add: snd_cnt_same_def ikcp_shrink_buf_def ikcp_update_ack_def ikcp_parse_fastack_def
      ikcp_ack_push_def ikcp_input_cwnd_def Let_def case_prod_beta split: list.split)

lemma snd_cnt_same_move_rcv: "snd_cnt_same kcp (ikcp_move_rcv buf kcp)"
proof (induction buf kcp rule: ikcp_move_rcv.induct)
  case (2 seg buf kcp)
  then show ?case by (simp add: snd_cnt_same_def)
qed (simp add: snd_cnt_same_def)

lemma snd_cnt_same_parse_data: "snd_cnt_same kcp (ikcp_parse_data kcp seg)"
proof -
  have "snd_cnt_same kcp (ikcp_move_rcv c (kcp\<lparr>k_rcv_buf := b, k_nrcv_buf := n\<rparr>))" for b n c
    using snd_cnt_same_move_rcv [of "kcp\<lparr>k_rcv_buf := b, k_nrcv_buf := n\<rparr>" c]
    by (simp add: snd_cnt_same_def)
  then show ?thesis
    using snd_cnt_same_move_rcv [of kcp]
    by (auto simp: ikcp_parse_data_def Let_def snd_cnt_same_def split: option.splits)
qed

lemma snd_counts_input_push:
  "snd_counts kcp \<Longrightarrow> snd_counts (ikcp_input_push h payload kcp)"
  unfolding ikcp_input_push_def Let_def
  by (auto intro: snd_counts_same [OF snd_counts_same [OF _ snd_cnt_same_ops(4)] snd_cnt_same_parse_data]
      snd_counts_same [OF _ snd_cnt_same_ops(4)])

lemma snd_counts_input_ack:
  assumes "snd_counts (in_kcp st)"
  shows "snd_counts (in_kcp (ikcp_input_ack h st))"
proof -
  let ?k = "if ikcp_itimediff (k_current (in_kcp st)) (h_ts h) \<ge> 0
    then ikcp_update_ack (in_kcp st) (ikcp_itimediff (k_current (in_kcp st)) (h_ts h)) else in_kcp st"
  have "snd_counts ?k" using assms snd_counts_same [OF _ snd_cnt_same_ops(2)] by simp
  then have "snd_counts (ikcp_shrink_buf (ikcp_parse_ack ?k (h_sn h)))"
    using snd_counts_parse_ack snd_counts_same [OF _ snd_cnt_same_ops(1)] by blast
  then show ?thesis unfolding ikcp_input_ack_def Let_def by simp
qed

lemma snd_counts_input_seg:
  assumes "snd_counts (in_kcp st)"
  shows "case ikcp_input_seg h payload st of Inl e \<Rightarrow> snd_counts (snd e) | Inr st' \<Rightarrow> snd_counts (in_kcp st')"
proof -
  let ?k = "ikcp_shrink_buf (ikcp_parse_una ((in_kcp st)\<lparr>k_rmt_wnd := ucast (h_wnd h)\<rparr>) (h_una h))"
  have "snd_counts ((in_kcp st)\<lparr>k_rmt_wnd := ucast (h_wnd h)\<rparr>)" using assms by (simp add: snd_counts_def)
  then have k: "snd_counts ?k"
    using snd_counts_parse_una snd_counts_same [OF _ snd_cnt_same_ops(1)] by blast
  have "snd_counts (?k\<lparr>k_probe := p\<rparr>)" for p using k by (simp add: snd_counts_def)
  moreover have "snd_counts (in_kcp (ikcp_input_ack h (st\<lparr>in_kcp := ?k, in_cmd := h_cmd h\<rparr>)))"
    using k by (intro snd_counts_input_ack) simp
  ultimately show ?thesis
    unfolding ikcp_input_seg_def Let_def using assms k snd_counts_input_push [OF k] by simp
qed

lemma snd_counts_input_loop:
  "snd_counts (in_kcp st) \<Longrightarrow>
   case ikcp_input_loop data st of Inl e \<Rightarrow> snd_counts (snd e) | Inr st' \<Rightarrow> snd_counts (in_kcp st')"
proof (induction data st rule: ikcp_input_loop.induct)
  case (1 data st)
  let ?h = "ikcp_decode_header data"
  show ?case
  proof (cases "length data < 24")
    case True
    then show ?thesis using "1.prems" by (simp add: ikcp_input_loop.simps)
  next
    case False
    show ?thesis
    proof (cases "ikcp_input_seg ?h (drop 24 data) st")
      case (Inl e)
      then show ?thesis
        using False snd_counts_input_seg [OF "1.prems", of ?h "drop 24 data"]
        by (simp add: ikcp_input_loop.simps [of data] Let_def)
    next
      case (Inr st')
      then have "snd_counts (in_kcp st')"
        using snd_counts_input_seg [OF "1.prems", of ?h "drop 24 data"] by simp
      moreover have "ikcp_input_loop data st = ikcp_input_loop (drop (unat (h_len ?h)) (drop 24 data)) st'"
        using False Inr by (simp add: ikcp_input_loop.simps [of data] Let_def)
      ultimately show ?thesis using "1.IH" [OF False refl Inr] by simp
    qed
  qed
qed

lemma snd_counts_input: "snd_counts kcp \<Longrightarrow> snd_counts (snd (ikcp_input kcp dat))"
proof (cases dat)
  case (Some data)
  assume c: "snd_counts kcp"
  let ?st = "\<lparr>in_kcp = kcp, in_flag = False, in_maxack = 0, in_latest_ts = 0, in_cmd = 0\<rparr>"
  have loop: "case ikcp_input_loop data ?st of Inl e \<Rightarrow> snd_counts (snd e) | Inr st' \<Rightarrow> snd_counts (in_kcp st')"
    using c by (intro snd_counts_input_loop) simp
  show ?thesis
  proof (cases "ikcp_input_loop data ?st")
    case (Inl e)
    then show ?thesis using loop c Some by (simp add: ikcp_input_def)
  next
    case (Inr st)
    let ?k = "if in_flag st then ikcp_parse_fastack (in_kcp st) (in_maxack st) (in_latest_ts st) else in_kcp st"
    have "snd_counts ?k" using loop Inr snd_counts_same [OF _ snd_cnt_same_ops(3)] by simp
    then have "snd_counts (ikcp_input_cwnd (k_snd_una kcp) ?k)"
      by (rule snd_counts_same [OF _ snd_cnt_same_ops(5)])
    then show ?thesis using c Inr Some by (simp add: ikcp_input_def Let_def)
  qed
qed (simp add: ikcp_input_def)

lemma snd_counts_moved:
  assumes "snd_counts kcp"
  shows "snd_counts (ikcp_flush_moved kcp)"
proof -
  obtain k new w t where m: "k \<le> length (k_snd_queue kcp)" "length new = k"
    "ikcp_flush_moved kcp = kcp\<lparr>
       k_ackcount := 0, k_probe_wait := w, k_ts_probe := t, k_probe := 0,
       k_snd_queue := drop k (k_snd_queue kcp), k_snd_buf := k_snd_buf kcp @ new,
       k_nsnd_que := k_nsnd_que kcp - of_nat k, k_nsnd_buf := k_nsnd_buf kcp + of_nat k,
       k_snd_nxt := k_snd_nxt kcp + of_nat k\<rparr>"
    using ikcp_flush_moved_spec [of kcp] by blast
  show ?thesis
    using assms m(1,2) of_nat_diff [OF m(1), where ?'a = u32] by (simp add: snd_counts_def m(3))
qed

lemma snd_counts_flush:
  assumes "snd_counts kcp"
  shows "snd_counts (snd (ikcp_flush kcp))"
proof (cases "k_updated kcp = 0")
  case True
  then show ?thesis using assms by (simp add: ikcp_flush_idle)
next
  case False
  have c: "put_closed (\<lambda>_. True) mtu need enc" for mtu need enc by (simp add: put_closed_def)
  have "(\<forall>d\<in>set (fst (ikcp_flush kcp)). True) \<and>
    (\<exists>x st buf s c i. list_all2 seg_same (k_snd_buf (ikcp_flush_moved kcp)) buf \<and>
       snd (ikcp_flush kcp) = (ikcp_flush_moved kcp)\<lparr>k_xmit := x, k_state := st, k_snd_buf := buf,
          k_ssthresh := s, k_cwnd := c, k_incr := i\<rparr>)"
    by (rule ikcp_flush_shape [OF False TrueI c c])
  then obtain x st buf s c i where "list_all2 seg_same (k_snd_buf (ikcp_flush_moved kcp)) buf"
    "snd (ikcp_flush kcp) = (ikcp_flush_moved kcp)\<lparr>k_xmit := x, k_state := st, k_snd_buf := buf,
          k_ssthresh := s, k_cwnd := c, k_incr := i\<rparr>" by blast
  then show ?thesis
    using snd_counts_moved [OF assms] by (auto simp: snd_counts_def dest: list_all2_lengthD)
qed

text \<open>A call of the application or the network on a control block.\<close>

datatype ikcp_call =
  CallSend bytes int | CallRecv int | CallInput "bytes option" | CallUpdate u32 | CallFlush
| CallNodelay int int int int | CallWndsize int int | CallSetmtu bool int

fun ikcp_call_run :: "ikcp_call \<Rightarrow> ikcpcb \<Rightarrow> ikcpcb" where
  "ikcp_call_run (CallSend buffer len) kcp = snd (ikcp_send kcp buffer len)"
| "ikcp_call_run (CallRecv len) kcp = snd (snd (ikcp_recv kcp len))"
| "ikcp_call_run (CallInput dat) kcp = snd (ikcp_input kcp dat)"
| "ikcp_call_run (CallUpdate current) kcp = snd (ikcp_update kcp current)"
| "ikcp_call_run CallFlush kcp = snd (ikcp_flush kcp)"
| "ikcp_call_run (CallNodelay nodelay interval resend nc) kcp = snd (ikcp_nodelay kcp nodelay interval resend nc)"
| "ikcp_call_run (CallWndsize sndwnd rcvwnd) kcp = snd (ikcp_wndsize kcp sndwnd rcvwnd)"
| "ikcp_call_run (CallSetmtu alloc mtu) kcp = snd (ikcp_setmtu alloc kcp mtu)"

lemma snd_counts_recv: "snd_counts kcp \<Longrightarrow> snd_counts (snd (snd (ikcp_recv kcp len)))"
proof -
  assume c: "snd_counts kcp"
  have m: "snd_counts (ikcp_move_rcv b (kcp\<lparr>k_rcv_queue := q, k_nrcv_que := n\<rparr>))" for b q n
    using c by (intro snd_counts_same [OF _ snd_cnt_same_move_rcv]) (simp add: snd_counts_def)
  have "snd_counts (a\<lparr>k_probe := p\<rparr>)" if "snd_counts a" for a p using that by (simp add: snd_counts_def)
  with m c show ?thesis
    unfolding ikcp_recv_def Let_def case_prod_beta by simp
qed

lemma snd_counts_update: "snd_counts kcp \<Longrightarrow> snd_counts (snd (ikcp_update kcp current))"
proof -
  assume c: "snd_counts kcp"
  have k: "snd_counts (kcp\<lparr>k_current := a, k_updated := u, k_ts_flush := t\<rparr>)" for a u t
    using c by (simp add: snd_counts_def)
  obtain a u t where "ikcp_update kcp current = ikcp_flush (kcp\<lparr>k_current := a, k_updated := u, k_ts_flush := t\<rparr>) \<or>
      ikcp_update kcp current = ([], kcp\<lparr>k_current := a, k_updated := u, k_ts_flush := t\<rparr>)"
    using ikcp_update_shape by blast
  then show ?thesis using snd_counts_flush [OF k] k by auto
qed

lemma snd_counts_call: "snd_counts kcp \<Longrightarrow> snd_counts (ikcp_call_run c kcp)"
proof (cases c)
  case (CallSetmtu alloc mtu)
  assume "snd_counts kcp"
  then show ?thesis using CallSetmtu by (auto simp: snd_counts_def ikcp_setmtu_def)
qed (auto simp: ikcp_send_counts snd_counts_recv snd_counts_input snd_counts_update snd_counts_flush,
     simp_all add: snd_counts_def ikcp_nodelay_def ikcp_wndsize_def Let_def)

text \<open>
  \<^verbatim>\<open>ikcp_waitsnd\<close> is exact. After any sequence of calls, with any input from the network,
  it returns the number of segments that are queued or unacknowledged (as a 32-bit number).
\<close>

theorem ikcp_waitsnd_exact:
  "ikcp_waitsnd (fold ikcp_call_run calls (ikcp_create conv)) =
     i32 (int (length (k_snd_buf (fold ikcp_call_run calls (ikcp_create conv))) +
               length (k_snd_queue (fold ikcp_call_run calls (ikcp_create conv)))))"
proof -
  have "snd_counts (fold ikcp_call_run calls kcp)" if "snd_counts kcp" for kcp
    using that by (induction calls arbitrary: kcp) (auto simp: snd_counts_call)
  moreover have "snd_counts (ikcp_create conv)" by (simp add: snd_counts_def ikcp_create_def)
  ultimately show ?thesis by (simp add: snd_counts_def ikcp_waitsnd_def i32_def)
qed

end
