(* ===== verification/Tcp_Socket.thy ===== *)
theory Tcp_Socket
  imports Knet_Prelude
begin

text \<open>
  \<^verbatim>\<open>tcp/asio/tcp_socket.hpp\<close> and the event enumeration of \<^verbatim>\<open>knet_handler.hpp\<close>: the class
  \<^verbatim>\<open>TcpSocket<T>\<close> with its two write buffers, its read buffer and its status. The operating
  system and the event loop appear as the steps of a transition relation: tasks posted to
  the loop run in order, outstanding reads, writes and connects complete in any order and
  with either outcome. The connection object the socket calls back is a parameter, a record
  of functions; what it does to the socket inside a callback is a list of actions.
\<close>

section \<open>Events and status\<close>

datatype NetEvent =
    EVT_THREAD_INIT | EVT_THREAD_EXIT | EVT_LISTEN_START | EVT_LISTEN_FAIL | EVT_LISTEN_STOP
  | EVT_CREATE | EVT_RELEASE | EVT_CONNECT | EVT_CONNECT_FAIL | EVT_RECV | EVT_SEND
  | EVT_DISCONNECT | EVT_RECYLE_TIMER | EVT_USER1 | EVT_USER2 | EVT_END

datatype SocketStatus =
    SOCKET_IDLE | SOCKET_INIT | SOCKET_CONNECTING | SOCKET_OPEN | SOCKET_CLOSING
  | SOCKET_RECONNECT | SOCKET_CLOSED

fun status_code :: "SocketStatus \<Rightarrow> nat" where
  "status_code SOCKET_IDLE = 0"
| "status_code SOCKET_INIT = 1"
| "status_code SOCKET_CONNECTING = 2"
| "status_code SOCKET_OPEN = 3"
| "status_code SOCKET_CLOSING = 4"
| "status_code SOCKET_RECONNECT = 5"
| "status_code SOCKET_CLOSED = 6"

text \<open>The comparisons of the scoped enumeration are those of its underlying integers.\<close>

instantiation SocketStatus :: linorder
begin

definition less_eq_SocketStatus :: "SocketStatus \<Rightarrow> SocketStatus \<Rightarrow> bool" where
  "less_eq_SocketStatus a b \<longleftrightarrow> status_code a \<le> status_code b"

definition less_SocketStatus :: "SocketStatus \<Rightarrow> SocketStatus \<Rightarrow> bool" where
  "less_SocketStatus a b \<longleftrightarrow> status_code a < status_code b"

instance
proof
  fix x y :: SocketStatus
  show "x \<le> y \<Longrightarrow> y \<le> x \<Longrightarrow> x = y"
    by (cases x; cases y) (simp_all add: less_eq_SocketStatus_def)
qed (auto simp: less_eq_SocketStatus_def less_SocketStatus_def)

end

definition kReadBufferSize :: nat where
  "kReadBufferSize = 1024 * 16"

section \<open>State\<close>

text \<open>
  An argument of \<^verbatim>\<open>msend\<close>: the bytes of a plain object, a string (view), or a
  \<^verbatim>\<open>const char *\<close>, which may be null and otherwise ends at its first zero byte.
\<close>

datatype send_arg = ArgObject bytes | ArgString bytes | ArgCStr "bytes option"

datatype loop_task = TaskSend | TaskClose

text \<open>
  \<open>writes\<close> holds the buffers of the \<^verbatim>\<open>async_write\<close>s under way, \<open>reads\<close> the start
  positions of the \<^verbatim>\<open>async_read_some\<close>s under way, \<open>connects\<close> the number of
  \<^verbatim>\<open>async_connect\<close>s under way and \<open>tasks\<close> what was posted to the loop. \<open>has_conn\<close>
  says whether the \<^verbatim>\<open>connection\<close> pointer is set and \<open>conn\<close> is the object it points to.
  The last five fields are a history that the code does not keep and never reads: the bytes
  accepted for sending, those the kernel reported as written, those it delivered, the
  packages handed to the connection and the events raised on it.
\<close>

record 'c tcp_socket =
  sock_open :: bool
  has_conn :: bool
  conn :: 'c
  read_buffer :: bytes
  read_buffer_pos :: nat
  send_buffer :: bytes
  cache_buffer :: bytes
  socket_status :: SocketStatus
  is_writting :: bool
  tasks :: "loop_task list"
  writes :: "bytes list"
  reads :: "nat list"
  connects :: nat
  h_accepted :: bytes
  h_written :: bytes
  h_received :: bytes
  h_packages :: "bytes list"
  h_events :: "NetEvent list"

definition TcpSocket_init :: "bool \<Rightarrow> bytes \<Rightarrow> 'c \<Rightarrow> 'c tcp_socket" where
  "TcpSocket_init opened storage c =
     \<lparr>sock_open = opened, has_conn = True, conn = c, read_buffer = storage, read_buffer_pos = 0,
      send_buffer = [], cache_buffer = [], socket_status = SOCKET_INIT, is_writting = False,
      tasks = [], writes = [], reads = [], connects = 0,
      h_accepted = [], h_written = [], h_received = [], h_packages = [], h_events = []\<rparr>"

definition is_open :: "'c tcp_socket \<Rightarrow> bool" where
  "is_open s \<longleftrightarrow> sock_open s \<and> socket_status s = SOCKET_OPEN"

definition is_connecting :: "'c tcp_socket \<Rightarrow> bool" where
  "is_connecting s \<longleftrightarrow> socket_status s = SOCKET_CONNECTING"

section \<open>Sending\<close>

fun write_data :: "send_arg \<Rightarrow> bytes \<Rightarrow> u32 \<times> bytes" where
  "write_data (ArgObject d) sb = (of_nat (length (sb @ d)), sb @ d)"
| "write_data (ArgString d) sb = (of_nat (length (sb @ d)), sb @ d)"
| "write_data (ArgCStr (Some m)) sb =
     (let d = takeWhile (\<lambda>b. b \<noteq> 0) m in (of_nat (length (sb @ d)), sb @ d))"
| "write_data (ArgCStr None) sb = (0, sb)"

fun mpush :: "send_arg list \<Rightarrow> bytes \<Rightarrow> u32 \<times> bytes" where
  "mpush [] sb = (0, sb)"
| "mpush (data # rest) sb =
     (case write_data data sb of (len, sb) \<Rightarrow>
        if len > 0 then (case mpush rest sb of (r, sb) \<Rightarrow> (len + r, sb)) else (0, sb))"

definition do_send :: "'c tcp_socket \<Rightarrow> 'c tcp_socket" where
  "do_send s = s\<lparr>tasks := tasks s @ [TaskSend]\<rparr>"

definition msend :: "send_arg list \<Rightarrow> 'c tcp_socket \<Rightarrow> int \<times> 'c tcp_socket" where
  "msend args s =
     (if is_open s then
        (case mpush args (send_buffer s) of (sent, sb) \<Rightarrow>
           (sint sent,
            do_send (s\<lparr>send_buffer := sb,
                       h_accepted := h_accepted s @ drop (length (send_buffer s)) sb\<rparr>)))
      else (-1, s))"

definition send :: "bytes \<Rightarrow> 'c tcp_socket \<Rightarrow> int \<times> 'c tcp_socket" where
  "send data s = msend [ArgString data] s"

text \<open>\<^verbatim>\<open>do_async_write\<close> up to the start of the write.\<close>

definition do_async_write :: "'c tcp_socket \<Rightarrow> 'c tcp_socket" where
  "do_async_write s =
     (let s = (if send_buffer s \<noteq> [] \<and> cache_buffer s = []
               then s\<lparr>send_buffer := cache_buffer s, cache_buffer := send_buffer s\<rparr> else s) in
      if cache_buffer s = [] then s\<lparr>is_writting := False\<rparr>
      else s\<lparr>is_writting := True, writes := writes s @ [cache_buffer s]\<rparr>)"

text \<open>\<^verbatim>\<open>close()\<close>: refused while closing or closed, otherwise posted to the loop.\<close>

definition close_socket :: "'c tcp_socket \<Rightarrow> 'c tcp_socket" where
  "close_socket s =
     (if socket_status s = SOCKET_CLOSING \<or> socket_status s = SOCKET_CLOSED then s
      else s\<lparr>tasks := tasks s @ [TaskClose]\<rparr>)"

section \<open>The connection behind the socket\<close>

text \<open>
  What the connection does to its own socket inside a callback: send, or close. Both
  take effect at once (\<^verbatim>\<open>msend\<close> on the buffer, \<^verbatim>\<open>close\<close> by posting).
\<close>

datatype sock_act = ActSend "send_arg list" | ActClose

record 'c conn_ops =
  process_package :: "bytes \<Rightarrow> u32 \<Rightarrow> 'c \<Rightarrow> int \<times> 'c"
  process_pkg_data :: "bytes \<Rightarrow> 'c \<Rightarrow> 'c \<times> sock_act list"
  process_event :: "NetEvent \<Rightarrow> 'c \<Rightarrow> 'c \<times> sock_act list"
  release :: "'c \<Rightarrow> 'c \<times> sock_act list"
  need_reconnect :: "'c \<Rightarrow> bool"

fun run_act :: "sock_act \<Rightarrow> 'c tcp_socket \<Rightarrow> 'c tcp_socket" where
  "run_act (ActSend args) s = snd (msend args s)"
| "run_act ActClose s = close_socket s"

definition run_callback :: "'c \<times> sock_act list \<Rightarrow> 'c tcp_socket \<Rightarrow> 'c tcp_socket" where
  "run_callback r s = fold run_act (snd r) (s\<lparr>conn := fst r\<rparr>)"

definition raise_event :: "'c conn_ops \<Rightarrow> NetEvent \<Rightarrow> 'c tcp_socket \<Rightarrow> 'c tcp_socket" where
  "raise_event ops e s =
     run_callback (process_event ops e (conn s)) (s\<lparr>h_events := h_events s @ [e]\<rparr>)"

definition raise_release :: "'c conn_ops \<Rightarrow> 'c tcp_socket \<Rightarrow> 'c tcp_socket" where
  "raise_release ops s =
     run_callback (release ops (conn s)) (s\<lparr>h_events := h_events s @ [EVT_RELEASE]\<rparr>)"

definition raise_data :: "'c conn_ops \<Rightarrow> bytes \<Rightarrow> 'c tcp_socket \<Rightarrow> 'c tcp_socket" where
  "raise_data ops d s =
     run_callback (process_pkg_data ops d (conn s)) (s\<lparr>h_packages := h_packages s @ [d]\<rparr>)"

section \<open>Synchronous sending\<close>

text \<open>
  \<open>ok\<close> is the outcome of \<^verbatim>\<open>asio::write\<close>, which either writes everything or throws.
\<close>

definition sync_send :: "'c conn_ops \<Rightarrow> bool \<Rightarrow> bytes \<Rightarrow> 'c tcp_socket \<Rightarrow> int \<times> 'c tcp_socket" where
  "sync_send ops ok data s =
     (if is_open s \<and> ok then
        let s = s\<lparr>h_written := h_written s @ data\<rparr>;
            s = (if length data > 0 \<and> has_conn s then raise_event ops EVT_SEND s else s)
        in (sint (of_nat (length data) :: u32), s)
      else (-1, s))"

definition sync_sendv ::
  "'c conn_ops \<Rightarrow> bool \<Rightarrow> bytes list \<Rightarrow> 'c tcp_socket \<Rightarrow> int \<times> 'c tcp_socket" where
  "sync_sendv ops ok buffers s =
     (let asioBuffers = replicate (length buffers) [] @ buffers in
      if is_open s \<and> ok then
        let data = concat asioBuffers;
            s = s\<lparr>h_written := h_written s @ data\<rparr>;
            s = (if length data > 0 \<and> has_conn s then raise_event ops EVT_SEND s else s)
        in (sint (of_nat (length data) :: u32), s)
      else (-1, s))"

fun mpush_sync ::
  "'c conn_ops \<Rightarrow> bool \<Rightarrow> send_arg list \<Rightarrow> 'c tcp_socket \<Rightarrow> int \<times> 'c tcp_socket" where
  "mpush_sync ops ok (data # rest) s =
     mpush_sync ops ok rest (s\<lparr>send_buffer := snd (write_data data (send_buffer s))\<rparr>)"
| "mpush_sync ops ok [] s =
     (if ok then
        let data = send_buffer s;
            s = s\<lparr>send_buffer := [], h_written := h_written s @ data\<rparr>;
            s = (if length data > 0 \<and> has_conn s then raise_event ops EVT_SEND s else s)
        in (sint (of_nat (length data) :: u32), s)
      else (-1, s))"

definition sync_msend ::
  "'c conn_ops \<Rightarrow> bool \<Rightarrow> send_arg list \<Rightarrow> 'c tcp_socket \<Rightarrow> int \<times> 'c tcp_socket" where
  "sync_msend ops ok args s = (if is_open s then mpush_sync ops ok args s else (0, s))"

section \<open>Closing\<close>

definition do_close :: "'c conn_ops \<Rightarrow> 'c tcp_socket \<Rightarrow> 'c tcp_socket" where
  "do_close ops s =
     (if socket_status s = SOCKET_CLOSING \<or> socket_status s = SOCKET_CLOSED then s
      else
        let s = (if socket_status s < SOCKET_CLOSING then s\<lparr>socket_status := SOCKET_CLOSING\<rparr> else s);
            s = (if has_conn s then
                   let s = s\<lparr>send_buffer := [], cache_buffer := []\<rparr>;
                       s = (if socket_status s \<le> SOCKET_CLOSING then raise_event ops EVT_DISCONNECT s
                            else s)
                   in if need_reconnect ops (conn s) then s\<lparr>socket_status := SOCKET_RECONNECT\<rparr>
                      else
                        let s = raise_release ops (s\<lparr>socket_status := SOCKET_CLOSED, sock_open := False\<rparr>)
                        in s\<lparr>has_conn := False\<rparr>
                 else s\<lparr>socket_status := SOCKET_CLOSED, sock_open := False\<rparr>)
        in s\<lparr>read_buffer_pos := 0\<rparr>)"

text \<open>The body that \<^verbatim>\<open>close()\<close> posts.\<close>

definition close_task :: "'c conn_ops \<Rightarrow> 'c tcp_socket \<Rightarrow> 'c tcp_socket" where
  "close_task ops s =
     (let s = s\<lparr>socket_status := SOCKET_CLOSING\<rparr>;
          s = (if has_conn s then
                 let s = (if send_buffer s \<noteq> [] then do_async_write s else s);
                     s = (if socket_status s \<le> SOCKET_CLOSING then raise_event ops EVT_DISCONNECT s
                          else s);
                     s = s\<lparr>socket_status := SOCKET_CLOSED, sock_open := False\<rparr>
                 in if need_reconnect ops (conn s) then s\<lparr>socket_status := SOCKET_RECONNECT\<rparr>
                    else (raise_release ops s)\<lparr>has_conn := False\<rparr>
               else s\<lparr>socket_status := SOCKET_CLOSED, sock_open := False\<rparr>)
      in s\<lparr>read_buffer_pos := 0\<rparr>)"

definition run_task :: "'c conn_ops \<Rightarrow> loop_task \<Rightarrow> 'c tcp_socket \<Rightarrow> 'c tcp_socket" where
  "run_task ops t s =
     (case t of
        TaskSend \<Rightarrow> if \<not> is_writting s then do_async_write s else s
      | TaskClose \<Rightarrow> close_task ops s)"

text \<open>The completion handler of \<^verbatim>\<open>async_write\<close> for the buffer \<open>b\<close>.\<close>

definition write_done :: "'c conn_ops \<Rightarrow> bool \<Rightarrow> bytes \<Rightarrow> 'c tcp_socket \<Rightarrow> 'c tcp_socket" where
  "write_done ops ok b s =
     (if ok then
        let s = s\<lparr>h_written := h_written s @ b\<rparr>;
            s = (if has_conn s then raise_event ops EVT_SEND s else s)
        in do_async_write (s\<lparr>cache_buffer := []\<rparr>)
      else do_close ops (s\<lparr>cache_buffer := []\<rparr>))"

section \<open>Reading\<close>

text \<open>
  The loop of \<^verbatim>\<open>process_data\<close>. As in the code, the package handler is given the memory
  from the current position on, but the length of the whole filled part. The first
  component of the result says whether the loop ended on a package larger than the buffer.
\<close>

function process_loop ::
  "'c conn_ops \<Rightarrow> nat \<Rightarrow> nat \<Rightarrow> 'c tcp_socket \<Rightarrow> bool \<times> nat \<times> 'c tcp_socket" where
  "process_loop ops pos readPos s =
     (if readPos < pos \<and> has_conn s then
        let mem = drop readPos (read_buffer s);
            r = process_package ops mem (of_nat pos) (conn s);
            pkgLen = fst r;
            s = s\<lparr>conn := snd r\<rparr>
        in if pkgLen \<le> 0 \<or> pkgLen > int pos - int readPos
           then (pkgLen > int kReadBufferSize, readPos, s)
           else process_loop ops pos (readPos + nat pkgLen) (raise_data ops (take (nat pkgLen) mem) s)
      else (False, readPos, s))"
  by pat_completeness auto

termination
  by (relation "measure (\<lambda>(ops, pos, readPos, s). pos - readPos)") auto

declare process_loop.simps [simp del]

definition process_data :: "'c conn_ops \<Rightarrow> nat \<Rightarrow> 'c tcp_socket \<Rightarrow> bool \<times> 'c tcp_socket" where
  "process_data ops nread s =
     (let s = s\<lparr>read_buffer_pos := read_buffer_pos s + nread\<rparr> in
      case process_loop ops (read_buffer_pos s) 0 s of (tooLarge, readPos, s) \<Rightarrow>
        if tooLarge then (False, do_close ops s)
        else
          let pos = read_buffer_pos s;
              s = (if readPos < pos
                   then s\<lparr>read_buffer := blit (read_buffer s) 0
                            (take (pos - readPos) (drop readPos (read_buffer s)))\<rparr> else s)
          in (True, s\<lparr>read_buffer_pos := pos - readPos\<rparr>))"

definition do_read :: "'c conn_ops \<Rightarrow> 'c tcp_socket \<Rightarrow> 'c tcp_socket" where
  "do_read ops s =
     (if sock_open s then
        if kReadBufferSize > read_buffer_pos s then s\<lparr>reads := reads s @ [read_buffer_pos s]\<rparr>
        else
          let s = snd (process_data ops 0 s)
          in if read_buffer_pos s \<ge> kReadBufferSize then do_close ops s else s
      else s)"

text \<open>
  The completion handler of \<^verbatim>\<open>async_read_some\<close>: the bytes are stored at the position the
  read was started with.
\<close>

definition read_done :: "'c conn_ops \<Rightarrow> nat \<Rightarrow> bytes option \<Rightarrow> 'c tcp_socket \<Rightarrow> 'c tcp_socket" where
  "read_done ops start result s =
     (case result of
        Some data \<Rightarrow>
          do_read ops (snd (process_data ops (length data)
             (s\<lparr>read_buffer := blit (read_buffer s) start data,
                 h_received := h_received s @ data\<rparr>)))
      | None \<Rightarrow> do_close ops (s\<lparr>cache_buffer := []\<rparr>))"

definition init_read :: "'c conn_ops \<Rightarrow> 'c tcp_socket \<Rightarrow> 'c tcp_socket" where
  "init_read ops s =
     (if has_conn s
      then do_read ops (raise_event ops EVT_CONNECT (s\<lparr>socket_status := SOCKET_OPEN\<rparr>)) else s)"

section \<open>Connecting\<close>

datatype connect_result = ConnectRefused | ConnectStarted | ConnectThrows

text \<open>
  \<open>resolved\<close>: the resolver found an address. \<open>bind\<close>: the outcome of
  \<^verbatim>\<open>tcp_sock.bind\<close> when the URL has a \<^verbatim>\<open>bind_port\<close>, which throws when it fails.
\<close>

definition connect ::
  "bool \<Rightarrow> bool option \<Rightarrow> 'c tcp_socket \<Rightarrow> connect_result \<times> 'c tcp_socket" where
  "connect resolved bind s =
     (if \<not> resolved then (ConnectRefused, s)
      else
        let s = s\<lparr>sock_open := False\<rparr> in
        if bind = Some False then (ConnectThrows, s)
        else (ConnectStarted,
              s\<lparr>socket_status := SOCKET_CONNECTING, sock_open := True, connects := connects s + 1\<rparr>))"

text \<open>The completion handler of \<^verbatim>\<open>async_connect\<close>.\<close>

definition connect_done :: "'c conn_ops \<Rightarrow> bool \<Rightarrow> 'c tcp_socket \<Rightarrow> 'c tcp_socket" where
  "connect_done ops ok s =
     (if ok then init_read ops s else s\<lparr>sock_open := False, socket_status := SOCKET_CLOSED\<rparr>)"

end
