(* ===== verification/Timer.thy ===== *)
theory Timer
  imports Knet_Prelude
begin

text \<open>
  \<^verbatim>\<open>utils/timer.hpp\<close> and the life cycle of \<^verbatim>\<open>knet_worker.hpp\<close>. Timer nodes are shared
  objects, identified by their id; \<open>timer_nodes\<close> is the map of the class and \<open>waits\<close> the
  \<^verbatim>\<open>async_wait\<close>s under way. A wait that has expired and is queued for execution can no
  longer be cancelled, as in asio.
\<close>

section \<open>State\<close>

record timer_node =
  tn_interval :: u64
  tn_handler :: bool
  tn_alive :: bool
  tn_skip :: bool
  tn_loop :: bool
  tn_calls :: nat

text \<open>\<open>tn_handler\<close>: a handler is set; \<open>tn_calls\<close> counts its calls (history only).\<close>

datatype wait_state = Pending | Queued | Cancelled

record timer =
  node :: "u64 \<Rightarrow> timer_node"
  timer_nodes :: "u64 list"
  waits :: "(u64 \<times> wait_state) list"
  timer_index :: u64
  h_starts :: nat

text \<open>\<open>h_starts\<close> counts the timers started (history only).\<close>

definition dead_node :: timer_node where
  "dead_node = \<lparr>tn_interval = 0, tn_handler = False, tn_alive = False, tn_skip = False, tn_loop = False, tn_calls = 0\<rparr>"

definition Timer_init :: timer where
  "Timer_init = \<lparr>node = (\<lambda>_. dead_node), timer_nodes = [], waits = [], timer_index = 1, h_starts = 0\<rparr>"

definition upd_node :: "u64 \<Rightarrow> (timer_node \<Rightarrow> timer_node) \<Rightarrow> timer \<Rightarrow> timer" where
  "upd_node tid f t = t\<lparr>node := (node t)(tid := f (node t tid))\<rparr>"

text \<open>\<^verbatim>\<open>steady_timer::cancel\<close>: the waits of this timer that have not expired yet.\<close>

definition cancel_wait :: "u64 \<Rightarrow> u64 \<times> wait_state \<Rightarrow> u64 \<times> wait_state" where
  "cancel_wait tid w = (if w = (tid, Pending) then (tid, Cancelled) else w)"

definition cancel_waits :: "u64 \<Rightarrow> timer \<Rightarrow> timer" where
  "cancel_waits tid t = t\<lparr>waits := map (cancel_wait tid) (waits t)\<rparr>"

text \<open>\<^verbatim>\<open>expires_after\<close> cancels the waits of the timer; \<^verbatim>\<open>async_wait\<close> starts a new one.\<close>

definition arm :: "u64 \<Rightarrow> timer \<Rightarrow> timer" where
  "arm tid t = (let t = cancel_waits tid t in t\<lparr>waits := waits t @ [(tid, Pending)]\<rparr>)"

section \<open>Operations\<close>

definition start_timer :: "bool \<Rightarrow> u64 \<Rightarrow> bool \<Rightarrow> timer \<Rightarrow> u64 \<times> timer" where
  "start_timer handler interval bLoop t =
     (let tid = timer_index t;
          t = t\<lparr>timer_index := tid + 1, h_starts := h_starts t + 1,
                node := (node t)(tid := \<lparr>tn_interval = interval, tn_handler = handler, tn_alive = True,
                                   tn_skip = False, tn_loop = bLoop, tn_calls = 0\<rparr>),
                timer_nodes := (if tid \<in> set (timer_nodes t) then timer_nodes t else timer_nodes t @ [tid])\<rparr>
      in (tid, arm tid t))"

definition restart_timer :: "u64 \<Rightarrow> u64 \<Rightarrow> timer \<Rightarrow> bool \<times> timer" where
  "restart_timer timerId interval t =
     (let tid = ucast (ucast timerId :: u32) in
      (True,
       if tid \<in> set (timer_nodes t)
       then upd_node tid (\<lambda>n. let n = n\<lparr>tn_skip := True\<rparr> in
              if interval > 0 then n\<lparr>tn_interval := interval\<rparr> else n) t
       else t))"

definition stop_timer :: "u64 \<Rightarrow> timer \<Rightarrow> timer" where
  "stop_timer tid t =
     (if tid \<in> set (timer_nodes t)
      then cancel_waits tid (upd_node tid (\<lambda>n. n\<lparr>tn_alive := False\<rparr>) t) else t)"

definition reset_interval :: "u64 \<Rightarrow> u64 \<Rightarrow> timer \<Rightarrow> timer" where
  "reset_interval tid interval t =
     (if tid \<in> set (timer_nodes t)
      then arm tid (upd_node tid (\<lambda>n. n\<lparr>tn_interval := interval\<rparr>) (cancel_waits tid t)) else t)"

definition clear_timers :: "timer \<Rightarrow> timer" where
  "clear_timers t =
     (fold (\<lambda>tid t. cancel_waits tid (upd_node tid (\<lambda>n. n\<lparr>tn_alive := False\<rparr>) t)) (timer_nodes t) t)
       \<lparr>timer_nodes := []\<rparr>"

text \<open>What a timer handler may do to the timers while it runs.\<close>

datatype timer_act =
    ActStart bool u64 bool
  | ActRestart u64 u64
  | ActStop u64
  | ActReset u64 u64
  | ActClear

fun run_timer_act :: "timer_act \<Rightarrow> timer \<Rightarrow> timer" where
  "run_timer_act (ActStart h i l) t = snd (start_timer h i l t)"
| "run_timer_act (ActRestart tid i) t = snd (restart_timer tid i t)"
| "run_timer_act (ActStop tid) t = stop_timer tid t"
| "run_timer_act (ActReset tid i) t = reset_interval tid i t"
| "run_timer_act ActClear t = clear_timers t"

text \<open>
  \<^verbatim>\<open>handle_timeout\<close>; \<open>result\<close> and \<open>acts\<close> are what the handler returns and does if it
  is called.
\<close>

definition handle_timeout :: "bool \<Rightarrow> timer_act list \<Rightarrow> u64 \<Rightarrow> timer \<Rightarrow> timer" where
  "handle_timeout result acts tid t =
     (if tn_alive (node t tid) then
        let call = tn_handler (node t tid) \<and> \<not> tn_skip (node t tid);
            t = (if tn_handler (node t tid) \<and> tn_skip (node t tid)
                 then upd_node tid (\<lambda>n. n\<lparr>tn_skip := False\<rparr>) t else t);
            t = (if call then fold run_timer_act acts (upd_node tid (\<lambda>n. n\<lparr>tn_calls := tn_calls n + 1\<rparr>) t) else t)
        in if call \<and> \<not> result
           then (cancel_waits tid (upd_node tid (\<lambda>n. n\<lparr>tn_alive := False\<rparr>) t))
                  \<lparr>timer_nodes := removeAll tid (timer_nodes t)\<rparr>
           else if tn_loop (node t tid) then arm tid t else t
      else t\<lparr>timer_nodes := removeAll tid (timer_nodes t)\<rparr>)"

section \<open>Steps\<close>

text \<open>Calls of the user, expiry of a wait, and execution of a wait's completion handler.\<close>

inductive timer_step :: "timer \<Rightarrow> timer \<Rightarrow> bool" where
  timer_call: "timer_step t (run_timer_act a t)"
| timer_expire: "waits t = p @ (tid, Pending) # q \<Longrightarrow> timer_step t (t\<lparr>waits := p @ (tid, Queued) # q\<rparr>)"
| timer_fire: "waits t = p @ (tid, Queued) # q \<Longrightarrow>
    timer_step t (handle_timeout result acts tid (t\<lparr>waits := p @ q\<rparr>))"
| timer_abort: "waits t = p @ (tid, Cancelled) # q \<Longrightarrow> timer_step t (t\<lparr>waits := p @ q\<rparr>)"

inductive_cases timer_stepE: "timer_step t t'"

inductive timer_reach :: "timer \<Rightarrow> timer \<Rightarrow> bool" for t0 :: timer where
  timer_reach_refl: "timer_reach t0 t0"
| timer_reach_step: "timer_reach t0 t \<Longrightarrow> timer_step t t' \<Longrightarrow> timer_reach t0 t'"

section \<open>Live timers are armed\<close>

text \<open>
  A live node is in the map and, if it loops, a wait for it is under way. The set \<open>X\<close>
  exempts the node whose handler is running.
\<close>

definition armed :: "timer \<Rightarrow> u64 \<Rightarrow> bool" where
  "armed t tid \<longleftrightarrow> (tid, Pending) \<in> set (waits t) \<or> (tid, Queued) \<in> set (waits t)"

definition timer_inv_ex :: "u64 set \<Rightarrow> timer \<Rightarrow> bool" where
  "timer_inv_ex X t \<longleftrightarrow> (\<forall>tid. tn_alive (node t tid) \<longrightarrow>
     tid \<in> set (timer_nodes t) \<and> (tn_loop (node t tid) \<and> tid \<notin> X \<longrightarrow> armed t tid))"

lemma node_waits [simp]: "node (cancel_waits tid t) = node t" "timer_nodes (cancel_waits tid t) = timer_nodes t"
  "node (arm tid t) = node t" "timer_nodes (arm tid t) = timer_nodes t"
  "h_starts (cancel_waits tid t) = h_starts t" "h_starts (arm tid t) = h_starts t"
  "timer_index (cancel_waits tid t) = timer_index t" "timer_index (arm tid t) = timer_index t"
  by (simp_all add: cancel_waits_def arm_def Let_def)

lemma upd_node_get [simp]: "node (upd_node tid f t) = (node t)(tid := f (node t tid))"
  "timer_nodes (upd_node tid f t) = timer_nodes t" "waits (upd_node tid f t) = waits t"
  "h_starts (upd_node tid f t) = h_starts t" "timer_index (upd_node tid f t) = timer_index t"
  by (simp_all add: upd_node_def)

lemma armed_cancel: "x \<noteq> tid \<Longrightarrow> armed t x \<Longrightarrow> armed (cancel_waits tid t) x"
  by (force simp: armed_def cancel_waits_def cancel_wait_def image_iff)

lemma armed_arm: "armed (arm tid t) tid" "armed t x \<Longrightarrow> armed (arm tid t) x"
proof -
  show a: "armed (arm tid t) tid" by (simp add: armed_def arm_def Let_def)
  show "armed (arm tid t) x" if "armed t x"
  proof (cases "x = tid")
    case False
    then show ?thesis using armed_cancel [OF False that] by (auto simp: armed_def arm_def Let_def)
  qed (simp add: a)
qed

lemma armed_cong: "waits t' = waits t \<Longrightarrow> armed t' = armed t"
  by (simp add: armed_def fun_eq_iff)

lemma inv_ex_arm: "timer_inv_ex (insert tid X) t \<Longrightarrow> timer_inv_ex X (arm tid t)"
  using armed_arm unfolding timer_inv_ex_def by (metis node_waits(3,4) insertE)

lemma inv_ex_kill:
  "timer_inv_ex X t \<Longrightarrow> timer_inv_ex X (cancel_waits tid (upd_node tid (\<lambda>n. n\<lparr>tn_alive := False\<rparr>) t))"
  using armed_cancel [of _ tid "upd_node tid (\<lambda>n. n\<lparr>tn_alive := False\<rparr>) t"]
  by (simp add: timer_inv_ex_def armed_def)

lemma inv_ex_upd:
  assumes "timer_inv_ex X t" "\<And>n. tn_alive (f n) = tn_alive n" "\<And>n. tn_loop (f n) = tn_loop n"
  shows "timer_inv_ex X (upd_node tid f t)"
  using assms by (simp add: timer_inv_ex_def armed_def)

lemma inv_ex_start: "timer_inv_ex X t \<Longrightarrow> timer_inv_ex X (snd (start_timer h i l t))"
  unfolding start_timer_def Let_def snd_conv
  by (rule inv_ex_arm) (auto simp: timer_inv_ex_def armed_def)

lemma inv_ex_reset: "timer_inv_ex X t \<Longrightarrow> timer_inv_ex X (reset_interval tid i t)"
proof -
  assume inv: "timer_inv_ex X t"
  have "timer_inv_ex (insert tid X) (upd_node tid (\<lambda>n. n\<lparr>tn_interval := i\<rparr>) (cancel_waits tid t))"
    using inv armed_cancel by (intro inv_ex_upd) (auto simp: timer_inv_ex_def)
  from inv_ex_arm [OF this] show ?thesis
    using inv by (simp add: reset_interval_def)
qed

lemma inv_ex_clear_fold:
  "timer_inv_ex X t \<Longrightarrow> timer_inv_ex X
     (fold (\<lambda>tid t. cancel_waits tid (upd_node tid (\<lambda>n. n\<lparr>tn_alive := False\<rparr>) t)) ids t) \<and>
   (\<forall>x. tn_alive (node (fold (\<lambda>tid t. cancel_waits tid (upd_node tid (\<lambda>n. n\<lparr>tn_alive := False\<rparr>) t)) ids t) x)
      \<longrightarrow> tn_alive (node t x) \<and> x \<notin> set ids)"
proof (induction ids arbitrary: t)
  case (Cons tid ids)
  show ?case using Cons.IH [OF inv_ex_kill [OF Cons.prems, of tid]] by (auto split: if_splits)
qed simp

lemma inv_ex_clear: "timer_inv_ex X t \<Longrightarrow> timer_inv_ex X (clear_timers t)"
proof -
  assume inv: "timer_inv_ex X t"
  let ?u = "fold (\<lambda>tid t. cancel_waits tid (upd_node tid (\<lambda>n. n\<lparr>tn_alive := False\<rparr>) t)) (timer_nodes t) t"
  have "\<not> tn_alive (node ?u x)" for x
    using inv_ex_clear_fold [OF inv, of "timer_nodes t"] inv by (auto simp: timer_inv_ex_def)
  then show ?thesis by (simp add: clear_timers_def timer_inv_ex_def)
qed

lemma inv_ex_act: "timer_inv_ex X t \<Longrightarrow> timer_inv_ex X (run_timer_act a t)"
proof (cases a)
  case (ActRestart tid i)
  assume "timer_inv_ex X t"
  with ActRestart show ?thesis
    by (simp add: restart_timer_def Let_def inv_ex_upd)
qed (simp_all add: inv_ex_start inv_ex_reset inv_ex_clear stop_timer_def inv_ex_kill)

lemma inv_ex_acts: "timer_inv_ex X t \<Longrightarrow> timer_inv_ex X (fold run_timer_act acts t)"
  by (induction acts arbitrary: t) (simp_all add: inv_ex_act)

lemma inv_ex_mono: "timer_inv_ex {} t \<Longrightarrow> timer_inv_ex X t"
  by (simp add: timer_inv_ex_def)

lemma inv_ex_done: "timer_inv_ex {tid} t \<Longrightarrow> \<not> (tn_alive (node t tid) \<and> tn_loop (node t tid)) \<Longrightarrow> timer_inv_ex {} t"
  unfolding timer_inv_ex_def by blast

lemma inv_ex_timeout:
  assumes inv: "timer_inv_ex {tid} t"
  shows "timer_inv_ex {} (handle_timeout result acts tid t)"
proof (cases "tn_alive (node t tid)")
  case False
  then show ?thesis using inv by (auto simp: handle_timeout_def timer_inv_ex_def armed_def)
next
  case True
  define call where "call = (tn_handler (node t tid) \<and> \<not> tn_skip (node t tid))"
  define t1 where "t1 = (if tn_handler (node t tid) \<and> tn_skip (node t tid)
    then upd_node tid (\<lambda>n. n\<lparr>tn_skip := False\<rparr>) t else t)"
  define t2 where "t2 = (if call then fold run_timer_act acts
    (upd_node tid (\<lambda>n. n\<lparr>tn_calls := tn_calls n + 1\<rparr>) t1) else t1)"
  have t1: "timer_inv_ex {tid} t1" using inv by (simp add: t1_def inv_ex_upd)
  then have t2: "timer_inv_ex {tid} t2" by (simp add: t2_def inv_ex_acts inv_ex_upd)
  have k: "timer_inv_ex {} ((cancel_waits tid (upd_node tid (\<lambda>n. n\<lparr>tn_alive := False\<rparr>) t2))
      \<lparr>timer_nodes := removeAll tid (timer_nodes t2)\<rparr>)"
    using inv_ex_done [OF inv_ex_kill [OF t2, of tid]] by (simp add: timer_inv_ex_def armed_def)
  have "handle_timeout result acts tid t =
      (if call \<and> \<not> result then (cancel_waits tid (upd_node tid (\<lambda>n. n\<lparr>tn_alive := False\<rparr>) t2))
          \<lparr>timer_nodes := removeAll tid (timer_nodes t2)\<rparr>
       else if tn_loop (node t2 tid) then arm tid t2 else t2)"
    using True by (simp add: handle_timeout_def Let_def call_def t1_def t2_def)
  then show ?thesis
    using k inv_ex_arm [of tid "{}" t2] t2 inv_ex_done [OF t2] by simp
qed

lemma inv_ex_step: "timer_step t t' \<Longrightarrow> timer_inv_ex {} t \<Longrightarrow> timer_inv_ex {} t'"
proof (induction rule: timer_step.induct)
  case (timer_call t a)
  then show ?case by (rule inv_ex_act)
next
  case (timer_expire t p tid q)
  then show ?case by (auto simp: timer_inv_ex_def armed_def)
next
  case (timer_fire t p tid q result acts)
  then have "timer_inv_ex {tid} (t\<lparr>waits := p @ q\<rparr>)" by (auto simp: timer_inv_ex_def armed_def)
  then show ?case by (rule inv_ex_timeout)
next
  case (timer_abort t p tid q)
  then show ?case by (auto simp: timer_inv_ex_def armed_def)
qed

lemma timer_inv_reach: "timer_reach Timer_init t \<Longrightarrow> timer_inv_ex {} t"
proof (induction rule: timer_reach.induct)
  case timer_reach_refl
  then show ?case by (simp add: timer_inv_ex_def Timer_init_def dead_node_def)
next
  case (timer_reach_step t t')
  then show ?case by (blast intro: inv_ex_step)
qed

section \<open>Stopped timers stay silent\<close>

text \<open>
  Ids are handed out in order from 1. A node that was handed out and is dead stays dead
  and its handler is not called again, as long as the 64-bit counter does not wrap.
\<close>

definition ids_ok :: "timer \<Rightarrow> bool" where
  "ids_ok t \<longleftrightarrow> timer_index t = of_nat (h_starts t + 1) \<and>
     (\<forall>tid\<in>set (timer_nodes t). 0 < unat tid \<and> unat tid \<le> h_starts t)"

definition dead_at :: "u64 \<Rightarrow> nat \<Rightarrow> timer \<Rightarrow> bool" where
  "dead_at tid n t \<longleftrightarrow> ids_ok t \<and> \<not> tn_alive (node t tid) \<and> tn_calls (node t tid) = n \<and>
     0 < unat tid \<and> unat tid \<le> h_starts t"

lemma clear_fold_fields:
  "timer_index (fold (\<lambda>tid t. cancel_waits tid (upd_node tid (\<lambda>n. n\<lparr>tn_alive := False\<rparr>) t)) ids t) = timer_index t"
  "h_starts (fold (\<lambda>tid t. cancel_waits tid (upd_node tid (\<lambda>n. n\<lparr>tn_alive := False\<rparr>) t)) ids t) = h_starts t"
  "tn_calls (node (fold (\<lambda>tid t. cancel_waits tid (upd_node tid (\<lambda>n. n\<lparr>tn_alive := False\<rparr>) t)) ids t) x) = tn_calls (node t x)"
  "\<not> tn_alive (node t x) \<Longrightarrow>
     \<not> tn_alive (node (fold (\<lambda>tid t. cancel_waits tid (upd_node tid (\<lambda>n. n\<lparr>tn_alive := False\<rparr>) t)) ids t) x)"
  by (induction ids arbitrary: t) simp_all

lemma h_starts_act: "h_starts t \<le> h_starts (run_timer_act a t)"
  by (cases a)
    (simp_all add: start_timer_def restart_timer_def stop_timer_def reset_interval_def clear_timers_def
      clear_fold_fields Let_def)

lemma h_starts_acts: "h_starts t \<le> h_starts (fold run_timer_act acts t)"
  by (induction acts arbitrary: t) (auto intro: order_trans [OF h_starts_act])

lemma ids_ok_start:
  assumes "ids_ok t" "h_starts t + 1 < 2 ^ 64 - 1"
  shows "ids_ok (snd (start_timer h i l t))"
proof -
  have "unat (of_nat (h_starts t + 1) :: u64) = h_starts t + 1"
    using assms(2) by (intro unat_of_nat64) simp
  then show ?thesis using assms(1)
    by (auto simp: ids_ok_def start_timer_def Let_def intro: le_SucI)
qed

lemma ids_ok_act:
  assumes ok: "ids_ok t" and lim: "h_starts (run_timer_act a t) < 2 ^ 64 - 1"
  shows "ids_ok (run_timer_act a t)"
proof (cases a)
  case (ActStart h i l)
  then show ?thesis using ids_ok_start [OF ok, of h i l] lim by (simp add: start_timer_def Let_def)
qed (use ok in \<open>simp_all add: ids_ok_def restart_timer_def stop_timer_def reset_interval_def
      clear_timers_def clear_fold_fields Let_def\<close>)

lemma dead_at_act:
  assumes d: "dead_at tid n t" and lim: "h_starts (run_timer_act a t) < 2 ^ 64 - 1"
  shows "dead_at tid n (run_timer_act a t)"
proof -
  have ok: "ids_ok (run_timer_act a t)" using d lim by (simp add: dead_at_def ids_ok_act)
  show ?thesis
  proof (cases a)
    case (ActStart h i l)
    have "h_starts t + 1 < 2 ^ 64" using lim ActStart by (simp add: start_timer_def Let_def)
    then have "unat (timer_index t) = h_starts t + 1"
      using d by (simp add: dead_at_def ids_ok_def unat_of_nat64 del: of_nat_Suc of_nat_add)
    then have "tid \<noteq> timer_index t" using d by (auto simp: dead_at_def)
    then show ?thesis using d ok ActStart by (auto simp: dead_at_def start_timer_def Let_def)
  qed (use d ok in \<open>auto simp: dead_at_def restart_timer_def stop_timer_def reset_interval_def
      clear_timers_def clear_fold_fields Let_def split: if_splits\<close>)
qed

lemma dead_at_acts:
  "dead_at tid n t \<Longrightarrow> h_starts (fold run_timer_act acts t) < 2 ^ 64 - 1 \<Longrightarrow>
   dead_at tid n (fold run_timer_act acts t)"
proof (induction acts arbitrary: t)
  case (Cons a acts)
  have "h_starts (run_timer_act a t) < 2 ^ 64 - 1"
    using Cons.prems(2) h_starts_acts [of "run_timer_act a t" acts] by simp
  then show ?case using Cons by (simp add: dead_at_act)
qed simp

lemma dead_at_cong:
  assumes "dead_at tid n t" "timer_index t' = timer_index t" "h_starts t' = h_starts t"
    "set (timer_nodes t') \<subseteq> set (timer_nodes t)" "node t' tid = node t tid"
  shows "dead_at tid n t'"
  using assms by (auto simp: dead_at_def ids_ok_def)

lemma timeout_starts: "h_starts t \<le> h_starts (handle_timeout r acts x t)"
  using h_starts_acts [of "upd_node x (\<lambda>n. n\<lparr>tn_calls := tn_calls n + 1\<rparr>) t" acts]
  by (simp add: handle_timeout_def Let_def)

lemma dead_at_timeout:
  assumes d: "dead_at tid n t" and lim: "h_starts (handle_timeout r acts x t) < 2 ^ 64 - 1"
  shows "dead_at tid n (handle_timeout r acts x t)"
proof (cases "tn_alive (node t x)")
  case False
  then show ?thesis by (intro dead_at_cong [OF d]) (auto simp: handle_timeout_def)
next
  case True
  then have x: "x \<noteq> tid" using d by (auto simp: dead_at_def)
  let ?c = "upd_node x (\<lambda>n. n\<lparr>tn_calls := tn_calls n + 1\<rparr>) t"
  have c: "dead_at tid n ?c" using x by (intro dead_at_cong [OF d]) auto
  show ?thesis
  proof (cases "tn_handler (node t x) \<and> \<not> tn_skip (node t x)")
    case call: True
    then have "h_starts (fold run_timer_act acts ?c) < 2 ^ 64 - 1"
      using lim True by (simp add: handle_timeout_def Let_def split: if_splits)
    from dead_at_acts [OF c this] show ?thesis
      by (rule dead_at_cong) (use x True call in \<open>auto simp: handle_timeout_def Let_def\<close>)
  next
    case False
    show ?thesis
      by (intro dead_at_cong [OF d]) (use x True False in \<open>auto simp: handle_timeout_def Let_def\<close>)
  qed
qed

lemma dead_at_step:
  assumes "timer_step t t'" "dead_at tid n t" "h_starts t' < 2 ^ 64 - 1"
  shows "dead_at tid n t'"
  using assms
proof (induction rule: timer_step.induct)
  case (timer_fire t p x q r acts)
  have "dead_at tid n (t\<lparr>waits := p @ q\<rparr>)" by (rule dead_at_cong [OF timer_fire(2)]) auto
  then show ?case using timer_fire(3) by (rule dead_at_timeout)
next
  case (timer_call t a)
  then show ?case by (simp add: dead_at_act)
qed (auto intro: dead_at_cong)

lemma h_starts_step: "timer_step t t' \<Longrightarrow> h_starts t \<le> h_starts t'"
proof (induction rule: timer_step.induct)
  case (timer_fire t p x q r acts)
  then show ?case using timeout_starts [of "t\<lparr>waits := p @ q\<rparr>"] by simp
qed (simp_all add: h_starts_act)

lemma dead_at_reach:
  "timer_reach t t' \<Longrightarrow> dead_at tid n t \<Longrightarrow> h_starts t' < 2 ^ 64 - 1 \<Longrightarrow> dead_at tid n t' \<and> h_starts t \<le> h_starts t'"
proof (induction rule: timer_reach.induct)
  case (timer_reach_step t1 t2)
  then show ?case using dead_at_step h_starts_step by (meson le_trans le_less_trans)
qed simp

lemma ids_ok_timeout:
  assumes d: "ids_ok t" and lim: "h_starts (handle_timeout r acts x t) < 2 ^ 64 - 1"
  shows "ids_ok (handle_timeout r acts x t)"
proof -
  have acts: "ids_ok u \<Longrightarrow> h_starts (fold run_timer_act as u) < 2 ^ 64 - 1 \<Longrightarrow> ids_ok (fold run_timer_act as u)"
    for u as
  proof (induction as arbitrary: u)
    case (Cons a as)
    have "h_starts (run_timer_act a u) < 2 ^ 64 - 1"
      using Cons.prems(2) h_starts_acts [of "run_timer_act a u" as] by simp
    then show ?case using Cons by (simp add: ids_ok_act)
  qed simp
  let ?c = "upd_node x (\<lambda>n. n\<lparr>tn_calls := tn_calls n + 1\<rparr>) t"
  have c: "ids_ok ?c" using d by (simp add: ids_ok_def)
  have "tn_alive (node t x) \<Longrightarrow> tn_handler (node t x) \<and> \<not> tn_skip (node t x) \<Longrightarrow>
      ids_ok (fold run_timer_act acts ?c)"
    using acts [OF c, of acts] lim by (simp add: handle_timeout_def Let_def split: if_splits)
  then show ?thesis using d by (auto simp: handle_timeout_def Let_def ids_ok_def)
qed

lemma ids_ok_reach: "timer_reach Timer_init t \<Longrightarrow> h_starts t < 2 ^ 64 - 1 \<Longrightarrow> ids_ok t"
proof (induction rule: timer_reach.induct)
  case timer_reach_refl
  then show ?case by (simp add: ids_ok_def Timer_init_def)
next
  case (timer_reach_step t t')
  have ok: "ids_ok t" using timer_reach_step h_starts_step by (meson le_less_trans)
  from timer_reach_step(2) ok timer_reach_step(4) show ?case
  proof (induction rule: timer_step.induct)
    case (timer_fire t p x q r acts)
    then have "ids_ok (t\<lparr>waits := p @ q\<rparr>)" by (simp add: ids_ok_def)
    then show ?case using timer_fire(3) by (rule ids_ok_timeout)
  next
    case (timer_call t a)
    then show ?case by (rule ids_ok_act)
  qed (simp_all add: ids_ok_def)
qed

lemma dead_at_clear:
  assumes "timer_inv_ex {} t" "ids_ok t" "tid \<in> set (timer_nodes t)"
  shows "dead_at tid (tn_calls (node t tid)) (clear_timers t)"
  using inv_ex_clear_fold [OF assms(1), of "timer_nodes t"] assms(2,3)
  by (auto simp: dead_at_def ids_ok_def clear_timers_def clear_fold_fields)

section \<open>Properties\<close>

text \<open>
  C24: in every reachable state of the timers, every live timer is registered and, if it
  loops, one of its waits is under way: a looping timer that was not stopped never falls
  silent, whatever its handler does to other timers.
\<close>

theorem live_timers_armed:
  assumes "timer_reach Timer_init t" "tn_alive (node t tid)"
  shows "tid \<in> set (timer_nodes t) \<and> (tn_loop (node t tid) \<longrightarrow> armed t tid)"
  using timer_inv_reach [OF assms(1)] assms(2) by (simp add: timer_inv_ex_def)

text \<open>
  C25: once a registered timer has been stopped its handler is never called again, in no
  continuation of the run, even if an expiry was already queued; as long as fewer than
  \<open>2 ^ 64 - 1\<close> timers are started.
\<close>

theorem stopped_timer_silent:
  assumes "timer_reach Timer_init t" "tid \<in> set (timer_nodes t)"
    and "timer_reach (stop_timer tid t) t'" "h_starts t' < 2 ^ 64 - 1"
  shows "tn_calls (node t' tid) = tn_calls (node t tid)"
proof -
  have le: "h_starts (stop_timer tid t) \<le> h_starts t'"
    using assms(3) by (induction rule: timer_reach.induct) (auto dest: h_starts_step)
  then have "ids_ok t"
    using assms by (intro ids_ok_reach) (simp_all add: stop_timer_def)
  then have "dead_at tid (tn_calls (node t tid)) (stop_timer tid t)"
    using assms(2) by (auto simp: dead_at_def ids_ok_def stop_timer_def)
  from dead_at_reach [OF assms(3) this assms(4)] show ?thesis by (simp add: dead_at_def)
qed

definition one_timer :: timer where
  "one_timer = snd (start_timer True 1000 True Timer_init)"

lemma one_timer_reach: "timer_reach Timer_init one_timer"
  using timer_reach_step [OF timer_reach_refl timer_call [of Timer_init "ActStart True 1000 True"]]
  by (simp add: one_timer_def)

lemmas one_timer_simps = one_timer_def start_timer_def Timer_init_def arm_def cancel_waits_def Let_def

theorem live_timers_armed_witness: "1 \<in> set (timer_nodes one_timer) \<and> armed one_timer 1"
  using live_timers_armed [OF one_timer_reach, of 1] by (simp add: one_timer_simps)

theorem stopped_timer_silent_witness:
  "tn_calls (node (stop_timer 1 one_timer) 1) = tn_calls (node one_timer 1)"
  by (rule stopped_timer_silent [OF one_timer_reach _ timer_reach_refl])
    (simp_all add: one_timer_simps stop_timer_def)

section \<open>Workers\<close>

text \<open>
  \<^verbatim>\<open>KNetWorker\<close>: \<open>kw_own\<close> says that the worker holds its own event loop
  (\<^verbatim>\<open>self_context\<close>), \<open>kw_stopped\<close> that the loop was told to stop; \<open>kw_posted\<close> counts
  the starters dispatched to the loop.
\<close>

record knet_worker =
  kw_own :: bool
  kw_running :: bool
  kw_threads :: nat
  kw_stopped :: bool
  kw_posted :: nat
  kw_timer :: timer

definition KNetWorker_new :: "bool \<Rightarrow> knet_worker" where
  "KNetWorker_new outer =
     \<lparr>kw_own = \<not> outer, kw_running = False, kw_threads = 0, kw_stopped = False, kw_posted = 0, kw_timer = Timer_init\<rparr>"

definition worker_start :: "bool \<Rightarrow> nat \<Rightarrow> knet_worker \<Rightarrow> knet_worker" where
  "worker_start starter thrds w =
     (if \<not> kw_running w then
        let w = w\<lparr>kw_running := True\<rparr>;
            w = (if kw_own w then w\<lparr>kw_threads := kw_threads w + thrds\<rparr> else w)
        in if starter then w\<lparr>kw_posted := kw_posted w + 1\<rparr> else w
      else w)"

definition worker_stop :: "knet_worker \<Rightarrow> knet_worker" where
  "worker_stop w =
     (let w = (if kw_own w
               then w\<lparr>kw_own := False, kw_timer := clear_timers (kw_timer w), kw_stopped := True, kw_threads := 0\<rparr>
               else w)
      in w\<lparr>kw_running := False\<rparr>)"

text \<open>
  After a worker that owns its event loop has been stopped, the handler of none of
  the timers registered with it is called again, even if the loop still runs completions that
  were queued before.
\<close>

theorem worker_stop_silences:
  assumes "kw_own w" "timer_reach Timer_init (kw_timer w)" "tid \<in> set (timer_nodes (kw_timer w))"
    and "timer_reach (kw_timer (worker_stop w)) t'" "h_starts t' < 2 ^ 64 - 1"
  shows "tn_calls (node t' tid) = tn_calls (node (kw_timer w) tid)"
proof -
  have t: "kw_timer (worker_stop w) = clear_timers (kw_timer w)"
    using assms(1) by (simp add: worker_stop_def)
  have "h_starts (clear_timers (kw_timer w)) \<le> h_starts t'"
    using assms(4) unfolding t by (induction rule: timer_reach.induct) (auto dest: h_starts_step)
  then have "ids_ok (kw_timer w)"
    using assms by (intro ids_ok_reach) (simp_all add: clear_timers_def clear_fold_fields)
  from dead_at_clear [OF timer_inv_reach [OF assms(2)] this assms(3)]
  show ?thesis
    using dead_at_reach [OF assms(4) [unfolded t] _ assms(5)] by (simp add: dead_at_def)
qed

theorem worker_stop_silences_witness:
  "tn_calls (node (kw_timer (worker_stop (KNetWorker_new False\<lparr>kw_timer := one_timer\<rparr>))) 1) =
   tn_calls (node one_timer 1)"
proof -
  let ?w = "KNetWorker_new False\<lparr>kw_timer := one_timer\<rparr>"
  have "kw_own ?w" "timer_reach Timer_init (kw_timer ?w)" "1 \<in> set (timer_nodes (kw_timer ?w))"
    using one_timer_reach by (simp_all add: KNetWorker_new_def one_timer_simps)
  moreover have "h_starts (kw_timer (worker_stop ?w)) < 2 ^ 64 - 1"
    by (simp add: worker_stop_def KNetWorker_new_def clear_timers_def clear_fold_fields one_timer_simps)
  ultimately show ?thesis
    using worker_stop_silences [of ?w 1, OF _ _ _ timer_reach_refl] by simp
qed

end
