(* ===== verification/Kcp_Connection.thy ===== *)
theory Kcp_Connection
  imports Ikcp_Link Loop_Buffer Tcp_Socket Timer
begin

text \<open>
  \<^verbatim>\<open>kcp/kcp_connection.hpp\<close> and \<^verbatim>\<open>kcp/kcp_message.hpp\<close>: a KCP engine behind a UDP socket.
  The class adds a handshake that agrees on the conversation id, a heartbeat, the periodic
  call of \<^verbatim>\<open>ikcp_update\<close>, and the loop that hands complete messages to the user. The
  operations are state transformers on the record \<open>kcp_conn\<close>; datagrams given to the socket
  and calls of the user's handlers are recorded in the order they are made.
\<close>

section \<open>Messages\<close>

definition KCP_SHAKEHAND_REQUEST :: u8 where "KCP_SHAKEHAND_REQUEST = 250"
definition KCP_SHAKEHAND_RESPONSE :: u8 where "KCP_SHAKEHAND_RESPONSE = 251"
definition KCP_HEARTBEAT :: u8 where "KCP_HEARTBEAT = 252"
definition KCP_GOODBYE :: u8 where "KCP_GOODBYE = 253"

text \<open>
  The memory image of a \<^verbatim>\<open>KcpShakeHandMsg\<close>, and the two fields the code reads through a
  cast of the receive buffer.
\<close>

definition shake_image :: "u32 \<Rightarrow> u8 \<Rightarrow> bytes" where
  "shake_image conv cmd = le32 conv @ [cmd, 0] @ le16 0"

definition msg_conv :: "bytes \<Rightarrow> u32" where
  "msg_conv pData = rd32 pData"

definition msg_cmd :: "bytes \<Rightarrow> u8" where
  "msg_cmd pData = pData ! 4"

section \<open>State\<close>

datatype ConnectionStatus = CONN_IDLE | CONN_OPEN | CONN_KCP_READY | CONN_CLOSING | CONN_CLOSED

fun conn_code :: "ConnectionStatus \<Rightarrow> nat" where
  "conn_code CONN_IDLE = 0"
| "conn_code CONN_OPEN = 1"
| "conn_code CONN_KCP_READY = 2"
| "conn_code CONN_CLOSING = 3"
| "conn_code CONN_CLOSED = 4"

definition kMaxMessageLength :: nat where
  "kMaxMessageLength = 4096"

text \<open>
  \<open>kc_sock\<close>: the socket pointer is set. \<open>kc_receiving\<close>: an active connection waits for a
  datagram. \<open>kc_goodbyes\<close> and \<open>kc_sends\<close> count the sends under
  way whose completion does something. \<open>server_conv_index\<close> is the static counter of
  \<^verbatim>\<open>check_control_message\<close>. The last four fields are a history the code does not keep: the
  datagrams given to the socket, the messages the engine accepted and handed over, and the
  events raised.
\<close>

record kcp_conn =
  kc_cid :: u32
  last_msg_time :: int
  kc_sock :: bool
  recv_buffer :: bytes
  conn_status :: ConnectionStatus
  kc_buffer :: loop_buffer
  reconnect_flag :: bool
  is_passive :: bool
  kc_worker :: timer
  kc_kcp :: "ikcpcb option"
  kcp_timerid :: u64
  heartbeat_timerid :: u64
  server_conv_index :: u32
  kc_receiving :: bool
  kc_goodbyes :: nat
  kc_sends :: nat
  kc_out :: "bytes list"
  kc_sent :: "bytes list"
  kc_msgs :: "bytes list"
  kc_events :: "NetEvent list"

text \<open>A new connection after \<^verbatim>\<open>init\<close>; the id comes from the static counter.\<close>

definition kcp_conn_init :: "u32 \<Rightarrow> int \<Rightarrow> bytes \<Rightarrow> bytes \<Rightarrow> timer \<Rightarrow> kcp_conn" where
  "kcp_conn_init cid lasttime storage ring w =
     \<lparr>kc_cid = cid, last_msg_time = lasttime, kc_sock = False, recv_buffer = storage, conn_status = CONN_IDLE,
      kc_buffer = LoopBuffer_init 8192 ring, reconnect_flag = False, is_passive = False, kc_worker = w,
      kc_kcp = None, kcp_timerid = 0, heartbeat_timerid = 0, server_conv_index = 0x1000, kc_receiving = False,
      kc_goodbyes = 0, kc_sends = 0, kc_out = [], kc_sent = [], kc_msgs = [], kc_events = []\<rparr>"

section \<open>Operations\<close>

definition kc_event :: "NetEvent \<Rightarrow> kcp_conn \<Rightarrow> kcp_conn" where
  "kc_event e c = c\<lparr>kc_events := kc_events c @ [e]\<rparr>"

definition send_to :: "bytes \<Rightarrow> kcp_conn \<Rightarrow> kcp_conn" where
  "send_to d c = c\<lparr>kc_out := kc_out c @ [d]\<rparr>"

definition shakehand_request :: "u32 \<Rightarrow> kcp_conn \<Rightarrow> kcp_conn" where
  "shakehand_request convId c =
     (if kc_sock c then send_to (shake_image (if convId = 0 then kc_cid c else convId) KCP_SHAKEHAND_REQUEST) c else c)"

definition shakehand_response :: "u32 \<Rightarrow> kcp_conn \<Rightarrow> kcp_conn" where
  "shakehand_response convId c =
     (if kc_sock c then send_to (shake_image (if convId = 0 then kc_cid c else convId) KCP_SHAKEHAND_RESPONSE) c else c)"

definition kc_send_heartbeat :: "kcp_conn \<Rightarrow> kcp_conn" where
  "kc_send_heartbeat c = (if kc_sock c then send_to (shake_image (kc_cid c) KCP_HEARTBEAT) c else c)"

definition kc_do_send :: "bytes \<Rightarrow> kcp_conn \<Rightarrow> int \<times> kcp_conn" where
  "kc_do_send d c = (if kc_sock c then (0, (send_to d c)\<lparr>kc_sends := kc_sends c + 1\<rparr>) else (-1, c))"

text \<open>The completion of a data send.\<close>

definition kc_sent_done :: "bool \<Rightarrow> kcp_conn \<Rightarrow> kcp_conn" where
  "kc_sent_done ok c =
     (if kc_sends c = 0 then c
      else let c = c\<lparr>kc_sends := kc_sends c - 1\<rparr> in if ok then kc_event EVT_SEND c else c)"

text \<open>The call of the engine in \<^verbatim>\<open>send\<close>; an accepted message is recorded.\<close>

definition engine_send :: "bytes \<Rightarrow> u32 \<Rightarrow> ikcpcb \<Rightarrow> kcp_conn \<Rightarrow> int \<times> kcp_conn" where
  "engine_send data len kcp c =
     (case ikcp_send kcp data (sint len) of (r, kcp) \<Rightarrow>
        (r, c\<lparr>kc_kcp := Some kcp, kc_sent := (if r = 0 then kc_sent c @ [take (unat len) data] else kc_sent c)\<rparr>))"

definition kc_send :: "bytes \<Rightarrow> kcp_conn \<Rightarrow> int \<times> kcp_conn" where
  "kc_send msg c =
     (if conn_status c = CONN_KCP_READY
      then (case kc_kcp c of Some kcp \<Rightarrow> engine_send msg (of_nat (length msg)) kcp c | None \<Rightarrow> (-1, c))
      else (-1, shakehand_request 0 c))"

text \<open>
  \<^verbatim>\<open>msend\<close>: the arguments are pushed into the ring buffer one by one, the results of the
  pushes are ignored; then the first run of unread bytes is given to the engine, and the
  buffer is not told that it was read.
\<close>

definition kc_mpush :: "kcp_conn \<Rightarrow> int \<times> kcp_conn" where
  "kc_mpush c =
     (if conn_status c = CONN_KCP_READY
      then (case kc_kcp c of
              Some kcp \<Rightarrow>
                (case LoopBuffer_read (kc_buffer c) of
                   (None, n) \<Rightarrow> (0, c)
                 | (Some data, n) \<Rightarrow> (sint n, snd (engine_send data n kcp c)))
            | None \<Rightarrow> (-1, c))
      else (-1, shakehand_request 0 c))"

definition kc_msend :: "bytes list \<Rightarrow> kcp_conn \<Rightarrow> int \<times> kcp_conn" where
  "kc_msend args c =
     kc_mpush (c\<lparr>kc_buffer := fold (\<lambda>d b. snd (LoopBuffer_push_string b d)) args
                  (snd (LoopBuffer_push_string (kc_buffer c) []))\<rparr>)"

definition init_kcp :: "kcp_conn \<Rightarrow> kcp_conn" where
  "init_kcp c =
     (let c = c\<lparr>kc_kcp := Some (snd (ikcp_nodelay (ikcp_create (kc_cid c)) 1 10 1 1))\<rparr>;
          c = (if kcp_timerid c = 0
               then (case start_timer True 100 True (kc_worker c) of (tid, w) \<Rightarrow>
                       c\<lparr>kcp_timerid := tid, kc_worker := w\<rparr>)
               else c)
      in c\<lparr>conn_status := CONN_KCP_READY\<rparr>)"

text \<open>The handler of the timer that \<^verbatim>\<open>init_kcp\<close> starts.\<close>

definition kcp_tick :: "u32 \<Rightarrow> kcp_conn \<Rightarrow> kcp_conn" where
  "kcp_tick now c =
     (if conn_status c = CONN_KCP_READY
      then (case kc_kcp c of
              Some kcp \<Rightarrow> (case ikcp_update kcp now of (outs, kcp) \<Rightarrow>
                fold (\<lambda>d c. snd (kc_do_send d c)) outs (c\<lparr>kc_kcp := Some kcp\<rparr>))
            | None \<Rightarrow> c)
      else c)"

definition kc_release :: "kcp_conn \<Rightarrow> kcp_conn" where
  "kc_release c =
     (if conn_status c \<noteq> CONN_CLOSED then
        let c = c\<lparr>conn_status := CONN_CLOSED,
                  kc_worker := stop_timer (kcp_timerid c) (stop_timer (heartbeat_timerid c) (kc_worker c))\<rparr>;
            c = (if kc_sock c \<and> \<not> is_passive c then c\<lparr>kc_sock := False\<rparr> else c)
        in c\<lparr>kc_kcp := None\<rparr>
      else c)"

definition kc_disconnect :: "kcp_conn \<Rightarrow> int \<times> kcp_conn" where
  "kc_disconnect c =
     (if kc_sock c \<and> conn_code (conn_status c) < conn_code CONN_CLOSING then
        let c = c\<lparr>conn_status := CONN_CLOSING\<rparr>;
            c = (if kcp_timerid c \<noteq> 0
                 then c\<lparr>kc_worker := stop_timer (kcp_timerid c) (kc_worker c), kcp_timerid := 0\<rparr> else c)
        in (0, (send_to (shake_image (kc_cid c) KCP_GOODBYE) c)\<lparr>kc_goodbyes := kc_goodbyes c + 1\<rparr>)
      else (-1, c))"

definition kc_disconnect_done :: "kcp_conn \<Rightarrow> kcp_conn" where
  "kc_disconnect_done c =
     (if kc_goodbyes c = 0 then c
      else kc_release (kc_event EVT_DISCONNECT (c\<lparr>kc_goodbyes := kc_goodbyes c - 1\<rparr>)))"

definition kc_listen :: "kcp_conn \<Rightarrow> kcp_conn" where
  "kc_listen c =
     (case start_timer True 1000000 True (kc_worker c) of (tid, w) \<Rightarrow>
        c\<lparr>kc_sock := True, conn_status := CONN_OPEN, is_passive := True, heartbeat_timerid := tid, kc_worker := w\<rparr>)"

definition kc_connect :: "bool \<Rightarrow> kcp_conn \<Rightarrow> kcp_conn" where
  "kc_connect reconn c =
     (case start_timer True 1000000 True (kc_worker c) of (tid, w) \<Rightarrow>
        shakehand_request 0
          (c\<lparr>is_passive := False, reconnect_flag := reconn, kc_sock := True, heartbeat_timerid := tid,
             kc_worker := w, conn_status := CONN_OPEN\<rparr>)\<lparr>kc_receiving := True\<rparr>)"

text \<open>The handlers of the heartbeat timers that \<^verbatim>\<open>listen\<close> and \<^verbatim>\<open>connect\<close> start.\<close>

definition kc_heartbeat_tick :: "int \<Rightarrow> kcp_conn \<Rightarrow> kcp_conn" where
  "kc_heartbeat_tick now c =
     (if now - last_msg_time c > 3000 then
        let c = kc_event EVT_DISCONNECT c in
        if is_passive c \<or> \<not> reconnect_flag c then kc_release c else c
      else kc_send_heartbeat c)"

definition is_control :: "bytes \<Rightarrow> bool" where
  "is_control pData \<longleftrightarrow> msg_cmd pData = KCP_SHAKEHAND_REQUEST \<or> msg_cmd pData = KCP_SHAKEHAND_RESPONSE \<or>
     msg_cmd pData = KCP_HEARTBEAT"

definition check_control_message :: "bytes \<Rightarrow> kcp_conn \<Rightarrow> bool \<times> kcp_conn" where
  "check_control_message pData c =
     (let conv = msg_conv pData in
      if conn_status c = CONN_OPEN then
        if msg_cmd pData = KCP_SHAKEHAND_REQUEST then
          let c = (if is_passive c \<and> conv = 0 \<and> kc_cid c = 0
                   then c\<lparr>kc_cid := server_conv_index c, server_conv_index := server_conv_index c + 1\<rparr> else c);
              c = c\<lparr>kc_cid := (if conv = 0 then kc_cid c else conv)\<rparr>
          in (True,
              if kc_cid c \<noteq> 0 then kc_event EVT_CONNECT (init_kcp (shakehand_response (kc_cid c) c)) else c)
        else if msg_cmd pData = KCP_SHAKEHAND_RESPONSE then
          let c = (if kc_cid c = 0 then c\<lparr>kc_cid := conv\<rparr> else c)
          in (True, kc_event EVT_CONNECT (init_kcp c))
        else if msg_cmd pData = KCP_HEARTBEAT then (True, c)
        else (True, shakehand_request 0 c)
      else if conn_status c = CONN_KCP_READY then
        if msg_cmd pData = KCP_SHAKEHAND_REQUEST then
          let c = (if conv \<noteq> 0 \<and> kc_cid c = 0 then c\<lparr>kc_cid := conv\<rparr> else c);
              c = init_kcp (c\<lparr>conn_status := CONN_OPEN\<rparr>)
          in (True, shakehand_response (kc_cid c) c)
        else if msg_cmd pData = KCP_SHAKEHAND_RESPONSE then
          (True, init_kcp (if kc_cid c = 0 then c\<lparr>kc_cid := conv\<rparr> else c))
        else (is_control pData, c)
      else (is_control pData, c))"

text \<open>The loop of \<^verbatim>\<open>handle_receive\<close>: the messages handed over and the engine after it.\<close>

function receive_loop :: "nat \<Rightarrow> nat \<Rightarrow> ikcpcb \<Rightarrow> bytes list \<times> ikcpcb" where
  "receive_loop dataLen recvLen kcp =
     (if recvLen < dataLen then
        let msgLen = ikcp_peeksize kcp in
        if msgLen \<le> 0 then ([], kcp)
        else
          case ikcp_recv kcp (int kMaxMessageLength) of (n, d, kcp) \<Rightarrow>
            if n > 0 then
              (case receive_loop dataLen (recvLen + nat msgLen) kcp of (ds, kcp) \<Rightarrow> (d # ds, kcp))
            else ([], kcp)
      else ([], kcp))"
  by pat_completeness auto

termination
  by (relation "measure (\<lambda>(dataLen, recvLen, kcp). dataLen - recvLen)") auto

declare receive_loop.simps [simp del]

definition handle_receive :: "bytes \<Rightarrow> kcp_conn \<Rightarrow> kcp_conn" where
  "handle_receive data c =
     (case kc_kcp c of
        None \<Rightarrow> c
      | Some kcp \<Rightarrow>
          (case ikcp_input kcp (Some data) of (cmd, kcp) \<Rightarrow>
             if cmd = uint IKCP_CMD_ACK then c\<lparr>kc_kcp := Some kcp\<rparr>
             else
               case receive_loop (length data) 0 kcp of (ds, kcp) \<Rightarrow>
                 c\<lparr>kc_kcp := Some kcp, kc_msgs := kc_msgs c @ ds,
                   kc_events := kc_events c @ replicate (length ds) EVT_RECV\<rparr>))"

text \<open>
  A datagram arrives: in the receive callback of an active connection, and in that of the
  listener for a passive one, whose buffer holds \<open>stale\<close> behind the datagram. Only the
  former writes a zero there. An active connection stops receiving when the wait fails or
  the datagram is empty, which is the case \<open>d = []\<close>.
\<close>

definition kc_receive :: "int \<Rightarrow> bytes \<Rightarrow> kcp_conn \<Rightarrow> kcp_conn" where
  "kc_receive now d c =
     (if \<not> kc_receiving c then c
      else if d = [] then c\<lparr>kc_receiving := False\<rparr>
      else let c = c\<lparr>recv_buffer := (blit (recv_buffer c) 0 d)[length d := 0], last_msg_time := now\<rparr> in
      case check_control_message (recv_buffer c) c of (ctrl, c) \<Rightarrow> if ctrl then c else handle_receive d c)"

definition kc_receive_passive :: "int \<Rightarrow> bytes \<Rightarrow> bytes \<Rightarrow> kcp_conn \<Rightarrow> kcp_conn" where
  "kc_receive_passive now stale d c =
     (let c = c\<lparr>last_msg_time := now\<rparr> in
      case check_control_message (d @ stale) c of (ctrl, c) \<Rightarrow> if ctrl then c else handle_receive d c)"

end
