(* ===== verification/Kcp_Delivery.thy ===== *)
theory Kcp_Delivery
  imports Kcp_Connection
begin

text \<open>
  Two KCP connections after their handshake: what any sequence of calls, timer ticks and
  datagrams does to them is simulated by the two engines of \<^verbatim>\<open>Ikcp_Link\<close>, so the delivery
  guarantee of the protocol carries over to the messages the connections hand to their users.
\<close>

section \<open>Calls on a connection\<close>

datatype kcp_op =
    OpSend bytes
  | OpMsend "bytes list"
  | OpTick u32
  | OpHeartbeat int
  | OpReceive int bytes
  | OpReceivePassive int bytes bytes
  | OpDisconnect
  | OpDisconnectDone
  | OpSentDone bool

fun run_op :: "kcp_op \<Rightarrow> kcp_conn \<Rightarrow> kcp_conn" where
  "run_op (OpSend msg) c = snd (kc_send msg c)"
| "run_op (OpMsend args) c = snd (kc_msend args c)"
| "run_op (OpTick now) c = kcp_tick now c"
| "run_op (OpHeartbeat now) c = kc_heartbeat_tick now c"
| "run_op (OpReceive now d) c = kc_receive now d c"
| "run_op (OpReceivePassive now stale d) c = kc_receive_passive now stale d c"
| "run_op OpDisconnect c = snd (kc_disconnect c)"
| "run_op OpDisconnectDone c = kc_disconnect_done c"
| "run_op (OpSentDone ok) c = kc_sent_done ok c"

text \<open>
  The datagram of a receiving operation, and the restriction the guarantee needs: no
  handshake message arrives, which would start a new engine, and messages have a length an
  \<^verbatim>\<open>int\<close> can hold.
\<close>

fun op_datagrams :: "kcp_op \<Rightarrow> bytes set" where
  "op_datagrams (OpReceive now d) = {d} - {[]}"
| "op_datagrams (OpReceivePassive now stale d) = {d}"
| "op_datagrams op = {}"

definition handshake :: "bytes \<Rightarrow> bool" where
  "handshake mem \<longleftrightarrow> msg_cmd mem = KCP_SHAKEHAND_REQUEST \<or> msg_cmd mem = KCP_SHAKEHAND_RESPONSE"

fun op_ok :: "kcp_op \<Rightarrow> kcp_conn \<Rightarrow> bool" where
  "op_ok (OpReceive now d) c \<longleftrightarrow> d \<noteq> [] \<longrightarrow> \<not> handshake ((blit (recv_buffer c) 0 d)[length d := 0])"
| "op_ok (OpReceivePassive now stale d) c \<longleftrightarrow> \<not> handshake (d @ stale)"
| "op_ok (OpSend msg) c \<longleftrightarrow> length msg < 2 ^ 31"
| "op_ok (OpMsend args) c \<longleftrightarrow> (\<forall>d\<in>set args. length d < 2 ^ 31)"
| "op_ok op c \<longleftrightarrow> True"

text \<open>A sends, B receives: the network gives B only datagrams A sent, in any order and number.\<close>

inductive pair_step :: "kcp_conn \<times> kcp_conn \<Rightarrow> kcp_conn \<times> kcp_conn \<Rightarrow> bool" where
  pair_a: "op_ok op a \<Longrightarrow> pair_step (a, b) (run_op op a, b)"
| pair_b: "op_ok op b \<Longrightarrow> op_datagrams op \<subseteq> set (kc_out a) \<Longrightarrow> pair_step (a, b) (a, run_op op b)"

section \<open>What the operations leave alone\<close>

definition past_open :: "kcp_conn \<Rightarrow> bool" where
  "past_open c \<longleftrightarrow> conn_status c \<in> {CONN_KCP_READY, CONN_CLOSING, CONN_CLOSED}"

lemma check_control_quiet:
  assumes "past_open c" "\<not> handshake mem"
  shows "check_control_message mem c = (is_control mem, c)"
  using assms by (auto simp: check_control_message_def past_open_def handshake_def is_control_def Let_def)

lemma fold_do_send:
  "fold (\<lambda>d c. snd (kc_do_send d c)) outs c =
     (if kc_sock c then c\<lparr>kc_out := kc_out c @ outs, kc_sends := kc_sends c + length outs\<rparr> else c)"
  by (induction outs arbitrary: c) (simp_all add: kc_do_send_def send_to_def)

lemma length_shake_image [simp]: "length (shake_image conv cmd) = 8"
  by (simp add: shake_image_def)

lemma ikcp_input_short: "length d < 24 \<Longrightarrow> ikcp_input kcp (Some d) = (-1, kcp)"
  using sint_of_nat_small [of "length d"] by (simp add: ikcp_input_def IKCP_OVERHEAD_def)

section \<open>Receiving\<close>

lemma ikcp_recv_merge_size:
  "ikcp_recv_merge False q n = (d, l, q', m) \<Longrightarrow> l = ikcp_peek_sum q"
  by (induction q arbitrary: n d l q' m) (auto simp: Let_def split: if_splits prod.splits)

lemma ikcp_recv_size:
  assumes "0 < ikcp_peeksize kcp" "ikcp_recv kcp len = (n, d, kcp')" "0 \<le> len"
  shows "n = (if ikcp_peeksize kcp > len then -3 else ikcp_peeksize kcp)"
    and "ikcp_peeksize kcp > len \<Longrightarrow> kcp' = kcp"
proof -
  have ne: "k_rcv_queue kcp \<noteq> []" using assms(1) by (auto simp: ikcp_peeksize_def)
  obtain d' l q m where r: "ikcp_recv_merge False (k_rcv_queue kcp) (k_nrcv_que kcp) = (d', l, q, m)"
    by (cases "ikcp_recv_merge False (k_rcv_queue kcp) (k_nrcv_que kcp)")
  have "l = ikcp_peeksize kcp"
    using ikcp_recv_merge_size [OF r] assms(1) by (cases "k_rcv_queue kcp") (auto simp: ikcp_peeksize_def split: if_splits)
  then show "n = (if ikcp_peeksize kcp > len then -3 else ikcp_peeksize kcp)"
      "ikcp_peeksize kcp > len \<Longrightarrow> kcp' = kcp"
    using assms ne r by (auto simp: ikcp_recv_def Let_def split: if_splits)
qed

text \<open>The loop on the side of A and on that of B, as steps of the two engines.\<close>

lemma receive_loop_a:
  "receive_loop n m (w_a w) = (ds, k) \<Longrightarrow> kcp_step\<^sup>*\<^sup>* w (w\<lparr>w_a := k\<rparr>)"
proof (induction n m "w_a w" arbitrary: w ds k rule: receive_loop.induct)
  case (1 n m)
  show ?case
  proof (cases "m < n \<and> \<not> ikcp_peeksize (w_a w) \<le> 0")
    case True
    obtain r d k1 where r: "ikcp_recv (w_a w) (int kMaxMessageLength) = (r, d, k1)"
      by (cases "ikcp_recv (w_a w) (int kMaxMessageLength)")
    have s: "kcp_step w (w\<lparr>w_a := k1\<rparr>)" using a_recv [of w "int kMaxMessageLength"] r by simp
    show ?thesis
    proof (cases "0 < r")
      case pos: True
      obtain ds' where "receive_loop n (m + nat (ikcp_peeksize (w_a w))) k1 = (ds', k)"
        using "1.prems" True r pos by (auto simp: receive_loop.simps [of n m] Let_def split: prod.splits)
      then have "kcp_step\<^sup>*\<^sup>* (w\<lparr>w_a := k1\<rparr>) (w\<lparr>w_a := k1, w_a := k\<rparr>)"
        using True r pos by (intro "1.hyps") auto
      then show ?thesis using s by (simp add: converse_rtranclp_into_rtranclp)
    next
      case False
      then show ?thesis using "1.prems" True r s by (auto simp: receive_loop.simps [of n m] Let_def)
    qed
  next
    case False
    then have "k = w_a w" using "1.prems" by (auto simp: receive_loop.simps [of n m] split: if_splits)
    then show ?thesis by simp
  qed
qed

lemma receive_loop_b:
  "receive_loop n m (w_b w) = (ds, k) \<Longrightarrow> kcp_step\<^sup>*\<^sup>* w (w\<lparr>w_b := k, w_got := w_got w @ ds\<rparr>)"
proof (induction n m "w_b w" arbitrary: w ds k rule: receive_loop.induct)
  case (1 n m)
  show ?case
  proof (cases "m < n \<and> \<not> ikcp_peeksize (w_b w) \<le> 0")
    case True
    obtain r d k1 where r: "ikcp_recv (w_b w) (int kMaxMessageLength) = (r, d, k1)"
      by (cases "ikcp_recv (w_b w) (int kMaxMessageLength)")
    have s: "kcp_step w (w\<lparr>w_b := k1, w_got := (if r < 0 then w_got w else w_got w @ [d])\<rparr>)"
      using b_recv [OF _ r] by simp
    have sz: "r = -3 \<or> 0 < r" using ikcp_recv_size(1) [OF _ r] True by (auto split: if_splits)
    show ?thesis
    proof (cases "0 < r")
      case pos: True
      obtain ds' where ds: "receive_loop n (m + nat (ikcp_peeksize (w_b w))) k1 = (ds', k)" "ds = d # ds'"
        using "1.prems" True r pos by (auto simp: receive_loop.simps [of n m] Let_def split: prod.splits)
      let ?w = "w\<lparr>w_b := k1, w_got := w_got w @ [d]\<rparr>"
      have "kcp_step\<^sup>*\<^sup>* ?w (?w\<lparr>w_b := k, w_got := w_got ?w @ ds'\<rparr>)"
        using True r pos ds(1) by (intro "1.hyps") auto
      then show ?thesis using s pos ds(2) by (simp add: converse_rtranclp_into_rtranclp)
    next
      case False
      then show ?thesis using "1.prems" True r s sz by (auto simp: receive_loop.simps [of n m] Let_def)
    qed
  next
    case False
    then have "k = w_b w" "ds = []" using "1.prems" by (auto simp: receive_loop.simps [of n m] split: if_splits)
    then show ?thesis by simp
  qed
qed

section \<open>The simulation\<close>

text \<open>The send buffer stays well formed and far below the range of an \<^verbatim>\<open>int\<close>.\<close>

definition ring_ok :: "loop_buffer \<Rightarrow> bool" where
  "ring_ok b \<longleftrightarrow> LoopBuffer_inv b \<and> unat (lb_size b) < 2 ^ 31"

definition sim :: "u32 \<Rightarrow> kcp_conn \<Rightarrow> kcp_conn \<Rightarrow> kcp_world \<Rightarrow> bool" where
  "sim conv a b w \<longleftrightarrow> kcp_step\<^sup>*\<^sup>* (kcp_world_init conv) w \<and> past_open a \<and> past_open b \<and>
     (\<forall>k. kc_kcp a = Some k \<longrightarrow> w_a w = k) \<and> (\<forall>k. kc_kcp b = Some k \<longrightarrow> w_b w = k) \<and>
     w_sent w = kc_sent a \<and> w_got w = kc_msgs b \<and>
     (\<forall>d\<in>set (kc_out a). d \<in> w_net w \<or> length d = 8) \<and> ring_ok (kc_buffer a)"

lemma sim_link: "sim conv a b w \<Longrightarrow> link_inv conv w"
  by (simp add: sim_def link_inv_reach)

text \<open>
  An operation that does not touch the engine or gives it up, and sends at most control
  messages.
\<close>

definition kc_quiet :: "kcp_conn \<Rightarrow> kcp_conn \<Rightarrow> bool" where
  "kc_quiet c c' \<longleftrightarrow> (past_open c \<longrightarrow> past_open c') \<and> kc_kcp c' \<in> {kc_kcp c, None} \<and>
     kc_sent c' = kc_sent c \<and> kc_msgs c' = kc_msgs c \<and> kc_buffer c' = kc_buffer c \<and>
     set (kc_out c') \<subseteq> set (kc_out c) \<union> {d. length d = 8}"

lemma kc_quiet_refl [simp]: "kc_quiet c c"
  by (simp add: kc_quiet_def)

lemma kc_quiet_trans: "kc_quiet a b \<Longrightarrow> kc_quiet b c \<Longrightarrow> kc_quiet a c"
  by (auto simp: kc_quiet_def)

lemma kc_quiet_event: "kc_quiet c (kc_event e c)"
  by (simp add: kc_quiet_def kc_event_def past_open_def)

lemma kc_quiet_request: "kc_quiet c (shakehand_request i c)"
  by (auto simp: kc_quiet_def shakehand_request_def send_to_def past_open_def)

lemma kc_quiet_heartbeat: "kc_quiet c (kc_send_heartbeat c)"
  by (simp add: kc_quiet_def kc_send_heartbeat_def send_to_def past_open_def)

lemma kc_quiet_release: "kc_quiet c (kc_release c)"
  by (simp add: kc_quiet_def kc_release_def past_open_def Let_def)

lemma kc_quiet_disconnect: "kc_quiet c (snd (kc_disconnect c))"
  by (simp add: kc_quiet_def kc_disconnect_def send_to_def past_open_def Let_def)

lemma kc_quiet_tick: "kc_quiet c (kc_heartbeat_tick now c)"
  using kc_quiet_trans [OF kc_quiet_event kc_quiet_release, of c EVT_DISCONNECT]
  by (simp add: kc_heartbeat_tick_def Let_def kc_quiet_event kc_quiet_heartbeat)

lemma kc_quiet_disconnect_done: "kc_quiet c (kc_disconnect_done c)"
proof -
  have "kc_quiet c (c\<lparr>kc_goodbyes := n\<rparr>)" for n by (simp add: kc_quiet_def past_open_def)
  then show ?thesis
    using kc_quiet_trans [OF _ kc_quiet_trans [OF kc_quiet_event kc_quiet_release]]
    by (simp add: kc_disconnect_done_def)
qed

lemma kc_quiet_sent_done: "kc_quiet c (kc_sent_done ok c)"
  by (simp add: kc_quiet_def kc_sent_done_def kc_event_def past_open_def Let_def)

lemmas kc_quiet_ops = kc_quiet_request kc_quiet_tick kc_quiet_disconnect kc_quiet_disconnect_done kc_quiet_sent_done

lemma sim_a_quiet: "sim conv a b w \<Longrightarrow> kc_quiet a a' \<Longrightarrow> sim conv a' b w"
  unfolding sim_def kc_quiet_def by (elim conjE, intro conjI) auto

lemma sim_b_quiet: "sim conv a b w \<Longrightarrow> kc_quiet b b' \<Longrightarrow> sim conv a b' w"
  unfolding sim_def kc_quiet_def by (elim conjE, intro conjI) auto

lemma sim_a_step:
  assumes "sim conv a b w" "kcp_step\<^sup>*\<^sup>* w w'" "past_open a'" "kc_kcp a' = Some (w_a w')" "w_b w' = w_b w"
    "w_sent w' = kc_sent a'" "w_got w' = w_got w" "w_net w \<subseteq> w_net w'" "ring_ok (kc_buffer a')"
    "\<forall>d\<in>set (kc_out a'). d \<in> set (kc_out a) \<or> d \<in> w_net w'"
  shows "sim conv a' b w'"
  using assms unfolding sim_def by (auto intro: rtranclp_trans)

lemma sim_b_step:
  assumes "sim conv a b w" "kcp_step\<^sup>*\<^sup>* w w'" "past_open b'" "kc_kcp b' = Some (w_b w')" "w_a w' = w_a w"
    "w_sent w' = w_sent w" "w_got w' = kc_msgs b'" "w_net w' = w_net w"
  shows "sim conv a b' w'"
  using assms unfolding sim_def by (auto intro: rtranclp_trans)

lemma link_frags_length: "link_inv conv w \<Longrightarrow> length (concat (w_frags w)) \<le> 128 * length (w_sent w)"
proof -
  assume "link_inv conv w"
  then have 1: "\<forall>fs\<in>set (w_frags w). length fs \<le> 128" "length (w_frags w) = length (w_sent w)"
    by (auto simp: link_inv_def whole_message_def dest!: arg_cong [of _ _ length])
  have "length (concat fss) \<le> 128 * length fss" if "\<forall>fs\<in>set fss. length fs \<le> 128" for fss :: "item list list"
    using that by (induction fss) auto
  with 1 show ?thesis by metis
qed

lemma engine_send_a:
  assumes s: "sim conv a b w" and k: "kc_kcp a = Some k" and st: "conn_status a = CONN_KCP_READY"
    and len: "length msg < 2 ^ 31" and n: "n = of_nat (length msg)"
    and a': "a' = snd (engine_send msg n k a)" and small: "length (kc_sent a') < 2 ^ 22"
  shows "\<exists>w'. sim conv a' b w'"
proof -
  have wa: "w_a w = k" using s k by (simp add: sim_def)
  have lk: "link_inv conv w" by (rule sim_link [OF s])
  then have inv: "k_stream k = 0" "0 < sint (k_mss k)" by (auto simp: link_inv_def snd_inv_def wa)
  have sn: "sint n = int (length msg)" "unat n = length msg"
    using len unfolding n by (simp_all add: sint_of_nat_small unat_of_nat32)
  let ?fs = "frags (nat (sint (k_mss k))) msg"
  note run = ikcp_send_message [OF inv len]
  show ?thesis
  proof (cases "128 \<le> length ?fs")
    case True
    then have "a' = a\<lparr>kc_kcp := Some k\<rparr>" using run by (simp add: a' engine_send_def sn Let_def)
    then have "kc_quiet a a'" using k by (simp add: kc_quiet_def past_open_def)
    then show ?thesis using sim_a_quiet [OF s] by blast
  next
    case False
    then obtain k1 where k1: "ikcp_send k msg (int (length msg)) = (0, k1)" using run by (simp add: Let_def)
    then have a1: "a' = a\<lparr>kc_kcp := Some k1, kc_sent := kc_sent a @ [msg]\<rparr>" by (simp add: a' engine_send_def sn)
    have "length (concat (w_frags w)) \<le> 128 * length (kc_sent a)"
      using link_frags_length [OF lk] s by (simp add: sim_def)
    then have "length (concat (w_frags w @ [?fs])) < 2 ^ 29" using small False by (simp add: a1)
    then have "kcp_step w (w\<lparr>w_a := k1, w_sent := w_sent w @ [msg], w_frags := w_frags w @ [?fs]\<rparr>)"
      using a_send [OF len, of w k1 ?fs] k1 wa by simp
    note step = r_into_rtranclp [of kcp_step, OF this]
    have "sim conv a' b (w\<lparr>w_a := k1, w_sent := w_sent w @ [msg], w_frags := w_frags w @ [?fs]\<rparr>)"
      by (rule sim_a_step [OF s step]) (use s in \<open>simp_all add: a1 sim_def past_open_def\<close>)
    then show ?thesis by blast
  qed
qed

lemma ring_ok_push:
  assumes "ring_ok b" "length d < 2 ^ 32"
  shows "ring_ok (snd (LoopBuffer_push_string b d))"
proof -
  have u: "unat (of_nat (length d) :: u32) = length d" using assms(2) by (rule unat_of_nat32)
  have inv: "LoopBuffer_inv b" using assms(1) by (simp add: ring_ok_def)
  have sz: "lb_size (snd (LoopBuffer_push_string b d)) = lb_size b"
    by (simp add: LoopBuffer_push_string_def LoopBuffer_push_def Let_def)
  have "LoopBuffer_inv (snd (LoopBuffer_push_string b d))"
  proof (cases "length (LoopBuffer_contents b) + length d \<le> unat (lb_size b)")
    case True
    then show ?thesis using LoopBuffer_push_ok(2) [OF inv, of d "of_nat (length d)"] u
      by (simp add: LoopBuffer_push_string_def)
  next
    case False
    then show ?thesis using LoopBuffer_push_full [OF inv, of "of_nat (length d)" d] u inv
      by (simp add: LoopBuffer_push_string_def)
  qed
  then show ?thesis using assms(1) sz by (simp add: ring_ok_def)
qed

lemma ring_ok_pushes:
  "ring_ok b \<Longrightarrow> \<forall>d\<in>set ds. length d < 2 ^ 32 \<Longrightarrow>
    ring_ok (fold (\<lambda>d b. snd (LoopBuffer_push_string b d)) ds b)"
  by (induction ds arbitrary: b) (simp_all add: ring_ok_push)

lemma ring_ok_read:
  assumes "ring_ok b" "LoopBuffer_read b = (Some data, n)"
  shows "length data < 2 ^ 31" "n = of_nat (length data)"
proof -
  have inv: "LoopBuffer_inv b" "unat (lb_size b) < 2 ^ 31" using assms(1) by (simp_all add: ring_ok_def)
  have l: "length (LoopBuffer_contents b) < 2 ^ 31"
    using inv by (simp add: LoopBuffer_contents_def LoopBuffer_inv_def)
  have "LoopBuffer_contents b \<noteq> []"
    using assms(2) by (auto simp: LoopBuffer_read_def LoopBuffer_contents_def ring_slice_def Let_def unat_gt_0 split: if_splits)
  from LoopBuffer_read_run [OF inv(1) this] obtain len where
    "LoopBuffer_read b = (Some (take len (LoopBuffer_contents b)), of_nat len)" "len \<le> length (LoopBuffer_contents b)"
    by metis
  then show "length data < 2 ^ 31" "n = of_nat (length data)" using assms(2) l by auto
qed

lemma sim_a_receive:
  assumes s: "sim conv a b w"
    and c: "past_open c" "kc_kcp c = kc_kcp a" "kc_sent c = kc_sent a" "kc_buffer c = kc_buffer a" "kc_out c = kc_out a"
  shows "\<exists>w'. sim conv (handle_receive d c) b w'"
proof (cases "kc_kcp a")
  case None
  then show ?thesis using s c by (auto simp: handle_receive_def sim_def)
next
  case (Some k)
  obtain cmd k1 where i: "ikcp_input k (Some d) = (cmd, k1)" by (cases "ikcp_input k (Some d)")
  let ?w = "w\<lparr>w_a := k1\<rparr>"
  have 1: "kcp_step\<^sup>*\<^sup>* w ?w"
    using a_input [of w "Some d"] i Some s by (auto simp: sim_def)
  obtain ds k2 where l: "receive_loop (length d) 0 (w_a ?w) = (ds, k2)" by fastforce
  have 2: "kcp_step\<^sup>*\<^sup>* w (?w\<lparr>w_a := k2\<rparr>)" using 1 receive_loop_a [OF l] by simp
  let ?k = "if cmd = uint IKCP_CMD_ACK then k1 else k2"
  have step: "kcp_step\<^sup>*\<^sup>* w (w\<lparr>w_a := ?k\<rparr>)" using 1 2 by simp
  have "sim conv (handle_receive d c) b (w\<lparr>w_a := ?k\<rparr>)"
    by (rule sim_a_step [OF s step])
      (use s c i l Some in \<open>auto simp: handle_receive_def sim_def past_open_def split: prod.splits\<close>)
  then show ?thesis by blast
qed

lemma sim_a_control:
  assumes s: "sim conv a b w" and h: "\<not> handshake mem"
    and c: "past_open c" "kc_kcp c = kc_kcp a" "kc_sent c = kc_sent a" "kc_buffer c = kc_buffer a" "kc_out c = kc_out a"
  shows "\<exists>w'. sim conv (case check_control_message mem c of (ctrl, c) \<Rightarrow> if ctrl then c else handle_receive d c) b w'"
proof (cases "is_control mem")
  case True
  then show ?thesis using s c by (auto simp: check_control_quiet [OF c(1) h] sim_def)
next
  case False
  then show ?thesis using sim_a_receive [OF s c] by (simp add: check_control_quiet [OF c(1) h])
qed

lemma sim_a_send:
  assumes s: "sim conv a b w" and "length msg < 2 ^ 31" "length (kc_sent (snd (kc_send msg a))) < 2 ^ 22"
  shows "\<exists>w'. sim conv (snd (kc_send msg a)) b w'"
proof (cases "conn_status a = CONN_KCP_READY \<and> kc_kcp a \<noteq> None")
  case True
  then obtain k where "kc_kcp a = Some k" by auto
  then show ?thesis using engine_send_a [OF s _ _ assms(2) refl refl] True assms(3)
    by (simp add: kc_send_def)
next
  case False
  then have "snd (kc_send msg a) \<in> {a, shakehand_request 0 a}"
    by (auto simp: kc_send_def split: option.splits)
  then show ?thesis using s sim_a_quiet [OF s kc_quiet_request [of a 0]] by auto
qed

lemma sim_a_msend:
  assumes s: "sim conv a b w" and "\<forall>d\<in>set args. length d < 2 ^ 31" "length (kc_sent (snd (kc_msend args a))) < 2 ^ 22"
  shows "\<exists>w'. sim conv (snd (kc_msend args a)) b w'"
proof -
  define ring where "ring = fold (\<lambda>d b. snd (LoopBuffer_push_string b d)) args (snd (LoopBuffer_push_string (kc_buffer a) []))"
  define c where "c = a\<lparr>kc_buffer := ring\<rparr>"
  have ok: "ring_ok ring"
    unfolding ring_def using s assms(2) by (intro ring_ok_pushes ring_ok_push) (auto simp: sim_def)
  have sc: "sim conv c b w" using s ok by (auto simp: sim_def c_def past_open_def)
  have r: "kc_msend args a = kc_mpush c" by (simp add: kc_msend_def c_def ring_def)
  show ?thesis
  proof (cases "\<exists>k data n. conn_status c = CONN_KCP_READY \<and> kc_kcp c = Some k \<and> LoopBuffer_read ring = (Some data, n)")
    case True
    then obtain k data n where k: "conn_status c = CONN_KCP_READY" "kc_kcp c = Some k" "LoopBuffer_read ring = (Some data, n)"
      by blast
    have "kc_mpush c = (sint n, snd (engine_send data n k c))" using k by (simp add: kc_mpush_def c_def)
    then show ?thesis
      using engine_send_a [OF sc k(2,1) ring_ok_read [OF ok k(3)] refl] assms(3) unfolding r by simp
  next
    case False
    then have "snd (kc_mpush c) = c \<or> snd (kc_mpush c) = shakehand_request 0 c"
      by (auto simp: kc_mpush_def c_def split: option.splits prod.splits)
    then show ?thesis unfolding r using sc sim_a_quiet [OF sc kc_quiet_request [of c 0]] by auto
  qed
qed

lemma sim_a_tick:
  assumes s: "sim conv a b w"
  shows "\<exists>w'. sim conv (kcp_tick now a) b w'"
proof (cases "conn_status a = CONN_KCP_READY \<and> kc_kcp a \<noteq> None")
  case True
  then obtain k where k: "kc_kcp a = Some k" by auto
  obtain outs k1 where u: "ikcp_update k now = (outs, k1)" by (cases "ikcp_update k now")
  let ?w = "w\<lparr>w_a := k1, w_net := w_net w \<union> set outs\<rparr>"
  have "kcp_step w ?w" using a_update [of w now outs k1] u k s by (simp add: sim_def)
  note step = r_into_rtranclp [of kcp_step, OF this]
  have "sim conv (kcp_tick now a) b ?w"
    by (rule sim_a_step [OF s step])
      (use s True k u in \<open>auto simp: kcp_tick_def fold_do_send sim_def past_open_def\<close>)
  then show ?thesis by blast
next
  case False
  then show ?thesis using s by (auto simp: kcp_tick_def split: option.splits)
qed

lemma sim_a_op:
  assumes s: "sim conv a b w" and ok: "op_ok op a" and small: "length (kc_sent (run_op op a)) < 2 ^ 22"
  shows "\<exists>w'. sim conv (run_op op a) b w'"
proof (cases op)
  case (OpReceive now d)
  have "kc_quiet a (a\<lparr>kc_receiving := False\<rparr>)" by (simp add: kc_quiet_def past_open_def)
  note idle = sim_a_quiet [OF s this]
  show ?thesis
  proof (cases "kc_receiving a \<and> d \<noteq> []")
    case True
    then show ?thesis using ok s unfolding OpReceive run_op.simps kc_receive_def Let_def
      by (simp, intro sim_a_control [OF s]) (auto simp: sim_def past_open_def)
  next
    case False
    then show ?thesis using s idle unfolding OpReceive run_op.simps kc_receive_def by auto
  qed
next
  case (OpReceivePassive now stale d)
  then show ?thesis using ok s unfolding OpReceivePassive run_op.simps kc_receive_passive_def Let_def
    by (intro sim_a_control [OF s]) (auto simp: sim_def past_open_def)
qed (use ok small sim_a_quiet [OF s kc_quiet_tick] sim_a_quiet [OF s kc_quiet_disconnect]
    sim_a_quiet [OF s kc_quiet_disconnect_done] sim_a_quiet [OF s kc_quiet_sent_done]
  in \<open>auto intro: sim_a_send [OF s] sim_a_msend [OF s] sim_a_tick [OF s]\<close>)

text \<open>The same on the side of B, which receives only what A sent.\<close>

lemma sim_b_input:
  assumes s: "sim conv a b w" and "kc_kcp b = Some k" "d \<in> set (kc_out a)" "ikcp_input k (Some d) = (cmd, k1)"
  shows "kcp_step\<^sup>*\<^sup>* w (w\<lparr>w_b := k1\<rparr>)"
proof -
  have wb: "w_b w = k" "d \<in> w_net w \<or> length d = 8" using s assms(2,3) by (auto simp: sim_def)
  show ?thesis
  proof (cases "d \<in> w_net w")
    case True
    then show ?thesis using b_input [OF True] wb assms(4) by auto
  next
    case False
    then have "k1 = k" using wb ikcp_input_short [of d k] assms(4) by simp
    moreover have "w\<lparr>w_b := k\<rparr> = w" using wb(1) by (cases w) simp
    ultimately show ?thesis by simp
  qed
qed

lemma sim_b_receive:
  assumes s: "sim conv a b w" and d: "d \<in> set (kc_out a)"
    and c: "past_open c" "kc_kcp c = kc_kcp b" "kc_msgs c = kc_msgs b"
  shows "\<exists>w'. sim conv a (handle_receive d c) w'"
proof (cases "kc_kcp b")
  case None
  then show ?thesis using s c by (auto simp: handle_receive_def sim_def)
next
  case (Some k)
  obtain cmd k1 where i: "ikcp_input k (Some d) = (cmd, k1)" by (cases "ikcp_input k (Some d)")
  let ?w = "w\<lparr>w_b := k1\<rparr>"
  have 1: "kcp_step\<^sup>*\<^sup>* w ?w" by (rule sim_b_input [OF s Some d i])
  obtain ds k2 where l: "receive_loop (length d) 0 (w_b ?w) = (ds, k2)" by fastforce
  have 2: "kcp_step\<^sup>*\<^sup>* w (?w\<lparr>w_b := k2, w_got := w_got w @ ds\<rparr>)" using 1 receive_loop_b [OF l] by simp
  show ?thesis
  proof (cases "cmd = uint IKCP_CMD_ACK")
    case True
    have "sim conv a (handle_receive d c) ?w"
      by (rule sim_b_step [OF s 1]) (use s c i Some True in \<open>auto simp: handle_receive_def sim_def past_open_def\<close>)
    then show ?thesis by blast
  next
    case False
    have "sim conv a (handle_receive d c) (?w\<lparr>w_b := k2, w_got := w_got w @ ds\<rparr>)"
      by (rule sim_b_step [OF s 2]) (use s c i l Some False in \<open>auto simp: handle_receive_def sim_def past_open_def\<close>)
    then show ?thesis by blast
  qed
qed

lemma sim_b_control:
  assumes s: "sim conv a b w" and h: "\<not> handshake mem" and d: "d \<in> set (kc_out a)"
    and c: "past_open c" "kc_kcp c = kc_kcp b" "kc_msgs c = kc_msgs b"
  shows "\<exists>w'. sim conv a (case check_control_message mem c of (ctrl, c) \<Rightarrow> if ctrl then c else handle_receive d c) w'"
proof (cases "is_control mem")
  case True
  then show ?thesis using s c by (auto simp: check_control_quiet [OF c(1) h] sim_def)
next
  case False
  then show ?thesis using sim_b_receive [OF s d c] by (simp add: check_control_quiet [OF c(1) h])
qed

lemma sim_b_engine_send:
  assumes s: "sim conv a b w" and "kc_kcp b = Some k" "c = b\<lparr>kc_buffer := r\<rparr>"
  shows "\<exists>w'. sim conv a (snd (engine_send data n k c)) w'"
proof -
  obtain x k1 where r: "ikcp_send k data (sint n) = (x, k1)" by (cases "ikcp_send k data (sint n)")
  have "kcp_step w (w\<lparr>w_b := k1\<rparr>)" using b_send [of w data "sint n"] r assms(2) s by (auto simp: sim_def)
  note step = r_into_rtranclp [of kcp_step, OF this]
  have "sim conv a (snd (engine_send data n k c)) (w\<lparr>w_b := k1\<rparr>)"
    by (rule sim_b_step [OF s step]) (use s assms r in \<open>auto simp: engine_send_def sim_def past_open_def\<close>)
  then show ?thesis by blast
qed

lemma sim_b_send:
  assumes s: "sim conv a b w"
  shows "\<exists>w'. sim conv a (snd (kc_send msg b)) w'" "\<exists>w'. sim conv a (snd (kc_msend args b)) w'"
proof -
  have r: "snd (kc_send msg b) \<in> {b, shakehand_request 0 b} \<or>
      (\<exists>k n. kc_kcp b = Some k \<and> snd (kc_send msg b) = snd (engine_send msg n k b))"
    by (auto simp: kc_send_def split: option.splits)
  have e: "\<exists>w'. sim conv a (snd (engine_send msg n k b)) w'" if "kc_kcp b = Some k" for k n
    using sim_b_engine_send [OF s that, of b "kc_buffer b"] by simp
  show "\<exists>w'. sim conv a (snd (kc_send msg b)) w'"
    using r s e sim_b_quiet [OF s kc_quiet_request [of b 0]] by (elim disjE insertE exE conjE) auto
  define ring where "ring = fold (\<lambda>d b. snd (LoopBuffer_push_string b d)) args (snd (LoopBuffer_push_string (kc_buffer b) []))"
  define c where "c = b\<lparr>kc_buffer := ring\<rparr>"
  have sc: "sim conv a c w" using s by (auto simp: sim_def c_def past_open_def)
  have m: "snd (kc_mpush c) \<in> {c, shakehand_request 0 c} \<or>
      (\<exists>k data n. kc_kcp b = Some k \<and> snd (kc_mpush c) = snd (engine_send data n k c))"
    by (auto simp: kc_mpush_def c_def split: option.splits prod.splits)
  have e: "\<exists>w'. sim conv a (snd (engine_send data n k c)) w'" if "kc_kcp b = Some k" for k data n
    by (rule sim_b_engine_send [OF s that c_def])
  show "\<exists>w'. sim conv a (snd (kc_msend args b)) w'"
    unfolding kc_msend_def ring_def [symmetric] c_def [symmetric]
    using m sc e sim_b_quiet [OF sc kc_quiet_request [of c 0]] by (elim disjE insertE exE conjE) auto
qed

lemma sim_b_tick:
  assumes s: "sim conv a b w"
  shows "\<exists>w'. sim conv a (kcp_tick now b) w'"
proof (cases "conn_status b = CONN_KCP_READY \<and> kc_kcp b \<noteq> None")
  case True
  then obtain k where k: "kc_kcp b = Some k" by auto
  obtain outs k1 where u: "ikcp_update k now = (outs, k1)" by (cases "ikcp_update k now")
  have "kcp_step w (w\<lparr>w_b := k1\<rparr>)" using b_update [of w now] u k s by (auto simp: sim_def)
  note step = r_into_rtranclp [of kcp_step, OF this]
  have "sim conv a (kcp_tick now b) (w\<lparr>w_b := k1\<rparr>)"
    by (rule sim_b_step [OF s step])
      (use s True k u in \<open>auto simp: kcp_tick_def fold_do_send sim_def past_open_def\<close>)
  then show ?thesis by blast
next
  case False
  then show ?thesis using s by (auto simp: kcp_tick_def split: option.splits)
qed

lemma sim_b_op:
  assumes s: "sim conv a b w" and ok: "op_ok op b" and net: "op_datagrams op \<subseteq> set (kc_out a)"
  shows "\<exists>w'. sim conv a (run_op op b) w'"
proof (cases op)
  case (OpReceive now d)
  have "kc_quiet b (b\<lparr>kc_receiving := False\<rparr>)" by (simp add: kc_quiet_def past_open_def)
  note idle = sim_b_quiet [OF s this]
  show ?thesis
  proof (cases "kc_receiving b \<and> d \<noteq> []")
    case True
    then show ?thesis using ok net s unfolding OpReceive run_op.simps kc_receive_def Let_def
      by (simp, intro sim_b_control [OF s]) (auto simp: sim_def past_open_def)
  next
    case False
    then show ?thesis using s idle unfolding OpReceive run_op.simps kc_receive_def by auto
  qed
next
  case (OpReceivePassive now stale d)
  then show ?thesis using ok net s unfolding OpReceivePassive run_op.simps kc_receive_passive_def Let_def
    by (intro sim_b_control [OF s]) (auto simp: sim_def past_open_def)
qed (use ok sim_b_quiet [OF s kc_quiet_tick] sim_b_quiet [OF s kc_quiet_disconnect]
    sim_b_quiet [OF s kc_quiet_disconnect_done] sim_b_quiet [OF s kc_quiet_sent_done]
  in \<open>auto intro: sim_b_send [OF s] sim_b_tick [OF s]\<close>)

section \<open>The handshake\<close>

text \<open>
  The messages of an undisturbed handshake: the request that \<^verbatim>\<open>connect\<close> sends reaches a
  connection the listener has just created, and its response comes back.
\<close>

definition handshake_run :: "int \<Rightarrow> bytes \<Rightarrow> bool \<Rightarrow> kcp_conn \<Rightarrow> kcp_conn \<Rightarrow> kcp_conn \<times> kcp_conn" where
  "handshake_run now stale reconn ca cb =
     (let a = kc_connect reconn ca;
          b = kc_receive_passive now stale (last (kc_out a)) (kc_listen cb)
      in (kc_receive now (last (kc_out b)) a, b))"

definition fresh_engine :: "u32 \<Rightarrow> ikcpcb" where
  "fresh_engine conv = snd (ikcp_nodelay (ikcp_create conv) 1 10 1 1)"

lemma msg_fields [simp]:
  "msg_conv (shake_image conv cmd @ x) = conv" "msg_cmd (shake_image conv cmd @ x) = cmd"
  by (simp_all add: msg_conv_def msg_cmd_def shake_image_def nth_append)

lemma received_image:
  "8 < length storage \<Longrightarrow> \<exists>x. (blit storage 0 (shake_image conv cmd))[8 := 0] = shake_image conv cmd @ x"
  by (simp add: blit_def list_update_append)

lemma handshake_codes [simp]:
  "KCP_SHAKEHAND_REQUEST \<noteq> KCP_SHAKEHAND_RESPONSE" "KCP_SHAKEHAND_RESPONSE \<noteq> KCP_SHAKEHAND_REQUEST"
  by (simp_all add: KCP_SHAKEHAND_REQUEST_def KCP_SHAKEHAND_RESPONSE_def)

lemma init_kcp_fields [simp]:
  "kc_cid (init_kcp c) = kc_cid c" "conn_status (init_kcp c) = CONN_KCP_READY"
  "kc_kcp (init_kcp c) = Some (fresh_engine (kc_cid c))" "kc_out (init_kcp c) = kc_out c"
  "kc_sent (init_kcp c) = kc_sent c" "kc_msgs (init_kcp c) = kc_msgs c" "kc_events (init_kcp c) = kc_events c"
  "kc_buffer (init_kcp c) = kc_buffer c" "kc_sock (init_kcp c) = kc_sock c"
  by (simp_all add: init_kcp_def fresh_engine_def Let_def split: prod.splits)

text \<open>What the two sides look like after it.\<close>

definition handshaken :: "u32 \<Rightarrow> kcp_conn \<Rightarrow> bool" where
  "handshaken conv c \<longleftrightarrow> conn_status c = CONN_KCP_READY \<and> kc_cid c = conv \<and>
     kc_kcp c = Some (fresh_engine conv) \<and> kc_events c = [EVT_CONNECT] \<and> kc_sock c \<and>
     kc_sent c = [] \<and> kc_msgs c = [] \<and> (\<forall>d\<in>set (kc_out c). length d = 8)"

definition opened :: "u32 \<Rightarrow> kcp_conn \<Rightarrow> bool" where
  "opened conv c \<longleftrightarrow> conn_status c = CONN_OPEN \<and> kc_cid c = conv \<and> kc_events c = [] \<and> kc_sock c \<and>
     kc_sent c = [] \<and> kc_msgs c = [] \<and> (\<forall>d\<in>set (kc_out c). length d = 8)"

lemma opened_connect:
  assumes "c = kcp_conn_init cid ta storage ring wa"
  shows "opened cid (kc_connect reconn c)" "kc_out (kc_connect reconn c) = [shake_image cid KCP_SHAKEHAND_REQUEST]"
    "recv_buffer (kc_connect reconn c) = storage" "kc_buffer (kc_connect reconn c) = LoopBuffer_init 8192 ring"
    "kc_receiving (kc_connect reconn c)"
  using assms
  by (simp_all add: opened_def kc_connect_def kcp_conn_init_def shakehand_request_def send_to_def split: prod.splits)

lemma opened_listen:
  assumes "c = kcp_conn_init cid tb storage ring wb"
  shows "opened cid (kc_listen c)"
  using assms by (simp add: opened_def kc_listen_def kcp_conn_init_def split: prod.splits)

lemma opened_request:
  assumes "opened cid' c" "cid \<noteq> 0" "b = kc_receive_passive now stale (shake_image cid KCP_SHAKEHAND_REQUEST) c"
  shows "handshaken cid b" "last (kc_out b) = shake_image cid KCP_SHAKEHAND_RESPONSE"
proof -
  have "b = kc_event EVT_CONNECT (init_kcp (shakehand_response cid (c\<lparr>last_msg_time := now, kc_cid := cid\<rparr>)))"
    using assms by (simp add: opened_def kc_receive_passive_def check_control_message_def Let_def)
  then show "handshaken cid b" "last (kc_out b) = shake_image cid KCP_SHAKEHAND_RESPONSE"
    using assms(1,2) by (auto simp: handshaken_def opened_def kc_event_def shakehand_response_def send_to_def)
qed

lemma opened_response:
  assumes "opened cid c" "cid \<noteq> 0" "8 < length (recv_buffer c)" "kc_receiving c"
    and "a = kc_receive now (shake_image cid KCP_SHAKEHAND_RESPONSE) c"
  shows "handshaken cid a" "kc_buffer a = kc_buffer c"
proof -
  let ?d = "shake_image cid KCP_SHAKEHAND_RESPONSE"
  have ne: "?d \<noteq> []" by (simp add: shake_image_def)
  obtain x where x: "(blit (recv_buffer c) 0 ?d)[8 := 0] = ?d @ x" using received_image [OF assms(3)] by blast
  have "a = kc_event EVT_CONNECT (init_kcp (c\<lparr>recv_buffer := ?d @ x, last_msg_time := now\<rparr>))"
    using assms by (simp add: opened_def kc_receive_def check_control_message_def Let_def x ne)
  then show "handshaken cid a" "kc_buffer a = kc_buffer c"
    using assms(1) by (simp_all add: handshaken_def opened_def kc_event_def)
qed

lemma handshake_run_result:
  assumes "cid \<noteq> 0" "8 < length storage"
    and "handshake_run now stale reconn (kcp_conn_init cid ta storage ring wa)
          (kcp_conn_init cid' tb storage' ring' wb) = (a, b)"
  shows "handshaken cid a \<and> handshaken cid b \<and> kc_buffer a = LoopBuffer_init 8192 ring"
proof -
  let ?a = "kc_connect reconn (kcp_conn_init cid ta storage ring wa)"
  note c = opened_connect [OF refl, where reconn = reconn and cid = cid and ta = ta and storage = storage and ring = ring
      and wa = wa]
  have b: "b = kc_receive_passive now stale (shake_image cid KCP_SHAKEHAND_REQUEST)
      (kc_listen (kcp_conn_init cid' tb storage' ring' wb))"
    using assms(3) c(2) by (auto simp: handshake_run_def Let_def)
  note hb = opened_request [OF opened_listen [OF refl] assms(1) b]
  have "a = kc_receive now (shake_image cid KCP_SHAKEHAND_RESPONSE) ?a"
    using assms(3) c(2) hb(2) b by (auto simp: handshake_run_def Let_def)
  from opened_response [OF c(1) assms(1) _ c(5) this] hb(1) c(3,4) assms(2) show ?thesis by simp
qed

text \<open>
  C12: after an undisturbed handshake both connections are ready, have a fresh engine for the
  conversation id of the connecting side, and have raised the connect event exactly once.
\<close>

theorem kcp_handshake_agrees:
  assumes "cid \<noteq> 0" "8 < length storage"
    and "handshake_run now stale reconn (kcp_conn_init cid ta storage ring wa)
          (kcp_conn_init cid' tb storage' ring' wb) = (a, b)"
  shows "handshaken cid a \<and> handshaken cid b \<and> kc_kcp a = kc_kcp b"
  using handshake_run_result [OF assms] by (auto simp: handshaken_def)

section \<open>Delivery\<close>

lemma handshaken_sim:
  assumes "handshaken conv a" "handshaken conv b" "ring_ok (kc_buffer a)"
  shows "\<exists>w. sim conv a b w"
proof -
  let ?w = "kcp_world_init conv" and ?f = "\<lambda>k. snd (ikcp_nodelay k 1 10 1 1)"
  have "kcp_step ?w (?w\<lparr>w_a := ?f (w_a ?w)\<rparr>)" by (rule a_nodelay)
  moreover have "kcp_step (?w\<lparr>w_a := ?f (w_a ?w)\<rparr>) (?w\<lparr>w_a := ?f (w_a ?w), w_b := ?f (w_b ?w)\<rparr>)"
    using b_nodelay [of "?w\<lparr>w_a := ?f (w_a ?w)\<rparr>" 1 10 1 1] by simp
  ultimately have "kcp_step\<^sup>*\<^sup>* ?w (?w\<lparr>w_a := ?f (w_a ?w), w_b := ?f (w_b ?w)\<rparr>)" by auto
  then have "sim conv a b (?w\<lparr>w_a := ?f (w_a ?w), w_b := ?f (w_b ?w)\<rparr>)"
    using assms by (simp add: sim_def handshaken_def fresh_engine_def kcp_world_init_def past_open_def)
  then show ?thesis by blast
qed


lemma kc_sent_init_kcp: "kc_sent (snd (check_control_message mem c)) = kc_sent c"
  by (simp add: check_control_message_def shakehand_request_def shakehand_response_def send_to_def kc_event_def Let_def)

lemma kc_sent_receive: "kc_sent (handle_receive d c) = kc_sent c"
  by (auto simp: handle_receive_def split: option.splits prod.splits)

lemma kc_sent_control:
  "kc_sent (case check_control_message mem c of (ctrl, c) \<Rightarrow> if ctrl then c else handle_receive d c) = kc_sent c"
  using kc_sent_init_kcp [of mem c] by (cases "check_control_message mem c") (simp add: kc_sent_receive)

lemma kc_sent_mono: "length (kc_sent c) \<le> length (kc_sent (run_op op c))"
proof (cases op)
  case (OpSend msg)
  then show ?thesis
    by (simp add: kc_send_def engine_send_def shakehand_request_def send_to_def split: option.splits prod.splits)
next
  case (OpMsend args)
  then show ?thesis
    by (simp add: kc_msend_def kc_mpush_def engine_send_def shakehand_request_def send_to_def split: option.splits prod.splits)
next
  case (OpTick now)
  then show ?thesis by (simp add: kcp_tick_def fold_do_send split: option.splits prod.splits)
next
  case (OpReceive now d)
  then show ?thesis by (simp add: kc_receive_def kc_sent_control Let_def)
next
  case (OpReceivePassive now stale d)
  then show ?thesis by (simp add: kc_receive_passive_def kc_sent_control Let_def)
qed (use kc_quiet_tick kc_quiet_disconnect kc_quiet_disconnect_done kc_quiet_sent_done in \<open>simp_all add: kc_quiet_def\<close>)

lemma pair_sim:
  assumes "pair_step\<^sup>*\<^sup>* p q" "\<exists>w. sim conv (fst p) (snd p) w" "length (kc_sent (fst q)) < 2 ^ 22"
  shows "\<exists>w. sim conv (fst q) (snd q) w"
  using assms
proof (induction rule: rtranclp_induct)
  case (step q r)
  from step.hyps(2) show ?case
  proof cases
    case (pair_a op a b)
    have "length (kc_sent a) < 2 ^ 22" using step.prems(2) kc_sent_mono [of a op] pair_a by simp
    then obtain w where "sim conv a b w" using step.IH step.prems(1) pair_a by auto
    from sim_a_op [OF this pair_a(3)] show ?thesis using step.prems(2) pair_a by simp
  next
    case (pair_b op b a)
    then obtain w where "sim conv a b w" using step by auto
    from sim_b_op [OF this pair_b(3,4)] show ?thesis using pair_b by simp
  qed
qed simp

lemma ring_ok_init:
  assumes "length ring = 8192"
  shows "ring_ok (LoopBuffer_init 8192 ring)"
proof -
  have sz: "LoopBuffer_BufferSize 8192 = 8192" by code_simp
  have u: "unat (8192 :: u32) = 8192" by simp
  have "(8192 :: u32) = 2 ^ 13" by simp
  then have "\<exists>k<32. (8192 :: u32) = 2 ^ k" by (intro exI [of _ 13]) simp
  then show ?thesis
    using assms by (simp add: ring_ok_def LoopBuffer_inv_def LoopBuffer_init_def sz)
qed

text \<open>
  C11: end to end. Two connections have shaken hands; from then on each side sends, ticks,
  disconnects and receives in any interleaving, B receives what A sent in any order and any
  number of times, A receives anything, and no further handshake message arrives. Then the
  messages B's user was handed are the first messages A's engine accepted, in order, each
  exactly once and byte for byte.
\<close>

theorem kcp_connection_delivers:
  assumes "cid \<noteq> 0" "8 < length storage" "length ring = 8192"
    and "handshake_run now stale reconn (kcp_conn_init cid ta storage ring wa)
          (kcp_conn_init cid' tb storage' ring' wb) = (a0, b0)"
    and "pair_step\<^sup>*\<^sup>* (a0, b0) (a, b)" "length (kc_sent a) < 2 ^ 22"
  shows "kc_msgs b = take (length (kc_msgs b)) (kc_sent a)"
proof -
  note h = handshake_run_result [OF assms(1,2,4)]
  then have "\<exists>w. sim cid a0 b0 w" using ring_ok_init [OF assms(3)] by (intro handshaken_sim) auto
  then obtain w where "sim cid a b w" using pair_sim [OF assms(5), of cid] assms(6) by auto
  then have "w_got w = kc_msgs b" "w_sent w = kc_sent a" "link_inv cid w"
    by (simp_all add: sim_def link_inv_reach)
  then show ?thesis using link_delivers [of cid w] by simp
qed

text \<open>The witness: one message is sent after a handshake for conversation 9.\<close>

definition demo_engine :: ikcpcb where
  "demo_engine = snd (ikcp_send (fresh_engine 9) [1, 2, 3] 3)"

definition demo_datagram :: bytes where
  "demo_datagram = hd (fst (ikcp_update demo_engine 0))"

definition demo_receiver :: ikcpcb where
  "demo_receiver = snd (ikcp_input (fresh_engine 9) (Some demo_datagram))"

lemma demo_run:
  "fst (ikcp_send (fresh_engine 9) [1, 2, 3] 3) = 0" "fst (ikcp_update demo_engine 0) = [demo_datagram]"
  "length demo_datagram = 27" "msg_cmd demo_datagram = 81" "fst (ikcp_input (fresh_engine 9) (Some demo_datagram)) = 81"
  by code_simp+

lemma demo_loop: "fst (receive_loop 27 0 demo_receiver) = [[1, 2, 3]]"
proof -
  have p: "ikcp_peeksize demo_receiver = 3" by code_simp
  have r: "fst (ikcp_recv demo_receiver 4096) = 3" "fst (snd (ikcp_recv demo_receiver 4096)) = [1, 2, 3]"
    "ikcp_peeksize (snd (snd (ikcp_recv demo_receiver 4096))) = -1"
    by code_simp+
  obtain k where k: "ikcp_recv demo_receiver 4096 = (3, [1, 2, 3], k)" "ikcp_peeksize k = -1"
    using r by (metis prod.collapse)
  have "receive_loop 27 3 k = ([], k)" by (simp add: receive_loop.simps [of 27 3] k(2))
  then show ?thesis by (simp add: receive_loop.simps [of 27 0] p k(1) kMaxMessageLength_def)
qed

lemma demo_send:
  assumes "handshaken 9 a" "a' = run_op (OpTick 0) (run_op (OpSend [1, 2, 3]) a)"
  shows "demo_datagram \<in> set (kc_out a')" "kc_sent a' = [[1, 2, 3]]"
proof -
  have k: "ikcp_send (fresh_engine 9) [1, 2, 3] 3 = (0, demo_engine)"
    using demo_run(1) by (simp add: demo_engine_def prod_eq_iff)
  obtain k2 where u: "ikcp_update demo_engine 0 = ([demo_datagram], k2)"
    using demo_run(2) by (metis prod.collapse)
  show "demo_datagram \<in> set (kc_out a')" "kc_sent a' = [[1, 2, 3]]"
    using assms k u
    by (simp_all add: handshaken_def kc_send_def engine_send_def kcp_tick_def kc_do_send_def send_to_def)
qed

lemma demo_receive:
  assumes "handshaken 9 b"
  shows "op_ok (OpReceivePassive 0 [] demo_datagram) b"
    "kc_msgs (run_op (OpReceivePassive 0 [] demo_datagram) b) = [[1, 2, 3]]"
proof -
  have h: "\<not> handshake (demo_datagram @ [])" "\<not> is_control (demo_datagram @ [])"
    using demo_run(4)
    by (simp_all add: handshake_def is_control_def KCP_SHAKEHAND_REQUEST_def KCP_SHAKEHAND_RESPONSE_def KCP_HEARTBEAT_def)
  then show "op_ok (OpReceivePassive 0 [] demo_datagram) b" by simp
  have "past_open (b\<lparr>last_msg_time := 0\<rparr>)" using assms by (simp add: past_open_def handshaken_def)
  note q = check_control_quiet [OF this h(1)]
  have i: "ikcp_input (fresh_engine 9) (Some demo_datagram) = (81, demo_receiver)"
    using demo_run(5) by (simp add: demo_receiver_def prod_eq_iff)
  obtain k2 where l: "receive_loop 27 0 demo_receiver = ([[1, 2, 3]], k2)"
    using demo_loop by (metis prod.collapse)
  show "kc_msgs (run_op (OpReceivePassive 0 [] demo_datagram) b) = [[1, 2, 3]]"
    using assms q h i l demo_run(3)
    by (simp add: kc_receive_passive_def handle_receive_def handshaken_def IKCP_CMD_ACK_def)
qed

definition demo_pair :: "kcp_conn \<times> kcp_conn" where
  "demo_pair = handshake_run 0 [] True (kcp_conn_init 9 0 (replicate 9 0) (replicate 8192 0) Timer_init)
     (kcp_conn_init 7 0 [] [] Timer_init)"

theorem kcp_handshake_agrees_witness:
  "handshaken 9 (fst demo_pair) \<and> kc_kcp (fst demo_pair) = kc_kcp (snd demo_pair)"
  using kcp_handshake_agrees [of 9 "replicate 9 0" 0 "[]" True 0 "replicate 8192 0" Timer_init 7 0 "[]" "[]" Timer_init
      "fst demo_pair" "snd demo_pair"]
  by (simp add: demo_pair_def)

theorem kcp_connection_delivers_witness:
  "\<exists>a b. pair_step\<^sup>*\<^sup>* demo_pair (a, b) \<and> kc_msgs b = [[1, 2, 3]] \<and>
     kc_msgs b = take (length (kc_msgs b)) (kc_sent a)"
proof -
  obtain a0 b0 where p: "demo_pair = (a0, b0)" by (cases demo_pair)
  note h = handshake_run_result [of 9 "replicate 9 0", OF _ _ p [unfolded demo_pair_def]]
  then have hs: "handshaken 9 a0" "handshaken 9 b0" by simp_all
  let ?a1 = "run_op (OpSend [1, 2, 3]) a0" and ?b = "run_op (OpReceivePassive 0 [] demo_datagram) b0"
  let ?a = "run_op (OpTick 0) ?a1"
  note snd = demo_send [OF hs(1) refl] and rcv = demo_receive [OF hs(2)]
  have "pair_step (a0, b0) (?a1, b0)" "pair_step (?a1, b0) (?a, b0)" "pair_step (?a, b0) (?a, ?b)"
    using rcv(1) snd(1) by (auto intro!: pair_a pair_b simp del: run_op.simps)
  then have r: "pair_step\<^sup>*\<^sup>* (a0, b0) (?a, ?b)" by (meson rtranclp.rtrancl_into_rtrancl rtranclp.rtrancl_refl)
  have "kc_msgs ?b = take (length (kc_msgs ?b)) (kc_sent ?a)"
    by (rule kcp_connection_delivers [OF _ _ _ p [unfolded demo_pair_def] r]) (use snd in simp_all)
  with r rcv(2) show ?thesis unfolding p by blast
qed

end
