(* ===== verification/Ikcp_Frame.thy ===== *)
theory Ikcp_Frame
  imports Ikcp_Link
begin

text \<open>
  What \<^verbatim>\<open>ikcp_input\<close> keeps, whatever arrives: a preorder on control blocks that each of the
  helpers respects is respected by the whole routine. The instance used here is the receive
  queue, to which input only appends.
\<close>

locale input_frame =
  fixes R :: "ikcpcb \<Rightarrow> ikcpcb \<Rightarrow> bool"
  assumes frame_refl: "R kcp kcp"
    and frame_trans: "R a b \<Longrightarrow> R b c \<Longrightarrow> R a c"
    and frame_same: "rcv_same kcp kcp' \<Longrightarrow> R kcp kcp'"
    and frame_push: "R kcp (ikcp_input_push h payload kcp)"
begin

lemma frame_same_trans: "R a b \<Longrightarrow> rcv_same b c \<Longrightarrow> R a c"
  by (rule frame_trans [OF _ frame_same])

lemma frame_seg:
  "case ikcp_input_seg h payload st of
     Inl e \<Rightarrow> R (in_kcp st) (snd e) | Inr st' \<Rightarrow> R (in_kcp st) (in_kcp st')"
proof -
  let ?k = "ikcp_shrink_buf (ikcp_parse_una ((in_kcp st)\<lparr>k_rmt_wnd := ucast (h_wnd h)\<rparr>) (h_una h))"
  have "rcv_same (in_kcp st) ((in_kcp st)\<lparr>k_rmt_wnd := ucast (h_wnd h)\<rparr>)" by (simp add: rcv_same_def)
  then have "rcv_same (in_kcp st) ?k"
    by (rule rcv_same_trans [OF _ rcv_same_trans [OF rcv_same_parse_una rcv_same_shrink_buf]])
  then have k: "R (in_kcp st) ?k" by (rule frame_same)
  have ack: "R (in_kcp st) (in_kcp (ikcp_input_ack h (st\<lparr>in_kcp := ?k, in_cmd := h_cmd h\<rparr>)))"
    using frame_same_trans [OF k] rcv_same_input_ack [of "st\<lparr>in_kcp := ?k, in_cmd := h_cmd h\<rparr>" h] by simp
  have push: "R (in_kcp st) (ikcp_input_push h payload ?k)" by (rule frame_trans [OF k frame_push])
  have wask: "R (in_kcp st) (?k\<lparr>k_probe := p\<rparr>)" for p
    by (rule frame_same_trans [OF k]) (simp add: rcv_same_def)
  show ?thesis
    unfolding ikcp_input_seg_def Let_def using k ack push wask frame_refl by simp
qed

lemma frame_loop:
  "case ikcp_input_loop data st of
     Inl e \<Rightarrow> R (in_kcp st) (snd e) | Inr st' \<Rightarrow> R (in_kcp st) (in_kcp st')"
proof (induction data st rule: ikcp_input_loop.induct)
  case (1 data st)
  let ?h = "ikcp_decode_header data"
  note seg = frame_seg [of st ?h "drop 24 data"]
  show ?case
  proof (cases "length data < 24")
    case True
    then show ?thesis by (simp add: ikcp_input_loop.simps frame_refl)
  next
    case False
    show ?thesis
    proof (cases "ikcp_input_seg ?h (drop 24 data) st")
      case (Inl e)
      then show ?thesis using False seg by (simp add: ikcp_input_loop.simps [of data] Let_def)
    next
      case (Inr st')
      then have eq: "ikcp_input_loop data st = ikcp_input_loop (drop (unat (h_len ?h)) (drop 24 data)) st'"
        using False by (simp add: ikcp_input_loop.simps [of data] Let_def)
      have "R (in_kcp st) (in_kcp st')" using Inr seg by simp
      note step = frame_trans [OF this]
      show ?thesis
        unfolding eq using "1.IH" [OF False refl Inr] step by (auto split: sum.splits)
    qed
  qed
qed

lemma frame_input: "R kcp (snd (ikcp_input kcp dat))"
proof (cases dat)
  case None
  then show ?thesis by (simp add: ikcp_input_def frame_refl)
next
  case (Some data)
  let ?st = "\<lparr>in_kcp = kcp, in_flag = False, in_maxack = 0, in_latest_ts = 0, in_cmd = 0\<rparr>"
  note loop = frame_loop [of ?st data]
  show ?thesis
  proof (cases "ikcp_input_loop data ?st")
    case (Inl e)
    then show ?thesis using loop Some frame_refl by (simp add: ikcp_input_def)
  next
    case (Inr st)
    let ?k = "if in_flag st then ikcp_parse_fastack (in_kcp st) (in_maxack st) (in_latest_ts st) else in_kcp st"
    have "R kcp (in_kcp st)" using loop Inr by simp
    moreover have "rcv_same (in_kcp st) ?k" by (simp add: rcv_same_parse_fastack)
    ultimately have "R kcp (ikcp_input_cwnd (k_snd_una kcp) ?k)"
      by (rule frame_same_trans [OF frame_same_trans]) (rule rcv_same_input_cwnd)
    then show ?thesis using Inr Some frame_refl by (simp add: ikcp_input_def Let_def)
  qed
qed

end

section \<open>The receive queue\<close>

definition que_le :: "ikcpcb \<Rightarrow> ikcpcb \<Rightarrow> bool" where
  "que_le kcp kcp' \<longleftrightarrow> (\<exists>q. k_rcv_queue kcp' = k_rcv_queue kcp @ q)"

lemma que_le_trans: "que_le a b \<Longrightarrow> que_le b c \<Longrightarrow> que_le a c"
  by (auto simp: que_le_def)

lemma que_le_same: "rcv_same kcp kcp' \<Longrightarrow> que_le kcp kcp'"
  by (simp add: que_le_def rcv_same_def)

lemma que_le_move_rcv: "que_le kcp (ikcp_move_rcv buf kcp)"
proof (induction buf kcp rule: ikcp_move_rcv.induct)
  case (2 seg buf kcp)
  then show ?case by (auto simp: que_le_def)
qed (simp add: que_le_def)

lemma que_le_parse_data: "que_le kcp (ikcp_parse_data kcp seg)"
proof -
  have "que_le kcp (kcp\<lparr>k_rcv_buf := b, k_nrcv_buf := n\<rparr>)" for b n
    by (simp add: que_le_def)
  then have "que_le kcp (ikcp_move_rcv c (kcp\<lparr>k_rcv_buf := b, k_nrcv_buf := n\<rparr>))" for b n c
    by (rule que_le_trans [OF _ que_le_move_rcv])
  then show ?thesis
    by (auto simp: ikcp_parse_data_def Let_def que_le_move_rcv que_le_same split: option.splits)
qed

interpretation queue: input_frame que_le
proof unfold_locales
  show "que_le kcp (ikcp_input_push h payload kcp)" for kcp h payload
    unfolding ikcp_input_push_def Let_def
    by (auto intro: que_le_trans [OF que_le_same [OF rcv_same_ack_push] que_le_parse_data] que_le_same rcv_same_ack_push)
qed (auto intro: que_le_trans que_le_same)

text \<open>
  The head of the receive queue is a complete message that a buffer of \<open>room\<close> bytes cannot
  take, or an empty one.
\<close>

definition queue_blocked :: "int \<Rightarrow> ikcpcb \<Rightarrow> bool" where
  "queue_blocked room kcp \<longleftrightarrow> (\<exists>seg\<in>set (k_rcv_queue kcp). sg_frg seg = 0) \<and>
     (ikcp_peek_sum (k_rcv_queue kcp) \<le> 0 \<or> ikcp_peek_sum (k_rcv_queue kcp) > room)"

lemma ikcp_peek_sum_append: "\<exists>seg\<in>set q. sg_frg seg = 0 \<Longrightarrow> ikcp_peek_sum (q @ r) = ikcp_peek_sum q"
  by (induction q) auto

lemma queue_blocked_le: "queue_blocked room kcp \<Longrightarrow> que_le kcp kcp' \<Longrightarrow> queue_blocked room kcp'"
  unfolding queue_blocked_def que_le_def using ikcp_peek_sum_append [of "k_rcv_queue kcp"] by fastforce

lemma queue_blocked_peek:
  "queue_blocked room kcp \<Longrightarrow> ikcp_peeksize kcp \<le> 0 \<or> ikcp_peeksize kcp > room"
  by (cases "k_rcv_queue kcp") (auto simp: queue_blocked_def ikcp_peeksize_def)

end
