(* ===== verification/Kcp_Life.thy ===== *)
theory Kcp_Life
  imports Kcp_Delivery Ikcp_Frame
begin

text \<open>
  The life of one KCP connection, from \<^verbatim>\<open>listen\<close> or \<^verbatim>\<open>connect\<close> on, with any datagrams: what
  each status says about the engine, what release leaves, and when the receive loop is stuck.
\<close>

section \<open>Reachable states\<close>

text \<open>A timer's handler is called only while the timer is alive.\<close>

fun op_live :: "kcp_op \<Rightarrow> kcp_conn \<Rightarrow> bool" where
  "op_live (OpHeartbeat now) c \<longleftrightarrow> tn_alive (node (kc_worker c) (heartbeat_timerid c))"
| "op_live op c \<longleftrightarrow> True"

inductive kcp_run :: "kcp_conn \<Rightarrow> kcp_conn \<Rightarrow> bool" for c0 :: kcp_conn where
  kcp_run_nil: "kcp_run c0 c0"
| kcp_run_op: "kcp_run c0 c \<Longrightarrow> op_live op c \<Longrightarrow> kcp_run c0 (run_op op c)"

definition kcp_started :: "kcp_conn \<Rightarrow> bool" where
  "kcp_started c \<longleftrightarrow> (\<exists>cid t storage ring w. let i = kcp_conn_init cid t storage ring w in
     c = kc_listen i \<or> c = kc_connect True i \<or> c = kc_connect False i)"

section \<open>The engine and the status\<close>

definition engine_ok :: "kcp_conn \<Rightarrow> bool" where
  "engine_ok c \<longleftrightarrow> (\<forall>k. kc_kcp c = Some k \<longrightarrow> k_conv k = kc_cid c) \<and>
     (conn_status c = CONN_KCP_READY \<longrightarrow> kc_kcp c \<noteq> None) \<and>
     (conn_status c \<in> {CONN_IDLE, CONN_OPEN, CONN_CLOSED} \<longrightarrow> kc_kcp c = None)"

definition events_ok :: "kcp_conn \<Rightarrow> bool" where
  "events_ok c \<longleftrightarrow> count_list (kc_events c) EVT_RECV = length (kc_msgs c) \<and>
     count_list (kc_events c) EVT_CONNECT \<le> 1 \<and>
     (conn_status c = CONN_OPEN \<longrightarrow> EVT_CONNECT \<notin> set (kc_events c)) \<and>
     (conn_status c = CONN_KCP_READY \<longrightarrow> EVT_CONNECT \<in> set (kc_events c))"

definition heartbeat_ok :: "kcp_conn \<Rightarrow> bool" where
  "heartbeat_ok c \<longleftrightarrow> heartbeat_timerid c \<in> set (timer_nodes (kc_worker c)) \<and>
     (conn_status c = CONN_CLOSED \<longrightarrow> \<not> tn_alive (node (kc_worker c) (heartbeat_timerid c)))"

definition kcp_inv :: "kcp_conn \<Rightarrow> bool" where
  "kcp_inv c \<longleftrightarrow> conn_status c \<noteq> CONN_IDLE \<and> engine_ok c \<and> events_ok c \<and> heartbeat_ok c"

lemmas kcp_inv_defs = kcp_inv_def engine_ok_def events_ok_def heartbeat_ok_def

lemma timer_nodes_stop [simp]: "timer_nodes (stop_timer tid t) = timer_nodes t"
  by (simp add: stop_timer_def cancel_waits_def upd_node_def)

lemma alive_stop [simp]:
  "tn_alive (node (stop_timer tid t) i) \<longleftrightarrow> tn_alive (node t i) \<and> \<not> (i = tid \<and> tid \<in> set (timer_nodes t))"
  by (auto simp: stop_timer_def cancel_waits_def upd_node_def)

lemma timer_nodes_start: "start_timer h i l t = (tid, t') \<Longrightarrow> set (timer_nodes t') = insert tid (set (timer_nodes t))"
  by (auto simp: start_timer_def arm_def cancel_waits_def Let_def split: if_splits)

lemma init_kcp_worker [simp]:
  "heartbeat_timerid (init_kcp c) = heartbeat_timerid c"
  "set (timer_nodes (kc_worker c)) \<subseteq> set (timer_nodes (kc_worker (init_kcp c)))"
  by (auto simp: init_kcp_def Let_def timer_nodes_start split: prod.splits)

lemma k_conv_fresh [simp]: "k_conv (fresh_engine conv) = conv"
  by (simp add: fresh_engine_def ikcp_nodelay_def ikcp_create_def Let_def)

lemma kcp_inv_listen: "kcp_inv (kc_listen (kcp_conn_init cid t storage ring w))"
  using timer_nodes_start [of True 1000000 True w]
  by (cases "start_timer True 1000000 True w") (simp add: kcp_inv_defs kc_listen_def kcp_conn_init_def)

lemma kcp_inv_connect: "kcp_inv (kc_connect reconn (kcp_conn_init cid t storage ring w))"
  using timer_nodes_start [of True 1000000 True w]
  by (cases "start_timer True 1000000 True w")
    (simp add: kcp_inv_defs kc_connect_def kcp_conn_init_def shakehand_request_def send_to_def)

lemma kcp_inv_started: "kcp_started c \<Longrightarrow> kcp_inv c"
  unfolding kcp_started_def Let_def using kcp_inv_listen kcp_inv_connect by blast

text \<open>Operations that only add datagrams or events of other kinds.\<close>

lemma kcp_inv_request: "kcp_inv c \<Longrightarrow> kcp_inv (shakehand_request i c)"
  by (simp add: kcp_inv_defs shakehand_request_def send_to_def)

lemma kcp_inv_event: "kcp_inv c \<Longrightarrow> e \<noteq> EVT_CONNECT \<Longrightarrow> e \<noteq> EVT_RECV \<Longrightarrow> kcp_inv (kc_event e c)"
  by (auto simp: kcp_inv_defs kc_event_def)

lemma kcp_inv_release: "kcp_inv c \<Longrightarrow> kcp_inv (kc_release c)"
  by (auto simp: kcp_inv_defs kc_release_def Let_def)

lemma kcp_inv_fields:
  "kcp_inv c \<Longrightarrow> kcp_inv (c\<lparr>kc_sends := n\<rparr>)" "kcp_inv c \<Longrightarrow> kcp_inv (c\<lparr>kc_goodbyes := n\<rparr>)"
  "kcp_inv c \<Longrightarrow> kcp_inv (c\<lparr>kc_buffer := b\<rparr>)" "kcp_inv c \<Longrightarrow> kcp_inv (c\<lparr>kc_receiving := r\<rparr>)"
  "kcp_inv c \<Longrightarrow> kcp_inv (c\<lparr>last_msg_time := t\<rparr>)"
  "kcp_inv c \<Longrightarrow> kcp_inv (c\<lparr>recv_buffer := m, last_msg_time := t\<rparr>)"
  by (simp_all add: kcp_inv_defs)

lemma kcp_inv_engine:
  "kcp_inv c \<Longrightarrow> kc_kcp c = Some k \<Longrightarrow> k_conv k' = k_conv k \<Longrightarrow> kcp_inv (c\<lparr>kc_kcp := Some k'\<rparr>)"
  by (auto simp: kcp_inv_defs)

lemma kcp_inv_engine_send:
  "kcp_inv c \<Longrightarrow> kc_kcp c = Some k \<Longrightarrow> kcp_inv (snd (engine_send data len k c))"
  using rcv_same_send [of k data "sint len"]
  by (auto simp: engine_send_def kcp_inv_defs split: prod.splits)

lemma kcp_inv_mpush: "kcp_inv c \<Longrightarrow> kcp_inv (snd (kc_mpush c))"
  by (auto simp: kc_mpush_def kcp_inv_request kcp_inv_engine_send split: option.splits prod.splits)

lemma kcp_inv_tick: 
  assumes "kcp_inv c"
  shows "kcp_inv (kcp_tick now c)"
proof (cases "kc_kcp c")
  case (Some k)
  have "k_conv (snd (ikcp_update k now)) = k_conv k" using rcv_same_update by blast
  then show ?thesis using assms Some
    by (auto simp: kcp_tick_def fold_do_send kcp_inv_defs split: prod.splits)
qed (use assms in \<open>simp add: kcp_tick_def\<close>)

lemma kcp_inv_disconnect: "kcp_inv c \<Longrightarrow> kcp_inv (snd (kc_disconnect c))"
  by (auto simp: kcp_inv_defs kc_disconnect_def send_to_def Let_def)

lemma receive_loop_conv: "receive_loop n m k = (ds, k') \<Longrightarrow> k_conv k' = k_conv k"
proof (induction n m k arbitrary: ds k' rule: receive_loop.induct)
  case (1 n m k)
  obtain l d k1 where r: "ikcp_recv k (int kMaxMessageLength) = (l, d, k1)" by (metis prod.exhaust)
  have "k_conv k1 = k_conv k" using snd_le_recv [of k "int kMaxMessageLength"] r by (simp add: snd_le_def)
  then show ?case
    using "1.prems" "1.IH" [OF _ refl _ r [symmetric] refl] r
    by (auto simp: receive_loop.simps [of n m k] Let_def split: if_splits prod.splits)
qed

lemma kcp_inv_receive:
  assumes "kcp_inv c"
  shows "kcp_inv (handle_receive d c)"
proof (cases "kc_kcp c")
  case (Some k)
  obtain cmd k1 where i: "ikcp_input k (Some d) = (cmd, k1)" by fastforce
  obtain ds k2 where l: "receive_loop (length d) 0 k1 = (ds, k2)" by fastforce
  have "k_conv k1 = k_conv k" using snd_le_input [of k "Some d"] i by (simp add: snd_le_def)
  moreover from this have "k_conv k2 = k_conv k" using receive_loop_conv [OF l] by simp
  moreover have "count_list (replicate n e) e' = (if e = e' then n else 0)" for n and e e' :: NetEvent
    by (induction n) auto
  ultimately show ?thesis using assms Some i l
    by (auto simp: handle_receive_def kcp_inv_defs)
qed (use assms in \<open>simp add: handle_receive_def\<close>)

lemma kcp_inv_init_open:
  assumes "kcp_inv c" "conn_status c = CONN_OPEN" "c' = c\<lparr>kc_cid := i, server_conv_index := s, kc_out := out\<rparr>"
  shows "kcp_inv (kc_event EVT_CONNECT (init_kcp c'))"
  using assms init_kcp_worker(2) [of c'] 
  by (auto simp: kcp_inv_defs kc_event_def count_list_0_iff)

lemma kcp_inv_init_ready:
  assumes "kcp_inv c" "conn_status c = CONN_KCP_READY" "c' = c\<lparr>kc_cid := i, conn_status := s, kc_out := out\<rparr>"
  shows "kcp_inv (init_kcp c')"
  using assms init_kcp_worker(2) [of c'] by (auto simp: kcp_inv_defs)

lemma check_control_other:
  "conn_status c \<noteq> CONN_OPEN \<Longrightarrow> conn_status c \<noteq> CONN_KCP_READY \<Longrightarrow>
     check_control_message mem c = (is_control mem, c)"
  by (simp add: check_control_message_def)

lemma kcp_inv_control:
  assumes "kcp_inv c"
  shows "kcp_inv (snd (check_control_message mem c))"
proof -
  consider (opened) "conn_status c = CONN_OPEN" | (ready) "conn_status c = CONN_KCP_READY"
    | (other) "snd (check_control_message mem c) = c"
    using check_control_other [of c mem] by fastforce
  then show ?thesis
  proof cases
    case opened
    note init = kcp_inv_init_open [OF assms opened]
    have "kcp_inv (kc_event EVT_CONNECT (init_kcp (c\<lparr>kc_cid := i\<rparr>)))" for i
      by (rule init [where i = i and s = "server_conv_index c" and out = "kc_out c"]) simp
    moreover have "kcp_inv (kc_event EVT_CONNECT (init_kcp c))"
      by (rule init [where i = "kc_cid c" and s = "server_conv_index c" and out = "kc_out c"]) simp
    moreover have resp: "kcp_inv (kc_event EVT_CONNECT (init_kcp (shakehand_response j c')))"
      if "c' = c\<lparr>kc_cid := i, server_conv_index := s\<rparr>" for i j s c'
      by (rule init [where i = i and s = s and out = "kc_out (shakehand_response j c')"])
        (simp add: that shakehand_response_def send_to_def)
    have "kcp_inv (kc_event EVT_CONNECT (init_kcp (shakehand_response j c)))"
      "kcp_inv (kc_event EVT_CONNECT (init_kcp (shakehand_response j (c\<lparr>kc_cid := i\<rparr>))))" for i j
      by (rule resp [where i = "kc_cid c" and s = "server_conv_index c"], simp)
        (rule resp [where i = i and s = "server_conv_index c"], simp)
    note this resp [OF refl]
    moreover have "kcp_inv (c\<lparr>kc_cid := i\<rparr>)" "kcp_inv (c\<lparr>server_conv_index := s, kc_cid := i\<rparr>)" for i s
      using assms opened by (simp_all add: kcp_inv_defs)
    ultimately show ?thesis
      using opened assms kcp_inv_request [OF assms] by (simp add: check_control_message_def Let_def)
  next
    case ready
    note init = kcp_inv_init_ready [OF assms ready]
    have "kcp_inv (init_kcp c)" by (rule init [where i = "kc_cid c" and s = "conn_status c" and out = "kc_out c"]) simp
    moreover have "kcp_inv (init_kcp (c\<lparr>kc_cid := i\<rparr>))" for i
      by (rule init [where i = i and s = "conn_status c" and out = "kc_out c"]) simp
    moreover have "kcp_inv (shakehand_response j (init_kcp (c\<lparr>kc_cid := i, conn_status := CONN_OPEN\<rparr>)))" for i j
      using init [where i = i and s = CONN_OPEN and out = "kc_out c", OF refl] by (simp add: shakehand_response_def send_to_def kcp_inv_defs)
    moreover have "kcp_inv (shakehand_response j (init_kcp (c\<lparr>conn_status := CONN_OPEN\<rparr>)))" for j
      using init [where i = "kc_cid c" and s = CONN_OPEN and out = "kc_out c", OF refl]
      by (simp add: shakehand_response_def send_to_def kcp_inv_defs)
    ultimately show ?thesis
      using ready assms by (simp add: check_control_message_def Let_def)
  qed (use assms in simp)
qed

lemma kcp_inv_incoming:
  "kcp_inv c \<Longrightarrow>
     kcp_inv (case check_control_message mem c of (ctrl, c) \<Rightarrow> if ctrl then c else handle_receive d c)"
  using kcp_inv_control [of c mem] kcp_inv_receive by (auto split: prod.splits)

lemma kcp_inv_op: "kcp_inv c \<Longrightarrow> kcp_inv (run_op op c)"
proof (cases op)
  case (OpSend msg)
  assume "kcp_inv c"
  then show ?thesis unfolding OpSend
    by (auto simp: kc_send_def kcp_inv_request kcp_inv_engine_send split: option.splits)
next
  case (OpMsend args)
  assume "kcp_inv c"
  then show ?thesis unfolding OpMsend by (simp add: kc_msend_def kcp_inv_mpush kcp_inv_fields)
next
  case (OpHeartbeat now)
  assume "kcp_inv c"
  then show ?thesis unfolding OpHeartbeat
    by (simp add: kc_heartbeat_tick_def kcp_inv_event kcp_inv_release Let_def)
      (simp add: kcp_inv_defs kc_send_heartbeat_def send_to_def)
next
  case (OpReceive now d)
  assume "kcp_inv c"
  then show ?thesis unfolding OpReceive
    by (simp add: kc_receive_def kcp_inv_incoming kcp_inv_fields Let_def)
next
  case (OpReceivePassive now stale d)
  assume "kcp_inv c"
  then show ?thesis unfolding OpReceivePassive
    by (simp add: kc_receive_passive_def kcp_inv_incoming kcp_inv_fields Let_def)
qed (simp_all add: kcp_inv_tick kcp_inv_disconnect kc_disconnect_done_def kc_sent_done_def kcp_inv_release
    kcp_inv_event kcp_inv_fields Let_def)

lemma kcp_inv_run: "kcp_run c0 c \<Longrightarrow> kcp_inv c0 \<Longrightarrow> kcp_inv c"
  by (induction rule: kcp_run.induct) (simp_all add: kcp_inv_op)

text \<open>
  C14: the status of a connection tells what engine it has. In every state reachable from
  \<^verbatim>\<open>listen\<close> or \<^verbatim>\<open>connect\<close>, with any datagrams and any calls: a ready connection has an
  engine for its own conversation id, an open or closed one has none, the connect event is
  raised at most once, never before the connection is ready, and every message handed to the
  user comes with exactly one receive event.
\<close>

theorem kcp_status_engine:
  assumes "kcp_started c0" "kcp_run c0 c"
  shows "(conn_status c = CONN_KCP_READY \<longrightarrow> (\<exists>k. kc_kcp c = Some k \<and> k_conv k = kc_cid c)) \<and>
    (conn_status c \<in> {CONN_OPEN, CONN_CLOSED} \<longrightarrow> kc_kcp c = None) \<and>
    count_list (kc_events c) EVT_CONNECT \<le> 1 \<and>
    (conn_status c = CONN_OPEN \<longrightarrow> EVT_CONNECT \<notin> set (kc_events c)) \<and>
    count_list (kc_events c) EVT_RECV = length (kc_msgs c)"
  using kcp_inv_run [OF assms(2) kcp_inv_started [OF assms(1)]] by (auto simp: kcp_inv_defs)

section \<open>After release\<close>

text \<open>What may still change: completions of sends, and the request a passive connection sends.\<close>

definition released_le :: "kcp_conn \<Rightarrow> kcp_conn \<Rightarrow> bool" where
  "released_le c c' \<longleftrightarrow> conn_status c' = CONN_CLOSED \<and> kc_kcp c' = None \<and> kc_msgs c' = kc_msgs c \<and>
     kc_sent c' = kc_sent c \<and> kc_sock c' = kc_sock c \<and> (\<not> kc_sock c \<longrightarrow> kc_out c' = kc_out c) \<and>
     kc_worker c' = kc_worker c \<and> heartbeat_timerid c' = heartbeat_timerid c \<and>
     (\<exists>es. kc_events c' = kc_events c @ es \<and> set es \<subseteq> {EVT_SEND, EVT_DISCONNECT})"

lemma released_le_trans: "released_le a b \<Longrightarrow> released_le b c \<Longrightarrow> released_le a c"
  unfolding released_le_def by (elim conjE exE, intro conjI) auto

lemma released_incoming:
  assumes "conn_status c = CONN_CLOSED" "kc_kcp c = None"
  shows "(case check_control_message mem c of (ctrl, c) \<Rightarrow> if ctrl then c else handle_receive d c) = c"
  using assms by (simp add: check_control_other handle_receive_def)

lemma released_op:
  assumes "conn_status c = CONN_CLOSED" "kc_kcp c = None" "\<not> tn_alive (node (kc_worker c) (heartbeat_timerid c))"
    and "op_live op c"
  shows "released_le c (run_op op c)"
proof (cases op)
  case (OpReceive now d)
  have "kc_receive now d c \<in> {c, c\<lparr>kc_receiving := False\<rparr>,
      c\<lparr>recv_buffer := (blit (recv_buffer c) 0 d)[length d := 0], last_msg_time := now\<rparr>}"
    using assms by (simp add: kc_receive_def released_incoming Let_def)
  then show ?thesis unfolding OpReceive run_op.simps using assms by (auto simp: released_le_def)
next
  case (OpReceivePassive now stale d)
  then show ?thesis using assms by (simp add: kc_receive_passive_def released_incoming Let_def released_le_def)
qed (use assms in \<open>simp_all add: released_le_def kc_send_def kc_msend_def kc_mpush_def shakehand_request_def send_to_def
    kcp_tick_def kc_disconnect_def kc_disconnect_done_def kc_sent_done_def kc_event_def kc_release_def Let_def\<close>)

lemma released_run:
  assumes "kcp_run c c'" "conn_status c = CONN_CLOSED" "kc_kcp c = None"
    "\<not> tn_alive (node (kc_worker c) (heartbeat_timerid c))"
  shows "released_le c c'"
  using assms
proof (induction rule: kcp_run.induct)
  case (kcp_run_op c' op)
  then have "released_le c c'" by simp
  moreover from this have "released_le c' (run_op op c')"
    using kcp_run_op by (intro released_op) (auto simp: released_le_def)
  ultimately show ?case by (rule released_le_trans)
qed (simp add: released_le_def)

text \<open>
  C15: release is final. Whatever is called and whatever arrives afterwards, a released
  connection stays closed and without an engine, accepts and delivers no message and raises
  no event but those of sends still under way and of a goodbye; an active one sends nothing
  more, and no timer of its heartbeat runs.
\<close>

theorem kcp_release_final:
  assumes "kcp_started c0" "kcp_run c0 c" "kcp_run (kc_release c) c'"
  shows "conn_status c' = CONN_CLOSED \<and> kc_kcp c' = None \<and> kc_msgs c' = kc_msgs c \<and> kc_sent c' = kc_sent c \<and>
    (\<exists>es. kc_events c' = kc_events c @ es \<and> set es \<subseteq> {EVT_SEND, EVT_DISCONNECT}) \<and>
    (\<not> kc_sock (kc_release c) \<longrightarrow> kc_out c' = kc_out c) \<and>
    \<not> tn_alive (node (kc_worker c') (heartbeat_timerid c'))"
proof -
  have "kcp_inv (kc_release c)"
    using kcp_inv_run [OF assms(2) kcp_inv_started [OF assms(1)]] by (rule kcp_inv_release)
  moreover have closed: "conn_status (kc_release c) = CONN_CLOSED" by (simp add: kc_release_def Let_def)
  ultimately have dead: "kc_kcp (kc_release c) = None"
      "\<not> tn_alive (node (kc_worker (kc_release c)) (heartbeat_timerid (kc_release c)))"
    by (simp_all add: kcp_inv_defs)
  have same: "kc_msgs (kc_release c) = kc_msgs c" "kc_sent (kc_release c) = kc_sent c"
    "kc_events (kc_release c) = kc_events c" "kc_out (kc_release c) = kc_out c"
    by (simp_all add: kc_release_def Let_def)
  from released_run [OF assms(3) closed dead] dead(2) show ?thesis
    unfolding released_le_def same by simp
qed

section \<open>A message that blocks the receiver\<close>

inductive quiet_run :: "kcp_conn \<Rightarrow> kcp_conn \<Rightarrow> bool" for c0 :: kcp_conn where
  quiet_run_nil: "quiet_run c0 c0"
| quiet_run_op: "quiet_run c0 c \<Longrightarrow> op_ok op c \<Longrightarrow> quiet_run c0 (run_op op c)"

definition stuck :: "bytes list \<Rightarrow> kcp_conn \<Rightarrow> bool" where
  "stuck msgs c \<longleftrightarrow> past_open c \<and> kc_msgs c = msgs \<and>
     (\<forall>k. kc_kcp c = Some k \<longrightarrow> queue_blocked (int kMaxMessageLength) k)"

lemma receive_loop_blocked:
  assumes "queue_blocked (int kMaxMessageLength) k"
  shows "receive_loop n m k = ([], k)"
proof (cases "ikcp_peeksize k \<le> 0")
  case True
  then show ?thesis by (simp add: receive_loop.simps)
next
  case False
  then have big: "ikcp_peeksize k > int kMaxMessageLength" using queue_blocked_peek [OF assms] by simp
  obtain l d k1 where r: "ikcp_recv k (int kMaxMessageLength) = (l, d, k1)" by (metis prod.exhaust)
  then show ?thesis
    using ikcp_recv_size [OF _ r] big False by (simp add: receive_loop.simps)
qed

lemma stuck_receive:
  assumes "stuck msgs c"
  shows "stuck msgs (handle_receive d c)"
proof (cases "kc_kcp c")
  case (Some k)
  obtain cmd k1 where i: "ikcp_input k (Some d) = (cmd, k1)" by fastforce
  then have "queue_blocked (int kMaxMessageLength) k1"
    using queue_blocked_le [of "int kMaxMessageLength" k k1] queue.frame_input [of k "Some d"] assms Some
    by (simp add: stuck_def)
  then show ?thesis
    using assms Some i by (auto simp: stuck_def handle_receive_def receive_loop_blocked past_open_def)
qed (use assms in \<open>simp add: handle_receive_def\<close>)

lemma stuck_incoming:
  "stuck msgs c \<Longrightarrow> \<not> handshake mem \<Longrightarrow>
     stuck msgs (case check_control_message mem c of (ctrl, c) \<Rightarrow> if ctrl then c else handle_receive d c)"
  using check_control_quiet [of c mem] stuck_receive by (auto simp: stuck_def)

lemma stuck_quiet: "stuck msgs c \<Longrightarrow> kc_quiet c c' \<Longrightarrow> stuck msgs c'"
  by (auto simp: stuck_def kc_quiet_def)

lemma stuck_engine_send:
  assumes "stuck msgs c" "kc_kcp c = Some k"
  shows "stuck msgs (snd (engine_send data len k c))"
proof -
  have "que_le k (snd (ikcp_send k data (sint len)))" using rcv_same_send que_le_same by blast
  then show ?thesis
    using assms queue_blocked_le by (auto simp: stuck_def engine_send_def past_open_def split: prod.splits)
qed

lemma stuck_tick:
  assumes "stuck msgs c"
  shows "stuck msgs (kcp_tick now c)"
proof (cases "kc_kcp c")
  case (Some k)
  have "que_le k (snd (ikcp_update k now))" using rcv_same_update que_le_same by blast
  then show ?thesis
    using assms Some queue_blocked_le
    by (auto simp: stuck_def kcp_tick_def fold_do_send past_open_def split: prod.splits)
qed (use assms in \<open>simp add: kcp_tick_def\<close>)

lemma stuck_mpush: "stuck msgs c \<Longrightarrow> stuck msgs (snd (kc_mpush c))"
  using stuck_quiet [OF _ kc_quiet_request [of c 0]]
  by (auto simp: kc_mpush_def stuck_engine_send split: option.splits prod.splits)

lemma stuck_op:
  assumes s: "stuck msgs c" and ok: "op_ok op c"
  shows "stuck msgs (run_op op c)"
proof (cases op)
  case (OpSend msg)
  then show ?thesis
    using s stuck_quiet [OF s kc_quiet_request [of c 0]]
    by (auto simp: kc_send_def stuck_engine_send split: option.splits)
next
  case (OpMsend args)
  have "stuck msgs (c\<lparr>kc_buffer := b\<rparr>)" for b using s by (simp add: stuck_def past_open_def)
  then show ?thesis unfolding OpMsend by (simp add: kc_msend_def stuck_mpush)
next
  case (OpReceive now d)
  have "stuck msgs (c\<lparr>kc_receiving := r\<rparr>)" "stuck msgs (c\<lparr>recv_buffer := m, last_msg_time := now\<rparr>)" for r m
    using s by (simp_all add: stuck_def past_open_def)
  then show ?thesis using ok s unfolding OpReceive by (simp add: kc_receive_def Let_def stuck_incoming)
next
  case (OpReceivePassive now stale d)
  have "stuck msgs (c\<lparr>last_msg_time := now\<rparr>)" using s by (simp add: stuck_def past_open_def)
  then show ?thesis using ok unfolding OpReceivePassive by (simp add: kc_receive_passive_def Let_def stuck_incoming)
qed (use stuck_quiet [OF s] stuck_tick [OF s] kc_quiet_ops in simp_all)

text \<open>
  C16: an empty message, or one longer than the 4096 bytes of the receive loop's buffer, at the
  head of the receive queue blocks the connection: as long as no new handshake arrives, no
  sequence of calls and datagrams makes it deliver another message.
\<close>

theorem kcp_receive_blocked:
  assumes "past_open c" "kc_kcp c = Some k" "queue_blocked (int kMaxMessageLength) k" "quiet_run c c'"
  shows "kc_msgs c' = kc_msgs c"
proof -
  have "stuck (kc_msgs c) c" using assms by (simp add: stuck_def)
  with assms(4) have "stuck (kc_msgs c) c'"
    by (induction rule: quiet_run.induct) (auto intro: stuck_op)
  then show ?thesis by (simp add: stuck_def)
qed

section \<open>Witnesses\<close>

definition demo_request :: kcp_op where
  "demo_request = OpReceivePassive 0 [] (shake_image 9 KCP_SHAKEHAND_REQUEST)"

definition demo_listen :: kcp_conn where
  "demo_listen = kc_listen (kcp_conn_init 7 0 [] [] Timer_init)"

lemma demo_started: "kcp_started demo_listen" "kcp_run demo_listen (run_op demo_request demo_listen)"
  "handshaken 9 (run_op demo_request demo_listen)"
proof -
  show "kcp_started demo_listen" unfolding kcp_started_def demo_listen_def Let_def by blast
  show "kcp_run demo_listen (run_op demo_request demo_listen)"
    by (rule kcp_run_op [OF kcp_run_nil]) (simp add: demo_request_def)
  show "handshaken 9 (run_op demo_request demo_listen)"
    using opened_request(1) [OF opened_listen [OF refl, of 7 0 "[]" "[]" Timer_init], of 9 _ 0 "[]", OF _ refl]
    by (simp add: demo_request_def demo_listen_def)
qed

theorem kcp_status_engine_witness:
  "\<exists>k. kc_kcp (run_op demo_request demo_listen) = Some k \<and> k_conv k = 9"
proof -
  have "conn_status (run_op demo_request demo_listen) = CONN_KCP_READY" "kc_cid (run_op demo_request demo_listen) = 9"
    using demo_started(3) by (simp_all add: handshaken_def)
  then show ?thesis using kcp_status_engine [OF demo_started(1,2)] by simp
qed

theorem kcp_release_final_witness:
  "kc_sent (run_op (OpSend [1]) (kc_release (run_op demo_request demo_listen))) = []"
proof -
  let ?c = "run_op demo_request demo_listen"
  have r: "kcp_run (kc_release ?c) (run_op (OpSend [1]) (kc_release ?c))"
    by (rule kcp_run_op [OF kcp_run_nil]) simp
  have "kc_sent ?c = []" using demo_started(3) by (simp add: handshaken_def)
  then show ?thesis using kcp_release_final [OF demo_started(1,2) r] by simp
qed

definition empty_engine :: ikcpcb where
  "empty_engine = snd (ikcp_send (snd (ikcp_send (fresh_engine 9) [] 0)) [1, 2, 3] 3)"

definition empty_datagram :: bytes where
  "empty_datagram = hd (fst (ikcp_update empty_engine 0))"

lemma empty_blocks: "queue_blocked 4096 (snd (ikcp_input (fresh_engine 9) (Some empty_datagram)))"
  by code_simp

text \<open>An empty message and one of three bytes are received; then nothing is delivered any more.\<close>

theorem kcp_receive_blocked_witness:
  "\<exists>c. kc_msgs c = [] \<and> (\<forall>d. \<not> handshake d \<longrightarrow> kc_msgs (run_op (OpReceivePassive 1 [] d) c) = [])"
proof -
  define k where "k = snd (ikcp_input (fresh_engine 9) (Some empty_datagram))"
  define c where "c = (run_op demo_request demo_listen)\<lparr>kc_kcp := Some k\<rparr>"
  have c: "past_open c" "kc_kcp c = Some k" "queue_blocked (int kMaxMessageLength) k" "kc_msgs c = []"
    using demo_started(3) empty_blocks by (simp_all add: c_def k_def past_open_def handshaken_def kMaxMessageLength_def)
  have "kc_msgs (run_op (OpReceivePassive 1 [] d) c) = []" if "\<not> handshake d" for d
  proof -
    have "quiet_run c (run_op (OpReceivePassive 1 [] d) c)"
      by (rule quiet_run_op [OF quiet_run_nil]) (simp add: that)
    from kcp_receive_blocked [OF c(1,2,3) this] c(4) show ?thesis by simp
  qed
  with c(4) show ?thesis by blast
qed

end
