(* ===== verification/Knet_Url.thy ===== *)
theory Knet_Url
  imports Knet_Prelude "HOL-Library.AList"
begin

text \<open>
  \<^verbatim>\<open>utils/knet_url.hpp\<close> and the options of \<^verbatim>\<open>knet.hpp\<close>: the URL that names an endpoint
  with its parameters, its parser and printer, the conversion of parameters to typed values
  and the socket options read from them. Exceptions of \<^verbatim>\<open>std::stoi\<close> are error values; the
  parameter map is an association list, whose order stands for the iteration order of the
  hash table.
\<close>

section \<open>Library functions the code uses\<close>

datatype std_error = InvalidArgument | OutOfRange

text \<open>\<^verbatim>\<open>std::string::find\<close>.\<close>

fun find_str :: "string \<Rightarrow> string \<Rightarrow> nat option" where
  "find_str pat [] = (if pat = [] then Some 0 else None)"
| "find_str pat (c # cs) =
     (if take (length pat) (c # cs) = pat then Some 0 else map_option Suc (find_str pat cs))"

definition is_space :: "char \<Rightarrow> bool" where
  "is_space c \<longleftrightarrow> c \<in> {CHR '' '', CHR 0x09, CHR 0x0A, CHR 0x0B, CHR 0x0C, CHR 0x0D}"

definition is_digit :: "char \<Rightarrow> bool" where
  "is_digit c \<longleftrightarrow> 48 \<le> (of_char c :: nat) \<and> (of_char c :: nat) \<le> 57"

definition digit_val :: "char \<Rightarrow> nat" where
  "digit_val c = of_char c - 48"

definition digits_val :: "string \<Rightarrow> nat" where
  "digits_val ds = foldl (\<lambda>n c. 10 * n + digit_val c) 0 ds"

text \<open>
  The number at the start of a string as \<^verbatim>\<open>strtol\<close> reads it: blanks, a sign, digits;
  None if there is no digit. The last component is what follows.
\<close>

definition scan_int :: "string \<Rightarrow> (bool \<times> nat \<times> string) option" where
  "scan_int s =
     (let s = dropWhile is_space s;
          neg = (s \<noteq> [] \<and> hd s = CHR ''-'');
          s = (if s \<noteq> [] \<and> (hd s = CHR ''-'' \<or> hd s = CHR ''+'') then tl s else s);
          ds = takeWhile is_digit s
      in if ds = [] then None else Some (neg, digits_val ds, dropWhile is_digit s))"

definition stoi :: "string \<Rightarrow> std_error + int" where
  "stoi s =
     (case scan_int s of
        None \<Rightarrow> Inl InvalidArgument
      | Some (neg, n, _) \<Rightarrow>
          let v = (if neg then - int n else int n)
          in if v < - (2 ^ 31) \<or> v > 2 ^ 31 - 1 then Inl OutOfRange else Inr v)"

text \<open>\<^verbatim>\<open>std::to_string\<close> of an unsigned number.\<close>

fun to_string :: "nat \<Rightarrow> string" where
  "to_string n = (if n < 10 then [char_of (48 + n)] else to_string (n div 10) @ [char_of (48 + n mod 10)])"

declare to_string.simps [simp del]

section \<open>Typed parameters\<close>

text \<open>
  \<^verbatim>\<open>TypeCaster<uint32_t>\<close>: extraction from a stream skips blanks and takes a sign (a
  negated value wraps); overflow, no number or trailing characters give 0.
\<close>

definition cast_u32 :: "string \<Rightarrow> u32" where
  "cast_u32 val =
     (case scan_int val of
        None \<Rightarrow> 0
      | Some (neg, n, rest) \<Rightarrow>
          if n > 2 ^ 32 - 1 \<or> rest \<noteq> [] then 0 else if neg then - of_nat n else of_nat n)"

text \<open>\<^verbatim>\<open>TypeCaster<bool>\<close>: the lower-case copy it makes is not the one it compares.\<close>

definition cast_bool :: "string \<Rightarrow> bool" where
  "cast_bool val \<longleftrightarrow> \<not> (val = ''false'' \<or> val = ''0'' \<or> val = ''no'')"

section \<open>KNetUrl\<close>

record KNetUrl =
  protocol :: string
  host :: string
  port :: u16
  params :: "(string \<times> string) list"

definition url_reset :: KNetUrl where
  "url_reset = \<lparr>protocol = [], host = [], port = 0, params = []\<rparr>"

fun parse_params :: "string \<Rightarrow> bool \<Rightarrow> string \<Rightarrow> string \<Rightarrow> (string \<times> string) list \<Rightarrow> (string \<times> string) list" where
  "parse_params [] is_key key val ps = (if key \<noteq> [] then AList.update key val ps else ps)"
| "parse_params (c # cs) is_key key val ps =
     (if c = CHR ''='' then parse_params cs (\<not> is_key) key val ps
      else if c = CHR ''&'' then parse_params cs (\<not> is_key) [] [] (AList.update key val ps)
      else if is_key then parse_params cs is_key (key @ [c]) val ps
      else parse_params cs is_key key (val @ [c]) ps)"

definition parse_host :: "string \<Rightarrow> KNetUrl \<Rightarrow> std_error + KNetUrl" where
  "parse_host hostInfo u =
     (case find_str '':'' hostInfo of
        Some cPos \<Rightarrow>
          let u = u\<lparr>host := take cPos hostInfo\<rparr>;
              p = drop (cPos + 1) hostInfo
          in if p \<noteq> []
             then (case stoi p of Inl e \<Rightarrow> Inl e | Inr v \<Rightarrow> Inr (u\<lparr>port := word_of_int v\<rparr>))
             else Inr u
      | None \<Rightarrow> Inr (u\<lparr>host := hostInfo\<rparr>))"

definition parse :: "string \<Rightarrow> std_error + bool \<times> KNetUrl" where
  "parse channel =
     (let u = url_reset in
      case find_str ''://'' channel of
        None \<Rightarrow> Inr (False, u)
      | Some pos \<Rightarrow>
          let u = u\<lparr>protocol := take pos channel\<rparr>;
              pos = pos + 2;
              pPos = (case find_str ''?'' (drop pos channel) of Some q \<Rightarrow> pos + q | None \<Rightarrow> length channel);
              hostInfo = take (pPos - (pos + 1)) (drop (pos + 1) channel)
          in (case parse_host hostInfo u of
                Inl e \<Rightarrow> Inl e
              | Inr u \<Rightarrow>
                  Inr (True, u\<lparr>params := parse_params (drop (pPos + 1) channel) True [] [] (params u)\<rparr>)))"

definition encode_params :: "(string \<times> string) list \<Rightarrow> string" where
  "encode_params ps = concat (map (\<lambda>(k, v). k @ ''='' @ v @ ''&'') ps)"

definition encode :: "KNetUrl \<Rightarrow> string" where
  "encode u =
     protocol u @ ''://'' @ host u @ (if port u > 0 then '':'' @ to_string (unat (port u)) else []) @
     (if params u \<noteq> [] then ''?'' @ encode_params (params u) else [])"

definition url_has :: "string \<Rightarrow> KNetUrl \<Rightarrow> bool" where
  "url_has key u \<longleftrightarrow> map_of (params u) key \<noteq> None"

definition url_set :: "string \<Rightarrow> string \<Rightarrow> KNetUrl \<Rightarrow> KNetUrl" where
  "url_set key val u = u\<lparr>params := AList.update key val (params u)\<rparr>"

definition url_get :: "(string \<Rightarrow> 'a) \<Rightarrow> string \<Rightarrow> 'a \<Rightarrow> KNetUrl \<Rightarrow> 'a" where
  "url_get cast key dft u = (case map_of (params u) key of Some v \<Rightarrow> cast v | None \<Rightarrow> dft)"

section \<open>Options\<close>

record NetOptions =
  tcp_delay :: bool
  sync :: bool
  reuse :: bool
  backlogs :: u32
  workers :: u32
  send_buffer_size :: u32
  recv_buffer_size :: u32
  sync_accept_threads :: u32
  chain_file :: string
  dh_file :: string

definition default_options :: "u32 \<Rightarrow> NetOptions" where
  "default_options hardware_concurrency =
     \<lparr>tcp_delay = True, sync = False, reuse = True, backlogs = 512, workers = hardware_concurrency,
      send_buffer_size = 2 * 1024 * 1024, recv_buffer_size = 2 * 1024 * 1024, sync_accept_threads = 0,
      chain_file = ''cert/server.pem'', dh_file = ''cert/dh2048.pem''\<rparr>"

definition options_from_url :: "u32 \<Rightarrow> KNetUrl \<Rightarrow> NetOptions" where
  "options_from_url hc u =
     (let opts = default_options hc in
      opts\<lparr>tcp_delay := url_get cast_bool ''tcp_delay'' (tcp_delay opts) u,
           sync := url_get cast_bool ''sync'' (sync opts) u,
           reuse := url_get cast_bool ''reuse'' (reuse opts) u,
           backlogs := url_get cast_u32 ''backlogs'' (backlogs opts) u,
           send_buffer_size := url_get cast_u32 ''sbuf_size'' (send_buffer_size opts) u,
           recv_buffer_size := url_get cast_u32 ''rbuf_size'' (recv_buffer_size opts) u,
           chain_file := url_get id ''cert'' (chain_file opts) u,
           dh_file := url_get id ''cert_key'' (dh_file opts) u\<rparr>)"

section \<open>Numbers\<close>

lemma digit_char: "n < 10 \<Longrightarrow> is_digit (char_of (48 + n)) \<and> digit_val (char_of (48 + n)) = n"
  by (simp add: is_digit_def digit_val_def)

lemma to_string_digits: "to_string n \<noteq> [] \<and> (\<forall>c\<in>set (to_string n). is_digit c) \<and> digits_val (to_string n) = n"
proof (induction n rule: to_string.induct)
  case (1 n)
  show ?case
  proof (cases "n < 10")
    case True
    then show ?thesis using digit_char [of n] by (simp add: to_string.simps [of n] digits_val_def)
  next
    case False
    then show ?thesis using 1 digit_char [of "n mod 10"]
      by (auto simp: to_string.simps [of n] digits_val_def)
  qed
qed

lemma digit_not_special:
  assumes "is_digit c"
  shows "\<not> is_space c" "c \<noteq> CHR ''-''" "c \<noteq> CHR ''+''" "c \<noteq> CHR ''?''" "c \<noteq> CHR '':''"
  using assms by (auto simp: is_digit_def is_space_def)

lemma scan_to_string: "scan_int (to_string n) = Some (False, n, [])"
proof -
  note d = to_string_digits [of n]
  obtain c cs where c: "to_string n = c # cs" using d by (cases "to_string n") auto
  have ns: "\<not> is_space c" "c \<noteq> CHR ''-''" "c \<noteq> CHR ''+''"
    using d c digit_not_special [of c] by auto
  have "dropWhile is_space (to_string n) = to_string n" using c ns by simp
  moreover have "takeWhile is_digit (to_string n) = to_string n" "dropWhile is_digit (to_string n) = []"
    using d by (simp_all add: takeWhile_eq_all_conv)
  moreover have "takeWhile is_digit cs = cs" using d c by (simp add: takeWhile_eq_all_conv)
  ultimately show ?thesis using d c ns by (simp add: scan_int_def Let_def del: takeWhile_eq_all_conv)
qed


lemma stoi_to_string: "n < 2 ^ 31 \<Longrightarrow> stoi (to_string n) = Inr (int n)"
  by (simp add: stoi_def scan_to_string)

lemma cast_u32_to_string: "cast_u32 (to_string (unat n)) = n"
  using unat_lt_32 [of n] by (simp add: cast_u32_def scan_to_string del: unat_lt_32)

section \<open>Searching\<close>

lemma find_str_char: "find_str [c] (xs @ c # ys) = Some (length xs)" if "c \<notin> set xs"
  using that by (induction xs) auto

lemma find_str_char_none: "c \<notin> set xs \<Longrightarrow> find_str [c] xs = None"
  by (induction xs) auto

lemma find_str_scheme: "CHR '':'' \<notin> set p \<Longrightarrow> find_str ''://'' (p @ ''://'' @ r) = Some (length p)"
  by (induction p) auto

section \<open>Parameters\<close>

definition param_ok :: "string \<times> string \<Rightarrow> bool" where
  "param_ok p \<longleftrightarrow> fst p \<noteq> [] \<and> CHR ''='' \<notin> set (fst p) \<and> CHR ''&'' \<notin> set (fst p) \<and>
     CHR ''='' \<notin> set (snd p) \<and> CHR ''&'' \<notin> set (snd p)"

lemma parse_params_key:
  "CHR ''='' \<notin> set k \<Longrightarrow> CHR ''&'' \<notin> set k \<Longrightarrow>
   parse_params (k @ r) True key val ps = parse_params r True (key @ k) val ps"
  by (induction k arbitrary: key) auto

lemma parse_params_val:
  "CHR ''='' \<notin> set v \<Longrightarrow> CHR ''&'' \<notin> set v \<Longrightarrow>
   parse_params (v @ r) False key val ps = parse_params r False key (val @ v) ps"
  by (induction v arbitrary: val) auto

lemma update_fresh: "k \<notin> fst ` set ps \<Longrightarrow> AList.update k v ps = ps @ [(k, v)]"
  by (induction ps) auto

lemma parse_encode_params:
  assumes "\<forall>p\<in>set qs. param_ok p" "distinct (map fst (ps @ qs))"
  shows "parse_params (encode_params qs) True [] [] ps = ps @ qs"
  using assms
proof (induction qs arbitrary: ps)
  case (Cons q qs)
  obtain k v where q: "q = (k, v)" by (cases q)
  have "parse_params (encode_params (q # qs)) True [] [] ps =
      parse_params (encode_params qs) True [] [] (AList.update k v ps)"
    using Cons.prems(1) by (simp add: encode_params_def q param_ok_def parse_params_key parse_params_val)
  also have "AList.update k v ps = ps @ [q]"
    using Cons.prems(2) by (simp add: q update_fresh)
  finally show ?case using Cons.IH [of "ps @ [q]"] Cons.prems by simp
qed (simp add: encode_params_def)

section \<open>Properties\<close>

definition url_ok :: "KNetUrl \<Rightarrow> bool" where
  "url_ok u \<longleftrightarrow> CHR '':'' \<notin> set (protocol u) \<and> CHR '':'' \<notin> set (host u) \<and> CHR ''?'' \<notin> set (host u) \<and>
     distinct (map fst (params u)) \<and> list_all param_ok (params u)"

lemma parse_host_encode:
  assumes "CHR '':'' \<notin> set h"
  shows "parse_host (h @ (if n > 0 then '':'' @ to_string (unat n) else [])) u =
    Inr (u\<lparr>host := h, port := (if n > 0 then n else port u)\<rparr>)"
proof (cases "n > 0")
  case True
  have "unat n < 2 ^ 31" using unsigned_less [where 'b = 16 and w = n and 'a = nat] by simp
  moreover have "to_string (unat n) \<noteq> []" using to_string_digits by blast
  ultimately show ?thesis
    using True find_str_char [OF assms, of "to_string (unat n)"] stoi_to_string [of "unat n"]
    by (simp add: parse_host_def Let_def)
next
  case False
  then show ?thesis using find_str_char_none [OF assms] by (simp add: parse_host_def)
qed

lemma parse_parts:
  assumes p: "CHR '':'' \<notin> set p" and h: "CHR ''?'' \<notin> set h" and x: "x = [] \<or> x = ''?'' @ q"
  shows "parse (p @ ''://'' @ h @ x) =
    (case parse_host h (url_reset\<lparr>protocol := p\<rparr>) of
       Inl e \<Rightarrow> Inl e
     | Inr u \<Rightarrow> Inr (True, u\<lparr>params := parse_params (drop 1 x) True [] [] (params u)\<rparr>))"
proof -
  let ?ch = "p @ ''://'' @ h @ x"
  have s: "find_str ''://'' ?ch = Some (length p)" by (rule find_str_scheme [OF p])
  have d: "drop (length p + 2) ?ch = (''/'' @ h) @ x" by simp
  have d3: "drop (length p + 3) ?ch = h @ x" by (simp add: numeral_3_eq_3)
  have nq: "CHR ''?'' \<notin> set (''/'' @ h)" using h by simp
  have q: "(case find_str ''?'' (drop (length p + 2) ?ch) of Some n \<Rightarrow> length p + 2 + n | None \<Rightarrow> length ?ch) =
      length p + 3 + length h"
    unfolding d using x find_str_char [OF nq, of q] find_str_char_none [OF nq] by (elim disjE) simp_all
  have "drop (length p + 3 + length h + 1) ?ch = drop (length h + 1) (drop (length p + 3) ?ch)"
    by (simp only: drop_drop) (simp only: add.commute add.left_commute)
  then have dp: "drop (length p + 3 + length h + 1) ?ch = drop 1 x"
    unfolding d3 by (simp del: append_assoc)
  have hi: "take (length p + 3 + length h - (length p + 2 + 1)) (drop (length p + 2 + 1) ?ch) = h"
    by simp
  show ?thesis
    unfolding parse_def Let_def s option.case q dp hi by simp
qed

lemma parse_encode:
  assumes "url_ok u"
  shows "parse (encode u) = Inr (True, u)"
proof -
  let ?h = "host u @ (if port u > 0 then '':'' @ to_string (unat (port u)) else [])"
  let ?x = "if params u \<noteq> [] then ''?'' @ encode_params (params u) else []"
  have "\<forall>c\<in>set (to_string (unat (port u))). c \<noteq> CHR ''?''"
    using to_string_digits digit_not_special(4) by blast
  then have h: "CHR ''?'' \<notin> set ?h" using assms by (auto simp: url_ok_def)
  have p: "CHR '':'' \<notin> set (protocol u)" "CHR '':'' \<notin> set (host u)" using assms by (simp_all add: url_ok_def)
  have pp: "parse_params (drop 1 ?x) True [] [] [] = params u"
    using assms parse_encode_params [of "params u" "[]"] by (simp add: url_ok_def list_all_iff)
  have "parse (protocol u @ ''://'' @ ?h @ ?x) =
      (case parse_host ?h (url_reset\<lparr>protocol := protocol u\<rparr>) of
         Inl e \<Rightarrow> Inl e
       | Inr u \<Rightarrow> Inr (True, u\<lparr>params := parse_params (drop 1 ?x) True [] [] (params u)\<rparr>))"
    by (rule parse_parts [OF p(1) h, where q = "encode_params (params u)"]) simp
  also have "protocol u @ ''://'' @ ?h @ ?x = encode u" by (simp add: encode_def)
  finally show ?thesis
    unfolding parse_host_encode [OF p(2)] using pp by (auto simp: url_reset_def word_gt_0)
qed

text \<open>
  C37: parsing what \<^verbatim>\<open>encode\<close> prints gives back the URL, protocol, host, port and all
  parameters, for URLs whose parts do not contain the separators.
\<close>

theorem url_roundtrip:
  assumes "url_ok u"
  shows "parse (encode u) = Inr (True, u)"
  by (rule parse_encode [OF assms])

definition demo_url :: KNetUrl where
  "demo_url = \<lparr>protocol = ''tcp'', host = ''127.0.0.1'', port = 3333, params = [(''backlogs'', ''64''), (''sync'', ''no'')]\<rparr>"

theorem url_roundtrip_witness: "parse (encode demo_url) = Inr (True, demo_url)"
  by (rule url_roundtrip) (simp add: url_ok_def demo_url_def param_ok_def)

text \<open>
  A numeric parameter printed in decimal is read back as the same 32-bit number, so
  the listener's backlog and the buffer sizes of a parsed URL are the numbers that were set,
  and the options the URL does not mention keep their defaults.
\<close>

theorem options_numbers:
  assumes "url_ok u" "map_of (params u) ''backlogs'' = Some (to_string (unat b))"
    and "map_of (params u) ''sbuf_size'' = Some (to_string (unat s))" "map_of (params u) ''rbuf_size'' = None"
    and "parse (encode u) = Inr (True, u')"
  shows "backlogs (options_from_url hc u') = b \<and> send_buffer_size (options_from_url hc u') = s \<and>
    recv_buffer_size (options_from_url hc u') = 2 * 1024 * 1024 \<and> workers (options_from_url hc u') = hc"
  using assms parse_encode [OF assms(1)]
  by (simp add: options_from_url_def url_get_def cast_u32_to_string default_options_def Let_def)

definition sized_url :: KNetUrl where
  "sized_url = \<lparr>protocol = ''tcp'', host = ''0.0.0.0'', port = 80, params = [(''backlogs'', ''64''), (''sbuf_size'', ''4096'')]\<rparr>"

theorem options_numbers_witness:
  "backlogs (options_from_url 8 sized_url) = 64 \<and> send_buffer_size (options_from_url 8 sized_url) = 4096 \<and>
   workers (options_from_url 8 sized_url) = 8"
proof -
  have "to_string 64 = ''64''" "to_string 4096 = ''4096''" by code_simp+
  moreover have "url_ok sized_url" by (simp add: url_ok_def sized_url_def param_ok_def)
  moreover from parse_encode [OF this] have "parse (encode sized_url) = Inr (True, sized_url)" .
  ultimately show ?thesis
    using options_numbers [of sized_url 64 4096 sized_url 8] by (simp add: sized_url_def)
qed

end
