(* ===== verification/Endpoint.thy ===== *)
theory Endpoint
  imports Knet_Url
begin

text \<open>
  The endpoints of datagrams and \<^verbatim>\<open>addrstr\<close>, the text under which the KCP and the UDP
  listeners file their connections. The address is the text asio prints for it.
\<close>

type_synonym endpoint = "string \<times> u16"

definition addrstr :: "endpoint \<Rightarrow> string" where
  "addrstr pt = fst pt @ '':'' @ to_string (unat (snd pt))"

lemma colon_no_digit: "CHR '':'' \<notin> set (to_string n)"
proof
  assume "CHR '':'' \<in> set (to_string n)"
  then have "is_digit CHR '':''" using to_string_digits by blast
  then show False by (simp add: is_digit_def of_char_def)
qed

lemma to_string_inject: "to_string m = to_string n \<Longrightarrow> m = n"
  using to_string_digits by metis

lemma addrstr_inject: "addrstr a = addrstr b \<longleftrightarrow> a = b"
proof
  assume eq: "addrstr a = addrstr b"
  have tail: "takeWhile (\<lambda>c. c \<noteq> CHR '':'') (rev (addrstr p)) = rev (to_string (unat (snd p)))" for p
    using colon_no_digit [of "unat (snd p)"] by (auto simp: addrstr_def takeWhile_append)
  have "to_string (unat (snd a)) = to_string (unat (snd b))" using eq tail [of a] tail [of b] by simp
  then have "unat (snd a) = unat (snd b)" by (rule to_string_inject)
  then have "snd a = snd b" by (rule unsigned_word_eqI)
  then show "a = b" using eq by (simp add: addrstr_def prod_eq_iff)
qed simp

section \<open>Tables of objects\<close>

text \<open>A table whose entries are different objects made before object \<open>n\<close>.\<close>

definition table_ok :: "('k \<Rightarrow> nat option) \<Rightarrow> nat \<Rightarrow> bool" where
  "table_ok f n \<longleftrightarrow> (\<forall>p r. f p = Some r \<longrightarrow> r < n) \<and> (\<forall>p q r. f p = Some r \<longrightarrow> f q = Some r \<longrightarrow> p = q)"

lemma table_ok_empty: "table_ok (\<lambda>_. None) n"
  by (simp add: table_ok_def)

lemma table_okD:
  "table_ok f n \<Longrightarrow> f p = Some r \<Longrightarrow> r < n" "table_ok f n \<Longrightarrow> f p = Some r \<Longrightarrow> f q = Some r \<Longrightarrow> p = q"
  unfolding table_ok_def by blast+

lemma table_ok_insert:
  assumes "table_ok f n" "\<And>q. g q = (if q = p then Some n else f q)"
  shows "table_ok g (n + 1)"
  using assms unfolding table_ok_def by (fastforce split: if_splits)

section \<open>Servers of many endpoints\<close>

text \<open>
  The interface of a listener with one socket: a table from endpoints to objects and the
  arrival of a datagram. \<open>ready n l\<close> says that the listener can take \<open>n\<close> more datagrams and
  \<open>serves pt as c\<close> that the object \<open>c\<close> is in a state it reaches when it is made for \<open>pt\<close> and
  given the datagrams \<open>as\<close>. The laws speak of one arrival; the client's lemma is about any
  sequence of arrivals from any endpoints.
\<close>

definition from_endpoint :: "('a \<Rightarrow> endpoint) \<Rightarrow> endpoint \<Rightarrow> 'a list \<Rightarrow> 'a list" where
  "from_endpoint sender pt as = filter (\<lambda>a. sender a = pt) as"

lemma from_endpoint_snoc:
  "from_endpoint sender pt (as @ [a]) = from_endpoint sender pt as @ (if sender a = pt then [a] else [])"
  by (simp add: from_endpoint_def)

locale endpoint_server =
  fixes lookup :: "endpoint \<Rightarrow> 'l \<Rightarrow> nat option"
    and object :: "'l \<Rightarrow> nat \<Rightarrow> 'c"
    and arrive :: "'a \<Rightarrow> 'l \<Rightarrow> 'l"
    and sender :: "'a \<Rightarrow> endpoint"
    and serves :: "endpoint \<Rightarrow> 'a list \<Rightarrow> 'c \<Rightarrow> bool"
    and ready :: "nat \<Rightarrow> 'l \<Rightarrow> bool"
    and good :: "'a \<Rightarrow> bool"
  assumes arrive_ready: "ready (Suc n) l \<Longrightarrow> good a \<Longrightarrow> ready n (arrive a l)"
    and arrive_other: "ready (Suc n) l \<Longrightarrow> good a \<Longrightarrow> sender a \<noteq> pt \<Longrightarrow> lookup pt (arrive a l) = lookup pt l"
    and object_other: "ready (Suc n) l \<Longrightarrow> good a \<Longrightarrow> sender a \<noteq> pt \<Longrightarrow> lookup pt l = Some r \<Longrightarrow>
      object (arrive a l) r = object l r"
    and arrive_known: "ready (Suc n) l \<Longrightarrow> good a \<Longrightarrow> lookup (sender a) l = Some r \<Longrightarrow>
      serves (sender a) as (object l r) \<Longrightarrow>
      lookup (sender a) (arrive a l) = Some r \<and> serves (sender a) (as @ [a]) (object (arrive a l) r)"
    and arrive_new: "ready (Suc n) l \<Longrightarrow> good a \<Longrightarrow> lookup (sender a) l = None \<Longrightarrow>
      \<exists>r. lookup (sender a) (arrive a l) = Some r \<and> serves (sender a) [a] (object (arrive a l) r)"
begin

definition separated :: "'a list \<Rightarrow> 'l \<Rightarrow> bool" where
  "separated as l \<longleftrightarrow> (\<forall>pt. case lookup pt l of
      None \<Rightarrow> from_endpoint sender pt as = []
    | Some r \<Rightarrow> from_endpoint sender pt as \<noteq> [] \<and> serves pt (from_endpoint sender pt as) (object l r))"

lemma separated_arrive:
  assumes "separated as l" "ready (Suc n) l" "good a"
  shows "separated (as @ [a]) (arrive a l)"
  unfolding separated_def
proof
  fix pt
  note s = assms(1) [unfolded separated_def, rule_format, of pt]
  show "case lookup pt (arrive a l) of
      None \<Rightarrow> from_endpoint sender pt (as @ [a]) = []
    | Some r \<Rightarrow> from_endpoint sender pt (as @ [a]) \<noteq> [] \<and>
        serves pt (from_endpoint sender pt (as @ [a])) (object (arrive a l) r)"
  proof (cases "sender a = pt")
    case True
    then show ?thesis
      using s arrive_known [OF assms(2,3)] arrive_new [OF assms(2,3)]
      by (cases "lookup pt l") (force simp: from_endpoint_snoc)+
  next
    case False
    then show ?thesis
      using s arrive_other [OF assms(2,3) False] object_other [OF assms(2,3) False]
      by (cases "lookup pt l") (simp_all add: from_endpoint_snoc)
  qed
qed

lemma separated_run:
  assumes "\<And>pt. lookup pt l = None" "ready (length as) l" "\<forall>a\<in>set as. good a"
  shows "separated as (fold arrive as l)"
proof -
  have "separated as (fold arrive as l) \<and> ready n (fold arrive as l)" if "ready (length as + n) l" for n
    using that assms(3)
  proof (induction as arbitrary: n rule: rev_induct)
    case Nil
    then show ?case using assms(1) by (simp add: separated_def from_endpoint_def)
  next
    case (snoc a as)
    then have "separated as (fold arrive as l)" "ready (Suc n) (fold arrive as l)" using snoc.IH [of "Suc n"] by simp_all
    then show ?case using separated_arrive arrive_ready snoc.prems(2) by simp
  qed
  from this [of 0] assms(2) show ?thesis by simp
qed

lemma separated_lookup:
  assumes "\<And>pt. lookup pt l = None" "ready (length as) l" "\<forall>a\<in>set as. good a"
  shows "case lookup pt (fold arrive as l) of
      None \<Rightarrow> from_endpoint sender pt as = []
    | Some r \<Rightarrow> from_endpoint sender pt as \<noteq> [] \<and> serves pt (from_endpoint sender pt as) (object (fold arrive as l) r)"
  using separated_run [OF assms] unfolding separated_def by blast

end

end
