(* ===== verification/Registry.thy ===== *)
theory Registry
  imports Knet_Prelude "HOL-Library.AList"
begin

text \<open>
  The interface of the tables the library keeps its objects in (connections by id or by
  endpoint, pipes by name): find, add, remove. The client's view is a run of operations; a
  lookup afterwards gives what the last operation on the key left.
\<close>

datatype ('k, 'v) reg_op = RegAdd 'k 'v | RegRemove 'k

fun last_binding :: "'k \<Rightarrow> ('k, 'v) reg_op list \<Rightarrow> 'v option \<Rightarrow> 'v option" where
  "last_binding k [] v = v"
| "last_binding k (RegAdd k' v' # ops) v = last_binding k ops (if k' = k then Some v' else v)"
| "last_binding k (RegRemove k' # ops) v = last_binding k ops (if k' = k then None else v)"

fun run_reg :: "('k \<Rightarrow> 'v \<Rightarrow> 's \<Rightarrow> 's) \<Rightarrow> ('k \<Rightarrow> 's \<Rightarrow> bool \<times> 's) \<Rightarrow> ('k, 'v) reg_op list \<Rightarrow> 's \<Rightarrow> 's" where
  "run_reg add remove [] s = s"
| "run_reg add remove (RegAdd k v # ops) s = run_reg add remove ops (add k v s)"
| "run_reg add remove (RegRemove k # ops) s = run_reg add remove ops (snd (remove k s))"

locale registry =
  fixes lookup :: "'k \<Rightarrow> 's \<Rightarrow> 'v option"
    and add :: "'k \<Rightarrow> 'v \<Rightarrow> 's \<Rightarrow> 's"
    and remove :: "'k \<Rightarrow> 's \<Rightarrow> bool \<times> 's"
  assumes lookup_add: "lookup k' (add k v s) = (if k = k' then Some v else lookup k' s)"
    and lookup_remove: "lookup k' (snd (remove k s)) = (if k = k' then None else lookup k' s)"
    and remove_result: "fst (remove k s) \<longleftrightarrow> lookup k s \<noteq> None"
begin

lemma lookup_run: "lookup k (run_reg add remove ops s) = last_binding k ops (lookup k s)"
proof (induction ops arbitrary: s)
  case (Cons oper ops)
  then show ?case by (cases oper) (simp_all add: lookup_add lookup_remove)
qed simp

lemma remove_twice: "\<not> fst (remove k (snd (remove k s)))"
  by (simp add: remove_result lookup_remove)

lemma remove_after_add: "fst (remove k (add k v s))"
  by (simp add: remove_result lookup_add)

end

text \<open>The tables are \<^verbatim>\<open>std::unordered_map\<close>s, kept as association lists.\<close>

interpretation alist: registry "\<lambda>k s. map_of s k" AList.update "\<lambda>k s. (map_of s k \<noteq> None, AList.delete k s)"
  by unfold_locales (simp_all add: update_conv' delete_conv')

end
