(* ===== verification/Kcp_Server.thy ===== *)
theory Kcp_Server
  imports Kcp_Life Endpoint Registry
begin

text \<open>
  \<^verbatim>\<open>kcp/kcp_listener.hpp\<close> and \<^verbatim>\<open>kcp/kcp_connector.hpp\<close>: the owners of KCP connections. The
  listener has one socket for all its connections and files them by the text of their remote
  endpoint; the connector files its connections by conversation id. Connections are objects
  in a store; those of one owner share its worker, so each call gets the worker's timers and
  gives them back.
\<close>

section \<open>The listener\<close>

text \<open>
  \<open>kl_index\<close> and \<open>kl_conv_index\<close> are the static counters of the constructor and of
  \<^verbatim>\<open>check_control_message\<close>. \<open>kl_sock\<close>: the socket is open. \<open>kl_receiving\<close>: it waits for a datagram.
\<close>

record kcp_listener =
  kl_store :: "nat \<Rightarrow> kcp_conn"
  kl_remote :: "nat \<Rightarrow> endpoint"
  kl_fresh :: nat
  kl_connections :: "(string \<times> nat) list"
  kl_worker :: timer
  kl_buffer :: bytes
  kl_sock :: bool
  kl_receiving :: bool
  kl_index :: u64
  kl_conv_index :: u32

text \<open>A member function of the connection \<open>r\<close> runs.\<close>

definition kl_apply :: "nat \<Rightarrow> (kcp_conn \<Rightarrow> kcp_conn) \<Rightarrow> kcp_listener \<Rightarrow> kcp_listener" where
  "kl_apply r f l =
     (let c = f ((kl_store l r)\<lparr>kc_worker := kl_worker l, server_conv_index := kl_conv_index l\<rparr>)
      in l\<lparr>kl_store := (kl_store l)(r := c), kl_worker := kc_worker c, kl_conv_index := server_conv_index c\<rparr>)"

definition kl_find_connection :: "endpoint \<Rightarrow> kcp_listener \<Rightarrow> nat option" where
  "kl_find_connection pt l = map_of (kl_connections l) (addrstr pt)"

text \<open>What the memory of a new connection holds before it is written.\<close>

type_synonym raw_memory = "int \<times> bytes \<times> bytes"

definition kl_new :: "u32 \<Rightarrow> raw_memory \<Rightarrow> timer \<Rightarrow> kcp_conn" where
  "kl_new cid mem w = (case mem of (t, storage, ring) \<Rightarrow> kcp_conn_init cid t storage ring w)"

definition kl_create_connection :: "endpoint \<Rightarrow> raw_memory \<Rightarrow> kcp_listener \<Rightarrow> nat \<times> kcp_listener" where
  "kl_create_connection pt mem l =
     (let r = kl_fresh l; i = kl_index l + 1
      in (r, l\<lparr>kl_fresh := r + 1, kl_index := i,
               kl_store := (kl_store l)(r := kl_new (ucast i) mem (kl_worker l)),
               kl_remote := (kl_remote l)(r := pt),
               kl_connections := AList.update (addrstr pt) r (kl_connections l)\<rparr>))"

text \<open>The completion of \<^verbatim>\<open>async_receive_from\<close>.\<close>

definition kl_receive_done :: "bool \<Rightarrow> int \<Rightarrow> endpoint \<Rightarrow> bytes \<Rightarrow> raw_memory \<Rightarrow> kcp_listener \<Rightarrow> kcp_listener" where
  "kl_receive_done ok now pt d mem l =
     (if \<not> kl_receiving l then l
      else if ok \<and> d \<noteq> [] then
        let l = l\<lparr>kl_buffer := blit (kl_buffer l) 0 d\<rparr>;
            (r, l) = (case kl_find_connection pt l of
                        Some r \<Rightarrow> (r, l)
                      | None \<Rightarrow> (case kl_create_connection pt mem l of (r, l) \<Rightarrow> (r, kl_apply r kc_listen l)))
        in kl_apply r (kc_receive_passive now (drop (length d) (kl_buffer l)) d) l
      else l\<lparr>kl_receiving := False\<rparr>)"

definition kl_broadcast :: "bytes \<Rightarrow> kcp_listener \<Rightarrow> kcp_listener" where
  "kl_broadcast msg l = fold (\<lambda>(k, r). kl_apply r (\<lambda>c. snd (kc_msend [msg] c))) (kl_connections l) l"

text \<open>\<^verbatim>\<open>run\<close>, in the worker's thread: None if the socket cannot be bound, which is an exception.\<close>

definition kl_run :: "bool \<Rightarrow> kcp_listener \<Rightarrow> kcp_listener option" where
  "kl_run bind_ok l = (if bind_ok then Some (l\<lparr>kl_sock := True, kl_receiving := True\<rparr>) else None)"

definition kl_stop :: "kcp_listener \<Rightarrow> kcp_listener" where
  "kl_stop l = (if kl_sock l then l\<lparr>kl_sock := False\<rparr> else l)"

section \<open>The connector\<close>

record kcp_connector =
  kk_store :: "nat \<Rightarrow> kcp_conn"
  kk_remote :: "nat \<Rightarrow> endpoint"
  kk_fresh :: nat
  kk_connections :: "(u64 \<times> nat) list"
  kk_worker :: timer
  kk_index :: u64

definition kk_apply :: "nat \<Rightarrow> (kcp_conn \<Rightarrow> kcp_conn) \<Rightarrow> kcp_connector \<Rightarrow> kcp_connector" where
  "kk_apply r f k =
     (let c = f ((kk_store k r)\<lparr>kc_worker := kk_worker k\<rparr>)
      in k\<lparr>kk_store := (kk_store k)(r := c), kk_worker := kc_worker c\<rparr>)"

text \<open>
  The part \<^verbatim>\<open>connect\<close> and \<^verbatim>\<open>add_connection\<close> share: create, file, resolve, connect to the first
  endpoint. \<open>resolved\<close> is the result of the resolver, None if it throws; then the exception
  leaves the connection in the table.
\<close>

definition kk_open :: "u64 \<Rightarrow> bool \<Rightarrow> endpoint list option \<Rightarrow> raw_memory \<Rightarrow> kcp_connector \<Rightarrow> nat option \<times> kcp_connector" where
  "kk_open i reconn resolved mem k =
     (let r = kk_fresh k;
          idx = kk_index k + 1;
          cid = (ucast (if i > 0 then i else idx) :: u32);
          k = k\<lparr>kk_fresh := r + 1, kk_index := idx,
                kk_store := (kk_store k)(r := kl_new cid mem (kk_worker k)),
                kk_connections := AList.update (ucast cid) r (kk_connections k)\<rparr>
      in case resolved of
           None \<Rightarrow> (None, k)
         | Some [] \<Rightarrow> (Some r, k)
         | Some (pt # _) \<Rightarrow> (Some r, kk_apply r (kc_connect reconn) (k\<lparr>kk_remote := (kk_remote k)(r := pt)\<rparr>)))"

definition kk_connect :: "u64 \<Rightarrow> bool \<Rightarrow> endpoint list option \<Rightarrow> raw_memory \<Rightarrow> kcp_connector \<Rightarrow> nat option \<times> kcp_connector" where
  "kk_connect i reconn resolved mem k = kk_open i reconn resolved mem k"

definition kk_add_connection :: "endpoint list option \<Rightarrow> raw_memory \<Rightarrow> kcp_connector \<Rightarrow> nat option \<times> kcp_connector" where
  "kk_add_connection resolved mem k = kk_open 0 True resolved mem k"

definition kk_remove :: "nat \<Rightarrow> kcp_connector \<Rightarrow> bool \<times> kcp_connector" where
  "kk_remove r k =
     (let cid = ucast (kc_cid (kk_store k r)) in
      case map_of (kk_connections k) cid of
        Some _ \<Rightarrow> (True, k\<lparr>kk_connections := AList.delete cid (kk_connections k)\<rparr>)
      | None \<Rightarrow> (False, k))"

section \<open>What one connection sees\<close>

text \<open>A connection without the handles of the shared worker and the shared counter.\<close>

definition kc_view :: "kcp_conn \<Rightarrow> kcp_conn" where
  "kc_view c = c\<lparr>kc_worker := Timer_init, kcp_timerid := 0, heartbeat_timerid := 0, server_conv_index := 0\<rparr>"

lemma kc_view_simps [simp]:
  "kc_cid (kc_view c) = kc_cid c" "conn_status (kc_view c) = conn_status c" "kc_kcp (kc_view c) = kc_kcp c"
  "kc_sock (kc_view c) = kc_sock c" "is_passive (kc_view c) = is_passive c" "kc_out (kc_view c) = kc_out c"
  "kc_msgs (kc_view c) = kc_msgs c" "kc_events (kc_view c) = kc_events c"
  by (simp_all add: kc_view_def)

lemma kc_view_upd [simp]:
  "kc_view (c\<lparr>kc_worker := w\<rparr>) = kc_view c" "kc_view (c\<lparr>server_conv_index := s\<rparr>) = kc_view c"
  "kc_view (c\<lparr>kc_worker := w, server_conv_index := s\<rparr>) = kc_view c"
  "kc_view (kc_view c) = kc_view c"
  "kc_view (c\<lparr>kc_cid := i\<rparr>) = (kc_view c)\<lparr>kc_cid := i\<rparr>"
  "kc_view (c\<lparr>conn_status := t\<rparr>) = (kc_view c)\<lparr>conn_status := t\<rparr>"
  "kc_view (c\<lparr>last_msg_time := now\<rparr>) = (kc_view c)\<lparr>last_msg_time := now\<rparr>"
  by (simp_all add: kc_view_def)

lemma kc_view_init_kcp [simp]:
  "kc_view (init_kcp c) = (kc_view c)\<lparr>kc_kcp := Some (fresh_engine (kc_cid c)), conn_status := CONN_KCP_READY\<rparr>"
  by (simp add: kc_view_def init_kcp_def fresh_engine_def Let_def split: prod.splits)

lemma kc_view_response [simp]: "kc_view (shakehand_response i c) = shakehand_response i (kc_view c)"
  by (simp add: kc_view_def shakehand_response_def send_to_def)

lemma kc_cid_response [simp]: "kc_cid (shakehand_response i c) = kc_cid c"
  by (simp add: shakehand_response_def send_to_def)

lemma kc_view_cid [simp]: "(kc_view c)\<lparr>kc_cid := kc_cid c\<rparr> = kc_view c"
  by (simp add: kc_view_def)

lemma kc_view_request [simp]: "kc_view (shakehand_request i c) = shakehand_request i (kc_view c)"
  by (simp add: kc_view_def shakehand_request_def send_to_def)

lemma kc_view_event [simp]: "kc_view (kc_event e c) = kc_event e (kc_view c)"
  by (simp add: kc_view_def kc_event_def)

lemma kc_view_receive [simp]: "kc_view (handle_receive d c) = handle_receive d (kc_view c)"
  by (auto simp: kc_view_def handle_receive_def split: option.splits prod.splits)

text \<open>The messages of a control datagram of at least 8 bytes do not reach into the stale bytes.\<close>

lemma msg_fields_append:
  "8 \<le> length d \<Longrightarrow> msg_conv (d @ s) = msg_conv d" "8 \<le> length d \<Longrightarrow> msg_cmd (d @ s) = msg_cmd d"
  by (simp_all add: msg_cmd_def nth_append msg_conv_def rd32_append)

lemma check_control_stale:
  assumes "8 \<le> length d"
  shows "check_control_message (d @ s) c = check_control_message d c"
  unfolding check_control_message_def is_control_def msg_fields_append [OF assms] ..

lemma check_control_view:
  assumes "kc_cid c \<noteq> 0"
  shows "fst (check_control_message m (kc_view c)) = fst (check_control_message m c)"
    and "kc_view (snd (check_control_message m c)) = kc_view (snd (check_control_message m (kc_view c)))"
  using assms by (simp_all add: check_control_message_def Let_def)

lemma kc_receive_passive_view:
  assumes "kc_cid c \<noteq> 0" "8 \<le> length d"
  shows "kc_view (kc_receive_passive now s d c) = kc_view (kc_receive_passive now [] d (kc_view c))"
proof -
  let ?c = "c\<lparr>last_msg_time := now\<rparr>"
  obtain b c1 where 1: "check_control_message d ?c = (b, c1)" by fastforce
  obtain b' c2 where 2: "check_control_message d (kc_view ?c) = (b', c2)" by fastforce
  have "b' = b" "kc_view c1 = kc_view c2"
    using check_control_view [of ?c d] assms(1) 1 2 by (simp_all del: kc_view_upd)
  then show ?thesis
    using 1 2 by (simp add: kc_receive_passive_def Let_def check_control_stale [OF assms(2)])
qed

lemma kc_receive_passive_cid:
  assumes "kc_cid c \<noteq> 0"
  shows "kc_cid (kc_receive_passive now s d c) \<noteq> 0"
proof -
  have "kc_cid (handle_receive d c) = kc_cid c" for c
    by (auto simp: handle_receive_def split: option.splits prod.splits)
  moreover have "kc_cid (snd (check_control_message m c)) \<noteq> 0" if "kc_cid c \<noteq> 0" for m c
    using that
    by (simp add: check_control_message_def Let_def kc_event_def shakehand_response_def shakehand_request_def send_to_def)
  moreover from this [of "c\<lparr>last_msg_time := now\<rparr>" "d @ s"] assms
  have "kc_cid (snd (check_control_message (d @ s) (c\<lparr>last_msg_time := now\<rparr>))) \<noteq> 0" by simp
  ultimately show ?thesis
    by (auto simp: kc_receive_passive_def Let_def split: prod.splits)
qed

section \<open>Demultiplexing\<close>

text \<open>Datagrams as they arrive: time, sender, bytes, and the memory a connection may be made in.\<close>

type_synonym arrival = "int \<times> endpoint \<times> bytes \<times> raw_memory"

definition kl_arrive :: "arrival \<Rightarrow> kcp_listener \<Rightarrow> kcp_listener" where
  "kl_arrive a l = (case a of (now, pt, d, mem) \<Rightarrow> kl_receive_done True now pt d mem l)"

definition kl_sender :: "arrival \<Rightarrow> endpoint" where
  "kl_sender a = fst (snd a)"

definition alone :: "arrival list \<Rightarrow> kcp_conn \<Rightarrow> kcp_conn" where
  "alone as c = fold (\<lambda>(now, pt, d, mem). kc_receive_passive now [] d) as c"

lemma alone_snoc: "alone (as @ [(now, pt, d, mem)]) c = kc_receive_passive now [] d (alone as c)"
  by (simp add: alone_def)

definition kl_serves :: "arrival list \<Rightarrow> kcp_conn \<Rightarrow> bool" where
  "kl_serves as c \<longleftrightarrow> kc_cid c \<noteq> 0 \<and>
     (\<exists>cid mem w. cid \<noteq> 0 \<and> kc_view c = kc_view (alone as (kc_listen (kl_new cid mem w))))"

lemma kl_apply_fields [simp]:
  "kl_receiving (kl_apply r f l) = kl_receiving l" "kl_index (kl_apply r f l) = kl_index l"
  "kl_fresh (kl_apply r f l) = kl_fresh l" "kl_remote (kl_apply r f l) = kl_remote l"
  "kl_connections (kl_apply r f l) = kl_connections l" "kl_buffer (kl_apply r f l) = kl_buffer l"
  "kl_find_connection pt (kl_apply r f l) = kl_find_connection pt l"
  by (simp_all add: kl_apply_def kl_find_connection_def Let_def)

lemma kl_apply_store:
  "kl_store (kl_apply r f l) = (kl_store l)(r := f ((kl_store l r)\<lparr>kc_worker := kl_worker l, server_conv_index := kl_conv_index l\<rparr>))"
  by (simp add: kl_apply_def Let_def)

lemma kl_serves_step:
  assumes "kl_serves as c" "8 \<le> length d"
  shows "kl_serves (as @ [(now, pt, d, mem)]) (kc_receive_passive now s d (c\<lparr>kc_worker := w, server_conv_index := i\<rparr>))"
proof -
  let ?c = "c\<lparr>kc_worker := w, server_conv_index := i\<rparr>"
  obtain cid mem' w' where v: "cid \<noteq> 0" "kc_view c = kc_view (alone as (kc_listen (kl_new cid mem' w')))"
    using assms(1) unfolding kl_serves_def by blast
  let ?a = "alone as (kc_listen (kl_new cid mem' w'))"
  have c: "kc_cid ?c \<noteq> 0" using assms(1) by (simp add: kl_serves_def)
  have "kc_cid ?a \<noteq> 0" using c v(2) kc_view_simps(1) by (metis kc_view_upd(3))
  then have "kc_view (kc_receive_passive now s d ?c) = kc_view (kc_receive_passive now [] d ?a)"
    using kc_receive_passive_view [OF c assms(2), of now s] kc_receive_passive_view [OF _ assms(2), of ?a now "[]"] v(2)
    by simp
  then show ?thesis
    using kc_receive_passive_cid [OF c] v(1) unfolding kl_serves_def alone_snoc by blast
qed

lemma kl_serves_listen:
  assumes "cid \<noteq> 0"
  shows "kl_serves [] (kc_listen ((kl_new cid mem w)\<lparr>kc_worker := w', server_conv_index := i\<rparr>))"
proof -
  have "kc_view (kc_listen (c\<lparr>kc_worker := w', server_conv_index := i\<rparr>)) = kc_view (kc_listen c)"
    "kc_cid (kc_listen c) = kc_cid c" for c
    by (simp_all add: kc_listen_def kc_view_def split: prod.splits)
  moreover have "kc_cid (kl_new cid mem w) = cid" by (simp add: kl_new_def kcp_conn_init_def split: prod.splits)
  ultimately show ?thesis
    unfolding kl_serves_def alone_def using assms by (intro conjI exI [of _ cid] exI [of _ mem] exI [of _ w]) simp_all
qed

lemma kl_find_created:
  assumes "kl_create_connection pt mem l = (r, l')"
  shows "kl_find_connection pt' l' = (if pt' = pt then Some r else kl_find_connection pt' l)"
    and "r = kl_fresh l" "kl_fresh l' = r + 1" "kl_remote l' = (kl_remote l)(r := pt)" "kl_receiving l' = kl_receiving l"
    "kl_index l' = kl_index l + 1" "kl_store l' = (kl_store l)(r := kl_new (ucast (kl_index l + 1)) mem (kl_worker l))"
  using assms
  by (auto simp: kl_create_connection_def kl_find_connection_def Let_def update_conv' addrstr_inject)

lemma index_word:
  fixes i :: u64
  assumes "unat i + 1 < 2 ^ 32"
  shows "unat (i + 1) = unat i + 1" "(ucast (i + 1) :: u32) \<noteq> 0"
proof -
  show u: "unat (i + 1) = unat i + 1" using assms by (simp add: unat_word_ariths)
  have "unat (ucast (i + 1) :: u32) = unat i + 1"
    using assms u by (simp add: unsigned_ucast_eq unsigned_take_bit_eq take_bit_nat_eq_self)
  then show "(ucast (i + 1) :: u32) \<noteq> 0" by (metis Suc_eq_plus1 nat.distinct(1) unat_0)
qed

definition kl_table_ok :: "kcp_listener \<Rightarrow> bool" where
  "kl_table_ok l \<longleftrightarrow> (\<forall>pt r. kl_find_connection pt l = Some r \<longrightarrow> r < kl_fresh l \<and> kl_remote l r = pt)"

lemma kl_table_okD: "kl_table_ok l \<Longrightarrow> kl_find_connection pt l = Some r \<Longrightarrow> r < kl_fresh l \<and> kl_remote l r = pt"
  unfolding kl_table_ok_def by blast

lemma kl_table_upd [simp]:
  "kl_table_ok (l\<lparr>kl_buffer := b\<rparr>) = kl_table_ok l" "kl_table_ok (l\<lparr>kl_receiving := x\<rparr>) = kl_table_ok l"
  "kl_table_ok (kl_apply r f l) = kl_table_ok l"
  by (simp_all add: kl_table_ok_def kl_find_connection_def)

lemma kl_table_created:
  assumes "kl_table_ok l" "kl_create_connection pt mem l = (r, l')"
  shows "kl_table_ok l'"
proof -
  note c = kl_find_created [OF assms(2)]
  have "q < kl_fresh l' \<and> kl_remote l' q = pt'" if "kl_find_connection pt' l' = Some q" for pt' q
    using that c kl_table_okD [OF assms(1), of pt' q] by (cases "pt' = pt") auto
  then show ?thesis unfolding kl_table_ok_def by blast
qed

text \<open>The two cases of an arrival.\<close>

lemma kl_arrive_known:
  assumes "kl_receiving l" "d \<noteq> []" "kl_find_connection pt l = Some r"
  shows "\<exists>b s. kl_arrive (now, pt, d, mem) l = kl_apply r (kc_receive_passive now s d) (l\<lparr>kl_buffer := b\<rparr>)"
  using assms by (auto simp: kl_arrive_def kl_receive_done_def kl_find_connection_def)

lemma kl_arrive_new:
  assumes "kl_receiving l" "d \<noteq> []" "kl_find_connection pt l = None"
  shows "\<exists>b s r l1. kl_create_connection pt mem (l\<lparr>kl_buffer := b\<rparr>) = (r, l1) \<and>
    kl_arrive (now, pt, d, mem) l = kl_apply r (kc_receive_passive now s d) (kl_apply r kc_listen l1)"
  using assms by (auto simp: kl_arrive_def kl_receive_done_def kl_find_connection_def split: prod.split)

definition kl_ready :: "nat \<Rightarrow> kcp_listener \<Rightarrow> bool" where
  "kl_ready n l \<longleftrightarrow> kl_receiving l \<and> kl_table_ok l \<and> unat (kl_index l) + n < 2 ^ 32"

definition kl_good :: "arrival \<Rightarrow> bool" where
  "kl_good a \<longleftrightarrow> 8 \<le> length (fst (snd (snd a)))"

lemma kl_find_buffer [simp]: "kl_find_connection pt (l\<lparr>kl_buffer := b\<rparr>) = kl_find_connection pt l"
  by (simp add: kl_find_connection_def)

lemma kl_known_laws:
  assumes "kl_ready (Suc n) l" "8 \<le> length d" "kl_find_connection pt l = Some r" "l' = kl_arrive (now, pt, d, mem) l"
  shows "kl_ready n l'" "kl_find_connection q l' = kl_find_connection q l" "kl_remote l' = kl_remote l"
    and "kl_find_connection q l = Some t \<Longrightarrow> q \<noteq> pt \<Longrightarrow> kl_store l' t = kl_store l t"
    and "kl_serves as (kl_store l r) \<Longrightarrow> kl_serves (as @ [(now, pt, d, mem)]) (kl_store l' r)"
proof -
  have "kl_receiving l" "d \<noteq> []" using assms(1,2) by (auto simp: kl_ready_def)
  from kl_arrive_known [OF this assms(3)] obtain b s where
    l': "l' = kl_apply r (kc_receive_passive now s d) (l\<lparr>kl_buffer := b\<rparr>)" using assms(4) by blast
  show "kl_ready n l'" "kl_find_connection q l' = kl_find_connection q l" "kl_remote l' = kl_remote l"
    using assms(1) by (simp_all add: l' kl_ready_def)
  show "kl_store l' t = kl_store l t" if "kl_find_connection q l = Some t" "q \<noteq> pt"
  proof -
    have "kl_table_ok l" using assms(1) by (simp add: kl_ready_def)
    then have "t \<noteq> r" using kl_table_okD [of l q t] kl_table_okD [of l pt r] that assms(3) by auto
    then show ?thesis by (simp add: l' kl_apply_store)
  qed
  show "kl_serves (as @ [(now, pt, d, mem)]) (kl_store l' r)" if "kl_serves as (kl_store l r)"
    using kl_serves_step [OF that assms(2)] by (simp add: l' kl_apply_store)
qed

lemma kl_new_laws:
  assumes "kl_ready (Suc n) l" "8 \<le> length d" "kl_find_connection pt l = None" "l' = kl_arrive (now, pt, d, mem) l"
  shows "kl_ready n l'" "kl_find_connection q l' = (if q = pt then Some (kl_fresh l) else kl_find_connection q l)"
    and "kl_remote l' = (kl_remote l)(kl_fresh l := pt)"
    and "kl_find_connection q l = Some t \<Longrightarrow> kl_store l' t = kl_store l t"
    and "kl_serves [(now, pt, d, mem)] (kl_store l' (kl_fresh l))"
proof -
  have "kl_receiving l" "d \<noteq> []" using assms(1,2) by (auto simp: kl_ready_def)
  from kl_arrive_new [OF this assms(3)] obtain b s r l1 where
    cr: "kl_create_connection pt mem (l\<lparr>kl_buffer := b\<rparr>) = (r, l1)"
    and l': "l' = kl_apply r (kc_receive_passive now s d) (kl_apply r kc_listen l1)" using assms(4) by blast
  note c = kl_find_created [OF cr]
  have i: "unat (kl_index l) + 1 < 2 ^ 32" using assms(1) by (simp add: kl_ready_def)
  have t: "kl_table_ok l1" using kl_table_created [OF _ cr] assms(1) by (simp add: kl_ready_def)
  show "kl_ready n l'" using assms(1) t c(5,6) index_word(1) [OF i] by (simp add: l' kl_ready_def)
  show "kl_find_connection q l' = (if q = pt then Some (kl_fresh l) else kl_find_connection q l)"
    "kl_remote l' = (kl_remote l)(kl_fresh l := pt)"
    using c by (simp_all add: l')
  show "kl_store l' t = kl_store l t" if "kl_find_connection q l = Some t"
    using that kl_table_okD [of l q t] assms(1) c by (simp add: l' kl_apply_store kl_ready_def)
  have "kl_serves [] (kl_store (kl_apply r kc_listen l1) r)"
    using kl_serves_listen [OF index_word(2) [OF i]] c by (simp add: kl_apply_store)
  from kl_serves_step [OF this assms(2)] show "kl_serves [(now, pt, d, mem)] (kl_store l' (kl_fresh l))"
    using c(2) by (simp add: l' kl_apply_store)
qed

interpretation kcp_clients: endpoint_server kl_find_connection "\<lambda>l r. (kl_remote l r, kl_store l r)" kl_arrive kl_sender
  "\<lambda>pt as c. fst c = pt \<and> kl_serves as (snd c)" kl_ready kl_good
proof
  fix n l and a :: arrival and pt r as
  assume r: "kl_ready (Suc n) l" "kl_good a"
  obtain now q d mem where a: "a = (now, q, d, mem)" using prod_cases4 by blast
  have d: "8 \<le> length d" "kl_sender a = q" using r(2) by (simp_all add: kl_good_def a kl_sender_def)
  note known = kl_known_laws [OF r(1) d(1), of q _ _ now mem, OF _ refl]
  note new = kl_new_laws [OF r(1) d(1), of q _ now mem, OF _ refl]
  show "kl_ready n (kl_arrive a l)"
    using known(1) new(1) by (cases "kl_find_connection q l") (auto simp: a)
  show "kl_find_connection pt (kl_arrive a l) = kl_find_connection pt l" if "kl_sender a \<noteq> pt"
    using known(2) new(2) d that by (cases "kl_find_connection q l") (auto simp: a)
  have tab: "t < kl_fresh l \<and> kl_remote l t = p" if "kl_find_connection p l = Some t" for p t
    using r(1) kl_table_okD that by (simp add: kl_ready_def)
  show "(kl_remote (kl_arrive a l) r, kl_store (kl_arrive a l) r) = (kl_remote l r, kl_store l r)"
    if "kl_sender a \<noteq> pt" "kl_find_connection pt l = Some r"
    using known(3,4) new(3,4) d that tab [OF that(2)] by (cases "kl_find_connection q l") (auto simp: a)
  show "kl_find_connection (kl_sender a) (kl_arrive a l) = Some r \<and>
      fst (kl_remote (kl_arrive a l) r, kl_store (kl_arrive a l) r) = kl_sender a \<and>
      kl_serves (as @ [a]) (snd (kl_remote (kl_arrive a l) r, kl_store (kl_arrive a l) r))"
    if "kl_find_connection (kl_sender a) l = Some r"
      "fst (kl_remote l r, kl_store l r) = kl_sender a \<and> kl_serves as (snd (kl_remote l r, kl_store l r))"
    using known(2,3,5) that d by (simp add: a)
  show "\<exists>r. kl_find_connection (kl_sender a) (kl_arrive a l) = Some r \<and>
      fst (kl_remote (kl_arrive a l) r, kl_store (kl_arrive a l) r) = kl_sender a \<and>
      kl_serves [a] (snd (kl_remote (kl_arrive a l) r, kl_store (kl_arrive a l) r))"
    if "kl_find_connection (kl_sender a) l = None"
    using new(2,3,5) that d by (simp add: a)
qed


section \<open>An endpoint whose connection was released\<close>

text \<open>Datagrams arrive, the wait fails, and member functions and timers of the connections run.\<close>

inductive kl_step :: "kcp_listener \<Rightarrow> kcp_listener \<Rightarrow> bool" where
  kl_datagram: "kl_step l (kl_receive_done ok now pt d mem l)"
| kl_member: "r < kl_fresh l \<Longrightarrow> kl_step l (kl_apply r (run_op op) l)"

text \<open>What any call can do to a connection that is closed and has no engine.\<close>

definition dead_le :: "kcp_conn \<Rightarrow> kcp_conn \<Rightarrow> bool" where
  "dead_le c c' \<longleftrightarrow> conn_status c' = CONN_CLOSED \<and> kc_kcp c' = None \<and> kc_msgs c' = kc_msgs c \<and>
     kc_sent c' = kc_sent c \<and> (\<exists>es. kc_events c' = kc_events c @ es \<and> set es \<subseteq> {EVT_SEND, EVT_DISCONNECT})"

lemma dead_le_trans: "dead_le a b \<Longrightarrow> dead_le b c \<Longrightarrow> dead_le a c"
  unfolding dead_le_def by (elim conjE exE, intro conjI) auto

lemma dead_receive:
  assumes "conn_status c = CONN_CLOSED" "kc_kcp c = None"
  shows "kc_receive_passive now s d c = c\<lparr>last_msg_time := now\<rparr>"
  using assms by (simp add: kc_receive_passive_def released_incoming Let_def)

lemma dead_op:
  assumes "conn_status c = CONN_CLOSED" "kc_kcp c = None"
  shows "dead_le c (run_op op c)"
  using assms
  by (cases op) (simp_all add: dead_le_def kc_send_def kc_msend_def kc_mpush_def shakehand_request_def send_to_def
      kcp_tick_def kc_disconnect_def kc_disconnect_done_def kc_sent_done_def kc_event_def kc_release_def
      kc_receive_def dead_receive released_incoming kc_heartbeat_tick_def kc_send_heartbeat_def Let_def)

definition kl_gone :: "endpoint \<Rightarrow> nat \<Rightarrow> kcp_conn \<Rightarrow> kcp_listener \<Rightarrow> bool" where
  "kl_gone pt r c l \<longleftrightarrow> kl_table_ok l \<and> kl_find_connection pt l = Some r \<and> dead_le c (kl_store l r)"

lemma kl_gone_apply:
  assumes "kl_gone pt r c l" and f: "\<And>c. r' = r \<Longrightarrow> conn_status c = CONN_CLOSED \<Longrightarrow> kc_kcp c = None \<Longrightarrow> dead_le c (f c)"
  shows "kl_gone pt r c (kl_apply r' f l)"
proof -
  let ?c = "(kl_store l r)\<lparr>kc_worker := kl_worker l, server_conv_index := kl_conv_index l\<rparr>"
  have d: "dead_le c (kl_store l r)" using assms(1) by (simp add: kl_gone_def)
  have "dead_le c (f ?c)" if "r' = r"
  proof (rule dead_le_trans)
    show "dead_le c ?c" using d by (simp add: dead_le_def)
    then show "dead_le ?c (f ?c)" using f [OF that, of ?c] by (simp add: dead_le_def)
  qed
  moreover have "kl_table_ok (kl_apply r' f l)" using assms(1) by (simp add: kl_gone_def kl_table_ok_def)
  ultimately show ?thesis using assms(1) d by (auto simp: kl_gone_def kl_apply_store)
qed

lemma kl_gone_buffer: "kl_gone pt r c l \<Longrightarrow> kl_gone pt r c (l\<lparr>kl_buffer := b\<rparr>)"
  by (simp add: kl_gone_def kl_table_ok_def kl_find_connection_def)

lemma kl_gone_receive:
  assumes "kl_gone pt r c l"
  shows "kl_gone pt r c (kl_receive_done ok now pt' d mem l)"
proof (cases "kl_receiving l \<and> ok \<and> d \<noteq> []")
  case True
  let ?l = "l\<lparr>kl_buffer := blit (kl_buffer l) 0 d\<rparr>"
  let ?recv = "\<lambda>l. kc_receive_passive now (drop (length d) (kl_buffer l)) d"
  have l: "kl_gone pt r c ?l" using assms by (rule kl_gone_buffer)
  have recv: "dead_le x (kc_receive_passive now s d x)" if "conn_status x = CONN_CLOSED" "kc_kcp x = None" for s x
    using that by (simp add: dead_receive dead_le_def)
  show ?thesis
  proof (cases "kl_find_connection pt' ?l")
    case (Some q)
    then have "kl_receive_done ok now pt' d mem l = kl_apply q (?recv ?l) ?l"
      using True by (simp add: kl_receive_done_def)
    then show ?thesis using kl_gone_apply [OF l recv, of q] by simp
  next
    case None
    obtain q l1 where cr: "kl_create_connection pt' mem ?l = (q, l1)" by fastforce
    have ne: "q \<noteq> r" "pt \<noteq> pt'"
      using kl_find_created(2) [OF cr] l kl_table_okD [of ?l pt r] None by (auto simp: kl_gone_def)
    have "kl_gone pt r c l1"
      using l kl_table_created [OF _ cr] kl_find_created(1,7) [OF cr] ne by (simp add: kl_gone_def)
    then have "kl_gone pt r c (kl_apply q (?recv (kl_apply q kc_listen l1)) (kl_apply q kc_listen l1))"
      using ne by (intro kl_gone_apply) auto
    then show ?thesis using True None cr by (simp add: kl_receive_done_def)
  qed
next
  case False
  have "kl_gone pt r c (l\<lparr>kl_receiving := b\<rparr>)" for b
    using assms by (simp add: kl_gone_def kl_table_ok_def kl_find_connection_def)
  then show ?thesis using False assms by (auto simp: kl_receive_done_def)
qed

lemma kl_gone_step: "kl_step l l' \<Longrightarrow> kl_gone pt r c l \<Longrightarrow> kl_gone pt r c l'"
  by (cases rule: kl_step.cases) (auto intro: kl_gone_receive kl_gone_apply dead_op)

lemma kl_table_step:
  assumes "kl_step l l'" "kl_table_ok l"
  shows "kl_table_ok l'"
  using assms(1)
proof cases
  case (kl_datagram ok now pt d mem)
  obtain q l1 where cr: "kl_create_connection pt mem (l\<lparr>kl_buffer := blit (kl_buffer l) 0 d\<rparr>) = (q, l1)" by fastforce
  then have "kl_table_ok l1" using kl_table_created [OF _ cr] assms(2) by simp
  then show ?thesis
    using kl_datagram assms(2) cr by (auto simp: kl_receive_done_def Let_def split: option.split)
qed (use assms(2) in simp)

text \<open>
  C17: an endpoint does not come back. Once the listener's connection for an endpoint is
  released (after a heartbeat timeout, say), no sequence of datagrams, calls and timers makes
  the listener set up another one: the endpoint stays bound to the closed connection, which
  delivers nothing and never reports a new connection.
\<close>

theorem kcp_endpoint_dead:
  assumes "kl_connections l0 = []" "kl_step\<^sup>*\<^sup>* l0 l" "kl_find_connection pt l = Some r"
    and "conn_status (kl_store l r) \<noteq> CONN_CLOSED" "kl_step\<^sup>*\<^sup>* (kl_apply r kc_release l) l'"
  shows "kl_find_connection pt l' = Some r \<and> conn_status (kl_store l' r) = CONN_CLOSED \<and> kc_kcp (kl_store l' r) = None \<and>
    kc_msgs (kl_store l' r) = kc_msgs (kl_store l r) \<and>
    count_list (kc_events (kl_store l' r)) EVT_CONNECT = count_list (kc_events (kl_store l r)) EVT_CONNECT"
proof -
  have "kl_table_ok l0" using assms(1) by (simp add: kl_table_ok_def kl_find_connection_def)
  with assms(2) have t: "kl_table_ok l" by (induction rule: rtranclp_induct) (auto intro: kl_table_step)
  have "dead_le (kl_store l r) (kl_store (kl_apply r kc_release l) r)"
    using assms(4) by (simp add: dead_le_def kl_apply_store kc_release_def Let_def)
  then have "kl_gone pt r (kl_store l r) (kl_apply r kc_release l)" using t assms(3) by (simp add: kl_gone_def)
  with assms(5) have d: "kl_gone pt r (kl_store l r) l'"
    by (induction rule: rtranclp_induct) (auto intro: kl_gone_step)
  then obtain es where es: "kc_events (kl_store l' r) = kc_events (kl_store l r) @ es" "set es \<subseteq> {EVT_SEND, EVT_DISCONNECT}"
    by (auto simp: kl_gone_def dead_le_def)
  then have "count_list es EVT_CONNECT = 0" by (auto simp: count_list_0_iff)
  with d es(1) show ?thesis by (simp add: kl_gone_def dead_le_def)
qed

section \<open>The connector's table\<close>

definition kk_find :: "u64 \<Rightarrow> kcp_connector \<Rightarrow> nat option" where
  "kk_find cid k = map_of (kk_connections k) cid"

text \<open>
  Connecting with an id files the new connection under it and under no other id: the
  table keeps every other entry; if the name resolves, the connection has asked for a
  handshake with that id at the first endpoint, and if not, it stays idle in the table.
\<close>

theorem kcp_connector_connect:
  assumes "0 < i" "i < 2 ^ 32" "kk_connect i reconn resolved mem k = (res, k')"
  shows "kk_find i k' = Some (kk_fresh k) \<and> (\<forall>j. j \<noteq> i \<longrightarrow> kk_find j k' = kk_find j k) \<and>
    (case resolved of
       None \<Rightarrow> res = None \<and> conn_status (kk_store k' (kk_fresh k)) = CONN_IDLE
     | Some [] \<Rightarrow> res = Some (kk_fresh k) \<and> conn_status (kk_store k' (kk_fresh k)) = CONN_IDLE
     | Some (pt # pts) \<Rightarrow> res = Some (kk_fresh k) \<and> kk_remote k' (kk_fresh k) = pt \<and>
         conn_status (kk_store k' (kk_fresh k)) = CONN_OPEN \<and>
         kc_out (kk_store k' (kk_fresh k)) = [shake_image (ucast i) KCP_SHAKEHAND_REQUEST])"
proof -
  have "unat i < 2 ^ 32" using assms(2) by (simp add: word_less_nat_alt)
  then have "unat (ucast (ucast i :: u32) :: u64) = unat i"
    by (simp add: unsigned_ucast_eq unsigned_take_bit_eq take_bit_nat_eq_self)
  then have u: "ucast (ucast i :: u32) = i" by (rule unsigned_word_eqI)
  show ?thesis
    using assms(1,3)
    by (auto simp: kk_connect_def kk_open_def kk_find_def kk_apply_def kc_connect_def kl_new_def kcp_conn_init_def
        shakehand_request_def send_to_def Let_def update_conv' u split: option.splits list.splits prod.splits)
qed

section \<open>Witnesses\<close>

definition demo_kl :: kcp_listener where
  "demo_kl = \<lparr>kl_store = \<lambda>_. kl_new 1 (0, [], []) Timer_init, kl_remote = \<lambda>_. ([], 0), kl_fresh = 0, kl_connections = [],
     kl_worker = Timer_init, kl_buffer = [], kl_sock = True, kl_receiving = True, kl_index = 1024, kl_conv_index = 0x1000\<rparr>"

definition demo_arrivals :: "arrival list" where
  "demo_arrivals = [(0, (''a'', 5), shake_image 9 KCP_SHAKEHAND_REQUEST, (0, [], [])),
     (1, (''b'', 5), shake_image 8 KCP_SHAKEHAND_REQUEST, (0, [], []))]"


definition demo_kl1 :: kcp_listener where
  "demo_kl1 = kl_arrive (hd demo_arrivals) demo_kl"

lemma demo_kl1:
  "kl_find_connection (''a'', 5) demo_kl1 = Some 0" "conn_status (kl_store demo_kl1 0) = CONN_KCP_READY"
proof -
  let ?d = "shake_image 9 KCP_SHAKEHAND_REQUEST"
  let ?l = "demo_kl\<lparr>kl_buffer := blit [] 0 ?d\<rparr>"
  obtain r l1 where cr: "kl_create_connection (''a'', 5) (0, [], []) ?l = (r, l1)" by fastforce
  note c = kl_find_created [OF cr]
  let ?l2 = "kl_apply r kc_listen l1"
  have r: "r = 0" using c(2) by (simp add: demo_kl_def)
  have "?d \<noteq> []" by (simp add: shake_image_def)
  then have k: "demo_kl1 = kl_apply r (kc_receive_passive 0 (drop 8 (kl_buffer ?l2)) ?d) ?l2"
    using cr by (simp add: demo_kl1_def kl_arrive_def demo_arrivals_def kl_receive_done_def demo_kl_def kl_find_connection_def)
  show "kl_find_connection (''a'', 5) demo_kl1 = Some 0" using c(1) r by (simp add: k)
  have o: "opened 1025 (kc_listen ((kl_new 1025 (0, [], []) w)\<lparr>kc_worker := w1, server_conv_index := s\<rparr>)
      \<lparr>kc_worker := w2, server_conv_index := s2\<rparr>)" for w w1 w2 s s2
    by (simp add: opened_def kc_listen_def kl_new_def kcp_conn_init_def split: prod.splits)
  have "(ucast (kl_index ?l + 1) :: u32) = 1025" by (simp add: demo_kl_def)
  then show "conn_status (kl_store demo_kl1 0) = CONN_KCP_READY"
    using opened_request(1) [OF o _ refl, of 9] c(7) r by (simp add: k kl_apply_store handshaken_def)
qed

theorem kcp_endpoint_dead_witness:
  "conn_status (kl_store (kl_arrive (hd demo_arrivals) (kl_apply 0 kc_release demo_kl1)) 0) = CONN_CLOSED"
proof -
  have a: "kl_step l (kl_arrive (hd demo_arrivals) l)" for l
    using kl_datagram by (simp add: kl_arrive_def demo_arrivals_def)
  have 1: "kl_step\<^sup>*\<^sup>* demo_kl demo_kl1" unfolding demo_kl1_def using a by blast
  have 2: "kl_step\<^sup>*\<^sup>* (kl_apply 0 kc_release demo_kl1) (kl_arrive (hd demo_arrivals) (kl_apply 0 kc_release demo_kl1))"
    using a by blast
  have "kl_connections demo_kl = []" by (simp add: demo_kl_def)
  from kcp_endpoint_dead [OF this 1 demo_kl1(1) _ 2] demo_kl1(2) show ?thesis by simp
qed

definition demo_kk :: kcp_connector where
  "demo_kk = \<lparr>kk_store = \<lambda>_. kl_new 1 (0, [], []) Timer_init, kk_remote = \<lambda>_. ([], 0), kk_fresh = 3, kk_connections = [(7, 2)],
     kk_worker = Timer_init, kk_index = 1024\<rparr>"

theorem kcp_connector_connect_witness:
  "kk_find 9 (snd (kk_connect 9 True (Some [(''a'', 5)]) (0, [], []) demo_kk)) = Some 3 \<and>
   kk_find 7 (snd (kk_connect 9 True (Some [(''a'', 5)]) (0, [], []) demo_kk)) = Some 2"
  using kcp_connector_connect [of 9 True "Some [(''a'', 5)]" "(0, [], [])" demo_kk, OF _ _ prod.collapse [symmetric]]
  by (simp add: demo_kk_def kk_find_def)

end
