(* ===== verification/Udp.thy ===== *)
theory Udp
  imports Endpoint Registry Tcp_Socket Timer
begin

text \<open>
  \<^verbatim>\<open>udp/udp_connection.hpp\<close>, \<^verbatim>\<open>udp/udp_listener.hpp\<close> and \<^verbatim>\<open>udp/udp_connector.hpp\<close>: datagram
  connections without a protocol of their own. A listener has one socket and gives every
  endpoint a connection object; a connector gives each connection a socket. Handlers work on
  a user state per connection and may send on it; what asio does with addresses and sockets
  enters as arguments. The receive buffers do not appear: all that is read from them is the
  datagram that has just arrived.
\<close>

section \<open>Handlers\<close>

datatype PackageType = PACKAGE_PING | PACKAGE_PONG | PACKAGE_USER

text \<open>What a handler returns, leaves of the user state, and sends on the connection.\<close>

type_synonym 'u udp_reaction = "'u \<Rightarrow> bool \<times> 'u \<times> bytes list"

record 'u udp_handler =
  uh_event :: "NetEvent \<Rightarrow> 'u udp_reaction"
  uh_data :: "bytes \<Rightarrow> 'u udp_reaction"

text \<open>The virtual functions of the connection class.\<close>

record 'u udp_class = "'u udp_handler" +
  uh_package :: "bytes \<Rightarrow> 'u \<Rightarrow> PackageType \<times> 'u \<times> bytes list"

section \<open>Connections\<close>

datatype UdpStatus = UDP_IDLE | UDP_OPEN | UDP_CLOSING | UDP_CLOSED

text \<open>
  \<open>uc_sock\<close>: the socket pointer is set. \<open>uc_owner\<close>: a \<^verbatim>\<open>user_event_handler\<close> is set. \<open>uc_out\<close>, the
  datagrams given to the socket, and \<open>uc_released\<close>, the releases posted for the factory, are
  histories.
\<close>

record 'u udp_conn =
  uc_cid :: u32
  uc_status :: UdpStatus
  uc_sock :: bool
  uc_remote :: endpoint
  uc_last :: int
  uc_owner :: bool
  uc_timer :: "timer option"
  uc_receiving :: bool
  uc_user :: 'u
  uc_out :: "(endpoint \<times> bytes) list"
  uc_released :: nat

definition udp_conn_new :: "u32 \<Rightarrow> 'u \<Rightarrow> 'u udp_conn" where
  "udp_conn_new cid u =
     \<lparr>uc_cid = cid, uc_status = UDP_IDLE, uc_sock = False, uc_remote = ([], 0), uc_last = 0,
      uc_owner = False, uc_timer = None, uc_receiving = False, uc_user = u, uc_out = [], uc_released = 0\<rparr>"

text \<open>
  \<^verbatim>\<open>msend\<close>: the arguments are appended to one buffer, which goes out as one datagram. On the
  way back every level adds the length of its argument to the result of the last one.
\<close>

fun udp_mpush :: "bytes \<Rightarrow> bytes list \<Rightarrow> 'u udp_conn \<Rightarrow> int \<times> 'u udp_conn" where
  "udp_mpush sndBuf [] c =
     (if \<not> uc_sock c then (-1, c)
      else if sndBuf \<noteq> [] then (sint (of_nat (length sndBuf) :: u32), c\<lparr>uc_out := uc_out c @ [(uc_remote c, sndBuf)]\<rparr>)
      else (0, c))"
| "udp_mpush sndBuf (data # rest) c =
     (let ret = sint (of_nat (length data) :: u32) in
      case udp_mpush (sndBuf @ data) rest c of (rst, c) \<Rightarrow> if rst < 0 then (-1, c) else (ret + rst, c))"

definition udp_msend :: "bytes list \<Rightarrow> 'u udp_conn \<Rightarrow> int \<times> 'u udp_conn" where
  "udp_msend args c = udp_mpush [] args c"

definition udp_send :: "bytes \<Rightarrow> 'u udp_conn \<Rightarrow> int \<times> 'u udp_conn" where
  "udp_send msg c = udp_msend [msg] c"

definition udp_sync_send :: "bool \<Rightarrow> bytes \<Rightarrow> 'u udp_conn \<Rightarrow> int \<times> 'u udp_conn" where
  "udp_sync_send ok msg c =
     (if uc_sock c \<and> ok then (sint (of_nat (length msg) :: u32), c\<lparr>uc_out := uc_out c @ [(uc_remote c, msg)]\<rparr>)
      else (-1, c))"

definition udp_close :: "'u udp_conn \<Rightarrow> 'u udp_conn" where
  "udp_close c = (if uc_sock c then c\<lparr>uc_sock := False\<rparr> else c)"

text \<open>A handler runs: its state is kept and its messages are sent.\<close>

definition udp_react :: "'u udp_reaction \<Rightarrow> 'u udp_conn \<Rightarrow> bool \<times> 'u udp_conn" where
  "udp_react f c =
     (case f (uc_user c) of (ret, u, msgs) \<Rightarrow> (ret, fold (\<lambda>m c. snd (udp_send m c)) msgs (c\<lparr>uc_user := u\<rparr>)))"

text \<open>The owner's chain of handlers; null handlers are skipped, the first false ends it.\<close>

fun udp_chain :: "('u udp_handler \<Rightarrow> 'u udp_reaction) \<Rightarrow> 'u udp_handler option list \<Rightarrow> 'u udp_conn \<Rightarrow> bool \<times> 'u udp_conn" where
  "udp_chain f [] c = (True, c)"
| "udp_chain f (None # hs) c = udp_chain f hs c"
| "udp_chain f (Some h # hs) c = (case udp_react (f h) c of (ret, c) \<Rightarrow> if ret then udp_chain f hs c else (False, c))"

definition udp_owner_data :: "'u udp_handler option list \<Rightarrow> bytes \<Rightarrow> 'u udp_conn \<Rightarrow> bool \<times> 'u udp_conn" where
  "udp_owner_data chain d c = udp_chain (\<lambda>h. uh_data h d) chain c"

definition udp_owner_event :: "bool \<Rightarrow> 'u udp_handler option list \<Rightarrow> NetEvent \<Rightarrow> 'u udp_conn \<Rightarrow> bool \<times> 'u udp_conn" where
  "udp_owner_event factory chain evt c =
     (case udp_chain (\<lambda>h. uh_event h evt) chain c of (ret, c) \<Rightarrow>
        (ret, if evt = EVT_RELEASE \<and> factory then c\<lparr>uc_released := uc_released c + 1\<rparr> else c))"

definition udp_process_data :: "'u udp_handler option list \<Rightarrow> 'u udp_class \<Rightarrow> bytes \<Rightarrow> 'u udp_conn \<Rightarrow> bool \<times> 'u udp_conn" where
  "udp_process_data chain k d c =
     (case (if uc_owner c then udp_owner_data chain d c else (True, c)) of (ret, c) \<Rightarrow>
        if ret then udp_react (uh_data k d) c else (ret, c))"

definition udp_process_event ::
  "bool \<Rightarrow> 'u udp_handler option list \<Rightarrow> 'u udp_class \<Rightarrow> NetEvent \<Rightarrow> 'u udp_conn \<Rightarrow> bool \<times> 'u udp_conn" where
  "udp_process_event factory chain k evt c =
     (case (if uc_owner c then udp_owner_event factory chain evt c else (True, c)) of (ret, c) \<Rightarrow>
        if ret then udp_react (uh_event k evt) c else (ret, c))"

definition udp_init ::
  "bool \<Rightarrow> 'u udp_handler option list \<Rightarrow> 'u udp_class \<Rightarrow> bool \<Rightarrow> bool \<Rightarrow> 'u udp_conn \<Rightarrow> 'u udp_conn" where
  "udp_init factory chain k sock owner c =
     snd (udp_process_event factory chain k EVT_CREATE (c\<lparr>uc_sock := sock, uc_owner := owner\<rparr>))"

definition udp_release :: "bool \<Rightarrow> 'u udp_handler option list \<Rightarrow> 'u udp_class \<Rightarrow> 'u udp_conn \<Rightarrow> 'u udp_conn" where
  "udp_release factory chain k c = snd (udp_process_event factory chain k EVT_RELEASE c)"

text \<open>
  \<^verbatim>\<open>connect\<close>: \<open>valid\<close> says which texts asio takes as addresses, \<open>sock_ok\<close> that opening,
  binding and joining succeed; None is an exception.
\<close>

definition udp_connect ::
  "(string \<Rightarrow> bool) \<Rightarrow> bool \<Rightarrow> bool \<Rightarrow> endpoint \<Rightarrow> u32 \<Rightarrow> string \<Rightarrow> 'u udp_conn \<Rightarrow> 'u udp_conn option" where
  "udp_connect valid multicast sock_ok pt localPort localAddr c =
     (let c = c\<lparr>uc_remote := pt, uc_sock := True\<rparr> in
      if \<not> sock_ok then None
      else if multicast then
        if valid (if localAddr = [] then ''0.0.0.0'' else localAddr)
        then Some (c\<lparr>uc_status := UDP_OPEN, uc_receiving := True\<rparr>) else None
      else if localPort > 0 \<and> \<not> valid localAddr then None
      else Some (c\<lparr>uc_timer := Some (snd (start_timer True 4000000 True Timer_init)),
                   uc_status := UDP_OPEN, uc_receiving := True\<rparr>))"

text \<open>The handler of the timer that \<^verbatim>\<open>connect\<close> starts; times in microseconds.\<close>

definition udp_tick :: "bool \<Rightarrow> 'u udp_handler option list \<Rightarrow> 'u udp_class \<Rightarrow> int \<Rightarrow> 'u udp_conn \<Rightarrow> 'u udp_conn" where
  "udp_tick factory chain k now c = (if now - uc_last c > 3000000 then udp_release factory chain k c else c)"

text \<open>The completion of the receive of a connection with its own socket.\<close>

definition udp_package :: "'u udp_class \<Rightarrow> bytes \<Rightarrow> 'u udp_conn \<Rightarrow> PackageType \<times> 'u udp_conn" where
  "udp_package k d c =
     (case uh_package k d (uc_user c) of (p, u, msgs) \<Rightarrow> (p, fold (\<lambda>m c. snd (udp_send m c)) msgs (c\<lparr>uc_user := u\<rparr>)))"

definition udp_receive_done ::
  "'u udp_handler option list \<Rightarrow> 'u udp_class \<Rightarrow> bool \<Rightarrow> int \<Rightarrow> bytes \<Rightarrow> 'u udp_conn \<Rightarrow> 'u udp_conn" where
  "udp_receive_done chain k ok now d c =
     (if \<not> uc_receiving c then c
      else if ok \<and> d \<noteq> [] then
        let c = c\<lparr>uc_last := now\<rparr> in
        (case udp_package k d c of (p, c) \<Rightarrow> if p = PACKAGE_USER then snd (udp_process_data chain k d c) else c)
      else c\<lparr>uc_receiving := False\<rparr>)"

section \<open>The listener\<close>

record 'u udp_listener =
  ul_store :: "nat \<Rightarrow> 'u udp_conn"
  ul_fresh :: nat
  ul_connections :: "(string \<times> nat) list"
  ul_sock :: bool
  ul_receiving :: bool
  ul_port :: u32
  ul_multi :: string
  ul_index :: u64
  ul_chain :: "'u udp_handler option list"
  ul_factory :: bool
  ul_out :: "(endpoint \<times> bytes) list"

text \<open>\<^verbatim>\<open>start\<close>: None is an exception, of a bad address or of the socket.\<close>

definition ul_start :: "(string \<Rightarrow> bool) \<Rightarrow> bool \<Rightarrow> KNetUrl \<Rightarrow> bool \<Rightarrow> 'u udp_listener \<Rightarrow> (bool \<times> 'u udp_listener) option" where
  "ul_start valid sock_ok url factory l =
     (let multiHost = url_get id ''multi'' [] url;
          l = l\<lparr>ul_factory := factory, ul_port := ucast (port url), ul_sock := True\<rparr>
      in if \<not> valid (host url) \<or> \<not> sock_ok then None
         else if multiHost = [] then Some (True, l\<lparr>ul_receiving := True\<rparr>)
         else if valid multiHost then Some (True, l\<lparr>ul_multi := multiHost, ul_receiving := True\<rparr>)
         else None)"

definition ul_find_connection :: "endpoint \<Rightarrow> 'u udp_listener \<Rightarrow> nat option" where
  "ul_find_connection pt l = map_of (ul_connections l) (addrstr pt)"

definition ul_create_connection :: "'u \<Rightarrow> endpoint \<Rightarrow> 'u udp_listener \<Rightarrow> nat \<times> 'u udp_listener" where
  "ul_create_connection u pt l =
     (let r = ul_fresh l; i = ul_index l + 1
      in (r, l\<lparr>ul_fresh := r + 1, ul_index := i, ul_store := (ul_store l)(r := udp_conn_new (ucast i) u),
               ul_connections := AList.update (addrstr pt) r (ul_connections l)\<rparr>))"

definition ul_apply :: "nat \<Rightarrow> ('u udp_conn \<Rightarrow> 'u udp_conn) \<Rightarrow> 'u udp_listener \<Rightarrow> 'u udp_listener" where
  "ul_apply r f l = l\<lparr>ul_store := (ul_store l)(r := f (ul_store l r))\<rparr>"

definition ul_broadcast :: "bytes \<Rightarrow> 'u udp_listener \<Rightarrow> 'u udp_listener" where
  "ul_broadcast msg l =
     (if ul_multi l = [] then fold (\<lambda>(k, r). ul_apply r (\<lambda>c. snd (udp_send msg c))) (ul_connections l) l
      else l\<lparr>ul_out := ul_out l @ [((ul_multi l, ucast (ul_port l)), msg)]\<rparr>)"

definition ul_stop :: "'u udp_listener \<Rightarrow> 'u udp_listener" where
  "ul_stop l = (if ul_sock l then l\<lparr>ul_sock := False, ul_connections := []\<rparr> else l\<lparr>ul_connections := []\<rparr>)"

definition ul_add_net_handler :: "'u udp_handler option \<Rightarrow> 'u udp_listener \<Rightarrow> 'u udp_listener" where
  "ul_add_net_handler h l = (if h = None then l else l\<lparr>ul_chain := ul_chain l @ [h]\<rparr>)"

definition ul_push_front :: "'u udp_handler option \<Rightarrow> 'u udp_listener \<Rightarrow> 'u udp_listener" where
  "ul_push_front h l = (if h = None then l else l\<lparr>ul_chain := h # ul_chain l\<rparr>)"

text \<open>Events and data the listener raises itself: first the connection, then the chain.\<close>

definition ul_raise ::
  "bool \<Rightarrow> 'u udp_handler option list \<Rightarrow> 'u udp_class \<Rightarrow> NetEvent \<Rightarrow> 'u udp_conn \<Rightarrow> 'u udp_conn" where
  "ul_raise factory chain k evt c =
     (case udp_react (uh_event k evt) c of (ret, c) \<Rightarrow> if ret then snd (udp_owner_event factory chain evt c) else c)"

text \<open>A datagram for a known connection, and for one that has just been made.\<close>

definition ul_deliver :: "bool \<Rightarrow> 'u udp_handler option list \<Rightarrow> 'u udp_class \<Rightarrow> bytes \<Rightarrow> 'u udp_conn \<Rightarrow> 'u udp_conn" where
  "ul_deliver factory chain k d c =
     (case udp_package k d c of (p, c) \<Rightarrow>
        if p = PACKAGE_USER then
          case udp_react (uh_data k d) c of (ret, c) \<Rightarrow>
            ul_raise factory chain k EVT_RECV (if ret then snd (udp_owner_data chain d c) else c)
        else c)"

definition ul_welcome ::
  "bool \<Rightarrow> 'u udp_handler option list \<Rightarrow> 'u udp_class \<Rightarrow> endpoint \<Rightarrow> 'u udp_conn \<Rightarrow> 'u udp_conn" where
  "ul_welcome factory chain k pt c =
     ul_raise factory chain k EVT_CONNECT ((udp_init factory chain k True True c)\<lparr>uc_remote := pt\<rparr>)"

text \<open>The completion of the receive; on an error \<open>pt\<close> is the sender of the last datagram.\<close>

definition ul_receive_done ::
  "'u udp_class \<Rightarrow> 'u \<Rightarrow> bool \<Rightarrow> endpoint \<Rightarrow> bytes \<Rightarrow> 'u udp_listener \<Rightarrow> 'u udp_listener" where
  "ul_receive_done k u ok pt d l =
     (if \<not> ul_receiving l then l
      else let fac = ul_factory l; chain = ul_chain l in
        if ok \<and> d \<noteq> [] then
          let (r, l) = (case ul_find_connection pt l of
                          Some r \<Rightarrow> (r, l)
                        | None \<Rightarrow> (case ul_create_connection u pt l of (r, l) \<Rightarrow>
                                     (r, ul_apply r (ul_welcome fac chain k pt) l)))
          in ul_apply r (ul_deliver fac chain k d) l
        else
          (case ul_find_connection pt l of
             Some r \<Rightarrow> ul_apply r (ul_raise fac chain k EVT_DISCONNECT) l
           | None \<Rightarrow> l)\<lparr>ul_receiving := False\<rparr>)"

section \<open>The connector\<close>

record 'u udp_connector =
  uk_store :: "nat \<Rightarrow> 'u udp_conn"
  uk_fresh :: nat
  uk_connections :: "(string \<times> nat) list"
  uk_worker :: "(knet_worker \<times> bool) option"
  uk_index :: u64
  uk_chain :: "'u udp_handler option list"
  uk_factory :: bool

text \<open>\<open>uk_worker\<close>: the worker and whether the connector made it itself.\<close>

definition uk_start :: "bool \<Rightarrow> 'u udp_connector \<Rightarrow> bool \<times> 'u udp_connector" where
  "uk_start factory k =
     (True, k\<lparr>uk_factory := factory,
              uk_worker := (case uk_worker k of None \<Rightarrow> Some (worker_start False 1 (KNetWorker_new False), True) | Some w \<Rightarrow> Some w)\<rparr>)"

definition uk_add_net_handler :: "'u udp_handler option \<Rightarrow> 'u udp_connector \<Rightarrow> 'u udp_connector" where
  "uk_add_net_handler h k = (if h = None then k else k\<lparr>uk_chain := uk_chain k @ [h]\<rparr>)"

text \<open>The typed parameter \<^verbatim>\<open>get<uint16_t>\<close> of the URL.\<close>

definition cast_u16 :: "string \<Rightarrow> u16" where
  "cast_u16 val =
     (case scan_int val of
        None \<Rightarrow> 0
      | Some (neg, n, rest) \<Rightarrow>
          if n > 2 ^ 16 - 1 \<or> rest \<noteq> [] then 0 else if neg then - of_nat n else of_nat n)"

text \<open>
  \<open>multi\<close> says which addresses are multicast and \<open>resolved\<close> is what the resolver finds, None if
  it throws. The result is None for an exception, which leaves the table as it was.
\<close>

definition uk_connect ::
  "(string \<Rightarrow> bool) \<Rightarrow> (string \<Rightarrow> bool) \<Rightarrow> bool \<Rightarrow> endpoint list option \<Rightarrow> 'u udp_class \<Rightarrow> 'u \<Rightarrow> KNetUrl \<Rightarrow>
     'u udp_connector \<Rightarrow> (nat option \<times> 'u udp_connector) option" where
  "uk_connect valid multi sock_ok resolved cls u url k =
     (if uk_worker k = None then Some (None, k)
      else
        let r = uk_fresh k; i = uk_index k + 1;
            c = udp_init (uk_factory k) (uk_chain k) cls False True (udp_conn_new (ucast i) u);
            pt = (host url, port url);
            opened =
              (if \<not> valid (host url) then None
               else if multi (host url) then udp_connect valid True sock_ok pt (ucast (port url)) ''0.0.0.0'' c
               else case resolved of
                      None \<Rightarrow> None
                    | Some [] \<Rightarrow> Some c
                    | Some (q # _) \<Rightarrow>
                        udp_connect valid (multi (fst q)) sock_ok q (ucast (url_get cast_u16 ''bind_port'' 0 url))
                          (url_get id ''bind_addr'' [] url) c)
        in map_option (\<lambda>c. (Some r, k\<lparr>uk_fresh := r + 1, uk_index := i, uk_store := (uk_store k)(r := c),
                                      uk_connections := AList.update (addrstr pt) r (uk_connections k)\<rparr>)) opened)"

definition uk_stop :: "'u udp_connector \<Rightarrow> 'u udp_connector" where
  "uk_stop k =
     (let k = fold (\<lambda>(a, r) k. k\<lparr>uk_store := (uk_store k)(r := udp_close (uk_store k r))\<rparr>) (uk_connections k) k
      in k\<lparr>uk_connections := [], uk_worker := (case uk_worker k of
             Some (w, True) \<Rightarrow> Some (worker_stop w, True) | w \<Rightarrow> w)\<rparr>)"

section \<open>Sending\<close>

lemma udp_mpush_result:
  assumes "length sndBuf + length (concat args) < 2 ^ 31"
  shows "udp_mpush sndBuf args c =
    (let all = sndBuf @ concat args in
     if \<not> uc_sock c then (-1, c)
     else (int (length all) + int (length (concat args)),
           if all = [] then c else c\<lparr>uc_out := uc_out c @ [(uc_remote c, all)]\<rparr>))"
  using assms
proof (induction args arbitrary: sndBuf)
  case Nil
  then show ?case by (simp add: sint_of_nat_small)
next
  case (Cons a args)
  have "length (sndBuf @ a) + length (concat args) < 2 ^ 31" using Cons.prems by simp
  from Cons.IH [OF this] Cons.prems show ?case by (simp add: sint_of_nat_small Let_def)
qed

text \<open>
  Sending. A gathered send on a connection with a socket makes one datagram of all the
  arguments, addressed to the remote endpoint, or none if there is nothing to send; the value
  returned is twice the number of bytes. Without a socket it returns -1 and sends nothing.
\<close>

theorem udp_msend_result:
  assumes "length (concat args) < 2 ^ 31"
  shows "udp_msend args c =
    (if \<not> uc_sock c then (-1, c)
     else (2 * int (length (concat args)),
           if concat args = [] then c else c\<lparr>uc_out := uc_out c @ [(uc_remote c, concat args)]\<rparr>))"
  using udp_mpush_result [of "[]" args c] assms by (simp add: udp_msend_def Let_def)

section \<open>The listener's clients\<close>

text \<open>A datagram that arrives at the listener.\<close>

definition ul_arrive :: "'u udp_class \<Rightarrow> 'u \<Rightarrow> endpoint \<times> bytes \<Rightarrow> 'u udp_listener \<Rightarrow> 'u udp_listener" where
  "ul_arrive k u a l = ul_receive_done k u True (fst a) (snd a) l"

definition udp_alone ::
  "bool \<Rightarrow> 'u udp_handler option list \<Rightarrow> 'u udp_class \<Rightarrow> (endpoint \<times> bytes) list \<Rightarrow> 'u udp_conn \<Rightarrow> 'u udp_conn" where
  "udp_alone factory chain k as c = fold (\<lambda>a. ul_deliver factory chain k (snd a)) as c"

definition udp_serves ::
  "bool \<Rightarrow> 'u udp_handler option list \<Rightarrow> 'u udp_class \<Rightarrow> 'u \<Rightarrow> endpoint \<Rightarrow> (endpoint \<times> bytes) list \<Rightarrow> 'u udp_conn \<Rightarrow> bool" where
  "udp_serves factory chain k u pt as c \<longleftrightarrow>
     (\<exists>cid. c = udp_alone factory chain k as (ul_welcome factory chain k pt (udp_conn_new cid u)))"

definition ul_ready :: "bool \<Rightarrow> 'u udp_handler option list \<Rightarrow> nat \<Rightarrow> 'u udp_listener \<Rightarrow> bool" where
  "ul_ready factory chain n l \<longleftrightarrow> ul_receiving l \<and> ul_factory l = factory \<and> ul_chain l = chain \<and>
     table_ok (\<lambda>pt. ul_find_connection pt l) (ul_fresh l)"

lemma ul_apply_fields [simp]:
  "ul_receiving (ul_apply r f l) = ul_receiving l" "ul_factory (ul_apply r f l) = ul_factory l"
  "ul_chain (ul_apply r f l) = ul_chain l" "ul_fresh (ul_apply r f l) = ul_fresh l"
  "ul_find_connection pt (ul_apply r f l) = ul_find_connection pt l"
  "ul_store (ul_apply r f l) = (ul_store l)(r := f (ul_store l r))"
  by (simp_all add: ul_apply_def ul_find_connection_def)

lemma ul_find_created:
  assumes "ul_create_connection u pt l = (r, l')"
  shows "ul_find_connection q l' = (if q = pt then Some r else ul_find_connection q l)"
    and "r = ul_fresh l" "ul_fresh l' = r + 1" "ul_receiving l' = ul_receiving l" "ul_factory l' = ul_factory l"
    "ul_chain l' = ul_chain l" "ul_store l' = (ul_store l)(r := udp_conn_new (ucast (ul_index l + 1)) u)"
  using assms
  by (auto simp: ul_create_connection_def ul_find_connection_def Let_def update_conv' addrstr_inject)

lemma ul_known_laws:
  assumes "ul_ready f ch n l" "d \<noteq> []" "ul_find_connection pt l = Some r"
  shows "ul_arrive k u (pt, d) l = ul_apply r (ul_deliver f ch k d) l"
  using assms by (simp add: ul_arrive_def ul_receive_done_def ul_ready_def)

lemma ul_new_laws:
  assumes "ul_ready f ch n l" "d \<noteq> []" "ul_find_connection pt l = None" "ul_create_connection u pt l = (r, l1)"
  shows "ul_arrive k u (pt, d) l = ul_apply r (ul_deliver f ch k d) (ul_apply r (ul_welcome f ch k pt) l1)"
  using assms by (simp add: ul_arrive_def ul_receive_done_def ul_ready_def)

lemma ul_ready_created:
  assumes "ul_ready f ch n l" "ul_create_connection u pt l = (r, l1)"
  shows "ul_ready f ch m l1"
proof -
  note c = ul_find_created [OF assms(2)]
  have "table_ok (\<lambda>pt. ul_find_connection pt l1) (ul_fresh l + 1)"
    by (rule table_ok_insert [of "\<lambda>pt. ul_find_connection pt l" _ _ pt]) (use assms(1) c in \<open>simp_all add: ul_ready_def\<close>)
  then show ?thesis using assms(1) c by (simp add: ul_ready_def)
qed

lemma udp_serves_step: "udp_serves f ch k u pt as c \<Longrightarrow> udp_serves f ch k u pt (as @ [a]) (ul_deliver f ch k (snd a) c)"
  by (auto simp: udp_serves_def udp_alone_def)

lemma udp_serves_new: "udp_serves f ch k u pt [] (ul_welcome f ch k pt (udp_conn_new cid u))"
  by (auto simp: udp_serves_def udp_alone_def)

interpretation udp_clients: endpoint_server ul_find_connection ul_store "ul_arrive k u" fst
  "udp_serves f ch k u" "ul_ready f ch" "\<lambda>a. snd a \<noteq> []" for k u f ch
proof
  fix n l and a :: "endpoint \<times> bytes" and pt r as
  assume r: "ul_ready f ch (Suc n) l" "snd a \<noteq> []"
  obtain q d where a: "a = (q, d)" by (cases a)
  have d: "d \<noteq> []" using r(2) a by simp
  obtain i l1 where cr: "ul_create_connection u q l = (i, l1)" by fastforce
  note c = ul_find_created [OF cr] and known = ul_known_laws [OF r(1) d, of q _ k u]
    and new = ul_new_laws [OF r(1) d _ cr, of k]
  have t: "table_ok (\<lambda>p. ul_find_connection p l) (ul_fresh l)" using r(1) by (simp add: ul_ready_def)
  note ready = ul_ready_created [OF r(1) cr, of n]
  show "ul_ready f ch n (ul_arrive k u a l)"
    using known new ready r(1) by (cases "ul_find_connection q l") (simp_all add: a ul_ready_def)
  show "ul_find_connection pt (ul_arrive k u a l) = ul_find_connection pt l" if "fst a \<noteq> pt"
    using known new c(1) that by (cases "ul_find_connection q l") (simp_all add: a)
  show "ul_store (ul_arrive k u a l) r = ul_store l r" if "fst a \<noteq> pt" "ul_find_connection pt l = Some r"
    using known new c(2,7) that table_okD(1) [OF t that(2)] table_okD(2) [OF t that(2), of q]
    by (cases "ul_find_connection q l") (auto simp: a)
  show "ul_find_connection (fst a) (ul_arrive k u a l) = Some r \<and>
      udp_serves f ch k u (fst a) (as @ [a]) (ul_store (ul_arrive k u a l) r)"
    if "ul_find_connection (fst a) l = Some r" "udp_serves f ch k u (fst a) as (ul_store l r)"
    using known that udp_serves_step [OF that(2), of a] by (simp add: a)
  show "\<exists>r. ul_find_connection (fst a) (ul_arrive k u a l) = Some r \<and>
      udp_serves f ch k u (fst a) [a] (ul_store (ul_arrive k u a l) r)"
    if "ul_find_connection (fst a) l = None"
    using new that c(1,7) udp_serves_step [OF udp_serves_new, of f ch k u q a] by (simp add: a)
qed


section \<open>Broadcast and stop\<close>

lemma ul_apply_fold:
  assumes "distinct (map snd rs)"
  shows "ul_store (fold (\<lambda>(k, r). ul_apply r f) rs l) r =
    (if r \<in> snd ` set rs then f (ul_store l r) else ul_store l r)"
  using assms
proof (induction rs arbitrary: l)
  case (Cons a rs)
  then show ?case by (cases a) (auto simp: image_iff)
qed simp

text \<open>
  A broadcast without a multicast address sends the message once to every connection of
  the table, to its own endpoint, and touches no other connection.
\<close>

theorem udp_broadcast_once:
  assumes "ul_multi l = []" "distinct (map snd (ul_connections l))" "msg \<noteq> []" "length msg < 2 ^ 31"
    and "\<forall>(a, r)\<in>set (ul_connections l). uc_sock (ul_store l r)"
  shows "ul_store (ul_broadcast msg l) r =
    (if r \<in> snd ` set (ul_connections l)
     then (ul_store l r)\<lparr>uc_out := uc_out (ul_store l r) @ [(uc_remote (ul_store l r), msg)]\<rparr>
     else ul_store l r)"
proof -
  have "snd (udp_send msg c) = c\<lparr>uc_out := uc_out c @ [(uc_remote c, msg)]\<rparr>" if "uc_sock c" for c :: "'a udp_conn"
    using that udp_mpush_result [of "[]" "[msg]" c] assms(3,4) by (simp add: udp_send_def udp_msend_def)
  then show ?thesis
    using assms(1,5) by (force simp: ul_broadcast_def ul_apply_fold [OF assms(2)])
qed

lemma uk_stop_closes:
  fixes k :: "'a udp_connector"
  assumes "r \<in> snd ` set (uk_connections k)"
  shows "\<not> uc_sock (uk_store (uk_stop k) r)"
proof -
  let ?close = "\<lambda>(a :: string, r) k. k\<lparr>uk_store := (uk_store k)(r := udp_close (uk_store k r))\<rparr>"
  have "\<not> uc_sock (uk_store (fold ?close rs k) r)"
    if "r \<in> snd ` set rs \<or> \<not> uc_sock (uk_store k r)" for rs :: "(string \<times> nat) list" and k :: "'a udp_connector"
    using that
  proof (induction rs arbitrary: k)
    case (Cons a rs)
    then show ?case by (cases a) (auto simp: udp_close_def image_iff)
  qed simp
  then show ?thesis using assms by (simp add: uk_stop_def Let_def)
qed

section \<open>Witnesses\<close>

text \<open>A class that counts its events and keeps the datagrams it is given.\<close>

definition demo_udp_class :: "(NetEvent list \<times> bytes list) udp_class" where
  "demo_udp_class = \<lparr>uh_event = \<lambda>e u. (True, (fst u @ [e], snd u), []), uh_data = \<lambda>d u. (True, (fst u, snd u @ [d]), []),
     uh_package = \<lambda>d u. (PACKAGE_USER, u, [])\<rparr>"

definition demo_ul :: "(NetEvent list \<times> bytes list) udp_listener" where
  "demo_ul = \<lparr>ul_store = \<lambda>_. udp_conn_new 0 ([], []), ul_fresh = 0, ul_connections = [], ul_sock = True, ul_receiving = True,
     ul_port = 7, ul_multi = [], ul_index = 1024, ul_chain = [], ul_factory = False, ul_out = []\<rparr>"

definition demo_udp_run :: "(NetEvent list \<times> bytes list) udp_listener" where
  "demo_udp_run = fold (ul_arrive demo_udp_class ([], [])) [((''a'', 1), [1]), ((''b'', 1), [2]), ((''a'', 1), [3])] demo_ul"

theorem udp_msend_result_witness:
  "udp_msend [[1], [2, 3]] ((udp_conn_new 5 ())\<lparr>uc_sock := True\<rparr>) =
     (6, (udp_conn_new 5 ())\<lparr>uc_sock := True, uc_out := [(([], 0), [1, 2, 3])]\<rparr>)"
  using udp_msend_result [of "[[1], [2, 3]]" "(udp_conn_new 5 ())\<lparr>uc_sock := True\<rparr>"] by (simp add: udp_conn_new_def)


theorem udp_broadcast_once_witness:
  "uc_out (ul_store (ul_broadcast [9] (demo_ul\<lparr>ul_connections := [(''a:1'', 4)],
     ul_store := \<lambda>_. (udp_conn_new 0 ([], []))\<lparr>uc_sock := True\<rparr>\<rparr>)) 4) = [(([], 0), [9])]"
  using udp_broadcast_once [of "demo_ul\<lparr>ul_connections := [(''a:1'', 4)],
     ul_store := \<lambda>_. (udp_conn_new 0 ([], []))\<lparr>uc_sock := True\<rparr>\<rparr>" "[9]" 4]
  by (simp add: demo_ul_def udp_conn_new_def)

end
