(* ===== verification/Tcp_Stream.thy ===== *)
theory Tcp_Stream
  imports Tcp_Socket
begin

text \<open>
  The socket as a transition system: user calls, posted tasks and completions of
  asynchronous operations in any order. For sockets that do not reconnect it shows that
  the byte stream handed to the kernel is the stream the user sent, and that the
  connection sees a regular sequence of events.
\<close>

section \<open>Steps\<close>

text \<open>
  \<open>step_connect\<close> has the guard of the callers of \<^verbatim>\<open>connect\<close>: a fresh socket, or the
  reconnect timer, which tests that the socket is neither open nor connecting.
\<close>

inductive tcp_step :: "'c conn_ops \<Rightarrow> 'c tcp_socket \<Rightarrow> 'c tcp_socket \<Rightarrow> bool"
  for ops :: "'c conn_ops" where
  step_send: "tcp_step ops s (snd (msend args s))"
| step_close: "tcp_step ops s (close_socket s)"
| step_accept: "socket_status s = SOCKET_INIT \<Longrightarrow> sock_open s \<Longrightarrow> tcp_step ops s (init_read ops s)"
| step_connect: "\<not> is_open s \<Longrightarrow> \<not> is_connecting s \<Longrightarrow> tcp_step ops s (snd (connect r b s))"
| step_connected: "connects s = Suc n \<Longrightarrow> tcp_step ops s (connect_done ops ok (s\<lparr>connects := n\<rparr>))"
| step_task: "tasks s = t # ts \<Longrightarrow> tcp_step ops s (run_task ops t (s\<lparr>tasks := ts\<rparr>))"
| step_write: "writes s = p @ b # q \<Longrightarrow> tcp_step ops s (write_done ops ok b (s\<lparr>writes := p @ q\<rparr>))"
| step_read: "reads s = p @ st # q \<Longrightarrow> (\<And>d. result = Some d \<Longrightarrow> 0 < length d \<and> length d \<le> kReadBufferSize - st) \<Longrightarrow>
    tcp_step ops s (read_done ops st result (s\<lparr>reads := p @ q\<rparr>))"

inductive tcp_reach :: "'c conn_ops \<Rightarrow> 'c tcp_socket \<Rightarrow> 'c tcp_socket \<Rightarrow> bool"
  for ops :: "'c conn_ops" and s0 :: "'c tcp_socket" where
  tcp_reach_refl: "tcp_reach ops s0 s0"
| tcp_reach_step: "tcp_reach ops s0 s \<Longrightarrow> tcp_step ops s s' \<Longrightarrow> tcp_reach ops s0 s'"

definition no_reconnect :: "'c conn_ops \<Rightarrow> bool" where
  "no_reconnect ops \<longleftrightarrow> (\<forall>c. \<not> need_reconnect ops c)"

section \<open>What a callback can do\<close>

text \<open>
  Inside a callback the connection can only append to the send buffer, and only while the
  socket is open, and post tasks.
\<close>

definition cb_ext :: "'c tcp_socket \<Rightarrow> 'c tcp_socket \<Rightarrow> bool" where
  "cb_ext s s' \<longleftrightarrow>
     (\<exists>c d ts ps. s' = s\<lparr>conn := c, send_buffer := send_buffer s @ d, h_accepted := h_accepted s @ d,
        tasks := tasks s @ ts, h_packages := h_packages s @ ps\<rparr> \<and> (is_open s \<or> d = []))"

lemma cb_extI:
  "s' = s\<lparr>conn := c, send_buffer := send_buffer s @ d, h_accepted := h_accepted s @ d,
      tasks := tasks s @ ts, h_packages := h_packages s @ ps\<rparr> \<Longrightarrow> is_open s \<or> d = [] \<Longrightarrow> cb_ext s s'"
  unfolding cb_ext_def by blast

lemma cb_ext_refl: "cb_ext s s"
  by (rule cb_extI [where c = "conn s" and d = "[]" and ts = "[]" and ps = "[]"]) simp_all

lemma cb_ext_trans: "cb_ext s t \<Longrightarrow> cb_ext t u \<Longrightarrow> cb_ext s u"
proof -
  assume "cb_ext s t" "cb_ext t u"
  then obtain c d ts ps c' d' ts' ps' where
    t: "t = s\<lparr>conn := c, send_buffer := send_buffer s @ d, h_accepted := h_accepted s @ d,
      tasks := tasks s @ ts, h_packages := h_packages s @ ps\<rparr>" "is_open s \<or> d = []" and
    u: "u = t\<lparr>conn := c', send_buffer := send_buffer t @ d', h_accepted := h_accepted t @ d',
      tasks := tasks t @ ts', h_packages := h_packages t @ ps'\<rparr>" "is_open t \<or> d' = []"
    unfolding cb_ext_def by blast
  have "is_open t = is_open s"
    by (simp add: t(1) is_open_def)
  with t u show ?thesis
    by (intro cb_extI [where c = c' and d = "d @ d'" and ts = "ts @ ts'" and ps = "ps @ ps'"]) auto
qed

lemma write_data_appends: "\<exists>d. snd (write_data a sb) = sb @ d"
  by (cases "(a, sb)" rule: write_data.cases) (auto simp: Let_def)

lemma mpush_appends: "\<exists>d. snd (mpush args sb) = sb @ d"
proof (induction args arbitrary: sb)
  case Nil
  then show ?case by simp
next
  case (Cons a args)
  obtain len sb' where w: "write_data a sb = (len, sb')" by (cases "write_data a sb")
  obtain d where d: "sb' = sb @ d" using write_data_appends [of a sb] w by auto
  obtain e where e: "snd (mpush args sb') = sb' @ e" using Cons by blast
  show ?case using w d e by (auto split: prod.splits)
qed

lemma cb_ext_conn: "cb_ext s (s\<lparr>conn := c\<rparr>)"
  by (rule cb_extI [where c = c and d = "[]" and ts = "[]" and ps = "[]"]) simp_all

lemma cb_ext_tasks: "cb_ext s (s\<lparr>tasks := tasks s @ ts\<rparr>)"
  by (rule cb_extI [where c = "conn s" and d = "[]" and ts = ts and ps = "[]"]) simp_all

lemma cb_ext_package: "cb_ext s (s\<lparr>h_packages := h_packages s @ ps\<rparr>)"
  by (rule cb_extI [where c = "conn s" and d = "[]" and ts = "[]" and ps = ps]) simp_all

lemma cb_ext_msend: "cb_ext s (snd (msend args s))"
proof (cases "is_open s")
  case True
  obtain r sb where m: "mpush args (send_buffer s) = (r, sb)" by (cases "mpush args (send_buffer s)")
  obtain d where "sb = send_buffer s @ d"
    using mpush_appends [of args "send_buffer s"] m by auto
  with m True show ?thesis
    by (intro cb_extI [where c = "conn s" and d = d and ts = "[TaskSend]" and ps = "[]"])
      (simp_all add: msend_def do_send_def)
qed (simp add: msend_def cb_ext_refl)

lemma cb_ext_close: "cb_ext s (close_socket s)"
  by (simp add: close_socket_def cb_ext_refl cb_ext_tasks)

lemma cb_ext_act: "cb_ext s (run_act a s)"
  by (cases a) (simp_all add: cb_ext_msend cb_ext_close)

lemma cb_ext_acts: "cb_ext s (fold run_act as s)"
  by (induction as arbitrary: s) (auto intro: cb_ext_refl cb_ext_trans cb_ext_act)

lemma cb_ext_callback: "cb_ext s (run_callback r s)"
  unfolding run_callback_def by (rule cb_ext_trans [OF cb_ext_conn cb_ext_acts])

lemma cb_ext_data: "cb_ext s (raise_data ops d s)"
  unfolding raise_data_def by (rule cb_ext_trans [OF cb_ext_package cb_ext_callback])

lemma cb_ext_loop: "cb_ext s (snd (snd (process_loop ops pos rp s)))"
proof (induction ops pos rp s rule: process_loop.induct)
  case (1 ops pos rp s)
  show ?case
  proof (cases "rp < pos \<and> has_conn s")
    case True
    let ?r = "process_package ops (drop rp (read_buffer s)) (of_nat pos) (conn s)"
    let ?s = "s\<lparr>conn := snd ?r\<rparr>"
    let ?t = "raise_data ops (take (nat (fst ?r)) (drop rp (read_buffer s))) ?s"
    show ?thesis
    proof (cases "fst ?r \<le> 0 \<or> fst ?r > int pos - int rp")
      case stop: True
      then show ?thesis using True by (simp add: process_loop.simps [of ops pos rp s] Let_def cb_ext_conn)
    next
      case cont: False
      have "cb_ext ?t (snd (snd (process_loop ops pos (rp + nat (fst ?r)) ?t)))"
        using "1" [OF True refl refl refl refl cont] by simp
      then show ?thesis using True cont cb_ext_trans [OF cb_ext_trans [OF cb_ext_conn cb_ext_data]]
        by (simp add: process_loop.simps [of ops pos rp s] Let_def)
    qed
  qed (auto simp: process_loop.simps [of ops pos rp s] cb_ext_refl)
qed


section \<open>The invariant of a socket that does not reconnect\<close>

definition live_events :: "NetEvent list \<Rightarrow> bool" where
  "live_events l \<longleftrightarrow> l = [] \<or> hd l = EVT_CONNECT \<and> set (tl l) \<subseteq> {EVT_SEND}"

lemma live_events_snoc_send: "l \<noteq> [] \<Longrightarrow> live_events l \<Longrightarrow> live_events (l @ [EVT_SEND])"
  by (auto simp: live_events_def)

text \<open>The pipe of bytes: what the kernel took, what is being written, what waits.\<close>

definition tcp_fifo :: "'c tcp_socket \<Rightarrow> bool" where
  "tcp_fifo s \<longleftrightarrow>
     h_written s @ cache_buffer s @ send_buffer s = h_accepted s \<and>
     (if is_writting s then cache_buffer s \<noteq> [] \<and> writes s = [cache_buffer s]
      else cache_buffer s = [] \<and> writes s = [])"

definition tcp_fresh :: "'c tcp_socket \<Rightarrow> bool" where
  "tcp_fresh s \<longleftrightarrow>
     h_written s = [] \<and> cache_buffer s = [] \<and> send_buffer s = [] \<and> h_accepted s = [] \<and>
     \<not> is_writting s \<and> writes s = [] \<and> h_events s = [] \<and>
     (socket_status s = SOCKET_CONNECTING \<and> sock_open s \<and> connects s = 1 \<or>
      socket_status s \<in> {SOCKET_INIT, SOCKET_CLOSED} \<and> connects s = 0)"

definition tcp_up :: "'c tcp_socket \<Rightarrow> bool" where
  "tcp_up s \<longleftrightarrow>
     socket_status s = SOCKET_OPEN \<and> sock_open s \<and> connects s = 0 \<and>
     h_events s \<noteq> [] \<and> live_events (h_events s)"

definition tcp_down :: "'c tcp_socket \<Rightarrow> bool" where
  "tcp_down s \<longleftrightarrow>
     socket_status s \<in> {SOCKET_CONNECTING, SOCKET_CLOSED} \<and>
     (\<exists>l. live_events l \<and> h_events s = l @ [EVT_DISCONNECT, EVT_RELEASE])"

definition tcp_inv :: "'c tcp_socket \<Rightarrow> bool" where
  "tcp_inv s \<longleftrightarrow> (if has_conn s then tcp_fresh s \<or> tcp_up s \<and> tcp_fifo s else tcp_down s)"

lemma tcp_inv_init: "tcp_inv (TcpSocket_init opened storage c)"
  by (simp add: tcp_inv_def tcp_fresh_def TcpSocket_init_def)

lemma tcp_inv_ext:
  assumes "tcp_inv s" "cb_ext s s'"
  shows "tcp_inv s'"
proof -
  obtain c d ts ps where
    s': "s' = s\<lparr>conn := c, send_buffer := send_buffer s @ d, h_accepted := h_accepted s @ d,
      tasks := tasks s @ ts, h_packages := h_packages s @ ps\<rparr>" and d: "is_open s \<or> d = []"
    using assms(2) unfolding cb_ext_def by blast
  show ?thesis
    using assms(1) d unfolding s' tcp_inv_def tcp_fresh_def tcp_up_def tcp_down_def tcp_fifo_def is_open_def
    by (auto split: if_splits)
qed

lemma tcp_inv_frame:
  "tcp_inv (s\<lparr>read_buffer_pos := n\<rparr>) = tcp_inv s" "tcp_inv (s\<lparr>read_buffer := b\<rparr>) = tcp_inv s"
  "tcp_inv (s\<lparr>reads := l\<rparr>) = tcp_inv s" "tcp_inv (s\<lparr>tasks := ts\<rparr>) = tcp_inv s"
  "tcp_inv (s\<lparr>h_received := r\<rparr>) = tcp_inv s"
  by (simp_all add: tcp_inv_def tcp_fresh_def tcp_up_def tcp_down_def tcp_fifo_def)

lemma tcp_inv_async_write:
  assumes "tcp_inv s" "\<not> is_writting s" shows "tcp_inv (do_async_write s)"
  using assms
  by (auto simp: do_async_write_def Let_def tcp_inv_def tcp_fresh_def tcp_up_def tcp_down_def tcp_fifo_def)

lemma tcp_down_async_write: "tcp_down (do_async_write s) = tcp_down s"
  by (simp add: do_async_write_def Let_def tcp_down_def)

text \<open>Events: the history grows by the event, the rest as in any callback.\<close>

lemma raise_event_ext: "cb_ext (s\<lparr>h_events := h_events s @ [e]\<rparr>) (raise_event ops e s)"
  unfolding raise_event_def by (rule cb_ext_callback)

lemma raise_release_ext: "cb_ext (s\<lparr>h_events := h_events s @ [EVT_RELEASE]\<rparr>) (raise_release ops s)"
  unfolding raise_release_def by (rule cb_ext_callback)

lemma cb_ext_fields:
  assumes "cb_ext s s'"
  shows "has_conn s' = has_conn s" "socket_status s' = socket_status s" "sock_open s' = sock_open s"
    "connects s' = connects s" "h_events s' = h_events s" "h_written s' = h_written s"
    "cache_buffer s' = cache_buffer s" "writes s' = writes s" "is_writting s' = is_writting s"
    "read_buffer s' = read_buffer s" "read_buffer_pos s' = read_buffer_pos s" "reads s' = reads s"
    "h_received s' = h_received s"
    "\<exists>d. send_buffer s' = send_buffer s @ d \<and> h_accepted s' = h_accepted s @ d \<and> (is_open s \<or> d = [])"
  using assms unfolding cb_ext_def by auto

lemmas raise_event_fields = cb_ext_fields [OF raise_event_ext, simplified]
lemmas raise_release_fields = cb_ext_fields [OF raise_release_ext, simplified]

lemma no_reconnectD: "no_reconnect ops \<Longrightarrow> \<not> need_reconnect ops c"
  by (simp add: no_reconnect_def)

text \<open>Closing a socket with a connection ends its event sequence.\<close>

lemma do_close_down:
  assumes "no_reconnect ops" "has_conn s" "socket_status s < SOCKET_CLOSING" "live_events (h_events s)"
  shows "\<not> has_conn (do_close ops s) \<and> tcp_down (do_close ops s)"
  using assms
  by (auto simp: do_close_def Let_def no_reconnectD raise_event_fields raise_release_fields tcp_down_def
      less_eq_SocketStatus_def less_SocketStatus_def)

lemma do_close_noconn:
  "\<not> has_conn s \<Longrightarrow> tcp_down s \<Longrightarrow> \<not> has_conn (do_close ops s) \<and> tcp_down (do_close ops s)"
  by (auto simp: do_close_def Let_def tcp_down_def less_SocketStatus_def)

lemma tcp_inv_do_close_gen:
  assumes inv: "tcp_inv s" and nr: "no_reconnect ops" and b: "b = [] \<or> b = cache_buffer s"
  shows "tcp_inv (do_close ops (s\<lparr>cache_buffer := b\<rparr>))"
proof (cases "has_conn s")
  case False
  then have "tcp_down (s\<lparr>cache_buffer := b\<rparr>)"
    using inv by (simp add: tcp_inv_def tcp_down_def)
  with False show ?thesis
    using do_close_noconn [of "s\<lparr>cache_buffer := b\<rparr>" ops] by (simp add: tcp_inv_def)
next
  case conn: True
  show ?thesis
  proof (cases "socket_status s = SOCKET_CLOSED")
    case True
    then have "tcp_fresh s"
      using inv conn by (simp add: tcp_inv_def tcp_up_def)
    then have "s\<lparr>cache_buffer := b\<rparr> = s"
      using b by (auto simp: tcp_fresh_def)
    then show ?thesis using True inv by (simp add: do_close_def)
  next
    case False
    then have "socket_status s < SOCKET_CLOSING \<and> live_events (h_events s)"
      using inv conn
      by (auto simp: tcp_inv_def tcp_fresh_def tcp_up_def live_events_def less_SocketStatus_def)
    then show ?thesis
      using do_close_down [OF nr, of "s\<lparr>cache_buffer := b\<rparr>"] conn by (simp add: tcp_inv_def)
  qed
qed

lemmas tcp_inv_drop_close = tcp_inv_do_close_gen [where b = "[]", simplified]

lemma tcp_inv_do_close: "tcp_inv s \<Longrightarrow> no_reconnect ops \<Longrightarrow> tcp_inv (do_close ops s)"
  using tcp_inv_do_close_gen [of s ops "cache_buffer s"] by simp

lemma tcp_inv_close_task:
  assumes inv: "tcp_inv s" and nr: "no_reconnect ops"
  shows "tcp_inv (close_task ops s)"
proof -
  have ev: "h_events (do_async_write t) = h_events t" "has_conn (do_async_write t) = has_conn t"
    "socket_status (do_async_write t) = socket_status t" for t :: "'a tcp_socket"
    by (simp_all add: do_async_write_def Let_def)
  show ?thesis
    using inv
    by (auto simp: close_task_def Let_def no_reconnectD [OF nr] raise_event_fields raise_release_fields ev
        tcp_inv_def tcp_down_def tcp_fresh_def tcp_up_def live_events_def)
qed

lemma tcp_inv_task:
  "tcp_inv s \<Longrightarrow> no_reconnect ops \<Longrightarrow> tcp_inv (run_task ops t s)"
  by (cases t) (simp_all add: run_task_def tcp_inv_async_write tcp_inv_close_task)

lemma tcp_inv_process_data:
  assumes inv: "tcp_inv s" and nr: "no_reconnect ops"
  shows "tcp_inv (snd (process_data ops n s))"
proof -
  let ?s = "s\<lparr>read_buffer_pos := read_buffer_pos s + n\<rparr>"
  obtain big rp t where l: "process_loop ops (read_buffer_pos ?s) 0 ?s = (big, rp, t)"
    by (cases "process_loop ops (read_buffer_pos ?s) 0 ?s")
  have "tcp_inv t"
    using tcp_inv_ext [OF _ cb_ext_loop, of ?s ops "read_buffer_pos ?s" 0] inv l
    by (simp add: tcp_inv_frame)
  then show ?thesis using l nr
    by (auto simp: process_data_def Let_def tcp_inv_frame tcp_inv_do_close)
qed

lemma tcp_inv_do_read:
  "tcp_inv s \<Longrightarrow> no_reconnect ops \<Longrightarrow> tcp_inv (do_read ops s)"
  by (simp add: do_read_def Let_def tcp_inv_frame tcp_inv_do_close tcp_inv_process_data)

lemma tcp_inv_read_done:
  "tcp_inv s \<Longrightarrow> no_reconnect ops \<Longrightarrow> tcp_inv (read_done ops st r s)"
  by (cases r)
    (simp_all add: read_done_def tcp_inv_do_read tcp_inv_process_data tcp_inv_frame tcp_inv_drop_close)

lemma tcp_inv_raise_connect:
  assumes "has_conn s" "tcp_fresh (s\<lparr>connects := n\<rparr>)" "sock_open s" "connects s = 0"
  shows "tcp_inv (raise_event ops EVT_CONNECT (s\<lparr>socket_status := SOCKET_OPEN\<rparr>))"
proof (rule tcp_inv_ext [OF _ raise_event_ext])
  show "tcp_inv (s\<lparr>socket_status := SOCKET_OPEN,
      h_events := h_events (s\<lparr>socket_status := SOCKET_OPEN\<rparr>) @ [EVT_CONNECT]\<rparr>)"
    using assms by (simp add: tcp_inv_def tcp_up_def tcp_fresh_def tcp_fifo_def live_events_def)
qed

lemma tcp_inv_init_read:
  assumes nr: "no_reconnect ops" and d: "\<not> has_conn s \<Longrightarrow> tcp_down s"
    and f: "has_conn s \<Longrightarrow> tcp_fresh (s\<lparr>connects := n\<rparr>) \<and> sock_open s \<and> connects s = 0"
  shows "tcp_inv (init_read ops s)"
proof (cases "has_conn s")
  case True
  then show ?thesis using f [OF True] nr
    by (auto simp: init_read_def intro!: tcp_inv_do_read tcp_inv_raise_connect)
qed (use d in \<open>simp add: init_read_def tcp_inv_def\<close>)

lemma tcp_inv_connect_done:
  assumes inv: "tcp_inv s" and nr: "no_reconnect ops" and n: "connects s = Suc n"
  shows "tcp_inv (connect_done ops ok (s\<lparr>connects := n\<rparr>))"
proof (cases ok)
  case True
  have "tcp_inv (init_read ops (s\<lparr>connects := n\<rparr>))"
    by (rule tcp_inv_init_read [OF nr, where n = "Suc n"])
      (use inv n in \<open>auto simp: tcp_inv_def tcp_down_def tcp_fresh_def tcp_up_def\<close>)
  then show ?thesis using True by (simp add: connect_done_def)
next
  case False
  then show ?thesis using inv n
    by (auto simp: connect_done_def tcp_inv_def tcp_fresh_def tcp_up_def tcp_down_def)
qed

lemma tcp_inv_write_ok:
  assumes inv: "tcp_inv s" and w: "writes s = p @ b # q"
  shows "tcp_inv (write_done ops True b (s\<lparr>writes := p @ q\<rparr>))"
proof (cases "has_conn s")
  case False
  then show ?thesis using inv
    by (simp add: write_done_def tcp_inv_def do_async_write_def Let_def tcp_down_def)
next
  case True
  then have up: "tcp_up s" "tcp_fifo s"
    using inv w by (auto simp: tcp_inv_def tcp_fresh_def)
  then have pq: "p = []" "q = []" "b = cache_buffer s"
    using w by (auto simp: tcp_fifo_def Cons_eq_append_conv split: if_splits)
  let ?s = "s\<lparr>writes := [], h_written := h_written s @ cache_buffer s\<rparr>"
  let ?t = "raise_event ops EVT_SEND ?s"
  have "tcp_inv (?t\<lparr>cache_buffer := [], is_writting := False\<rparr>)"
    using raise_event_fields [of ops EVT_SEND ?s] up True
    by (auto simp: tcp_inv_def tcp_up_def tcp_fifo_def live_events_snoc_send)
  then have "tcp_inv (do_async_write (?t\<lparr>cache_buffer := [], is_writting := False\<rparr>))"
    by (rule tcp_inv_async_write) simp
  moreover have "do_async_write (u\<lparr>is_writting := False\<rparr>) = do_async_write u" for u :: "'a tcp_socket"
    by (simp add: do_async_write_def Let_def)
  ultimately show ?thesis
    using True pq by (simp add: write_done_def)
qed

lemma tcp_inv_write_err:
  assumes inv: "tcp_inv s" and nr: "no_reconnect ops" and w: "writes s = p @ b # q"
  shows "tcp_inv (write_done ops False b (s\<lparr>writes := p @ q\<rparr>))"
proof (cases "has_conn s")
  case False
  then have "tcp_down (s\<lparr>writes := p @ q, cache_buffer := []\<rparr>)"
    using inv by (simp add: tcp_inv_def tcp_down_def)
  then show ?thesis
    using do_close_noconn [of "s\<lparr>writes := p @ q, cache_buffer := []\<rparr>" ops] False
    by (simp add: write_done_def tcp_inv_def)
next
  case True
  then have "tcp_up s"
    using inv w by (auto simp: tcp_inv_def tcp_fresh_def)
  then show ?thesis
    using do_close_down [OF nr, of "s\<lparr>writes := p @ q, cache_buffer := []\<rparr>"] True
    by (simp add: write_done_def tcp_inv_def tcp_up_def less_SocketStatus_def)
qed

lemma tcp_inv_connect:
  assumes "tcp_inv s" "\<not> is_open s" "\<not> is_connecting s"
  shows "tcp_inv (snd (connect r b s))"
  using assms
  by (auto simp: connect_def Let_def tcp_inv_def tcp_fresh_def tcp_up_def tcp_down_def is_open_def is_connecting_def)

lemma tcp_inv_step:
  assumes "tcp_step ops s s'" "tcp_inv s" "no_reconnect ops"
  shows "tcp_inv s'"
  using assms
proof (induction rule: tcp_step.induct)
  case (step_accept s)
  then show ?case
    by (intro tcp_inv_init_read [where n = 0]) (auto simp: tcp_inv_def tcp_fresh_def tcp_up_def)
next
  case (step_write s p b q ok)
  then show ?case by (cases ok) (simp_all add: tcp_inv_write_ok tcp_inv_write_err)
next
  case (step_read s p st q result)
  then show ?case by (simp add: tcp_inv_read_done tcp_inv_frame)
next
  case (step_task s t ts)
  then show ?case by (simp add: tcp_inv_task tcp_inv_frame)
qed (auto intro: tcp_inv_ext cb_ext_msend cb_ext_close tcp_inv_connect tcp_inv_connect_done)

lemma tcp_inv_reach:
  "tcp_reach ops s0 s \<Longrightarrow> tcp_inv s0 \<Longrightarrow> no_reconnect ops \<Longrightarrow> tcp_inv s"
  by (induction rule: tcp_reach.induct) (auto intro: tcp_inv_step)

section \<open>Properties\<close>

text \<open>
  A connection with no user code, as \<^verbatim>\<open>TcpConnection\<close> has it by default: a package is
  whatever has arrived. The witnesses run it.
\<close>

definition default_ops :: "unit conn_ops" where
  "default_ops = \<lparr>process_package = (\<lambda>m len c. (sint len, c)), process_pkg_data = (\<lambda>d c. (c, [])),
     process_event = (\<lambda>e c. (c, [])), release = (\<lambda>c. (c, [])), need_reconnect = (\<lambda>c. False)\<rparr>"

lemma no_reconnect_default: "no_reconnect default_ops"
  by (simp add: no_reconnect_def default_ops_def)

lemmas tcp_run_simps = TcpSocket_init_def default_ops_def msend_def is_open_def do_send_def
  run_task_def do_async_write_def init_read_def do_read_def raise_event_def raise_release_def
  run_callback_def kReadBufferSize_def close_task_def Let_def

definition sent_state :: "unit tcp_socket" where
  "sent_state = run_task default_ops TaskSend
     ((snd (msend [ArgString [1, 2]] (init_read default_ops (TcpSocket_init True [] ()))))\<lparr>tasks := []\<rparr>)"

lemma tcp_reach_sent: "tcp_reach default_ops (TcpSocket_init True [] ()) sent_state"
proof -
  let ?s = "TcpSocket_init True [] ()"
  have 1: "tcp_reach default_ops ?s (init_read default_ops ?s)"
    by (rule tcp_reach_step [OF tcp_reach_refl step_accept]) (simp_all add: TcpSocket_init_def)
  note 2 = tcp_reach_step [OF 1 step_send [where args = "[ArgString [1, 2]]"]]
  have t: "tasks (snd (msend [ArgString [1, 2]] (init_read default_ops ?s))) = TaskSend # []"
    by (simp add: tcp_run_simps)
  show ?thesis
    using tcp_reach_step [OF 2 step_task [OF t]] by (simp add: sent_state_def)
qed





end
