(* ===== verification/Tcp_Framing.thy ===== *)
theory Tcp_Framing
  imports Tcp_Stream "HOL-Library.Sublist"
begin

text \<open>
  Cutting the received stream into packages. A connection class supplies
  \<^verbatim>\<open>handle_package\<close>, which looks at the bytes received so far and says how long the first
  package is. The locale states what such a handler has to promise, given that
  \<^verbatim>\<open>TcpSocket::process_data\<close> tells it the length of the whole filled buffer and not that
  of the rest it is shown; from it follows that the packages delivered are the frames of the
  received stream, however TCP segments it.
\<close>

section \<open>Frames of a stream\<close>

function packages :: "(bytes \<Rightarrow> nat) \<Rightarrow> bytes \<Rightarrow> bytes list" where
  "packages fr b =
     (if 0 < fr b \<and> fr b \<le> length b then take (fr b) b # packages fr (drop (fr b) b) else [])"
  by pat_completeness auto

termination
  by (relation "measure (\<lambda>(fr, b). length b)") auto

function residue :: "(bytes \<Rightarrow> nat) \<Rightarrow> bytes \<Rightarrow> bytes" where
  "residue fr b = (if 0 < fr b \<and> fr b \<le> length b then residue fr (drop (fr b) b) else b)"
  by pat_completeness auto

termination
  by (relation "measure (\<lambda>(fr, b). length b)") auto

declare packages.simps [simp del] residue.simps [simp del]

lemma packages_residue: "concat (packages fr b) @ residue fr b = b"
proof (induction fr b rule: packages.induct)
  case (1 fr b)
  then show ?case
    by (cases "0 < fr b \<and> fr b \<le> length b") (auto simp: packages.simps [of fr b] residue.simps [of fr b])
qed

lemma residue_frame: "fr (residue fr b) = 0 \<or> length (residue fr b) < fr (residue fr b)"
proof (induction fr b rule: residue.induct)
  case (1 fr b)
  then show ?case
    by (cases "0 < fr b \<and> fr b \<le> length b") (simp_all add: residue.simps [of fr b], linarith)
qed

lemma residue_drop: "residue fr b = drop (length (concat (packages fr b))) b"
  by (metis append_eq_conv_conj packages_residue)

lemma length_residue: "length (residue fr b) \<le> length b"
  using arg_cong [OF packages_residue [of fr b], of length] by simp

section \<open>What callbacks leave alone\<close>

lemma msend_packages: "h_packages (snd (msend args s)) = h_packages s"
  by (simp add: msend_def do_send_def split: prod.splits)

lemma run_act_packages: "h_packages (run_act a s) = h_packages s"
  by (cases a) (simp_all add: msend_packages close_socket_def)

lemma run_acts_packages: "h_packages (fold run_act as s) = h_packages s"
  by (induction as arbitrary: s) (simp_all add: run_act_packages)

lemma run_callback_packages: "h_packages (run_callback r s) = h_packages s"
  by (simp add: run_callback_def run_acts_packages)

lemma raise_packages [simp]:
  "h_packages (raise_event ops e s) = h_packages s" "h_packages (raise_release ops s) = h_packages s"
  by (simp_all add: raise_event_def raise_release_def run_callback_packages)

lemma process_data_noconn:
  "\<not> has_conn s \<Longrightarrow> \<not> has_conn (snd (process_data ops n s)) \<and>
     h_packages (snd (process_data ops n s)) = h_packages s \<and>
     h_received (snd (process_data ops n s)) = h_received s"
  by (simp add: process_data_def Let_def process_loop.simps)

section \<open>The contract of a package handler\<close>

locale package_framing =
  fixes fr :: "bytes \<Rightarrow> nat"
    and handler :: "bytes \<Rightarrow> u32 \<Rightarrow> int"
  assumes fr_le: "fr b \<le> length b"
    and fr_stable: "0 < fr b \<Longrightarrow> fr (b @ x) = fr b"
    and handler_whole: "0 < fr v \<Longrightarrow> length v \<le> n \<Longrightarrow> n \<le> kReadBufferSize \<Longrightarrow>
      handler (v @ stale) (of_nat n) = int (fr v)"
    and handler_part: "fr v = 0 \<Longrightarrow> 0 < length v \<Longrightarrow> length v \<le> n \<Longrightarrow> n \<le> kReadBufferSize \<Longrightarrow>
      handler (v @ stale) (of_nat n) \<le> 0 \<or>
      int (length v) < handler (v @ stale) (of_nat n) \<and>
      handler (v @ stale) (of_nat n) \<le> int kReadBufferSize"
begin

lemma packages_unfold:
  "packages fr b = (if 0 < fr b then take (fr b) b # packages fr (drop (fr b) b) else [])"
  by (simp add: packages.simps [of fr b] fr_le)

lemma residue_unfold: "residue fr b = (if 0 < fr b then residue fr (drop (fr b) b) else b)"
  by (simp add: residue.simps [of fr b] fr_le)

lemma packages_nil [simp]: "packages fr [] = []" "residue fr [] = []"
  using fr_le [of "[]"] by (simp_all add: packages_unfold residue_unfold)

lemma fr_residue: "fr (residue fr b) = 0"
  using residue_frame [of fr b] fr_le [of "residue fr b"] by simp

lemma packages_append:
  "packages fr (a @ b) = packages fr a @ packages fr (residue fr a @ b) \<and>
   residue fr (a @ b) = residue fr (residue fr a @ b)"
proof (induction "length a" arbitrary: a rule: less_induct)
  case less
  show ?case
  proof (cases "0 < fr a")
    case True
    let ?d = "drop (fr a) a"
    have "length ?d < length a" using True fr_le [of a] by simp
    note IH = less [OF this]
    have "fr (a @ b) = fr a" using fr_stable True by simp
    moreover have "take (fr a) (a @ b) = take (fr a) a" "drop (fr a) (a @ b) = ?d @ b"
      using fr_le [of a] by simp_all
    ultimately show ?thesis
      using IH True
      by (simp add: packages_unfold [of "a @ b"] residue_unfold [of "a @ b"] packages_unfold [of a]
          residue_unfold [of a])
  next
    case False
    then show ?thesis by (simp add: packages_unfold [of a] residue_unfold [of a])
  qed
qed

lemma packages_residue_nil [simp]: "packages fr (residue fr b) = []" "residue fr (residue fr b) = residue fr b"
  using fr_residue [of b] by (simp_all add: packages_unfold [of "residue fr b"] residue_unfold [of "residue fr b"])

lemma packages_mono: "prefix (packages fr a) (packages fr (a @ b))"
  using packages_append [of a b] by simp

text \<open>The loop of \<^verbatim>\<open>process_data\<close> delivers the frames of the filled part of the buffer.\<close>

lemma process_loop_frames:
  assumes pp: "\<And>m n c. process_package ops m n c = (handler m n, c)"
    and "pos \<le> kReadBufferSize" "pos \<le> length (read_buffer s)" "rp \<le> pos" "has_conn s"
    and "v = take (pos - rp) (drop rp (read_buffer s))"
  shows "\<exists>t. process_loop ops pos rp s = (False, rp + length (concat (packages fr v)), t) \<and>
    h_packages t = h_packages s @ packages fr v"
  using assms(2-)
proof (induction "pos - rp" arbitrary: rp s v rule: less_induct)
  case less
  have lv: "length v = pos - rp" using less.prems by simp
  show ?case
  proof (cases "rp < pos")
    case False
    then show ?thesis using less.prems lv by (simp add: process_loop.simps [of ops pos pos s])
  next
    case rp: True
    define mem where "mem = drop rp (read_buffer s)"
    have mem: "mem = v @ drop (length v) mem"
      using less.prems lv unfolding mem_def
      by (metis append_take_drop_id lv)
    have v0: "0 < length v" "length v \<le> pos" using lv rp by simp_all
    show ?thesis
    proof (cases "0 < fr v")
      case True
      have h: "handler mem (of_nat pos) = int (fr v)"
        using handler_whole [OF True v0(2) less.prems(1), of "drop (length v) mem"] mem by simp
      have tk: "take (fr v) mem = take (fr v) v"
        using fr_le [of v] less.prems lv by (simp add: mem_def)
      define t where "t = raise_data ops (take (fr v) v) s"
      have t: "read_buffer t = read_buffer s" "has_conn t = has_conn s"
        using cb_ext_fields [OF cb_ext_data [of s ops "take (fr v) v"]] by (simp_all add: t_def)
      have dv: "drop (fr v) v = take (pos - (rp + fr v)) (drop (rp + fr v) (read_buffer t))"
        using less.prems t by (simp add: drop_take add.commute)
      have smaller: "pos - (rp + fr v) < pos - rp" "rp + fr v \<le> pos"
        using True fr_le [of v] lv rp by linarith+
      have rest: "pos \<le> length (read_buffer t)" "has_conn t"
        using less.prems t by simp_all
      obtain u where u: "process_loop ops pos (rp + fr v) t =
          (False, rp + fr v + length (concat (packages fr (drop (fr v) v))), u)"
          "h_packages u = h_packages t @ packages fr (drop (fr v) v)"
        using less.hyps [OF smaller(1) less.prems(1) rest(1) smaller(2) rest(2) dv] by blast
      have hp: "h_packages t = h_packages s @ [take (fr v) v]"
        unfolding t_def raise_data_def by (simp add: run_callback_packages)
      have "process_loop ops pos rp s = process_loop ops pos (rp + fr v) t"
        using rp less.prems(4) pp h tk True fr_le [of v] lv
        by (simp add: process_loop.simps [of ops pos rp s] mem_def [symmetric] t_def Let_def, linarith)
      then show ?thesis using u hp True fr_le [of v]
        by (simp add: packages_unfold [of v])
    next
      case False
      then have "handler mem (of_nat pos) \<le> 0 \<or>
          int (length v) < handler mem (of_nat pos) \<and> handler mem (of_nat pos) \<le> int kReadBufferSize"
        using handler_part [of v pos "drop (length v) mem"] v0 less.prems(1) mem by simp
      then have "process_loop ops pos rp s = (False, rp, s)"
        using rp less.prems(4) pp lv
        by (auto simp: process_loop.simps [of ops pos rp s] mem_def [symmetric])
      then show ?thesis using False by (simp add: packages_unfold [of v])
    qed
  qed
qed

text \<open>
  The state of the reading side: while the socket is open, one read is under way, it
  continues behind the incomplete frame at the start of the buffer, and the packages
  delivered are the frames of the bytes received. After the connection is gone nothing more is
  delivered.
\<close>

definition tcp_framed :: "'c tcp_socket \<Rightarrow> bool" where
  "tcp_framed s \<longleftrightarrow>
     (if has_conn s then
        length (read_buffer s) = kReadBufferSize + 4 \<and>
        h_packages s = packages fr (h_received s) \<and>
        (if socket_status s = SOCKET_OPEN
         then reads s = [read_buffer_pos s] \<and> read_buffer_pos s < kReadBufferSize \<and>
              take (read_buffer_pos s) (read_buffer s) = residue fr (h_received s)
         else reads s = [] \<and> read_buffer_pos s = 0 \<and> h_received s = [])
      else prefix (h_packages s) (packages fr (h_received s)))"

lemma tcp_framed_init:
  "length storage = kReadBufferSize + 4 \<Longrightarrow> tcp_framed (TcpSocket_init opened storage c)"
  by (simp add: tcp_framed_def TcpSocket_init_def)

lemma tcp_framed_cong:
  assumes "tcp_framed s" "has_conn t = has_conn s" "read_buffer t = read_buffer s"
    "h_packages t = h_packages s" "h_received t = h_received s" "reads t = reads s"
    "read_buffer_pos t = read_buffer_pos s" "(socket_status t = SOCKET_OPEN) = (socket_status s = SOCKET_OPEN)"
  shows "tcp_framed t"
  using assms by (simp add: tcp_framed_def)

lemma tcp_framed_gone:
  "\<not> has_conn t \<Longrightarrow> prefix (h_packages t) (packages fr (h_received t)) \<Longrightarrow> tcp_framed t"
  by (simp add: tcp_framed_def)

lemma tcp_framed_prefix: "tcp_framed s \<Longrightarrow> prefix (h_packages s) (packages fr (h_received s))"
  by (simp add: tcp_framed_def split: if_splits)

lemma do_close_history [simp]:
  "h_packages (do_close ops s) = h_packages s" "h_received (do_close ops s) = h_received s"
  by (simp_all add: do_close_def Let_def raise_event_fields raise_release_fields)

lemma tcp_framed_do_close:
  assumes inv: "tcp_inv s" and nr: "no_reconnect ops"
    and p: "prefix (h_packages s) (packages fr (h_received s))"
    and f: "tcp_fresh s \<Longrightarrow> tcp_framed s" and b: "b = [] \<or> b = cache_buffer s"
  shows "tcp_framed (do_close ops (s\<lparr>writes := w, cache_buffer := b\<rparr>))"
proof (cases "has_conn s \<and> socket_status s \<noteq> SOCKET_CLOSED")
  case True
  then have "socket_status s < SOCKET_CLOSING \<and> live_events (h_events s)"
    using inv by (auto simp: tcp_inv_def tcp_fresh_def tcp_up_def live_events_def less_SocketStatus_def)
  then have "\<not> has_conn (do_close ops (s\<lparr>writes := w, cache_buffer := b\<rparr>))"
    using do_close_down [OF nr, of "s\<lparr>writes := w, cache_buffer := b\<rparr>"] True by simp
  then show ?thesis using p by (intro tcp_framed_gone) simp_all
next
  case False
  show ?thesis
  proof (cases "has_conn s")
    case True
    then have "tcp_framed s" using False inv f by (simp add: tcp_inv_def tcp_up_def)
    then show ?thesis using False True
      by (intro tcp_framed_cong [OF \<open>tcp_framed s\<close>]) (simp_all add: do_close_def)
  next
    case nc: False
    then have "\<not> has_conn (do_close ops (s\<lparr>writes := w, cache_buffer := b\<rparr>))"
      by (simp add: do_close_def Let_def)
    then show ?thesis using p by (intro tcp_framed_gone) simp_all
  qed
qed

lemma process_data_frames:
  assumes pp: "\<And>m n c. process_package ops m n c = (handler m n, c)"
    and conn: "has_conn s" and pos: "read_buffer_pos s + n \<le> kReadBufferSize"
    and len: "length (read_buffer s) = kReadBufferSize + 4"
    and v: "v = take (read_buffer_pos s + n) (read_buffer s)"
    and t: "t = snd (process_data ops n s)"
  shows "has_conn t" "length (read_buffer t) = kReadBufferSize + 4"
    "h_packages t = h_packages s @ packages fr v" "read_buffer_pos t = length (residue fr v)"
    "take (read_buffer_pos t) (read_buffer t) = residue fr v" "h_received t = h_received s"
    "reads t = reads s" "socket_status t = socket_status s" "sock_open t = sock_open s"
proof -
  let ?s = "s\<lparr>read_buffer_pos := read_buffer_pos s + n\<rparr>"
  let ?rp = "length (concat (packages fr v))"
  have "read_buffer_pos s + n \<le> length (read_buffer ?s)" "has_conn ?s"
      "v = take (read_buffer_pos s + n - 0) (drop 0 (read_buffer ?s))"
    using pos len conn v by simp_all
  from process_loop_frames [where ops = ops, OF pp pos this(1) _ this(2,3)]
  obtain u where u: "process_loop ops (read_buffer_pos s + n) 0 ?s = (False, ?rp, u)"
    "h_packages u = h_packages s @ packages fr v" by auto
  have uf: "has_conn u" "read_buffer u = read_buffer s" "read_buffer_pos u = read_buffer_pos s + n"
      "h_received u = h_received s" "reads u = reads s" "socket_status u = socket_status s"
      "sock_open u = sock_open s"
    using cb_ext_fields [OF cb_ext_loop [of ?s ops "read_buffer_pos s + n" 0]] u(1) conn by simp_all
  have lv: "length v = read_buffer_pos s + n" using v len pos by simp
  have res: "take (read_buffer_pos s + n - ?rp) (drop ?rp (read_buffer s)) = residue fr v"
    unfolding residue_drop by (simp add: v drop_take)
  have rl: "?rp + length (residue fr v) = read_buffer_pos s + n"
    using lv packages_residue [of fr v] by (metis length_append)
  have lr: "length (residue fr v) = read_buffer_pos s + n - ?rp"
    using rl by simp
  have td: "t = u\<lparr>read_buffer := (if ?rp < read_buffer_pos s + n
      then blit (read_buffer s) 0 (residue fr v) else read_buffer s), read_buffer_pos := length (residue fr v)\<rparr>"
    using u uf res by (simp add: t process_data_def lr)
  show "has_conn t" "h_packages t = h_packages s @ packages fr v" "read_buffer_pos t = length (residue fr v)"
      "h_received t = h_received s" "reads t = reads s" "socket_status t = socket_status s"
      "sock_open t = sock_open s"
    using uf u(2) by (simp_all add: td)
  have le: "length (residue fr v) \<le> kReadBufferSize" using rl pos by simp
  show "length (read_buffer t) = kReadBufferSize + 4"
    using le len by (simp add: td length_blit)
  show "take (read_buffer_pos t) (read_buffer t) = residue fr v"
  proof (cases "residue fr v = []")
    case False
    then have "?rp < read_buffer_pos s + n" using rl by (cases "residue fr v") simp_all
    then show ?thesis by (simp add: td blit_def)
  qed (simp add: td)
qed

text \<open>Reading on: either the next read is started or the buffer is full and the socket closed.\<close>

lemma tcp_framed_do_read:
  assumes pp: "\<And>m n c. process_package ops m n c = (handler m n, c)"
    and nr: "no_reconnect ops" and inv: "tcp_inv s" and conn: "has_conn s"
    and len: "length (read_buffer s) = kReadBufferSize + 4"
    and pk: "h_packages s = packages fr (h_received s)" and rd: "reads s = []"
    and res: "take (read_buffer_pos s) (read_buffer s) = residue fr (h_received s)"
    and pos: "read_buffer_pos s \<le> kReadBufferSize" and st: "socket_status s = SOCKET_OPEN"
  shows "tcp_framed (do_read ops s)"
proof (cases "read_buffer_pos s < kReadBufferSize")
  case True
  have "sock_open s" using inv conn st by (auto simp: tcp_inv_def tcp_fresh_def tcp_up_def)
  then show ?thesis using True assms by (simp add: do_read_def tcp_framed_def)
next
  case False
  let ?t = "snd (process_data ops 0 s)"
  have full: "read_buffer_pos s = kReadBufferSize" using False pos by simp
  have so: "sock_open s" using inv conn st by (auto simp: tcp_inv_def tcp_fresh_def tcp_up_def)
  have v: "residue fr (h_received s) = take (read_buffer_pos s + 0) (read_buffer s)" using res by simp
  have p0: "read_buffer_pos s + 0 \<le> kReadBufferSize" using pos by simp
  note t = process_data_frames [where ops = ops, OF pp conn p0 len v refl]
  have lr: "length (residue fr (h_received s)) = kReadBufferSize"
    using res full len by (metis length_take min.absorb2 le_add1)
  have inv_t: "tcp_inv ?t" by (rule tcp_inv_process_data [OF inv nr])
  have "\<not> tcp_fresh ?t" using t st by (auto simp: tcp_fresh_def)
  then have "tcp_framed (do_close ops (?t\<lparr>writes := writes ?t, cache_buffer := cache_buffer ?t\<rparr>))"
    using t pk by (intro tcp_framed_do_close [OF inv_t nr]) simp_all
  then show ?thesis using so full t lr by (simp add: do_read_def Let_def)
qed

lemma tcp_framed_read_ok:
  assumes pp: "\<And>m n c. process_package ops m n c = (handler m n, c)"
    and nr: "no_reconnect ops" and inv: "tcp_inv s" and fd: "tcp_framed s"
    and rd: "reads s = p @ st # q" and d: "length d \<le> kReadBufferSize - st" "0 < length d"
  shows "tcp_framed (read_done ops st (Some d) (s\<lparr>reads := p @ q\<rparr>))"
proof -
  let ?s = "s\<lparr>reads := p @ q, read_buffer := blit (read_buffer s) st d, h_received := h_received s @ d\<rparr>"
  let ?t = "snd (process_data ops (length d) ?s)"
  have inv_s: "tcp_inv ?s" using inv by (simp add: tcp_inv_frame)
  have r: "read_done ops st (Some d) (s\<lparr>reads := p @ q\<rparr>) = do_read ops ?t"
    by (simp add: read_done_def)
  show ?thesis
  proof (cases "has_conn s")
    case True
    have st: "socket_status s = SOCKET_OPEN" "p = []" "q = []" "st = read_buffer_pos s"
        "st < kReadBufferSize" "take st (read_buffer s) = residue fr (h_received s)"
        "length (read_buffer s) = kReadBufferSize + 4" "h_packages s = packages fr (h_received s)"
      using fd rd True by (auto simp: tcp_framed_def Cons_eq_append_conv split: if_splits)
    have len: "length (read_buffer ?s) = kReadBufferSize + 4"
      using st(5,7) d by (simp add: length_blit)
    have lr: "length (residue fr (h_received s)) = read_buffer_pos s"
      using arg_cong [OF st(6), of length] st(4,5,7) by simp
    have v: "residue fr (h_received s) @ d = take (read_buffer_pos ?s + length d) (read_buffer ?s)"
      using st lr by (simp add: blit_def)
    have pos: "read_buffer_pos ?s + length d \<le> kReadBufferSize" using st d by simp
    have conn: "has_conn ?s" using True by simp
    note t = process_data_frames [where ops = ops, OF pp conn pos len v refl]
    have le: "length (residue fr (residue fr (h_received s) @ d)) \<le> kReadBufferSize"
      using length_residue [of fr "residue fr (h_received s) @ d"] lr pos by simp
    note pa = packages_append [of "h_received s" d]
    show ?thesis unfolding r
      by (rule tcp_framed_do_read [where ops = ops, OF pp nr tcp_inv_process_data [OF inv_s nr]])
        (use t st pa le in simp_all)
  next
    case False
    then have nc: "\<not> has_conn (do_read ops u)" "h_packages (do_read ops u) = h_packages u"
        "h_received (do_read ops u) = h_received u" if "\<not> has_conn u" for u
      using that by (simp_all add: do_read_def process_data_noconn Let_def do_close_def)
    have "prefix (h_packages s) (packages fr (h_received s @ d))"
      using fd False packages_mono [of "h_received s" d] prefix_order.trans
      by (fastforce simp: tcp_framed_def)
    then show ?thesis unfolding r using False
      by (intro tcp_framed_gone) (simp_all add: nc process_data_noconn)
  qed
qed

lemma tcp_framed_init_read:
  assumes pp: "\<And>m n c. process_package ops m n c = (handler m n, c)"
    and nr: "no_reconnect ops" and fd: "tcp_framed s" and st: "has_conn s \<Longrightarrow> socket_status s \<noteq> SOCKET_OPEN"
    and inv: "has_conn s \<Longrightarrow> tcp_inv (raise_event ops EVT_CONNECT (s\<lparr>socket_status := SOCKET_OPEN\<rparr>))"
  shows "tcp_framed (init_read ops s)"
proof (cases "has_conn s")
  case True
  show ?thesis unfolding init_read_def if_P [OF True]
    by (rule tcp_framed_do_read [where ops = ops, OF pp nr inv [OF True]])
      (use True fd st in \<open>auto simp: raise_event_fields tcp_framed_def\<close>)
qed (use fd in \<open>simp add: init_read_def\<close>)

lemma tcp_framed_step:
  assumes pp: "\<And>m n c. process_package ops m n c = (handler m n, c)"
    and nr: "no_reconnect ops" and step: "tcp_step ops s s'" and inv: "tcp_inv s" and fd: "tcp_framed s"
  shows "tcp_framed s'"
  using step
proof cases
  case (step_send args)
  then show ?thesis using cb_ext_fields [OF cb_ext_msend [of s args]]
    by (intro tcp_framed_cong [OF fd]) (simp_all add: msend_packages)
next
  case step_close
  then show ?thesis by (intro tcp_framed_cong [OF fd]) (simp_all add: close_socket_def)
next
  case step_accept
  have "tcp_inv (raise_event ops EVT_CONNECT (s\<lparr>socket_status := SOCKET_OPEN\<rparr>))" if "has_conn s"
    using tcp_inv_raise_connect [of s 0 ops] step_accept inv that
    by (auto simp: tcp_inv_def tcp_fresh_def tcp_up_def)
  then show ?thesis
    using tcp_framed_init_read [where ops = ops, OF pp nr fd] step_accept by simp
next
  case (step_connect r b)
  then show ?thesis using inv
    by (intro tcp_framed_cong [OF fd])
      (auto simp: connect_def Let_def is_open_def tcp_inv_def tcp_up_def tcp_down_def tcp_fresh_def split: if_splits)
next
  case (step_connected n ok)
  have st: "has_conn s \<Longrightarrow> tcp_fresh s \<and> socket_status s = SOCKET_CONNECTING \<and> sock_open s \<and> n = 0"
    using inv step_connected by (auto simp: tcp_inv_def tcp_fresh_def tcp_up_def)
  have fd': "tcp_framed (s\<lparr>connects := n\<rparr>)" by (rule tcp_framed_cong [OF fd]) simp_all
  show ?thesis
  proof (cases ok)
    case True
    have "tcp_inv (raise_event ops EVT_CONNECT (s\<lparr>connects := n, socket_status := SOCKET_OPEN\<rparr>))"
      if "has_conn s"
      using tcp_inv_raise_connect [of "s\<lparr>connects := n\<rparr>" 1 ops] st [OF that] that
      by (auto simp: tcp_fresh_def)
    then have "tcp_framed (init_read ops (s\<lparr>connects := n\<rparr>))"
      using st by (intro tcp_framed_init_read [where ops = ops, OF pp nr fd']) auto
    then show ?thesis using step_connected True by (simp add: connect_done_def)
  next
    case False
    have "socket_status s \<noteq> SOCKET_OPEN"
      using inv st by (cases "has_conn s") (auto simp: tcp_inv_def tcp_down_def)
    then show ?thesis using step_connected False
      by (intro tcp_framed_cong [OF fd]) (simp_all add: connect_done_def)
  qed
next
  case (step_task t ts)
  have fd': "tcp_framed (s\<lparr>tasks := ts\<rparr>)" by (rule tcp_framed_cong [OF fd]) simp_all
  show ?thesis
  proof (cases t)
    case TaskSend
    then show ?thesis using step_task
      by (intro tcp_framed_cong [OF fd']) (simp_all add: run_task_def do_async_write_def Let_def)
  next
    case TaskClose
    have "\<not> has_conn (close_task ops u)" "h_packages (close_task ops u) = h_packages u"
        "h_received (close_task ops u) = h_received u" for u
      by (simp_all add: close_task_def Let_def no_reconnectD [OF nr] do_async_write_def
          raise_event_fields raise_release_fields)
    then show ?thesis using step_task TaskClose tcp_framed_prefix [OF fd]
      by (intro tcp_framed_gone) (simp_all add: run_task_def)
  qed
next
  case (step_write p b q ok)
  show ?thesis
  proof (cases ok)
    case True
    then show ?thesis using step_write
      by (intro tcp_framed_cong [OF fd])
        (simp_all add: write_done_def Let_def do_async_write_def raise_event_fields)
  next
    case False
    have "tcp_framed (do_close ops (s\<lparr>writes := p @ q, cache_buffer := []\<rparr>))"
      by (rule tcp_framed_do_close [OF inv nr tcp_framed_prefix [OF fd] fd]) simp
    then show ?thesis using step_write False by (simp add: write_done_def)
  qed
next
  case (step_read p st q result)
  show ?thesis
  proof (cases result)
    case (Some d)
    then show ?thesis
      using tcp_framed_read_ok [where ops = ops, OF pp nr inv fd step_read(2)] step_read by blast
  next
    case None
    let ?s = "s\<lparr>reads := p @ q\<rparr>"
    have "tcp_fresh ?s \<Longrightarrow> tcp_framed ?s"
      using fd step_read(2) by (auto simp: tcp_framed_def tcp_fresh_def split: if_splits)
    then have "tcp_framed (do_close ops (?s\<lparr>writes := writes ?s, cache_buffer := []\<rparr>))"
      using inv tcp_framed_prefix [OF fd]
      by (intro tcp_framed_do_close [OF _ nr]) (simp_all add: tcp_inv_frame)
    then show ?thesis using step_read None by (simp add: read_done_def)
  qed
qed

theorem framed_reach:
  assumes pp: "\<And>m n c. process_package ops m n c = (handler m n, c)"
    and nr: "no_reconnect ops" and len: "length storage = kReadBufferSize + 4"
    and reach: "tcp_reach ops (TcpSocket_init opened storage c) s"
  shows "tcp_framed s"
  using reach
proof (induction rule: tcp_reach.induct)
  case tcp_reach_refl
  then show ?case by (rule tcp_framed_init [OF len])
next
  case (tcp_reach_step s s')
  then show ?case
    using tcp_framed_step [where ops = ops, OF pp nr] tcp_inv_reach [OF _ tcp_inv_init nr] by blast
qed

end

end
