(* ===== verification/Pipe.thy ===== *)
theory Pipe
  imports Tcp_Framing "HOL-Library.AList"
begin

text \<open>
  The message pipe of \<^verbatim>\<open>include/pipe\<close>: the message head of \<^verbatim>\<open>pipe_proto.hpp\<close>,
  \<^verbatim>\<open>PipeConnection\<close>, \<^verbatim>\<open>PipeSession\<close> and \<^verbatim>\<open>PipeFactory\<close>. Sessions and connections
  are shared objects: they live in stores indexed by a session number and by the connection
  id, and the two maps of the factory hold session numbers. A connection contains its
  \<^verbatim>\<open>TcpSocket\<close>, so that what the pipe sends goes through the socket model.
\<close>

section \<open>Wire format\<close>

definition PIPE_MSG_SHAKE_HAND :: u32 where "PIPE_MSG_SHAKE_HAND = 1"
definition PIPE_MSG_HEART_BEAT :: u32 where "PIPE_MSG_HEART_BEAT = 2"
definition PIPE_MSG_DATA :: u32 where "PIPE_MSG_DATA = 3"
definition PIPE_MSG_ACK :: u32 where "PIPE_MSG_ACK = 4"

record PipeMsgHead =
  ph_length :: u32
  ph_type :: u32
  ph_data :: u64

definition head_size :: nat where "head_size = 16"

text \<open>The memory image of the struct and the struct that a cast of a buffer shows.\<close>

definition head_image :: "PipeMsgHead \<Rightarrow> bytes" where
  "head_image h = le32 (ph_length h) @ le32 (ph_type h) @ le64 (ph_data h)"

definition head_cast :: "bytes \<Rightarrow> PipeMsgHead" where
  "head_cast p = \<lparr>ph_length = rd32 p, ph_type = rd32 (drop 4 p), ph_data = rd64 (drop 8 p)\<rparr>"

text \<open>
  The lengths of the arguments of a gathered send. For a \<^verbatim>\<open>const char *\<close> the code
  takes one less than \<^verbatim>\<open>strlen\<close>; a null pointer is undefined behaviour there (None).
\<close>

fun data_length :: "send_arg \<Rightarrow> u32 option" where
  "data_length (ArgObject d) = Some (of_nat (length d))"
| "data_length (ArgString d) = Some (of_nat (length d))"
| "data_length (ArgCStr (Some m)) = Some (of_nat (length (takeWhile (\<lambda>b. b \<noteq> 0) m)) - 1)"
| "data_length (ArgCStr None) = None"

fun pipe_data_length :: "send_arg list \<Rightarrow> u32 option" where
  "pipe_data_length [] = Some 0"
| "pipe_data_length (arg # args) =
     (case data_length arg of None \<Rightarrow> None
      | Some n \<Rightarrow> (case pipe_data_length args of None \<Rightarrow> None | Some m \<Rightarrow> Some (n + m)))"

text \<open>\<^verbatim>\<open>PipeConnection::handle_package\<close>.\<close>

definition handle_package :: "bytes \<Rightarrow> u32 \<Rightarrow> int" where
  "handle_package data len =
     (if unat len < head_size then 0
      else
        let msg = head_cast data in
        if unat (ph_length msg) + head_size > unat len then 0
        else sint (of_nat (head_size + unat (ph_length msg)) :: u32))"

section \<open>Sessions and connections\<close>

record pipe_session =
  ps_host :: bytes
  ps_port :: u16
  ps_pipe_id :: bytes
  ps_ready :: bool
  ps_connection :: "u64 option"
  ps_heartbeat :: bool
  ps_events :: "NetEvent list"
  ps_messages :: "(bytes \<times> u64) list"

record pipe_conn =
  pc_passive :: bool
  pc_sock :: "unit tcp_socket"
  pc_session :: "nat option"
  pc_pipeid :: bytes

text \<open>
  \<open>ps_events\<close> and \<open>ps_messages\<close> record the calls of the user's two handlers, whose
  results the factory ignores. \<open>ps_heartbeat\<close>: the heartbeat timer was started.
\<close>

datatype PipeMode = PIPE_SERVER_MODE | PIPE_CLIENT_MODE | PIPE_DUET_MODE

record pipe_factory =
  pf_mode :: PipeMode
  pf_sessions :: "nat \<Rightarrow> pipe_session"
  pf_next :: nat
  pf_conns :: "u64 \<Rightarrow> pipe_conn"
  bind_pipes :: "(bytes \<times> nat) list"
  unbind_pipes :: "(u64 \<times> nat) list"
  pid_index :: u64

definition PipeSession_new :: "bytes \<Rightarrow> bytes \<Rightarrow> u16 \<Rightarrow> pipe_session" where
  "PipeSession_new pid h p =
     \<lparr>ps_host = h, ps_port = p, ps_pipe_id = pid, ps_ready = False, ps_connection = None,
      ps_heartbeat = False, ps_events = [], ps_messages = []\<rparr>"

definition upd_session :: "nat \<Rightarrow> (pipe_session \<Rightarrow> pipe_session) \<Rightarrow> pipe_factory \<Rightarrow> pipe_factory" where
  "upd_session sid f w = w\<lparr>pf_sessions := (pf_sessions w)(sid := f (pf_sessions w sid))\<rparr>"

definition upd_conn :: "u64 \<Rightarrow> (pipe_conn \<Rightarrow> pipe_conn) \<Rightarrow> pipe_factory \<Rightarrow> pipe_factory" where
  "upd_conn cid f w = w\<lparr>pf_conns := (pf_conns w)(cid := f (pf_conns w cid))\<rparr>"

subsection \<open>What a pipe asks of its TCP connection\<close>

definition conn_connected :: "u64 \<Rightarrow> pipe_factory \<Rightarrow> bool" where
  "conn_connected cid w = is_open (pc_sock (pf_conns w cid))"

definition conn_msend :: "u64 \<Rightarrow> send_arg list \<Rightarrow> pipe_factory \<Rightarrow> int \<times> pipe_factory" where
  "conn_msend cid args w =
     (case msend args (pc_sock (pf_conns w cid)) of (r, s) \<Rightarrow> (r, upd_conn cid (\<lambda>c. c\<lparr>pc_sock := s\<rparr>) w))"

definition conn_close :: "u64 \<Rightarrow> pipe_factory \<Rightarrow> pipe_factory" where
  "conn_close cid w = upd_conn cid (\<lambda>c. c\<lparr>pc_sock := close_socket (pc_sock c)\<rparr>) w"

definition send_shakehand :: "u64 \<Rightarrow> bytes \<Rightarrow> pipe_factory \<Rightarrow> pipe_factory" where
  "send_shakehand cid pipeId w =
     snd (conn_msend cid
       [ArgObject (head_image \<lparr>ph_length = of_nat (length pipeId), ph_type = PIPE_MSG_SHAKE_HAND, ph_data = 0\<rparr>),
        ArgString pipeId] w)"

definition send_heartbeat :: "u64 \<Rightarrow> bytes \<Rightarrow> pipe_factory \<Rightarrow> int \<times> pipe_factory" where
  "send_heartbeat cid msg w =
     conn_msend cid
       [ArgObject (head_image \<lparr>ph_length = of_nat (length msg), ph_type = PIPE_MSG_HEART_BEAT, ph_data = 0\<rparr>),
        ArgString msg] w"

subsection \<open>PipeSession\<close>

definition session_event :: "nat \<Rightarrow> NetEvent \<Rightarrow> pipe_factory \<Rightarrow> pipe_factory" where
  "session_event sid evt w = upd_session sid (\<lambda>s. s\<lparr>ps_events := ps_events s @ [evt]\<rparr>) w"

definition session_message :: "nat \<Rightarrow> bytes \<Rightarrow> u64 \<Rightarrow> pipe_factory \<Rightarrow> pipe_factory" where
  "session_message sid data obdata w = upd_session sid (\<lambda>s. s\<lparr>ps_messages := ps_messages s @ [(data, obdata)]\<rparr>) w"

definition is_ready :: "nat \<Rightarrow> pipe_factory \<Rightarrow> bool" where
  "is_ready sid w =
     (case ps_connection (pf_sessions w sid) of
        Some cid \<Rightarrow> ps_ready (pf_sessions w sid) \<and> conn_connected cid w
      | None \<Rightarrow> False)"

definition session_send :: "nat \<Rightarrow> bytes \<Rightarrow> u64 \<Rightarrow> pipe_factory \<Rightarrow> int \<times> pipe_factory" where
  "session_send sid msg obdata w =
     (if is_ready sid w then
        conn_msend (the (ps_connection (pf_sessions w sid)))
          [ArgObject (head_image \<lparr>ph_length = of_nat (length msg), ph_type = PIPE_MSG_DATA, ph_data = obdata\<rparr>),
           ArgString msg] w
      else (-1, w))"

text \<open>The gathered send; None is the undefined behaviour of a null string argument.\<close>

definition msend_with_obdata ::
  "nat \<Rightarrow> u64 \<Rightarrow> send_arg list \<Rightarrow> pipe_factory \<Rightarrow> (int \<times> pipe_factory) option" where
  "msend_with_obdata sid obdata args w =
     (if is_ready sid w then
        (case pipe_data_length args of
           None \<Rightarrow> None
         | Some bodyLen \<Rightarrow>
             Some (conn_msend (the (ps_connection (pf_sessions w sid)))
               (ArgObject (head_image \<lparr>ph_length = bodyLen, ph_type = PIPE_MSG_DATA, ph_data = obdata\<rparr>)
                # args) w))
      else Some (-1, w))"

definition session_sync_msend ::
  "nat \<Rightarrow> bool \<Rightarrow> send_arg list \<Rightarrow> pipe_factory \<Rightarrow> (int \<times> pipe_factory) option" where
  "session_sync_msend sid ok args w =
     (if is_ready sid w then
        (case pipe_data_length args of
           None \<Rightarrow> None
         | Some bodyLen \<Rightarrow>
             let cid = the (ps_connection (pf_sessions w sid));
                 head = head_image \<lparr>ph_length = bodyLen, ph_type = PIPE_MSG_DATA, ph_data = 0\<rparr>
             in (case mpush_sync default_ops ok (ArgObject head # args) (pc_sock (pf_conns w cid)) of
                   (r, s) \<Rightarrow> Some (r, upd_conn cid (\<lambda>c. c\<lparr>pc_sock := s\<rparr>) w)))
      else Some (-1, w))"

definition session_bind :: "nat \<Rightarrow> u64 \<Rightarrow> pipe_factory \<Rightarrow> pipe_factory" where
  "session_bind sid cid w =
     upd_session sid (\<lambda>s. s\<lparr>ps_connection := Some cid, ps_ready := True\<rparr>)
       (upd_conn cid (\<lambda>c. c\<lparr>pc_pipeid := ps_pipe_id (pf_sessions w sid), pc_session := Some sid\<rparr>) w)"

definition session_unbind :: "nat \<Rightarrow> pipe_factory \<Rightarrow> pipe_factory" where
  "session_unbind sid w = upd_session sid (\<lambda>s. s\<lparr>ps_ready := False\<rparr>) w"

definition update_pipeid :: "nat \<Rightarrow> bytes \<Rightarrow> pipe_factory \<Rightarrow> pipe_factory" where
  "update_pipeid sid pid w =
     upd_session sid (\<lambda>s. if ps_pipe_id s = [] then s\<lparr>ps_pipe_id := pid\<rparr> else s) w"

definition on_ready :: "nat \<Rightarrow> pipe_factory \<Rightarrow> pipe_factory" where
  "on_ready sid w =
     (case ps_connection (pf_sessions w sid) of
        Some cid \<Rightarrow>
          if conn_connected cid w \<and> pc_passive (pf_conns w cid)
          then upd_session sid (\<lambda>s. s\<lparr>ps_heartbeat := True\<rparr>) w else w
      | None \<Rightarrow> w)"

text \<open>The handler of the heartbeat timer; its result says whether the timer goes on.\<close>

definition heartbeat_tick :: "nat \<Rightarrow> pipe_factory \<Rightarrow> bool \<times> pipe_factory" where
  "heartbeat_tick sid w =
     (case ps_connection (pf_sessions w sid) of
        Some cid \<Rightarrow>
          if conn_connected cid w then (True, snd (send_heartbeat cid (ps_pipe_id (pf_sessions w sid)) w))
          else (False, w)
      | None \<Rightarrow> (False, w))"

section \<open>PipeFactory\<close>

definition add_unbind_pipe :: "u64 \<Rightarrow> nat \<Rightarrow> pipe_factory \<Rightarrow> pipe_factory" where
  "add_unbind_pipe cid sid w = w\<lparr>unbind_pipes := AList.update cid sid (unbind_pipes w)\<rparr>"

definition find_unbind_pipe :: "u64 \<Rightarrow> pipe_factory \<Rightarrow> nat option" where
  "find_unbind_pipe cid w = map_of (unbind_pipes w) cid"

definition remove_unbind_pipe :: "u64 \<Rightarrow> pipe_factory \<Rightarrow> bool \<times> pipe_factory" where
  "remove_unbind_pipe cid w =
     (map_of (unbind_pipes w) cid \<noteq> None, w\<lparr>unbind_pipes := AList.delete cid (unbind_pipes w)\<rparr>)"

definition add_bind_pipe :: "bytes \<Rightarrow> nat \<Rightarrow> pipe_factory \<Rightarrow> pipe_factory" where
  "add_bind_pipe pid sid w = w\<lparr>bind_pipes := AList.update pid sid (bind_pipes w)\<rparr>"

definition find_bind_pipe :: "bytes \<Rightarrow> pipe_factory \<Rightarrow> nat option" where
  "find_bind_pipe pid w = map_of (bind_pipes w) pid"

definition remove_bind_pipe :: "bytes \<Rightarrow> pipe_factory \<Rightarrow> bool \<times> pipe_factory" where
  "remove_bind_pipe pid w =
     (map_of (bind_pipes w) pid \<noteq> None, w\<lparr>bind_pipes := AList.delete pid (bind_pipes w)\<rparr>)"

definition register_pipe :: "nat \<Rightarrow> u64 \<Rightarrow> pipe_factory \<Rightarrow> pipe_factory" where
  "register_pipe sid cid w =
     (let pid = ps_pipe_id (pf_sessions w sid) in
      if pid = [] then (if cid \<noteq> 0 then add_unbind_pipe cid sid w else w)
      else add_bind_pipe pid sid w)"

text \<open>\<^verbatim>\<open>fmt::format("pid{}", n)\<close>.\<close>

fun dec_digits :: "nat \<Rightarrow> bytes" where
  "dec_digits n = (if n < 10 then [of_nat (48 + n)] else dec_digits (n div 10) @ [of_nat (48 + n mod 10)])"

declare dec_digits.simps [simp del]

definition generate_id :: "pipe_factory \<Rightarrow> bytes \<times> pipe_factory" where
  "generate_id w = ([112, 105, 100] @ dec_digits (unat (pid_index w)), w\<lparr>pid_index := pid_index w + 1\<rparr>)"

text \<open>The reply and the challenge of the handshake are messages of the same shape.\<close>

definition process_server_handshake :: "u64 \<Rightarrow> bytes \<Rightarrow> pipe_factory \<Rightarrow> pipe_factory" where
  "process_server_handshake cid msg w =
     (let len = ph_length (head_cast msg) in
      if len > 0 then
        let pipeId = take (unat len) (drop head_size msg) in
        (case find_bind_pipe pipeId w of
           Some sid \<Rightarrow>
             if \<not> is_ready sid w then
               let w = session_bind sid cid w;
                   w = send_shakehand cid pipeId w;
                   w = on_ready sid w
               in session_event sid EVT_CONNECT w
             else w
         | None \<Rightarrow> conn_close cid w)
      else
        (case generate_id w of (pipeId, w) \<Rightarrow>
           case find_unbind_pipe cid w of
             Some sid \<Rightarrow>
               let w = update_pipeid sid pipeId w;
                   w = send_shakehand cid pipeId w
               in session_event sid EVT_CONNECT w
           | None \<Rightarrow>
               let sid = pf_next w;
                   w = w\<lparr>pf_sessions := (pf_sessions w)(sid := PipeSession_new [] [] 0), pf_next := sid + 1\<rparr>;
                   w = session_bind sid cid w;
                   w = add_unbind_pipe cid sid w;
                   w = send_shakehand cid pipeId w
               in session_event sid EVT_CONNECT w))"

definition process_client_handshake :: "u64 \<Rightarrow> bytes \<Rightarrow> pipe_factory \<Rightarrow> pipe_factory" where
  "process_client_handshake cid msg w =
     (let len = ph_length (head_cast msg) in
      if len > 0 then
        let pipeId = take (unat len) (drop head_size msg) in
        (case find_bind_pipe pipeId w of
           Some sid \<Rightarrow>
             if \<not> is_ready sid w then
               let w = session_bind sid cid w;
                   w = update_pipeid sid pipeId w
               in session_event sid EVT_CONNECT w
             else w
         | None \<Rightarrow>
             (case find_unbind_pipe cid w of
                Some sid \<Rightarrow>
                  let w = session_bind sid cid w;
                      w = update_pipeid sid pipeId w;
                      w = add_bind_pipe pipeId sid w;
                      w = snd (remove_unbind_pipe cid w);
                      w = session_event sid EVT_CONNECT w
                  in on_ready sid w
              | None \<Rightarrow> conn_close cid w))
      else send_shakehand cid (pc_pipeid (pf_conns w cid)) w)"

definition factory_handle_event :: "u64 \<Rightarrow> NetEvent \<Rightarrow> pipe_factory \<Rightarrow> bool \<times> pipe_factory" where
  "factory_handle_event cid evt w =
     (let session = pc_session (pf_conns w cid) in
      if evt = EVT_DISCONNECT then
        let w = (case session of Some sid \<Rightarrow> session_unbind sid (session_event sid EVT_DISCONNECT w) | None \<Rightarrow> w)
        in (False, snd (remove_unbind_pipe cid w))
      else
        let w = (if evt = EVT_CONNECT \<and> \<not> pc_passive (pf_conns w cid)
                 then send_shakehand cid (pc_pipeid (pf_conns w cid)) w else w);
            w = (case session of Some sid \<Rightarrow> session_event sid evt w | None \<Rightarrow> w)
        in (False, w))"

definition factory_handle_data :: "u64 \<Rightarrow> bytes \<Rightarrow> pipe_factory \<Rightarrow> bool \<times> pipe_factory" where
  "factory_handle_data cid data w =
     (let msg = head_cast data in
      if unat (ph_length msg) + head_size > length data then (False, w)
      else if ph_type msg = PIPE_MSG_SHAKE_HAND then
        (True, if pc_passive (pf_conns w cid) then process_server_handshake cid data w
               else process_client_handshake cid data w)
      else if ph_type msg = PIPE_MSG_HEART_BEAT then
        (True, if \<not> pc_passive (pf_conns w cid) then snd (send_heartbeat cid [] w) else w)
      else
        (case pc_session (pf_conns w cid) of
           Some sid \<Rightarrow> (True, session_message sid (take (unat (ph_length msg)) (drop head_size data)) (ph_data msg) w)
         | None \<Rightarrow>
             (True, if pc_passive (pf_conns w cid)
                    then snd (conn_msend cid
                           [ArgObject (head_image \<lparr>ph_length = 0, ph_type = PIPE_MSG_SHAKE_HAND, ph_data = 0\<rparr>)] w)
                    else w)))"

text \<open>Sending to a named pipe and to all; None again stands for a null string argument.\<close>

definition send_to :: "bytes \<Rightarrow> send_arg list \<Rightarrow> pipe_factory \<Rightarrow> (int \<times> pipe_factory) option" where
  "send_to pid args w =
     (case find_bind_pipe pid w of
        Some sid \<Rightarrow> msend_with_obdata sid 0 args w
      | None \<Rightarrow> Some (-1, w))"

fun broadcast_loop :: "(bytes \<times> nat) list \<Rightarrow> send_arg list \<Rightarrow> u32 \<Rightarrow> pipe_factory \<Rightarrow> (u32 \<times> pipe_factory) option" where
  "broadcast_loop [] args n w = Some (n, w)"
| "broadcast_loop ((pid, sid) # pipes) args n w =
     (case msend_with_obdata sid 0 args w of
        None \<Rightarrow> None
      | Some (r, w) \<Rightarrow> broadcast_loop pipes args (if r > 0 then n + 1 else n) w)"

definition broadcast :: "send_arg list \<Rightarrow> pipe_factory \<Rightarrow> (u32 \<times> pipe_factory) option" where
  "broadcast args w = broadcast_loop (bind_pipes w) args 0 w"

text \<open>The sessions for which \<^verbatim>\<open>start_clients\<close> calls its argument.\<close>

definition start_clients :: "pipe_factory \<Rightarrow> nat list" where
  "start_clients w =
     filter (\<lambda>sid. ps_port (pf_sessions w sid) \<noteq> 0 \<and> ps_host (pf_sessions w sid) \<noteq> [])
       (map snd (bind_pipes w) @ map snd (unbind_pipes w))"

end
