(* ===== verification/Pipe_Stream.thy ===== *)
theory Pipe_Stream
  imports Pipe
begin

text \<open>
  Pipe messages on a TCP stream: \<^verbatim>\<open>PipeConnection::handle_package\<close> meets the contract of
  a package handler, encoded messages are frames, and the messages one side sends are the
  messages the other side is given, in order, however TCP cuts the stream.
\<close>

section \<open>Frames\<close>

definition pipe_frame :: "bytes \<Rightarrow> nat" where
  "pipe_frame b =
     (if length b < head_size then 0
      else if head_size + unat (rd32 b) > length b then 0 else head_size + unat (rd32 b))"

lemma sint_of_nat32: "n < 2 ^ 31 \<Longrightarrow> sint (of_nat n :: u32) = int n"
  by (rule sint_of_nat_small)

lemma unat_small_len: "n \<le> kReadBufferSize \<Longrightarrow> unat (of_nat n :: u32) = n"
  by (rule unat_of_nat32) (simp add: kReadBufferSize_def)

lemma handle_package_value:
  assumes n: "n \<le> kReadBufferSize"
  shows "handle_package m (of_nat n) =
    (if n < head_size \<or> head_size + unat (rd32 m) > n then 0 else int (head_size + unat (rd32 m)))"
  using n sint_of_nat32 [of "head_size + unat (rd32 m)"]
  by (auto simp: handle_package_def head_cast_def unat_small_len [OF n] kReadBufferSize_def Let_def)

interpretation pipe: package_framing pipe_frame handle_package
proof
  show "pipe_frame b \<le> length b" for b
    by (simp add: pipe_frame_def)
  show "0 < pipe_frame b \<Longrightarrow> pipe_frame (b @ x) = pipe_frame b" for b x
    by (auto simp: pipe_frame_def rd32_append head_size_def split: if_splits)
next
  fix v stale :: bytes and n
  assume v: "0 < pipe_frame v" "length v \<le> n" "n \<le> kReadBufferSize"
  then have "16 \<le> length v" "head_size + unat (rd32 v) \<le> length v"
    by (auto simp: pipe_frame_def head_size_def split: if_splits)
  then show "handle_package (v @ stale) (of_nat n) = int (pipe_frame v)"
    using v by (simp add: handle_package_value rd32_append pipe_frame_def head_size_def)
next
  fix v stale :: bytes and n
  assume v: "pipe_frame v = 0" "0 < length v" "length v \<le> n" "n \<le> kReadBufferSize"
  let ?k = "head_size + unat (rd32 (v @ stale))"
  have "length v < ?k \<or> n < ?k"
  proof (cases "length v < head_size")
    case False
    then have "rd32 (v @ stale) = rd32 v" "length v < head_size + unat (rd32 v)"
      using v by (auto simp: rd32_append pipe_frame_def head_size_def split: if_splits)
    then show ?thesis by simp
  qed simp
  then show "handle_package (v @ stale) (of_nat n) \<le> 0 \<or>
    int (length v) < handle_package (v @ stale) (of_nat n) \<and>
    handle_package (v @ stale) (of_nat n) \<le> int kReadBufferSize"
    using v(4) unfolding handle_package_value [OF v(4)] by (auto simp del: of_nat_add of_nat_unat)
qed

section \<open>Messages\<close>

text \<open>A message: type, out-of-band data and body.\<close>

definition pipe_encode :: "u32 \<times> u64 \<times> bytes \<Rightarrow> bytes" where
  "pipe_encode m = (case m of (t, d, body) \<Rightarrow>
     head_image \<lparr>ph_length = of_nat (length body), ph_type = t, ph_data = d\<rparr> @ body)"

definition pipe_decode :: "bytes \<Rightarrow> u32 \<times> u64 \<times> bytes" where
  "pipe_decode b = (let h = head_cast b in
     (ph_type h, ph_data h, take (unat (ph_length h)) (drop head_size b)))"

definition pipe_fits :: "u32 \<times> u64 \<times> bytes \<Rightarrow> bool" where
  "pipe_fits m \<longleftrightarrow> length (snd (snd m)) < 2 ^ 32"

lemma length_head_image [simp]: "length (head_image h) = head_size"
  by (simp add: head_image_def head_size_def)

lemma head_cast_image [simp]: "head_cast (head_image h @ x) = h"
  by (simp add: head_cast_def head_image_def)

lemma rd32_head_image [simp]: "rd32 (head_image h @ x) = ph_length h"
  by (simp add: head_image_def)

lemma unat_body: "length body < 2 ^ 32 \<Longrightarrow> unat (of_nat (length body) :: u32) = length body"
  by (rule unat_of_nat32)

lemma pipe_decode_encode:
  "pipe_fits m \<Longrightarrow> pipe_decode (pipe_encode m @ x) = m"
  by (cases m)
    (simp add: pipe_decode_def pipe_encode_def pipe_fits_def unat_body Let_def)

lemma pipe_frame_encode:
  "pipe_fits m \<Longrightarrow> pipe_frame (pipe_encode m @ x) = length (pipe_encode m)"
  by (cases m) (simp add: pipe_frame_def pipe_encode_def pipe_fits_def unat_body)

lemma length_pipe_encode: "0 < length (pipe_encode m)"
  by (cases m) (simp add: pipe_encode_def head_size_def)

lemma packages_encoded:
  assumes "\<forall>m\<in>set ms. pipe_fits m"
  shows "packages pipe_frame (concat (map pipe_encode ms)) = map pipe_encode ms"
  using assms
proof (induction ms)
  case (Cons m ms)
  then have "pipe_frame (pipe_encode m @ concat (map pipe_encode ms)) = length (pipe_encode m)"
    by (simp add: pipe_frame_encode)
  then show ?case
    using Cons length_pipe_encode [of m]
    by (simp add: pipe.packages_unfold [of "pipe_encode m @ concat (map pipe_encode ms)"])
qed simp

section \<open>What is received\<close>

lemma h_received_process_data [simp]: "h_received (snd (process_data ops n s)) = h_received s"
  using cb_ext_fields(13) [OF cb_ext_loop [of "s\<lparr>read_buffer_pos := read_buffer_pos s + n\<rparr>" ops "read_buffer_pos s + n" 0]]
  by (auto simp: process_data_def Let_def split: prod.splits)

lemma h_received_do_read [simp]: "h_received (do_read ops s) = h_received s"
  by (simp add: do_read_def Let_def)

lemma h_received_read_done: "h_received (read_done ops st (Some d) s) = h_received s @ d"
  by (simp add: read_done_def)


section \<open>What is sent\<close>

fun arg_bytes :: "send_arg \<Rightarrow> bytes" where
  "arg_bytes (ArgObject d) = d"
| "arg_bytes (ArgString d) = d"
| "arg_bytes (ArgCStr (Some m)) = takeWhile (\<lambda>b. b \<noteq> 0) m"
| "arg_bytes (ArgCStr None) = []"

definition is_cstr :: "send_arg \<Rightarrow> bool" where
  "is_cstr a = (case a of ArgCStr _ \<Rightarrow> True | _ \<Rightarrow> False)"

lemma write_data_value: "\<not> is_cstr a \<Longrightarrow> write_data a sb = (of_nat (length (sb @ arg_bytes a)), sb @ arg_bytes a)"
  by (cases a) (simp_all add: is_cstr_def)

lemma of_nat_pos32: "0 < n \<Longrightarrow> n < 2 ^ 32 \<Longrightarrow> (0 :: u32) < of_nat n"
  by (simp add: word_less_nat_alt unat_of_nat32)

lemma mpush_value:
  assumes "\<forall>a\<in>set args. \<not> is_cstr a" "sb \<noteq> []" "length (sb @ concat (map arg_bytes args)) < 2 ^ 32"
  shows "snd (mpush args sb) = sb @ concat (map arg_bytes args)"
  using assms
proof (induction args arbitrary: sb)
  case (Cons a args)
  have "(0 :: u32) < of_nat (length (sb @ arg_bytes a))"
    using Cons.prems by (intro of_nat_pos32) simp_all
  then show ?case
    using Cons by (simp add: write_data_value split: prod.splits)
      (metis append_assoc append_is_Nil_conv length_append snd_conv)
qed simp

lemma pipe_data_length_value:
  "\<forall>a\<in>set args. \<not> is_cstr a \<Longrightarrow> pipe_data_length args = Some (of_nat (length (concat (map arg_bytes args))))"
proof (induction args)
  case (Cons a args)
  then have "data_length a = Some (of_nat (length (arg_bytes a)))"
    by (cases a) (simp_all add: is_cstr_def)
  with Cons show ?case by simp
qed simp

lemma msend_head_accepted:
  assumes "is_open s" "\<forall>a\<in>set args. \<not> is_cstr a"
    and "length (send_buffer s) + head_size + length (concat (map arg_bytes args)) < 2 ^ 32"
  shows "h_accepted (snd (msend (ArgObject (head_image h) # args) s)) =
    h_accepted s @ head_image h @ concat (map arg_bytes args)"
proof -
  have "snd (mpush (ArgObject (head_image h) # args) (send_buffer s)) =
      send_buffer s @ head_image h @ concat (map arg_bytes args)"
  proof -
    have "(0 :: u32) < of_nat (length (send_buffer s @ head_image h))"
      using assms(3) by (intro of_nat_pos32) (simp_all add: head_size_def)
    moreover have "snd (mpush args (send_buffer s @ head_image h)) =
        (send_buffer s @ head_image h) @ concat (map arg_bytes args)"
      using assms by (intro mpush_value) (auto simp: head_size_def simp flip: length_0_conv)
    ultimately show ?thesis by (auto split: prod.splits)
  qed
  then show ?thesis
    using assms(1) by (auto simp: msend_def do_send_def split: prod.splits)
qed

section \<open>Properties\<close>

text \<open>
  A gathered send on a ready pipe whose arguments are objects and strings puts exactly
  one encoded data message on the stream: the head carries the total length of the
  arguments and the out-of-band data, the body is their concatenation.
\<close>

theorem pipe_msend_wire:
  assumes "is_ready sid w" "ps_connection (pf_sessions w sid) = Some cid"
    and "\<forall>a\<in>set args. \<not> is_cstr a"
    and "length (send_buffer (pc_sock (pf_conns w cid))) + head_size + length (concat (map arg_bytes args)) < 2 ^ 32"
  shows "\<exists>r w'. msend_with_obdata sid obdata args w = Some (r, w') \<and>
    h_accepted (pc_sock (pf_conns w' cid)) =
      h_accepted (pc_sock (pf_conns w cid)) @ pipe_encode (PIPE_MSG_DATA, obdata, concat (map arg_bytes args))"
proof -
  have "is_open (pc_sock (pf_conns w cid))"
    using assms(1,2) by (simp add: is_ready_def conn_connected_def)
  from msend_head_accepted [OF this assms(3,4)] assms(1,2) pipe_data_length_value [OF assms(3)]
  show ?thesis
    by (simp add: msend_with_obdata_def conn_msend_def upd_conn_def pipe_encode_def split: prod.splits)
      (metis snd_conv)
qed

definition demo_session :: pipe_session where
  "demo_session = \<lparr>ps_host = [], ps_port = 0, ps_pipe_id = [97], ps_ready = True, ps_connection = Some 1025,
     ps_heartbeat = False, ps_events = [], ps_messages = []\<rparr>"

definition demo_factory :: pipe_factory where
  "demo_factory = \<lparr>pf_mode = PIPE_DUET_MODE, pf_sessions = (\<lambda>_. demo_session), pf_next = 1,
     pf_conns = (\<lambda>_. \<lparr>pc_passive = True, pc_sock = sent_state, pc_session = Some 0, pc_pipeid = [97]\<rparr>),
     bind_pipes = [([97], 0)], unbind_pipes = [], pid_index = 0\<rparr>"

lemmas demo_simps = demo_factory_def demo_session_def sent_state_def is_ready_def conn_connected_def

theorem pipe_msend_wire_witness:
  "\<exists>r w'. msend_with_obdata 0 7 [ArgString [5, 6], ArgObject [9]] demo_factory = Some (r, w') \<and>
     h_accepted (pc_sock (pf_conns w' 1025)) =
       h_accepted (pc_sock (pf_conns demo_factory 1025)) @ pipe_encode (PIPE_MSG_DATA, 7, [5, 6, 9])"
  using pipe_msend_wire [of 0 demo_factory 1025 "[ArgString [5, 6], ArgObject [9]]" 7]
  by (simp add: demo_simps tcp_run_simps is_cstr_def head_size_def)

text \<open>
  C6: a connection that cuts its stream with \<^verbatim>\<open>PipeConnection::handle_package\<close> is given
  exactly the frames of the bytes received so far, in every reachable state of the socket
  and however the stream arrives; once the connection is gone it is given nothing more.
\<close>

theorem pipe_packages_exact:
  assumes "\<And>m n c. process_package ops m n c = (handle_package m n, c)"
    and "no_reconnect ops" and "length storage = kReadBufferSize + 4"
    and "tcp_reach ops (TcpSocket_init opened storage c) s"
  shows "if has_conn s then h_packages s = packages pipe_frame (h_received s)
    else prefix (h_packages s) (packages pipe_frame (h_received s))"
  using pipe.framed_reach [where ops = ops, OF assms] by (simp add: pipe.tcp_framed_def split: if_splits)

text \<open>The receiving side of the witnesses: a connection that cuts pipe messages.\<close>

definition pipe_ops :: "unit conn_ops" where
  "pipe_ops = default_ops\<lparr>process_package := \<lambda>m n c. (handle_package m n, c)\<rparr>"

definition pipe_socket :: "unit tcp_socket" where
  "pipe_socket = TcpSocket_init True (replicate (kReadBufferSize + 4) 0) ()"

definition pipe_received :: "bytes \<Rightarrow> unit tcp_socket" where
  "pipe_received d = read_done pipe_ops 0 (Some d) ((init_read pipe_ops pipe_socket)\<lparr>reads := []\<rparr>)"

lemma pipe_ops_package: "process_package pipe_ops m n c = (handle_package m n, c)"
  by (simp add: pipe_ops_def)

lemma no_reconnect_pipe: "no_reconnect pipe_ops"
  by (simp add: no_reconnect_def pipe_ops_def default_ops_def)

lemma pipe_received_reach:
  assumes d: "0 < length d" "length d \<le> kReadBufferSize"
  shows "tcp_reach pipe_ops pipe_socket (pipe_received d)"
proof -
  have 1: "tcp_reach pipe_ops pipe_socket (init_read pipe_ops pipe_socket)"
    by (rule tcp_reach_step [OF tcp_reach_refl step_accept])
      (simp_all add: TcpSocket_init_def pipe_socket_def)
  have "reads (init_read pipe_ops pipe_socket) = [] @ 0 # []"
    by (simp add: tcp_run_simps pipe_socket_def pipe_ops_def)
  then have "tcp_step pipe_ops (init_read pipe_ops pipe_socket)
      (read_done pipe_ops 0 (Some d) ((init_read pipe_ops pipe_socket)\<lparr>reads := [] @ []\<rparr>))"
    using d by (intro step_read) auto
  with 1 show ?thesis by (auto simp: pipe_received_def intro: tcp_reach_step)
qed

lemma h_received_pipe: "h_received (pipe_received d) = d"
  by (simp add: pipe_received_def h_received_read_done tcp_run_simps pipe_socket_def pipe_ops_def)

lemma pipe_received_conn:
  assumes "pipe_fits m" "length (pipe_encode m) \<le> kReadBufferSize"
  shows "has_conn (pipe_received (pipe_encode m))"
proof -
  let ?d = "pipe_encode m"
  let ?s = "(init_read pipe_ops pipe_socket)\<lparr>reads := [], read_buffer := blit (replicate (kReadBufferSize + 4) 0) 0 ?d,
    h_received := ?d\<rparr>"
  have i: "read_buffer (init_read pipe_ops pipe_socket) = replicate (kReadBufferSize + 4) 0"
    "h_received (init_read pipe_ops pipe_socket) = []" "has_conn ?s" "read_buffer_pos ?s = 0"
    by (simp_all add: tcp_run_simps pipe_socket_def pipe_ops_def)
  have v: "?d = take (read_buffer_pos ?s + length ?d) (read_buffer ?s)"
    using i(4) by (simp add: blit_def)
  have len: "length (read_buffer ?s) = kReadBufferSize + 4"
    using assms(2) by (simp add: length_blit)
  have "residue pipe_frame ?d = []"
    using packages_residue [of pipe_frame ?d] packages_encoded [of "[m]"] assms(1) by simp
  moreover have "read_buffer_pos ?s + length ?d \<le> kReadBufferSize" using assms(2) i(4) by simp
  note t = pipe.process_data_frames [where ops = pipe_ops, OF pipe_ops_package i(3) this len v refl]
  ultimately have "has_conn (do_read pipe_ops (snd (process_data pipe_ops (length ?d) ?s)))"
    by (simp add: do_read_def kReadBufferSize_def)
  then show ?thesis using i by (simp add: pipe_received_def read_done_def)
qed

lemma demo_message: "pipe_fits (3, 7, [5, 6])" "length (pipe_encode (3, 7, [5, 6])) \<le> kReadBufferSize"
  by (simp_all add: pipe_fits_def pipe_encode_def head_size_def kReadBufferSize_def)

lemma demo_reach:
  "tcp_reach pipe_ops (TcpSocket_init True (replicate (kReadBufferSize + 4) 0) ())
     (pipe_received (pipe_encode (3, 7, [5, 6])))"
  using pipe_received_reach [OF length_pipe_encode demo_message(2)] by (simp add: pipe_socket_def)

theorem pipe_packages_exact_witness:
  "h_packages (pipe_received (pipe_encode (3, 7, [5, 6]))) = [pipe_encode (3, 7, [5, 6])]"
  using pipe_packages_exact [where ops = pipe_ops, OF pipe_ops_package no_reconnect_pipe _ demo_reach]
    packages_encoded [of "[(3, 7, [5, 6])]"] demo_message(1) pipe_received_conn [OF demo_message]
  by (simp add: h_received_pipe)

lemma pipe_packages_prefix:
  assumes "\<And>m n c. process_package ops m n c = (handle_package m n, c)"
    and "no_reconnect ops" and "length storage = kReadBufferSize + 4"
    and "tcp_reach ops (TcpSocket_init opened storage c) s"
    and "prefix (h_received s) stream"
  shows "prefix (h_packages s) (packages pipe_frame stream)"
proof -
  have "prefix (h_packages s) (packages pipe_frame (h_received s))"
    using pipe.framed_reach [where ops = ops, OF assms(1-4)] by (rule pipe.tcp_framed_prefix)
  moreover have "prefix (packages pipe_frame (h_received s)) (packages pipe_frame stream)"
    using assms(5) pipe.packages_mono by (auto simp: prefix_def)
  ultimately show ?thesis by (rule prefix_order.trans)
qed



text \<open>The sending side of the witness: one message, written by the kernel.\<close>

definition pipe_sent :: "unit tcp_socket" where
  "pipe_sent = write_done default_ops True (pipe_encode (3, 7, [5, 6]))
     ((run_task default_ops TaskSend
        ((snd (msend [ArgString (pipe_encode (3, 7, [5, 6]))]
            (init_read default_ops (TcpSocket_init True [] ()))))\<lparr>tasks := []\<rparr>))\<lparr>writes := []\<rparr>)"

lemma pipe_sent_reach: "tcp_reach default_ops (TcpSocket_init True [] ()) pipe_sent"
proof -
  let ?s = "TcpSocket_init True [] ()" and ?m = "pipe_encode (3, 7, [5, 6])"
  let ?u = "snd (msend [ArgString ?m] (init_read default_ops ?s))"
  let ?v = "run_task default_ops TaskSend (?u\<lparr>tasks := []\<rparr>)"
  have m: "?m \<noteq> []" using length_pipe_encode by blast
  have 1: "tcp_reach default_ops ?s (init_read default_ops ?s)"
    by (rule tcp_reach_step [OF tcp_reach_refl step_accept]) (simp_all add: TcpSocket_init_def)
  note 2 = tcp_reach_step [OF 1 step_send [where args = "[ArgString ?m]"]]
  have t: "tasks ?u = TaskSend # []"
    by (simp add: tcp_run_simps split: prod.splits)
  note 3 = tcp_reach_step [OF 2 step_task [OF t]]
  have w: "writes ?v = [] @ ?m # []"
    using m by (simp add: tcp_run_simps split: prod.splits)
  show ?thesis
    using tcp_reach_step [OF 3 step_write [OF w, where ok = True]] by (simp add: pipe_sent_def)
qed

lemma pipe_sent_state:
  "socket_status pipe_sent = SOCKET_OPEN" "h_written pipe_sent = pipe_encode (3, 7, [5, 6])"
  "h_accepted pipe_sent = pipe_encode (3, 7, [5, 6])"
proof -
  have m: "pipe_encode (3, 7, [5, 6]) \<noteq> []" using length_pipe_encode by blast
  show "socket_status pipe_sent = SOCKET_OPEN" "h_written pipe_sent = pipe_encode (3, 7, [5, 6])"
    "h_accepted pipe_sent = pipe_encode (3, 7, [5, 6])"
    using m by (simp_all add: pipe_sent_def write_done_def tcp_run_simps split: prod.splits)
qed


end
