(* ===== verification/Pipe_Session.thy ===== *)
theory Pipe_Session
  imports Pipe_Stream Registry
begin

text \<open>
  The session layer of the pipe: the handshake that binds a session to a connection on both
  sides, the delivery of data messages to the session, broadcast, and the refusal of unknown
  pipe names.
\<close>

section \<open>Access to the stores\<close>

lemma upd_session_get [simp]:
  "pf_sessions (upd_session sid f w) = (pf_sessions w)(sid := f (pf_sessions w sid))"
  "pf_conns (upd_session sid f w) = pf_conns w"
  "bind_pipes (upd_session sid f w) = bind_pipes w" "unbind_pipes (upd_session sid f w) = unbind_pipes w"
  "pf_next (upd_session sid f w) = pf_next w" "pid_index (upd_session sid f w) = pid_index w"
  by (simp_all add: upd_session_def)

lemma upd_conn_get [simp]:
  "pf_conns (upd_conn cid f w) = (pf_conns w)(cid := f (pf_conns w cid))"
  "pf_sessions (upd_conn cid f w) = pf_sessions w"
  "bind_pipes (upd_conn cid f w) = bind_pipes w" "unbind_pipes (upd_conn cid f w) = unbind_pipes w"
  "pf_next (upd_conn cid f w) = pf_next w" "pid_index (upd_conn cid f w) = pid_index w"
  by (simp_all add: upd_conn_def)

text \<open>Sending changes one socket and leaves it as open as it was.\<close>

lemma conn_msend_get [simp]:
  "pf_sessions (snd (conn_msend cid args w)) = pf_sessions w"
  "bind_pipes (snd (conn_msend cid args w)) = bind_pipes w"
  "unbind_pipes (snd (conn_msend cid args w)) = unbind_pipes w"
  "pf_next (snd (conn_msend cid args w)) = pf_next w"
  "pf_conns (snd (conn_msend cid args w)) =
     (pf_conns w)(cid := (pf_conns w cid)\<lparr>pc_sock := snd (msend args (pc_sock (pf_conns w cid)))\<rparr>)"
  by (simp_all add: conn_msend_def upd_conn_def split: prod.splits)

lemma is_open_msend [simp]: "is_open (snd (msend args s)) = is_open s"
  using cb_ext_fields [OF cb_ext_msend [of s args]] by (simp add: is_open_def)

lemma conn_connected_msend [simp]: "conn_connected c (snd (conn_msend cid args w)) = conn_connected c w"
  by (simp add: conn_connected_def)

lemma is_ready_msend [simp]: "is_ready sid (snd (conn_msend cid args w)) = is_ready sid w"
  by (simp add: is_ready_def split: option.splits)

lemmas pipe_store_simps = send_shakehand_def send_heartbeat_def session_event_def session_message_def
  session_bind_def session_unbind_def update_pipeid_def on_ready_def find_bind_pipe_def find_unbind_pipe_def
  conn_connected_def

text \<open>The two tables of the factory are registries.\<close>

interpretation bound: registry find_bind_pipe add_bind_pipe remove_bind_pipe
  by unfold_locales
    (auto simp: find_bind_pipe_def add_bind_pipe_def remove_bind_pipe_def update_conv' delete_conv')

interpretation unbound: registry find_unbind_pipe add_unbind_pipe remove_unbind_pipe
  by unfold_locales
    (auto simp: find_unbind_pipe_def add_unbind_pipe_def remove_unbind_pipe_def update_conv' delete_conv')

section \<open>Handshake messages\<close>

abbreviation shake_msg :: "bytes \<Rightarrow> bytes" where
  "shake_msg pid \<equiv> pipe_encode (PIPE_MSG_SHAKE_HAND, 0, pid)"

definition pid_ok :: "bytes \<Rightarrow> bool" where
  "pid_ok pid \<longleftrightarrow> pid \<noteq> [] \<and> length pid < 2 ^ 31"

lemma shake_msg_parts:
  assumes "pid_ok pid"
  shows "ph_length (head_cast (shake_msg pid)) = of_nat (length pid)"
    "ph_type (head_cast (shake_msg pid)) = PIPE_MSG_SHAKE_HAND"
    "(0 :: u32) < of_nat (length pid)"
    "unat (of_nat (length pid) :: u32) = length pid"
    "take (length pid) (drop head_size (shake_msg pid)) = pid"
    "length (shake_msg pid) = head_size + length pid"
proof -
  have l: "0 < length pid" "length pid < 2 ^ 32" using assms by (auto simp: pid_ok_def)
  show "(0 :: u32) < of_nat (length pid)" using l by (rule of_nat_pos32)
  show "unat (of_nat (length pid) :: u32) = length pid" using l(2) by (rule unat_of_nat32)
qed (simp_all add: pipe_encode_def)

lemma send_shakehand_accepted:
  assumes "conn_connected cid w" "pid_ok pid" "length (send_buffer (pc_sock (pf_conns w cid))) < 2 ^ 30"
  shows "h_accepted (pc_sock (pf_conns (send_shakehand cid pid w) cid)) =
    h_accepted (pc_sock (pf_conns w cid)) @ shake_msg pid"
  using assms
    msend_head_accepted [of "pc_sock (pf_conns w cid)" "[ArgString pid]"
      "\<lparr>ph_length = of_nat (length pid), ph_type = PIPE_MSG_SHAKE_HAND, ph_data = 0\<rparr>"]
  by (simp add: send_shakehand_def conn_connected_def is_cstr_def pid_ok_def head_size_def pipe_encode_def)

section \<open>Both ends of the handshake\<close>

lemma server_handshake:
  assumes "pid_ok pid" "pc_passive (pf_conns w cid)" "find_bind_pipe pid w = Some sid" "\<not> is_ready sid w"
    and "conn_connected cid w" "length (send_buffer (pc_sock (pf_conns w cid))) < 2 ^ 30"
    and w': "w' = snd (factory_handle_data cid (shake_msg pid) w)"
  shows "is_ready sid w'" "ps_connection (pf_sessions w' sid) = Some cid"
    "pc_session (pf_conns w' cid) = Some sid" "ps_heartbeat (pf_sessions w' sid)"
    "ps_events (pf_sessions w' sid) = ps_events (pf_sessions w sid) @ [EVT_CONNECT]"
    "h_accepted (pc_sock (pf_conns w' cid)) = h_accepted (pc_sock (pf_conns w cid)) @ shake_msg pid"
proof -
  let ?w1 = "session_bind sid cid w"
  have w: "w' = session_event sid EVT_CONNECT (on_ready sid (send_shakehand cid pid ?w1))"
    using assms shake_msg_parts [OF assms(1)]
    by (simp add: factory_handle_data_def process_server_handshake_def Let_def)
  show "is_ready sid w'" "ps_connection (pf_sessions w' sid) = Some cid"
    "pc_session (pf_conns w' cid) = Some sid" "ps_heartbeat (pf_sessions w' sid)"
    "ps_events (pf_sessions w' sid) = ps_events (pf_sessions w sid) @ [EVT_CONNECT]"
    using assms(2,5) by (simp_all add: w pipe_store_simps is_ready_def)
  have c: "conn_connected cid ?w1" "length (send_buffer (pc_sock (pf_conns ?w1 cid))) < 2 ^ 30"
    using assms(5,6) by (simp_all add: pipe_store_simps)
  have "pf_conns w' = pf_conns (send_shakehand cid pid ?w1)"
    by (simp add: w session_event_def on_ready_def split: option.splits)
  then show "h_accepted (pc_sock (pf_conns w' cid)) = h_accepted (pc_sock (pf_conns w cid)) @ shake_msg pid"
    using send_shakehand_accepted [OF c(1) assms(1) c(2)] by (simp add: session_bind_def)
qed

lemma client_hello:
  assumes "pid_ok pid" "\<not> pc_passive (pf_conns w cid)" "pc_pipeid (pf_conns w cid) = pid"
    and "conn_connected cid w" "length (send_buffer (pc_sock (pf_conns w cid))) < 2 ^ 30"
    and "pc_session (pf_conns w cid) = None"
    and w': "w' = snd (factory_handle_event cid EVT_CONNECT w)"
  shows "h_accepted (pc_sock (pf_conns w' cid)) = h_accepted (pc_sock (pf_conns w cid)) @ shake_msg pid"
    "pf_sessions w' = pf_sessions w" "bind_pipes w' = bind_pipes w" "conn_connected cid w'"
    "\<not> pc_passive (pf_conns w' cid)" "is_ready sid w' = is_ready sid w"
  using assms send_shakehand_accepted [of cid w pid]
  by (simp_all add: factory_handle_event_def Let_def send_shakehand_def)

lemma client_handshake:
  assumes "pid_ok pid" "\<not> pc_passive (pf_conns w cid)" "find_bind_pipe pid w = Some sid" "\<not> is_ready sid w"
    and "conn_connected cid w"
    and w': "w' = snd (factory_handle_data cid (shake_msg pid) w)"
  shows "is_ready sid w'" "ps_connection (pf_sessions w' sid) = Some cid"
    "pc_session (pf_conns w' cid) = Some sid"
    "ps_events (pf_sessions w' sid) = ps_events (pf_sessions w sid) @ [EVT_CONNECT]"
  using assms shake_msg_parts [OF assms(1)]
  by (simp_all add: factory_handle_data_def process_client_handshake_def Let_def pipe_store_simps is_ready_def)

section \<open>Properties\<close>


text \<open>Two sides of a pipe named \<open>a\<close>, not yet bound.\<close>

definition open_socket :: "unit tcp_socket" where
  "open_socket = init_read default_ops (TcpSocket_init True [] ())"

definition demo_end :: "bool \<Rightarrow> pipe_factory" where
  "demo_end passive = \<lparr>pf_mode = PIPE_DUET_MODE, pf_sessions = (\<lambda>_. PipeSession_new [97] [] 0), pf_next = 1,
     pf_conns = (\<lambda>_. \<lparr>pc_passive = passive, pc_sock = open_socket, pc_session = None, pc_pipeid = [97]\<rparr>),
     bind_pipes = [([97], 0)], unbind_pipes = [], pid_index = 0\<rparr>"

lemma open_socket_state: "is_open open_socket" "send_buffer open_socket = []"
  by (simp_all add: open_socket_def tcp_run_simps)

lemma demo_end_state:
  "pid_ok [97]" "pc_passive (pf_conns (demo_end b) c) = b" "pc_pipeid (pf_conns (demo_end b) c) = [97]"
  "pc_session (pf_conns (demo_end b) c) = None" "conn_connected c (demo_end b)"
  "send_buffer (pc_sock (pf_conns (demo_end b) c)) = []"
  "find_bind_pipe [97] (demo_end b) = Some 0" "\<not> is_ready 0 (demo_end b)"
  by (simp_all add: demo_end_def pid_ok_def conn_connected_def find_bind_pipe_def is_ready_def
      PipeSession_new_def open_socket_state)


text \<open>
  C23: a data message that arrives on a bound connection is handed to its session as it was
  sent, body and out-of-band data, and nothing else changes.
\<close>

theorem pipe_data_delivered:
  assumes "pc_session (pf_conns w cid) = Some sid" "length body < 2 ^ 32"
  shows "factory_handle_data cid (pipe_encode (PIPE_MSG_DATA, obdata, body)) w =
    (True, w\<lparr>pf_sessions := (pf_sessions w)(sid := (pf_sessions w sid)
        \<lparr>ps_messages := ps_messages (pf_sessions w sid) @ [(body, obdata)]\<rparr>)\<rparr>)"
  using assms
  by (simp add: factory_handle_data_def pipe_encode_def unat_of_nat32 Let_def session_message_def upd_session_def
      PIPE_MSG_DATA_def PIPE_MSG_SHAKE_HAND_def PIPE_MSG_HEART_BEAT_def)

theorem pipe_data_delivered_witness:
  "factory_handle_data 1025 (pipe_encode (PIPE_MSG_DATA, 7, [5, 6])) demo_factory =
    (True, demo_factory\<lparr>pf_sessions := (pf_sessions demo_factory)(0 := (pf_sessions demo_factory 0)
        \<lparr>ps_messages := ps_messages (pf_sessions demo_factory 0) @ [([5, 6], 7)]\<rparr>)\<rparr>)"
  by (rule pipe_data_delivered) (simp_all add: demo_factory_def)

text \<open>
  A handshake for a pipe name the server does not know binds nothing: the sessions and
  both maps stay as they are, nothing is sent and the socket is asked to close.
\<close>

theorem pipe_unknown_refused:
  assumes "pid_ok pid" "pc_passive (pf_conns w cid)" "find_bind_pipe pid w = None"
  shows "factory_handle_data cid (shake_msg pid) w =
    (True, w\<lparr>pf_conns := (pf_conns w)(cid := (pf_conns w cid)\<lparr>pc_sock := close_socket (pc_sock (pf_conns w cid))\<rparr>)\<rparr>)"
  using assms shake_msg_parts [OF assms(1)]
  by (simp add: factory_handle_data_def process_server_handshake_def Let_def conn_close_def upd_conn_def)

theorem pipe_unknown_refused_witness:
  "fst (factory_handle_data 1026 (shake_msg [98]) (demo_end True)) \<and>
   pf_sessions (snd (factory_handle_data 1026 (shake_msg [98]) (demo_end True))) = pf_sessions (demo_end True)"
proof -
  have "pid_ok [98]" "find_bind_pipe [98] (demo_end True) = None"
    by (simp_all add: pid_ok_def find_bind_pipe_def demo_end_def)
  from pipe_unknown_refused [OF this(1) _ this(2), of 1026] show ?thesis
    by (simp add: demo_end_state)
qed

section \<open>Broadcast\<close>

text \<open>The number of ready sessions of the list that sit on the connection \<open>cid\<close>.\<close>

definition ready_on :: "pipe_factory \<Rightarrow> u64 \<Rightarrow> (bytes \<times> nat) list \<Rightarrow> nat" where
  "ready_on w cid pipes =
     length (filter (\<lambda>(pid, sid). is_ready sid w \<and> ps_connection (pf_sessions w sid) = Some cid) pipes)"

lemma ready_on_cong:
  assumes "\<And>sid. is_ready sid w' = is_ready sid w" "pf_sessions w' = pf_sessions w"
  shows "ready_on w' cid pipes = ready_on w cid pipes"
  by (simp add: ready_on_def assms)

lemma msend_send_buffer_length:
  assumes "\<forall>a\<in>set args. \<not> is_cstr a"
    and "length (send_buffer s) + head_size + length (concat (map arg_bytes args)) < 2 ^ 32"
  shows "length (send_buffer (snd (msend (ArgObject (head_image h) # args) s)))
    \<le> length (send_buffer s) + head_size + length (concat (map arg_bytes args))"
proof (cases "is_open s")
  case True
  obtain d where d: "send_buffer (snd (msend (ArgObject (head_image h) # args) s)) = send_buffer s @ d"
      "h_accepted (snd (msend (ArgObject (head_image h) # args) s)) = h_accepted s @ d"
    using cb_ext_fields(14) [OF cb_ext_msend [of s "ArgObject (head_image h) # args"]] by blast
  then have "d = head_image h @ concat (map arg_bytes args)"
    using msend_head_accepted [OF True assms, of h] by simp
  then show ?thesis using d(1) by simp
qed (simp add: msend_def)

lemma broadcast_loop_copies:
  fixes args
  defines "body \<equiv> concat (map arg_bytes args)"
  assumes "\<forall>a\<in>set args. \<not> is_cstr a"
    and "\<And>cid. length (send_buffer (pc_sock (pf_conns w cid))) + length pipes * (head_size + length body) < 2 ^ 32"
  shows "\<exists>n' w'. broadcast_loop pipes args n w = Some (n', w') \<and>
    (\<forall>cid. h_accepted (pc_sock (pf_conns w' cid)) = h_accepted (pc_sock (pf_conns w cid)) @
        concat (replicate (ready_on w cid pipes) (pipe_encode (PIPE_MSG_DATA, 0, body))))"
  using assms(3)
proof (induction pipes arbitrary: n w)
  case (Cons p pipes)
  obtain pid sid where p: "p = (pid, sid)" by (cases p)
  show ?case
  proof (cases "is_ready sid w")
    case False
    then have "msend_with_obdata sid 0 args w = Some (-1, w)" by (simp add: msend_with_obdata_def)
    moreover have "ready_on w cid (p # pipes) = ready_on w cid pipes" for cid
      using False by (simp add: ready_on_def p)
    moreover have "length (send_buffer (pc_sock (pf_conns w cid))) + length pipes * (head_size + length body) < 2 ^ 32"
      for cid using Cons.prems [of cid] by simp
    ultimately show ?thesis using Cons.IH [of w n] by (simp add: p)
  next
    case True
    then obtain c where c: "ps_connection (pf_sessions w sid) = Some c" "is_open (pc_sock (pf_conns w c))"
      by (auto simp: is_ready_def conn_connected_def split: option.splits)
    let ?h = "\<lparr>ph_length = of_nat (length body), ph_type = PIPE_MSG_DATA, ph_data = 0\<rparr>"
    obtain r w1 where rw: "conn_msend c (ArgObject (head_image ?h) # args) w = (r, w1)" by fastforce
    then have w1: "w1 = snd (conn_msend c (ArgObject (head_image ?h) # args) w)" by simp
    have m: "msend_with_obdata sid 0 args w = Some (r, w1)"
      using True c rw pipe_data_length_value [OF assms(2)] by (simp add: msend_with_obdata_def body_def)
    have sz: "length (send_buffer (pc_sock (pf_conns w c))) + head_size + length (concat (map arg_bytes args)) < 2 ^ 32"
      using Cons.prems [of c] by (simp add: body_def)
    have size': "length (send_buffer (pc_sock (pf_conns w1 cid))) + length pipes * (head_size + length body) < 2 ^ 32"
      for cid using Cons.prems [of cid] msend_send_buffer_length [OF assms(2) sz, of ?h]
      by (auto simp: body_def w1)
    have acc: "h_accepted (pc_sock (pf_conns w1 cid)) = h_accepted (pc_sock (pf_conns w cid)) @
        (if cid = c then pipe_encode (PIPE_MSG_DATA, 0, body) else [])" for cid
      using msend_head_accepted [OF c(2) assms(2) sz, of ?h] by (simp add: pipe_encode_def body_def w1)
    have ro: "ready_on w1 cid pipes = ready_on w cid pipes" for cid
      by (rule ready_on_cong) (simp_all add: w1)
    have rc: "ready_on w cid (p # pipes) = (if cid = c then 1 else 0) + ready_on w cid pipes" for cid
      using True c by (simp add: ready_on_def p)
    obtain n' w' where "broadcast_loop pipes args (if r > 0 then n + 1 else n) w1 = Some (n', w')"
      "\<forall>cid. h_accepted (pc_sock (pf_conns w' cid)) = h_accepted (pc_sock (pf_conns w1 cid)) @
        concat (replicate (ready_on w1 cid pipes) (pipe_encode (PIPE_MSG_DATA, 0, body)))"
      using Cons.IH [OF size'] by blast
    then show ?thesis using m acc ro rc by (simp add: p)
  qed
qed (simp add: ready_on_def)

text \<open>
  A broadcast appends to the stream of every connection one copy of the message for
  each ready session bound to it under some name, and nothing to the others.
\<close>

theorem pipe_broadcast_copies:
  fixes args
  defines "body \<equiv> concat (map arg_bytes args)"
  assumes "\<forall>a\<in>set args. \<not> is_cstr a"
    and "\<And>cid. length (send_buffer (pc_sock (pf_conns w cid))) + length (bind_pipes w) * (head_size + length body) < 2 ^ 32"
  shows "\<exists>n w'. broadcast args w = Some (n, w') \<and>
    (\<forall>cid. h_accepted (pc_sock (pf_conns w' cid)) = h_accepted (pc_sock (pf_conns w cid)) @
        concat (replicate (ready_on w cid (bind_pipes w)) (pipe_encode (PIPE_MSG_DATA, 0, body))))"
  unfolding broadcast_def body_def
  by (rule broadcast_loop_copies [OF assms(2)]) (use assms(3) in \<open>simp add: body_def\<close>)

theorem pipe_broadcast_copies_witness:
  "\<exists>n w'. broadcast [ArgString [5, 6]] demo_factory = Some (n, w') \<and>
    (\<forall>cid. h_accepted (pc_sock (pf_conns w' cid)) = h_accepted (pc_sock (pf_conns demo_factory cid)) @
        concat (replicate (ready_on demo_factory cid (bind_pipes demo_factory)) (pipe_encode (PIPE_MSG_DATA, 0, [5, 6]))))"
  using pipe_broadcast_copies [of "[ArgString [5, 6]]" demo_factory]
  by (simp add: is_cstr_def demo_simps tcp_run_simps head_size_def)

end
