(* ===== verification/Tcp_Connection.thy ===== *)
theory Tcp_Connection
  imports Tcp_Stream Timer
begin

text \<open>
  \<^verbatim>\<open>tcp/asio/tcp_connection.hpp\<close>: the class \<^verbatim>\<open>TcpConnection\<close>, which sits between the
  socket and the listener or connector that owns the handler chain. It gives the socket its
  callbacks, so the results on sockets apply to it; the locale \<open>event_observer\<close> states when
  an owner sees every event of the socket, and the connection with a handler chain is shown
  to be one.
\<close>

section \<open>Handlers and chains\<close>

text \<open>
  A \<^verbatim>\<open>KNetHandler\<close> over a user state \<open>'u\<close>: what it returns, what it leaves of the state and
  what it does to the connection's socket.
\<close>

type_synonym 'u reaction = "'u \<Rightarrow> bool \<times> 'u \<times> sock_act list"

record 'u knet_handler =
  kh_data :: "bytes \<Rightarrow> 'u reaction"
  kh_event :: "NetEvent \<Rightarrow> 'u reaction"

text \<open>The loop of \<^verbatim>\<open>invoke_data_chain\<close> and \<^verbatim>\<open>invoke_event_chain\<close>: null handlers are skipped.\<close>

fun invoke_chain :: "('u knet_handler \<Rightarrow> 'u reaction) \<Rightarrow> 'u knet_handler option list \<Rightarrow> 'u reaction" where
  "invoke_chain f [] u = (True, u, [])"
| "invoke_chain f (None # hs) u = invoke_chain f hs u"
| "invoke_chain f (Some h # hs) u =
     (case f h u of (ret, u, acts) \<Rightarrow>
        if \<not> ret then (False, u, acts)
        else (case invoke_chain f hs u of (ret, u, acts') \<Rightarrow> (ret, u, acts @ acts')))"

definition invoke_data_chain :: "'u knet_handler option list \<Rightarrow> bytes \<Rightarrow> 'u reaction" where
  "invoke_data_chain hs d = invoke_chain (\<lambda>h. kh_data h d) hs"

definition invoke_event_chain :: "'u knet_handler option list \<Rightarrow> NetEvent \<Rightarrow> 'u reaction" where
  "invoke_event_chain hs e = invoke_chain (\<lambda>h. kh_event h e) hs"

section \<open>Connection\<close>

text \<open>
  \<open>tc_worker\<close> is the timer of the connection's worker, \<open>tc_user\<close> the state the handlers
  work on and \<open>tc_released\<close> counts the releases posted to the factory by the owner.
  \<open>tc_seen\<close> is a history of the events the owner was told.
\<close>

record 'u tcp_conn =
  reconn_flag :: bool
  reconn_timer :: u64
  reconn_interval :: u32
  conn_timers :: "u64 list"
  tc_worker :: "timer option"
  tc_user :: 'u
  tc_released :: nat
  tc_seen :: "NetEvent list"

definition conn_start_timer :: "u64 \<Rightarrow> bool \<Rightarrow> 'u tcp_conn \<Rightarrow> u64 \<times> 'u tcp_conn" where
  "conn_start_timer interval bLoop c =
     (case tc_worker c of
        Some t \<Rightarrow> (case start_timer True interval bLoop t of (tid, t) \<Rightarrow>
          (tid, c\<lparr>tc_worker := Some t, conn_timers := conn_timers c @ [tid]\<rparr>))
      | None \<Rightarrow> (0, c))"

definition conn_stop_timer :: "u64 \<Rightarrow> 'u tcp_conn \<Rightarrow> 'u tcp_conn" where
  "conn_stop_timer tid c =
     (case tc_worker c of Some t \<Rightarrow> c\<lparr>tc_worker := Some (stop_timer tid t)\<rparr> | None \<Rightarrow> c)"

definition conn_clear_timers :: "'u tcp_conn \<Rightarrow> 'u tcp_conn" where
  "conn_clear_timers c = (fold conn_stop_timer (conn_timers c) c)\<lparr>conn_timers := []\<rparr>"

text \<open>
  \<open>rand\<close> is the value of \<^verbatim>\<open>std::rand()\<close>. The product with 1.5 is computed in double
  precision, exactly, and truncated.
\<close>

definition enable_reconnect :: "nat \<Rightarrow> u32 \<Rightarrow> 'u tcp_conn \<Rightarrow> 'u tcp_conn" where
  "enable_reconnect rand interval c =
     (let randTime = (rand mod 10 + 1) * 100000;
          c = (if reconn_interval c = 0 then c\<lparr>reconn_interval := interval + of_nat randTime\<rparr> else c)
      in if \<not> reconn_flag c then
           let c = c\<lparr>reconn_flag := True\<rparr>;
               r = conn_start_timer (ucast (reconn_interval c)) True c;
               c = (snd r)\<lparr>reconn_timer := fst r\<rparr>;
               c = c\<lparr>reconn_interval := of_nat (3 * unat (reconn_interval c) div 2 + randTime)\<rparr>
           in if unat (reconn_interval c) > 30 * 1000000
              then c\<lparr>reconn_interval := of_nat (30 * 1000000 + randTime)\<rparr> else c
         else c)"

definition disable_reconnect :: "'u tcp_conn \<Rightarrow> 'u tcp_conn" where
  "disable_reconnect c =
     (let c = c\<lparr>reconn_flag := False\<rparr> in
      if reconn_timer c > 0 then (conn_stop_timer (reconn_timer c) c)\<lparr>reconn_timer := 0\<rparr> else c)"

text \<open>The test of the reconnect timer before it connects again.\<close>

definition wants_connect :: "'c tcp_socket \<Rightarrow> bool" where
  "wants_connect s \<longleftrightarrow> \<not> (is_open s \<or> is_connecting s)"

definition conn_close_force :: "bool \<Rightarrow> 'u tcp_conn \<Rightarrow> 'u tcp_conn" where
  "conn_close_force force c = (if force then disable_reconnect c else c)"

section \<open>The callbacks of the socket\<close>

text \<open>
  The owner's \<^verbatim>\<open>handle_event\<close> (\<^verbatim>\<open>TcpListener\<close>): it runs the chain and posts a release to
  its factory, if it has one, on \<^verbatim>\<open>EVT_RELEASE\<close>, whatever the chain returned.
\<close>

definition owner_handle_event ::
  "bool \<Rightarrow> 'u knet_handler option list \<Rightarrow> NetEvent \<Rightarrow> 'u tcp_conn \<Rightarrow> bool \<times> 'u tcp_conn \<times> sock_act list" where
  "owner_handle_event factory chain evt c =
     (case invoke_event_chain chain evt (tc_user c) of (ret, u, acts) \<Rightarrow>
        (ret, c\<lparr>tc_user := u, tc_seen := tc_seen c @ [evt],
               tc_released := (if evt = EVT_RELEASE \<and> factory then tc_released c + 1 else tc_released c)\<rparr>, acts))"

text \<open>
  \<^verbatim>\<open>TcpConnection::process_event\<close> and \<^verbatim>\<open>process_data\<close>: first the owner, then, unless it
  returned false, the connection's own handler \<open>h\<close>.
\<close>

definition conn_process_event ::
  "bool \<Rightarrow> 'u knet_handler option list \<Rightarrow> 'u knet_handler \<Rightarrow> NetEvent \<Rightarrow> 'u tcp_conn \<Rightarrow> 'u tcp_conn \<times> sock_act list" where
  "conn_process_event factory chain h evt c =
     (case owner_handle_event factory chain evt c of (ret, c, acts) \<Rightarrow>
        if ret then
          (case kh_event h evt (tc_user c) of (_, u, acts') \<Rightarrow> (c\<lparr>tc_user := u\<rparr>, acts @ acts'))
        else (c, acts))"

definition conn_process_data ::
  "'u knet_handler option list \<Rightarrow> 'u knet_handler \<Rightarrow> bytes \<Rightarrow> 'u tcp_conn \<Rightarrow> 'u tcp_conn \<times> sock_act list" where
  "conn_process_data chain h d c =
     (case invoke_data_chain chain d (tc_user c) of (ret, u, acts) \<Rightarrow>
        if ret then (case kh_data h d u of (_, u, acts') \<Rightarrow> (c\<lparr>tc_user := u\<rparr>, acts @ acts'))
        else (c\<lparr>tc_user := u\<rparr>, acts))"

definition conn_release ::
  "bool \<Rightarrow> 'u knet_handler option list \<Rightarrow> 'u knet_handler \<Rightarrow> 'u tcp_conn \<Rightarrow> 'u tcp_conn \<times> sock_act list" where
  "conn_release factory chain h c = conn_process_event factory chain h EVT_RELEASE (conn_clear_timers c)"

definition conn_need_reconnect :: "bool \<Rightarrow> 'u tcp_conn \<Rightarrow> bool" where
  "conn_need_reconnect passive c \<longleftrightarrow> reconn_flag c \<and> \<not> passive"

text \<open>
  The callbacks of a connection whose \<^verbatim>\<open>passive_mode\<close> is \<open>passive\<close> (set for good when the
  connection is accepted or connects) and whose class cuts packages with \<open>pkg\<close>.
\<close>

definition tcp_conn_ops ::
  "bool \<Rightarrow> (bytes \<Rightarrow> u32 \<Rightarrow> int) \<Rightarrow> bool \<Rightarrow> 'u knet_handler option list \<Rightarrow> 'u knet_handler \<Rightarrow> 'u tcp_conn conn_ops" where
  "tcp_conn_ops passive pkg factory chain h =
     \<lparr>process_package = (\<lambda>m n c. (pkg m n, c)),
      process_pkg_data = conn_process_data chain h,
      process_event = conn_process_event factory chain h,
      release = conn_release factory chain h,
      need_reconnect = conn_need_reconnect passive\<rparr>"

lemma no_reconnect_passive: "no_reconnect (tcp_conn_ops True pkg factory chain h)"
  by (simp add: no_reconnect_def tcp_conn_ops_def conn_need_reconnect_def)

section \<open>Chains\<close>

text \<open>A chain runs its handlers in order up to the first that returns false.\<close>

lemma invoke_chain_append:
  "invoke_chain f (xs @ ys) u =
     (case invoke_chain f xs u of (ret, u, acts) \<Rightarrow>
        if ret then (case invoke_chain f ys u of (ret, u, acts') \<Rightarrow> (ret, u, acts @ acts'))
        else (False, u, acts))"
  by (induction f xs u rule: invoke_chain.induct) (auto split: prod.splits)

section \<open>Owners see every event\<close>

locale event_observer =
  fixes ops :: "'c conn_ops"
    and seen :: "'c \<Rightarrow> 'o"
    and note_event :: "NetEvent \<Rightarrow> 'o \<Rightarrow> 'o"
  assumes seen_event: "seen (fst (process_event ops e c)) = note_event e (seen c)"
    and seen_release: "seen (fst (release ops c)) = note_event EVT_RELEASE (seen c)"
    and seen_data: "seen (fst (process_pkg_data ops d c)) = seen c"
    and seen_package: "seen (snd (process_package ops m n c)) = seen c"
begin

definition observed :: "'o \<Rightarrow> 'c tcp_socket \<Rightarrow> bool" where
  "observed l s \<longleftrightarrow> seen (conn s) = fold note_event (h_events s) l"

lemma run_act_conn: "conn (run_act a s) = conn s \<and> h_events (run_act a s) = h_events s"
  by (cases a) (auto simp: msend_def do_send_def close_socket_def split: prod.splits)

lemma run_acts_conn: "conn (fold run_act as s) = conn s \<and> h_events (fold run_act as s) = h_events s"
  by (induction as arbitrary: s) (simp_all add: run_act_conn)

lemma observed_raise:
  "observed l s \<Longrightarrow> observed l (raise_event ops e s)"
  "observed l s \<Longrightarrow> observed l (raise_release ops s)"
  "observed l s \<Longrightarrow> observed l (raise_data ops d s)"
  by (simp_all add: observed_def raise_event_def raise_release_def raise_data_def run_callback_def
      run_acts_conn seen_event seen_release seen_data)

lemma observed_cong: "observed l s \<Longrightarrow> conn t = conn s \<Longrightarrow> h_events t = h_events s \<Longrightarrow> observed l t"
  by (simp add: observed_def)

lemma observed_frame [simp]:
  "observed l (s\<lparr>socket_status := st\<rparr>) = observed l s" "observed l (s\<lparr>sock_open := b\<rparr>) = observed l s"
  "observed l (s\<lparr>has_conn := b\<rparr>) = observed l s" "observed l (s\<lparr>read_buffer_pos := n\<rparr>) = observed l s"
  "observed l (s\<lparr>read_buffer := x\<rparr>) = observed l s" "observed l (s\<lparr>send_buffer := x\<rparr>) = observed l s"
  "observed l (s\<lparr>cache_buffer := x\<rparr>) = observed l s" "observed l (s\<lparr>is_writting := b\<rparr>) = observed l s"
  "observed l (s\<lparr>writes := w\<rparr>) = observed l s" "observed l (s\<lparr>reads := r\<rparr>) = observed l s"
  "observed l (s\<lparr>connects := n\<rparr>) = observed l s" "observed l (s\<lparr>tasks := ts\<rparr>) = observed l s"
  "observed l (s\<lparr>h_written := x\<rparr>) = observed l s" "observed l (s\<lparr>h_received := x\<rparr>) = observed l s"
  by (simp_all add: observed_def)

lemma observed_async_write [simp]: "observed l (do_async_write s) = observed l s"
  by (simp add: do_async_write_def Let_def)

lemma observed_do_close: "observed l s \<Longrightarrow> observed l (do_close ops s)"
  by (simp add: do_close_def Let_def observed_raise)

lemma observed_close_task: "observed l s \<Longrightarrow> observed l (close_task ops s)"
  by (simp add: close_task_def Let_def observed_raise)

lemma observed_loop: "observed l s \<Longrightarrow> observed l (snd (snd (process_loop ops pos rp s)))"
proof (induction "pos - rp" arbitrary: rp s rule: less_induct)
  case less
  let ?r = "process_package ops (drop rp (read_buffer s)) (of_nat pos) (conn s)"
  have c: "observed l (s\<lparr>conn := snd ?r\<rparr>)" using less.prems by (simp add: observed_def seen_package)
  show ?case
  proof (cases "rp < pos \<and> has_conn s \<and> \<not> (fst ?r \<le> 0 \<or> fst ?r > int pos - int rp)")
    case True
    then have "pos - (rp + nat (fst ?r)) < pos - rp" by linarith
    from less.hyps [OF this observed_raise(3) [OF c]] True show ?thesis
      by (simp add: process_loop.simps [of ops pos rp s] Let_def)
  next
    case False
    then show ?thesis using c less.prems by (auto simp: process_loop.simps [of ops pos rp s] Let_def)
  qed
qed

lemma observed_process_data: "observed l s \<Longrightarrow> observed l (snd (process_data ops n s))"
  using observed_loop [of l "s\<lparr>read_buffer_pos := read_buffer_pos s + n\<rparr>" "read_buffer_pos s + n" 0]
  by (auto simp: process_data_def Let_def observed_do_close split: prod.splits)

lemma observed_do_read: "observed l s \<Longrightarrow> observed l (do_read ops s)"
  by (simp add: do_read_def Let_def observed_do_close observed_process_data)

lemma observed_init_read: "observed l s \<Longrightarrow> observed l (init_read ops s)"
  by (simp add: init_read_def observed_do_read observed_raise)

lemma observed_step: "tcp_step ops s s' \<Longrightarrow> observed l s \<Longrightarrow> observed l s'"
proof (induction rule: tcp_step.induct)
  case (step_send s args)
  then show ?case using run_act_conn [of "ActSend args" s] by (simp add: observed_def)
next
  case (step_read s p st q result)
  then show ?case
    by (cases result) (simp_all add: read_done_def observed_do_read observed_process_data observed_do_close)
next
  case (step_task s t ts)
  then show ?case by (cases t) (simp_all add: run_task_def observed_close_task)
next
  case (step_write s p b q ok)
  then show ?case by (simp add: write_done_def Let_def observed_raise observed_do_close)
qed (simp_all add: close_socket_def connect_def connect_done_def Let_def observed_init_read)

theorem observed_reach:
  "tcp_reach ops (TcpSocket_init opened storage c) s \<Longrightarrow>
     seen (conn s) = fold note_event (h_events s) (seen c)"
proof -
  assume "tcp_reach ops (TcpSocket_init opened storage c) s"
  then have "observed (seen c) s"
  proof (induction rule: tcp_reach.induct)
    case tcp_reach_refl
    then show ?case by (simp add: observed_def TcpSocket_init_def)
  next
    case (tcp_reach_step s s')
    then show ?case by (blast intro: observed_step)
  qed
  then show ?thesis by (simp add: observed_def)
qed

end

text \<open>Neither timers nor handlers touch what the owner has seen.\<close>

lemma conn_clear_timers_fields [simp]:
  "tc_seen (conn_clear_timers c) = tc_seen c" "tc_released (conn_clear_timers c) = tc_released c"
  "tc_user (conn_clear_timers c) = tc_user c"
proof -
  have "tc_seen (fold conn_stop_timer l c) = tc_seen c \<and> tc_released (fold conn_stop_timer l c) = tc_released c \<and>
      tc_user (fold conn_stop_timer l c) = tc_user c" for l
    by (induction l arbitrary: c) (auto simp: conn_stop_timer_def split: option.splits)
  then show "tc_seen (conn_clear_timers c) = tc_seen c" "tc_released (conn_clear_timers c) = tc_released c"
    "tc_user (conn_clear_timers c) = tc_user c"
    by (simp_all add: conn_clear_timers_def)
qed

lemma conn_process_event_seen:
  "tc_seen (fst (conn_process_event factory chain h e c)) = tc_seen c @ [e]"
  "tc_released (fst (conn_process_event factory chain h e c)) =
     (if e = EVT_RELEASE \<and> factory then tc_released c + 1 else tc_released c)"
proof -
  obtain ret u acts where i: "invoke_event_chain chain e (tc_user c) = (ret, u, acts)" by (rule prod_cases3)
  obtain r u' acts' where k: "kh_event h e u = (r, u', acts')" by (rule prod_cases3)
  show "tc_seen (fst (conn_process_event factory chain h e c)) = tc_seen c @ [e]"
    "tc_released (fst (conn_process_event factory chain h e c)) =
       (if e = EVT_RELEASE \<and> factory then tc_released c + 1 else tc_released c)"
    using k by (auto simp: conn_process_event_def owner_handle_event_def i)
qed

lemma conn_process_data_seen:
  "tc_seen (fst (conn_process_data chain h d c)) = tc_seen c"
  "tc_released (fst (conn_process_data chain h d c)) = tc_released c"
  by (simp_all add: conn_process_data_def split: prod.splits)

text \<open>Two observations of the owner: the list of events, and the releases it posts.\<close>

interpretation owner: event_observer "tcp_conn_ops pm pkg factory chain h" tc_seen "\<lambda>e l. l @ [e]"
  for pm pkg factory chain h
  by unfold_locales
    (simp_all add: tcp_conn_ops_def conn_process_event_seen conn_process_data_seen conn_release_def)

definition count_release :: "bool \<Rightarrow> NetEvent \<Rightarrow> nat \<Rightarrow> nat" where
  "count_release factory e n = (if e = EVT_RELEASE \<and> factory then n + 1 else n)"

interpretation releases: event_observer "tcp_conn_ops pm pkg factory chain h" tc_released "count_release factory"
  for pm pkg factory chain h
  by unfold_locales
    (simp_all add: tcp_conn_ops_def conn_process_event_seen conn_process_data_seen conn_release_def count_release_def)

lemma fold_count_release:
  "fold (count_release factory) l n = (if factory then n + count_list l EVT_RELEASE else n)"
  by (induction l arbitrary: n) (simp_all add: count_release_def)

lemma live_events_release: "live_events l \<Longrightarrow> count_list l EVT_RELEASE = 0"
  by (cases l) (auto simp: live_events_def count_list_0_iff)

section \<open>Properties\<close>

text \<open>
  C26: an accepted connection is released to its listener's factory exactly when the socket
  has let go of it, and exactly once, in every reachable state and whatever the handlers of
  the chain return.
\<close>

theorem passive_release_once:
  assumes "tcp_reach (tcp_conn_ops True pkg True chain h) (TcpSocket_init opened storage c) s"
    and "tc_released c = 0"
  shows "tc_released (conn s) = (if has_conn s then 0 else 1)"
proof -
  have "tcp_inv s"
    by (rule tcp_inv_reach [OF assms(1) tcp_inv_init no_reconnect_passive])
  moreover have "tc_released (conn s) = count_list (h_events s) EVT_RELEASE"
    using releases.observed_reach [OF assms(1)] assms(2) by (simp add: fold_count_release)
  ultimately show ?thesis
    by (auto simp: tcp_inv_def tcp_fresh_def tcp_up_def tcp_down_def live_events_release split: if_splits)
qed

definition plain_conn :: "unit tcp_conn" where
  "plain_conn = \<lparr>reconn_flag = False, reconn_timer = 0, reconn_interval = 0, conn_timers = [], tc_worker = None,
     tc_user = (), tc_released = 0, tc_seen = []\<rparr>"

definition plain_handler :: "unit knet_handler" where
  "plain_handler = \<lparr>kh_data = (\<lambda>d u. (True, u, [])), kh_event = (\<lambda>e u. (True, u, []))\<rparr>"

definition plain_ops :: "unit tcp_conn conn_ops" where
  "plain_ops = tcp_conn_ops True (\<lambda>m n. sint n) True [None, Some plain_handler] plain_handler"

definition closed_state :: "unit tcp_conn tcp_socket" where
  "closed_state = close_task plain_ops ((close_socket (init_read plain_ops (TcpSocket_init True [] plain_conn)))\<lparr>tasks := []\<rparr>)"

lemmas plain_simps = plain_ops_def tcp_conn_ops_def conn_process_event_def owner_handle_event_def
  invoke_event_chain_def plain_handler_def plain_conn_def conn_release_def conn_clear_timers_def
  conn_need_reconnect_def close_socket_def

lemma closed_state_reach: "tcp_reach plain_ops (TcpSocket_init True [] plain_conn) closed_state"
proof -
  let ?s = "TcpSocket_init True [] plain_conn"
  have 1: "tcp_reach plain_ops ?s (init_read plain_ops ?s)"
    by (rule tcp_reach_step [OF tcp_reach_refl step_accept]) (simp_all add: TcpSocket_init_def)
  note 2 = tcp_reach_step [OF 1 step_close]
  have "tasks (close_socket (init_read plain_ops ?s)) = TaskClose # []"
    by (simp add: tcp_run_simps plain_simps)
  from tcp_reach_step [OF 2 step_task [OF this]] show ?thesis
    by (simp add: closed_state_def run_task_def)
qed

theorem passive_release_once_witness: "tc_released (conn closed_state) = 1"
proof -
  have "\<not> has_conn closed_state" "tc_released plain_conn = 0"
    by (simp_all add: closed_state_def tcp_run_simps plain_simps)
  then show ?thesis
    using passive_release_once [OF closed_state_reach [unfolded plain_ops_def]] by simp
qed


section \<open>Timers of a connection\<close>

lemma stop_timers_fold:
  assumes "tc_worker c = Some t"
  shows "\<exists>t'. tc_worker (fold conn_stop_timer ids c) = Some t' \<and> timer_nodes t' = timer_nodes t \<and>
    (\<forall>tid. tn_alive (node t' tid) \<longrightarrow> tn_alive (node t tid) \<and> (tid \<in> set (timer_nodes t) \<longrightarrow> tid \<notin> set ids))"
  using assms
proof (induction ids arbitrary: c t)
  case (Cons i ids)
  have "tc_worker (conn_stop_timer i c) = Some (stop_timer i t)"
    using Cons.prems by (simp add: conn_stop_timer_def)
  from Cons.IH [OF this] show ?case by (auto simp: stop_timer_def split: if_splits)
qed simp

text \<open>
  Releasing a connection stops every timer it started that is still registered with
  its worker, and wakes no other.
\<close>

theorem release_stops_timers:
  assumes "tc_worker c = Some t"
  shows "\<exists>t'. tc_worker (conn_clear_timers c) = Some t' \<and> conn_timers (conn_clear_timers c) = [] \<and>
    (\<forall>tid\<in>set (conn_timers c) \<inter> set (timer_nodes t). \<not> tn_alive (node t' tid)) \<and>
    (\<forall>tid. tn_alive (node t' tid) \<longrightarrow> tn_alive (node t tid))"
  using stop_timers_fold [OF assms, of "conn_timers c"] by (auto simp: conn_clear_timers_def)

theorem release_stops_timers_witness:
  "\<exists>t'. tc_worker (conn_clear_timers (plain_conn\<lparr>tc_worker := Some one_timer, conn_timers := [1]\<rparr>)) = Some t' \<and>
     \<not> tn_alive (node t' 1)"
proof -
  have "1 \<in> set (timer_nodes one_timer)" by (simp add: one_timer_simps)
  then show ?thesis
    using release_stops_timers [of "plain_conn\<lparr>tc_worker := Some one_timer, conn_timers := [1]\<rparr>" one_timer] by auto
qed

section \<open>Reconnecting\<close>

lemma rand_time: "(100000 :: nat) \<le> (rand mod 10 + 1) * 100000" "(rand mod 10 + 1) * 100000 \<le> (1000000 :: nat)"
proof -
  have "rand mod 10 < (10 :: nat)" by simp
  then show "(100000 :: nat) \<le> (rand mod 10 + 1) * 100000" "(rand mod 10 + 1) * 100000 \<le> (1000000 :: nat)" by simp_all
qed

text \<open>
  Enabling reconnection on a connection with a worker starts one looping timer, whose
  interval is the current back-off, and raises the back-off without overflow: it stays at
  most 31 seconds and does not shrink below the interval used unless it has passed 30 seconds.
\<close>

theorem reconnect_backoff:
  assumes "\<not> reconn_flag c" "tc_worker c = Some t"
    and "unat (reconn_interval c) \<le> 31000000" "unat interval \<le> 30000000"
    and "c' = enable_reconnect rand interval c"
  shows "\<exists>(used :: u32) t'. 0 < unat used \<and> unat used \<le> 31000000 \<and> reconn_flag c' \<and>
    start_timer True (ucast used) True t = (reconn_timer c', t') \<and> tc_worker c' = Some t' \<and>
    conn_timers c' = conn_timers c @ [reconn_timer c'] \<and>
    unat (reconn_interval c') \<le> 31000000 \<and>
    (unat used \<le> unat (reconn_interval c') \<or> 30000000 < unat (reconn_interval c'))"
proof -
  define r where "r = (rand mod 10 + 1) * 100000"
  have r: "100000 \<le> r" "r \<le> 1000000" using rand_time by (simp_all add: r_def)
  define used where "used = (if reconn_interval c = 0 then interval + of_nat r else reconn_interval c)"
  have ir: "unat (interval + of_nat r :: u32) = unat interval + r"
  proof -
    have "interval + of_nat r = of_nat (unat interval + r)" by simp
    moreover have "unat (of_nat (unat interval + r) :: u32) = unat interval + r"
      using assms(4) r by (intro unat_of_nat32) simp
    ultimately show ?thesis by simp
  qed
  have u: "0 < unat used" "unat used \<le> 31000000"
    using ir assms(3,4) r unsigned_eq_0_iff [of "reconn_interval c"] by (auto simp: used_def simp del: unsigned_eq_0_iff)
  obtain tid t' where st: "start_timer True (ucast used) True t = (tid, t')" by fastforce
  have nxt: "unat (of_nat (3 * unat used div 2 + r) :: u32) = 3 * unat used div 2 + r"
    "unat (of_nat (30 * 1000000 + r) :: u32) = 30 * 1000000 + r"
    using u r by (intro unat_of_nat32, simp)+
  define c1 where "c1 = (if reconn_interval c = 0 then c\<lparr>reconn_interval := interval + of_nat r\<rparr> else c)"
  have c1: "reconn_interval c1 = used" "\<not> reconn_flag c1" "tc_worker c1 = Some t" "conn_timers c1 = conn_timers c"
    using assms(1,2) by (simp_all add: c1_def used_def)
  define n where "n = 3 * unat used div 2 + r"
  have "c' = c1\<lparr>reconn_flag := True, tc_worker := Some t', conn_timers := conn_timers c @ [tid], reconn_timer := tid,
      reconn_interval := (if n > 30 * 1000000 then of_nat (30 * 1000000 + r) else of_nat n)\<rparr>"
    using c1 st nxt(1)
    unfolding assms(5) enable_reconnect_def Let_def r_def [symmetric] c1_def [symmetric] n_def
    by (simp add: conn_start_timer_def)
  then have c': "reconn_flag c'" "tc_worker c' = Some t'" "conn_timers c' = conn_timers c @ [tid]" "reconn_timer c' = tid"
      "unat (reconn_interval c') = (if n > 30000000 then 30000000 + r else n)"
    using nxt by (simp_all add: n_def)
  have "unat used \<le> n" by (simp add: n_def)
  then have "unat (reconn_interval c') \<le> 31000000"
    "unat used \<le> unat (reconn_interval c') \<or> 30000000 < unat (reconn_interval c')"
    using r by (simp_all add: c'(5))
  then show ?thesis using u st c'(1-4) by metis
qed

theorem reconnect_backoff_witness:
  "\<exists>used t'. start_timer True (ucast used) True Timer_init =
      (reconn_timer (enable_reconnect 3 1000000 (plain_conn\<lparr>tc_worker := Some Timer_init\<rparr>)), t') \<and>
    unat (used :: u32) \<le> 31000000"
  using reconnect_backoff [of "plain_conn\<lparr>tc_worker := Some Timer_init\<rparr>" Timer_init 1000000 _ 3, OF _ _ _ _ refl]
  by (auto simp: plain_conn_def)

end
