(* ===== verification/Tcp_Server.thy ===== *)
theory Tcp_Server
  imports Tcp_Connection Registry "HOL-Library.Multiset"
begin

text \<open>
  \<^verbatim>\<open>tcp/asio/tcp_listener.hpp\<close> and \<^verbatim>\<open>tcp/asio/tcp_connector.hpp\<close>: the owners of the
  handler chain, of the workers and, for the connector, of the table of connections. Workers
  and handlers are pointers, named by numbers.
\<close>

section \<open>Listener\<close>

record tcp_listener =
  lis_running :: bool
  lis_worker :: nat
  user_workers :: "nat list"
  worker_index :: u32
  acceptor_open :: bool
  lis_chain :: "nat list"
  lis_accepts :: "nat list"
  accept_threads :: nat
  lis_inited :: "nat list"
  stopped_workers :: "nat list"
  lis_fresh :: nat

text \<open>
  \<open>lis_accepts\<close>: the workers of the \<^verbatim>\<open>async_accept\<close>s under way. \<open>lis_inited\<close>: the
  workers that \<^verbatim>\<open>init_conn\<close> posted a new connection to. \<open>lis_fresh\<close> names the next
  worker that \<^verbatim>\<open>make_shared\<close> creates.
\<close>

datatype start_result = StartTrue | StartFalse | StartThrows

definition add_worker :: "nat option \<Rightarrow> tcp_listener \<Rightarrow> tcp_listener" where
  "add_worker w l = (case w of Some w \<Rightarrow> l\<lparr>user_workers := user_workers l @ [w]\<rparr> | None \<Rightarrow> l)"

definition get_worker :: "tcp_listener \<Rightarrow> nat \<times> tcp_listener" where
  "get_worker l =
     (if user_workers l \<noteq> [] then
        (user_workers l ! (unat (worker_index l) mod length (user_workers l)),
         l\<lparr>worker_index := worker_index l + 1\<rparr>)
      else (lis_worker l, l))"

definition do_accept :: "tcp_listener \<Rightarrow> tcp_listener" where
  "do_accept l = (case get_worker l of (w, l) \<Rightarrow> l\<lparr>lis_accepts := lis_accepts l @ [w]\<rparr>)"

definition init_conn :: "nat \<Rightarrow> tcp_listener \<Rightarrow> tcp_listener" where
  "init_conn w l = l\<lparr>lis_inited := lis_inited l @ [w]\<rparr>"

text \<open>
  The completion handler of \<^verbatim>\<open>async_accept\<close> for the worker \<open>w\<close>: \<open>err\<close> is the error
  number, \<open>remote\<close> whether the remote endpoint could be read.
\<close>

definition accept_done :: "nat option \<Rightarrow> bool \<Rightarrow> nat \<Rightarrow> tcp_listener \<Rightarrow> tcp_listener" where
  "accept_done err remote w l =
     (case err of
        None \<Rightarrow> do_accept (if remote then init_conn w l else l)
      | Some e \<Rightarrow> if e = 24 then do_accept l else l)"

text \<open>One turn of the loop of a synchronous accept thread; the result says whether it goes on.\<close>

definition do_sync_accept :: "bool \<Rightarrow> tcp_listener \<Rightarrow> bool \<times> tcp_listener" where
  "do_sync_accept ok l =
     (if lis_running l then
        (case get_worker l of (w, l) \<Rightarrow> if ok then (True, init_conn w l) else (False, l))
      else (False, l))"

definition listener_start ::
  "nat \<Rightarrow> nat \<Rightarrow> bool \<Rightarrow> bool \<Rightarrow> bool \<Rightarrow> tcp_listener \<Rightarrow> start_result \<times> tcp_listener" where
  "listener_start workers sync_threads open_ok bind_ok listen_ok l =
     (if \<not> lis_running l then
        let l = l\<lparr>lis_running := True,
                  user_workers := user_workers l @ [lis_fresh l ..< lis_fresh l + workers],
                  lis_fresh := lis_fresh l + workers\<rparr>
        in if \<not> open_ok then (StartThrows, l)
           else
             let l = l\<lparr>acceptor_open := True\<rparr> in
             if \<not> bind_ok then (StartFalse, l\<lparr>lis_running := False\<rparr>)
             else if \<not> listen_ok then (StartFalse, l\<lparr>lis_running := False\<rparr>)
             else if sync_threads > 0 then (StartTrue, l\<lparr>accept_threads := accept_threads l + sync_threads\<rparr>)
             else (StartTrue, do_accept l)
      else (StartFalse, l))"

definition listener_stop :: "tcp_listener \<Rightarrow> tcp_listener" where
  "listener_stop l =
     (if lis_running l
      then l\<lparr>lis_running := False, acceptor_open := False,
             stopped_workers := stopped_workers l @ user_workers l @ [lis_worker l], user_workers := []\<rparr>
      else l)"

definition add_net_handler :: "nat option \<Rightarrow> nat list \<Rightarrow> nat list" where
  "add_net_handler h hs = (case h of Some h \<Rightarrow> hs @ [h] | None \<Rightarrow> hs)"

definition chain_push_front :: "nat option \<Rightarrow> nat list \<Rightarrow> nat list" where
  "chain_push_front h hs = (case h of Some h \<Rightarrow> h # hs | None \<Rightarrow> hs)"

section \<open>Connector\<close>

record tcp_connector =
  cor_workers :: "(nat \<times> bool) list"
  cor_index :: u32
  connections :: "(u64 \<times> nat) list"
  cor_chain :: "nat list"
  cor_closed :: "nat list"
  cor_stopped :: "nat list"
  cor_fresh :: nat
  conn_index :: u64
  cor_connecting :: "(nat \<times> nat) list"

text \<open>
  A worker with True was made by the connector itself. \<open>cor_closed\<close>: the connections closed
  by force; \<open>conn_index\<close> is the static counter that connection ids come from;
  \<open>cor_connecting\<close>: the connections that were told to connect, with their workers.
\<close>

definition connector_start :: "nat \<Rightarrow> tcp_connector \<Rightarrow> bool \<times> tcp_connector" where
  "connector_start threads k =
     (True, k\<lparr>cor_workers := cor_workers k @ map (\<lambda>i. (i, True)) [cor_fresh k ..< cor_fresh k + threads],
              cor_fresh := cor_fresh k + threads\<rparr>)"

definition connector_stop :: "tcp_connector \<Rightarrow> tcp_connector" where
  "connector_stop k =
     k\<lparr>cor_closed := cor_closed k @ map snd (connections k), connections := [],
       cor_stopped := cor_stopped k @ map fst (filter snd (cor_workers k)), cor_workers := []\<rparr>"

definition connector_get_worker :: "int \<Rightarrow> tcp_connector \<Rightarrow> nat option \<times> tcp_connector" where
  "connector_get_worker idx k =
     (if cor_workers k \<noteq> [] then
        if idx \<ge> 0 \<and> idx < int (length (cor_workers k)) then (Some (fst (cor_workers k ! nat idx)), k)
        else
          let i = of_nat (unat (cor_index k + 1) mod length (cor_workers k))
          in (Some (fst (cor_workers k ! unat i)), k\<lparr>cor_index := i\<rparr>)
      else (None, k))"

definition next_cid :: "tcp_connector \<Rightarrow> u64 \<times> tcp_connector" where
  "next_cid k = (conn_index k + 1, k\<lparr>conn_index := conn_index k + 1\<rparr>)"

definition put_connection :: "u64 \<Rightarrow> nat \<Rightarrow> tcp_connector \<Rightarrow> tcp_connector" where
  "put_connection cid c k = k\<lparr>connections := AList.update cid c (connections k)\<rparr>"

definition find_connection :: "u64 \<Rightarrow> tcp_connector \<Rightarrow> nat option" where
  "find_connection cid k = map_of (connections k) cid"

definition remove_connection :: "u64 \<Rightarrow> tcp_connector \<Rightarrow> bool \<times> tcp_connector" where
  "remove_connection cid k =
     (case map_of (connections k) cid of
        Some _ \<Rightarrow> (True, k\<lparr>connections := AList.delete cid (connections k)\<rparr>)
      | None \<Rightarrow> (False, k))"

text \<open>
  The two forms of \<^verbatim>\<open>add_connection\<close>, for a connection object the caller made (with its
  id) and for one made here. None is the dereference of a null worker, when the connector
  has none left.
\<close>

definition add_connection :: "(u64 \<times> nat) option \<Rightarrow> tcp_connector \<Rightarrow> (bool \<times> tcp_connector) option" where
  "add_connection c k =
     (case c of
        Some (cid, c) \<Rightarrow>
          (case connector_get_worker 0 k of
             (Some w, k) \<Rightarrow>
               let k = put_connection cid c k
               in Some (True, k\<lparr>cor_connecting := cor_connecting k @ [(c, w)]\<rparr>)
           | (None, k) \<Rightarrow> None)
      | None \<Rightarrow> Some (False, k))"

definition add_new_connection :: "tcp_connector \<Rightarrow> (u64 \<times> nat \<times> tcp_connector) option" where
  "add_new_connection k =
     (case connector_get_worker 0 k of
        (Some w, k) \<Rightarrow>
          (let c = cor_fresh k;
               k = k\<lparr>cor_fresh := cor_fresh k + 1\<rparr>
           in case next_cid k of (cid, k) \<Rightarrow>
                let k = put_connection cid c k
                in Some (cid, c, k\<lparr>cor_connecting := cor_connecting k @ [(c, w)]\<rparr>))
      | (None, k) \<Rightarrow> None)"

text \<open>
  \<^verbatim>\<open>TcpConnector::handle_event\<close>: on release the connection is kept from reconnecting before
  it goes to the factory.
\<close>

definition connector_handle_event ::
  "bool \<Rightarrow> 'u knet_handler option list \<Rightarrow> NetEvent \<Rightarrow> 'u tcp_conn \<Rightarrow> bool \<times> 'u tcp_conn \<times> sock_act list" where
  "connector_handle_event factory chain evt c =
     (case invoke_event_chain chain evt (tc_user c) of (ret, u, acts) \<Rightarrow>
        let c = c\<lparr>tc_user := u, tc_seen := tc_seen c @ [evt]\<rparr>;
            c = (if evt = EVT_RELEASE then
                   let c = disable_reconnect c
                   in if factory then c\<lparr>tc_released := tc_released c + 1\<rparr> else c
                 else c)
        in (ret, c, acts))"

text \<open>
  \<^verbatim>\<open>remove_event_handler\<close>: the iterator is never advanced, so the loop returns only if the
  chain is empty or its first element is the one sought.
\<close>

partial_function (option) remove_handler_loop :: "nat \<Rightarrow> nat list \<Rightarrow> nat list option" where
  "remove_handler_loop h hs =
     (case hs of [] \<Rightarrow> Some [] | x # xs \<Rightarrow> if x = h then Some xs else remove_handler_loop h (x # xs))"

definition remove_event_handler :: "nat option \<Rightarrow> nat list \<Rightarrow> nat list option" where
  "remove_event_handler h hs = (case h of Some h \<Rightarrow> remove_handler_loop h hs | None \<Rightarrow> Some hs)"

interpretation conns: registry find_connection put_connection remove_connection
  by unfold_locales
    (auto simp: find_connection_def put_connection_def remove_connection_def update_conv' delete_conv'
      split: option.splits)

section \<open>Round robin\<close>

fun get_workers :: "nat \<Rightarrow> tcp_listener \<Rightarrow> nat list" where
  "get_workers 0 l = []"
| "get_workers (Suc n) l = (case get_worker l of (w, l) \<Rightarrow> w # get_workers n l)"

lemma get_workers_nth:
  assumes "user_workers l \<noteq> []" "unat (worker_index l) + n < 2 ^ 32"
  shows "get_workers n l =
    map (\<lambda>k. user_workers l ! ((unat (worker_index l) + k) mod length (user_workers l))) [0..<n]"
  using assms
proof (induction n arbitrary: l)
  case (Suc n)
  have "unat (worker_index l + 1) = unat (worker_index l) + 1"
    using Suc.prems(2) by (intro unat_word_ariths(1) [THEN trans] mod_less) simp_all
  then show ?case
    using Suc.IH [of "l\<lparr>worker_index := worker_index l + 1\<rparr>"] Suc.prems
    by (simp add: get_worker_def map_upt_Suc del: upt_Suc)
qed simp

lemma rotation_mset: "mset (map (\<lambda>k. xs ! ((i + k) mod length xs)) [0..<length xs]) = mset xs"
proof -
  have "map (\<lambda>k. xs ! ((i + k) mod length xs)) [0..<length xs] = rotate i xs"
    by (rule nth_equalityI) (simp_all add: nth_rotate)
  moreover have "mset (rotate i xs) = mset xs"
    unfolding rotate_drop_take by (metis append_take_drop_id mset_append union_commute)
  ultimately show ?thesis by simp
qed


section \<open>Removing a handler\<close>

lemma remove_handler_returns:
  "remove_handler_loop h hs = Some r \<Longrightarrow> hs = [] \<and> r = [] \<or> hs = h # r"
proof (rule remove_handler_loop.raw_induct [where P = "\<lambda>h hs r. hs = [] \<and> r = [] \<or> hs = h # r"])
qed (auto split: list.splits if_splits)

section \<open>Properties\<close>

text \<open>
  While the dispatch counter does not wrap, as many consecutive connections as the
  listener has workers go to every worker exactly once (a worker added twice counts twice).
\<close>

theorem listener_round_robin:
  assumes "user_workers l \<noteq> []" "unat (worker_index l) + length (user_workers l) < 2 ^ 32"
  shows "mset (get_workers (length (user_workers l)) l) = mset (user_workers l)"
  using get_workers_nth [OF assms] rotation_mset [of "user_workers l" "unat (worker_index l)"] by simp

definition demo_listener :: tcp_listener where
  "demo_listener = \<lparr>lis_running = True, lis_worker = 0, user_workers = [1, 2, 3], worker_index = 7, acceptor_open = True,
     lis_chain = [], lis_accepts = [], accept_threads = 0, lis_inited = [], stopped_workers = [], lis_fresh = 4\<rparr>"

theorem listener_round_robin_witness: "mset (get_workers 3 demo_listener) = {#1, 2, 3#}"
  using listener_round_robin [of demo_listener] by (simp add: demo_listener_def numeral_3_eq_3)

text \<open>
  Looking up a connection id after any sequence of additions and removals gives the
  connection that was last added under it and not removed since.
\<close>

theorem connector_lookup:
  "find_connection cid (run_reg put_connection remove_connection ops k) =
     last_binding cid ops (find_connection cid k)"
  by (rule conns.lookup_run)

text \<open>The ids handed out so far are those up to the counter.\<close>

definition cids_ok :: "tcp_connector \<Rightarrow> bool" where
  "cids_ok k \<longleftrightarrow> (\<forall>cid\<in>fst ` set (connections k). cid \<le> conn_index k)"

text \<open>
  A connection made by the connector gets an id no entry of the table has, is entered
  under it, leaves every other entry alone, and is told to connect on the first worker; it
  fails only when no worker is left.
\<close>

theorem add_new_connection_fresh:
  assumes "cids_ok k" "unat (conn_index k) < 2 ^ 64 - 1" "cor_workers k \<noteq> []"
  shows "\<exists>cid c k'. add_new_connection k = Some (cid, c, k') \<and> find_connection cid k = None \<and>
    find_connection cid k' = Some c \<and> (\<forall>x. x \<noteq> cid \<longrightarrow> find_connection x k' = find_connection x k) \<and>
    cor_connecting k' = cor_connecting k @ [(c, fst (hd (cor_workers k)))] \<and> cids_ok k'"
proof -
  have "unat (conn_index k + 1) = unat (conn_index k) + 1"
    using assms(2) by (intro unat_word_ariths(1) [THEN trans] mod_less) simp_all
  then have lt: "conn_index k < conn_index k + 1" by (simp add: word_less_nat_alt)
  have "conn_index k + 1 \<notin> fst ` set (connections k)"
    using assms(1) lt by (force simp: cids_ok_def)
  then have fresh: "map_of (connections k) (conn_index k + 1) = None"
    by (simp add: map_of_eq_None_iff)
  have upd: "fst ` set (AList.update x y l) = insert x (fst ` set l)" for x :: u64 and y :: nat and l
    by (simp add: dom_map_of_conv_image_fst [symmetric] update_conv')
  have w: "connector_get_worker 0 k = (Some (fst (hd (cor_workers k))), k)"
    using assms(3) by (simp add: connector_get_worker_def hd_conv_nth)
  have ids: "\<forall>x\<in>fst ` set (AList.update (conn_index k + 1) c (connections k)). x \<le> conn_index k + 1" for c
    unfolding upd using assms(1) lt by (auto simp: cids_ok_def intro: order_trans less_imp_le)
  show ?thesis
    using fresh ids
    by (simp add: add_new_connection_def w next_cid_def Let_def put_connection_def find_connection_def
        update_conv' cids_ok_def)
qed

definition demo_connector :: tcp_connector where
  "demo_connector = \<lparr>cor_workers = [(0, True)], cor_index = 0, connections = [(1025, 5)], cor_chain = [], cor_closed = [],
     cor_stopped = [], cor_fresh = 9, conn_index = 1025, cor_connecting = []\<rparr>"

theorem add_new_connection_fresh_witness:
  "\<exists>cid c k'. add_new_connection demo_connector = Some (cid, c, k') \<and> find_connection cid k' = Some c"
  using add_new_connection_fresh [of demo_connector]
  by (auto simp: demo_connector_def cids_ok_def)

text \<open>
  C28: \<^verbatim>\<open>remove_event_handler\<close> returns exactly when the chain is empty or starts with the
  handler; for a handler further down, or an absent one, its loop runs forever.
\<close>

theorem remove_handler_terminates:
  "(\<exists>r. remove_event_handler (Some h) hs = Some r) \<longleftrightarrow> hs = [] \<or> hd hs = h"
proof
  assume "\<exists>r. remove_event_handler (Some h) hs = Some r"
  then show "hs = [] \<or> hd hs = h"
    by (auto simp: remove_event_handler_def dest: remove_handler_returns)
next
  assume "hs = [] \<or> hd hs = h"
  then show "\<exists>r. remove_event_handler (Some h) hs = Some r"
    by (cases hs) (auto simp: remove_event_handler_def remove_handler_loop.simps)
qed

text \<open>
  The accepting side: as long as the acceptor reports nothing worse than \<open>EMFILE\<close>,
  exactly one accept is under way.
\<close>

inductive accept_step :: "tcp_listener \<Rightarrow> nat option \<Rightarrow> tcp_listener \<Rightarrow> bool" where
  accept_step: "lis_accepts l = w # ws \<Longrightarrow> accept_step l err (accept_done err remote w (l\<lparr>lis_accepts := ws\<rparr>))"

inductive accept_run :: "tcp_listener \<Rightarrow> nat option list \<Rightarrow> tcp_listener \<Rightarrow> bool" where
  accept_run_nil: "accept_run l [] l"
| accept_run_snoc: "accept_run l es l' \<Longrightarrow> accept_step l' e l'' \<Longrightarrow> accept_run l (es @ [e]) l''"

lemma do_accept_accepts: "length (lis_accepts (do_accept l)) = length (lis_accepts l) + 1"
  by (simp add: do_accept_def get_worker_def split: prod.splits)

text \<open>
  C27: a listener started in asynchronous mode has exactly one accept under way after any
  sequence of successful accepts and errors 24 (too many open files); any other error is
  final: no accept is under way afterwards.
\<close>

theorem listener_keeps_accepting:
  assumes "accept_run l es l'" "length (lis_accepts l) = 1"
  shows "length (lis_accepts l') = (if \<forall>e\<in>set es. e = None \<or> e = Some 24 then 1 else 0)"
  using assms
proof (induction rule: accept_run.induct)
  case (accept_run_snoc l es l' e l'')
  from accept_run_snoc(2) obtain w ws remote where
    w: "lis_accepts l' = w # ws" "l'' = accept_done e remote w (l'\<lparr>lis_accepts := ws\<rparr>)"
    by (auto elim: accept_step.cases)
  have one: "length (lis_accepts l') = 1" "\<forall>e\<in>set es. e = None \<or> e = Some 24"
    using accept_run_snoc.IH [OF accept_run_snoc.prems] w(1) by (auto split: if_splits)
  then have "ws = []" using w(1) by simp
  then show ?case using one(2) w(2)
    by (cases e) (auto simp: accept_done_def do_accept_accepts init_conn_def)
qed simp

theorem listener_keeps_accepting_witness:
  "length (lis_accepts (accept_done (Some 24) True 1 demo_listener)) = 1"
proof -
  let ?l = "demo_listener\<lparr>lis_accepts := [1]\<rparr>"
  have "accept_step ?l (Some 24) (accept_done (Some 24) True 1 (?l\<lparr>lis_accepts := []\<rparr>))"
    by (rule accept_step) simp
  from accept_run_snoc [OF accept_run_nil this] have
    "accept_run ?l [Some 24] (accept_done (Some 24) True 1 (?l\<lparr>lis_accepts := []\<rparr>))" by simp
  from listener_keeps_accepting [OF this] show ?thesis
    by (simp add: demo_listener_def)
qed

end
