(* ===== verification/Kpipe.thy ===== *)
theory Kpipe
  imports Pipe_Session Tcp_Server
begin

text \<open>
  \<^verbatim>\<open>pipe/kpipe.hpp\<close>: the class \<^verbatim>\<open>KPipe\<close>, which puts a factory of pipes, a listener, a connector
  and a worker together. The worker is number 0 of the listener and of the connector; the
  factory is handler 0 of both chains.
\<close>

section \<open>State\<close>

text \<open>
  \<open>kp_dialled\<close>: the connections made by the connector, with host, port and pipe id, all with
  automatic reconnection enabled. \<open>kp_posted\<close>: the sessions whose \<^verbatim>\<open>EVT_THREAD_INIT\<close> was posted.
\<close>

record kpipe =
  kp_mode :: PipeMode
  kp_factory :: pipe_factory
  kp_worker :: knet_worker
  kp_started :: bool
  kp_listener :: "tcp_listener option"
  kp_connector :: "tcp_connector option"
  kp_dialled :: "(u64 \<times> bytes \<times> u16 \<times> bytes) list"
  kp_posted :: "nat list"

definition server_mode :: "PipeMode \<Rightarrow> bool" where
  "server_mode m \<longleftrightarrow> m \<in> {PIPE_SERVER_MODE, PIPE_DUET_MODE}"

definition client_mode :: "PipeMode \<Rightarrow> bool" where
  "client_mode m \<longleftrightarrow> m \<in> {PIPE_CLIENT_MODE, PIPE_DUET_MODE}"

definition PipeConnection_new :: "bytes \<Rightarrow> pipe_conn" where
  "PipeConnection_new pid = \<lparr>pc_passive = False, pc_sock = TcpSocket_init False [] (), pc_session = None, pc_pipeid = pid\<rparr>"

text \<open>
  The constructor: \<open>ss\<close> and \<open>n\<close> are the sessions made so far, \<open>idx\<close> the counter of
  connection ids, \<open>w\<close> the worker that is passed or made.
\<close>

definition KPipe_new :: "PipeMode \<Rightarrow> (nat \<Rightarrow> pipe_session) \<Rightarrow> nat \<Rightarrow> u64 \<Rightarrow> knet_worker \<Rightarrow> kpipe" where
  "KPipe_new m ss n idx w =
     \<lparr>kp_mode = m,
      kp_factory = \<lparr>pf_mode = m, pf_sessions = ss, pf_next = n, pf_conns = (\<lambda>_. PipeConnection_new []), bind_pipes = [],
                    unbind_pipes = [], pid_index = 0\<rparr>,
      kp_worker = worker_start False 1 w, kp_started = False,
      kp_listener =
        (if server_mode m
         then Some \<lparr>lis_running = False, lis_worker = 0, user_workers = [], worker_index = 0, acceptor_open = False,
                    lis_chain = [0], lis_accepts = [], accept_threads = 0, lis_inited = [], stopped_workers = [], lis_fresh = 1\<rparr>
         else None),
      kp_connector =
        (if client_mode m
         then Some \<lparr>cor_workers = [(0, False)], cor_index = 0, connections = [], cor_chain = [0], cor_closed = [],
                    cor_stopped = [], cor_fresh = 1, conn_index = idx, cor_connecting = []\<rparr>
         else None),
      kp_dialled = [], kp_posted = []\<rparr>"

section \<open>Operations\<close>

text \<open>
  \<^verbatim>\<open>connector->add_connection(...)\<close> followed by \<^verbatim>\<open>enable_reconnect\<close>; None if the connector is a
  null pointer or has no worker left.
\<close>

definition dial :: "bytes \<Rightarrow> u16 \<Rightarrow> bytes \<Rightarrow> kpipe \<Rightarrow> (u64 \<times> kpipe) option" where
  "dial h port pid p =
     (case kp_connector p of
        None \<Rightarrow> None
      | Some k \<Rightarrow>
          (case add_new_connection k of
             None \<Rightarrow> None
           | Some (cid, c, k) \<Rightarrow>
               let f = kp_factory p;
                   f = f\<lparr>pf_conns := (pf_conns f)(cid := PipeConnection_new pid)\<rparr>
               in Some (cid, p\<lparr>kp_connector := Some k, kp_factory := f, kp_dialled := kp_dialled p @ [(cid, h, port, pid)]\<rparr>)))"

definition dial_session :: "nat \<Rightarrow> kpipe \<Rightarrow> kpipe option" where
  "dial_session sid p =
     (let s = pf_sessions (kp_factory p) sid in map_option snd (dial (ps_host s) (ps_port s) (ps_pipe_id s) p))"

fun dial_all :: "nat list \<Rightarrow> kpipe \<Rightarrow> kpipe option" where
  "dial_all [] p = Some p"
| "dial_all (sid # sids) p = (case dial_session sid p of None \<Rightarrow> None | Some p \<Rightarrow> dial_all sids p)"

definition kpipe_connect :: "kpipe \<Rightarrow> kpipe option" where
  "kpipe_connect p = (if client_mode (kp_mode p) then dial_all (start_clients (kp_factory p)) p else Some p)"

text \<open>
  \<^verbatim>\<open>start\<close>: \<open>workers\<close> is the number of processors, the three flags say what the acceptor does.
\<close>

definition kpipe_start_clients :: "kpipe \<Rightarrow> (start_result \<times> kpipe) option" where
  "kpipe_start_clients p =
     (if client_mode (kp_mode p) then
        (case kp_connector p of
           None \<Rightarrow> None
         | Some k \<Rightarrow>
             (case connector_start 0 k of (ret, k) \<Rightarrow>
                let p = p\<lparr>kp_connector := Some k\<rparr> in
                if \<not> ret then Some (StartFalse, p)
                else map_option (\<lambda>p. (StartTrue, p\<lparr>kp_started := True\<rparr>)) (kpipe_connect p)))
      else Some (StartTrue, p\<lparr>kp_started := True\<rparr>))"

definition kpipe_start :: "nat \<Rightarrow> bool \<times> bool \<times> bool \<Rightarrow> u16 \<Rightarrow> kpipe \<Rightarrow> (start_result \<times> kpipe) option" where
  "kpipe_start workers acceptor port p =
     (if server_mode (kp_mode p) \<and> port > 0 then
        (case (kp_listener p, acceptor) of
           (None, _) \<Rightarrow> None
         | (Some l, open_ok, bind_ok, listen_ok) \<Rightarrow>
             (case listener_start workers 0 open_ok bind_ok listen_ok l of (ret, l) \<Rightarrow>
                let p = p\<lparr>kp_listener := Some l\<rparr> in
                if ret = StartTrue then kpipe_start_clients p else Some (ret, p)))
      else kpipe_start_clients p)"

text \<open>The two forms of \<^verbatim>\<open>attach\<close>, for a session of the caller and for one made here.\<close>

definition attach_pipe :: "nat option \<Rightarrow> bytes \<Rightarrow> u16 \<Rightarrow> kpipe \<Rightarrow> kpipe option" where
  "attach_pipe pipe h port p =
     (case pipe of
        None \<Rightarrow> Some p
      | Some sid \<Rightarrow>
          let f = register_pipe sid 0 (kp_factory p);
              f = (if h \<noteq> [] then upd_session sid (\<lambda>s. s\<lparr>ps_host := h\<rparr>) f else f);
              f = (if port \<noteq> 0 then upd_session sid (\<lambda>s. s\<lparr>ps_port := port\<rparr>) f else f);
              p = p\<lparr>kp_factory := f\<rparr>
          in map_option (\<lambda>p. p\<lparr>kp_posted := kp_posted p @ [sid]\<rparr>)
               (if port \<noteq> 0 \<and> kp_started p \<and> client_mode (kp_mode p) then dial_session sid p else Some p))"

definition attach_new :: "bytes \<Rightarrow> u16 \<Rightarrow> kpipe \<Rightarrow> (nat \<times> kpipe) option" where
  "attach_new h port p =
     (let f = kp_factory p;
          sid = pf_next f;
          f = f\<lparr>pf_sessions := (pf_sessions f)(sid := PipeSession_new [] [] 0), pf_next := sid + 1\<rparr>
      in case dial h port [] (p\<lparr>kp_factory := f\<rparr>) of
           None \<Rightarrow> None
         | Some (cid, p) \<Rightarrow>
             Some (sid, p\<lparr>kp_factory := register_pipe sid cid (kp_factory p), kp_posted := kp_posted p @ [sid]\<rparr>))"

definition kpipe_stop :: "kpipe \<Rightarrow> kpipe" where
  "kpipe_stop p =
     p\<lparr>kp_worker := worker_stop (kp_worker p), kp_listener := map_option listener_stop (kp_listener p),
       kp_connector := map_option connector_stop (kp_connector p)\<rparr>"

definition kpipe_find :: "bytes \<Rightarrow> kpipe \<Rightarrow> nat option" where
  "kpipe_find pid p = find_bind_pipe pid (kp_factory p)"

definition kpipe_broadcast :: "send_arg list \<Rightarrow> kpipe \<Rightarrow> (u32 \<times> kpipe) option" where
  "kpipe_broadcast args p = map_option (\<lambda>(n, f). (n, p\<lparr>kp_factory := f\<rparr>)) (broadcast args (kp_factory p))"

definition kpipe_send_to :: "bytes \<Rightarrow> send_arg list \<Rightarrow> kpipe \<Rightarrow> (int \<times> kpipe) option" where
  "kpipe_send_to pid args p = map_option (\<lambda>(n, f). (n, p\<lparr>kp_factory := f\<rparr>)) (send_to pid args (kp_factory p))"

section \<open>Dialling\<close>

text \<open>\<open>n\<close> more connections can be made without a wrap of the counter.\<close>

definition dial_ok :: "nat \<Rightarrow> kpipe \<Rightarrow> bool" where
  "dial_ok n p \<longleftrightarrow> (\<exists>k. kp_connector p = Some k \<and> cor_workers k \<noteq> [] \<and> unat (conn_index k) + n < 2 ^ 64 \<and>
     (\<forall>d\<in>set (kp_dialled p). fst d \<le> conn_index k)) \<and> distinct (map fst (kp_dialled p))"

lemma dial_works:
  assumes "dial_ok (Suc n) p"
  shows "\<exists>cid p'. dial h port pid p = Some (cid, p') \<and> dial_ok n p' \<and>
    map snd (kp_dialled p') = map snd (kp_dialled p) @ [(h, port, pid)] \<and>
    pf_sessions (kp_factory p') = pf_sessions (kp_factory p) \<and> bind_pipes (kp_factory p') = bind_pipes (kp_factory p) \<and>
    unbind_pipes (kp_factory p') = unbind_pipes (kp_factory p) \<and>
    kp_started p' = kp_started p \<and> kp_mode p' = kp_mode p \<and> kp_listener p' = kp_listener p"
proof -
  from assms obtain k where k: "kp_connector p = Some k" "cor_workers k \<noteq> []" "unat (conn_index k) + Suc n < 2 ^ 64"
    "\<forall>d\<in>set (kp_dialled p). fst d \<le> conn_index k" "distinct (map fst (kp_dialled p))" by (auto simp: dial_ok_def)
  have i: "unat (conn_index k + 1) = unat (conn_index k) + 1"
    using k(3) by (intro unat_word_ariths(1) [THEN trans] mod_less) simp_all
  then have lt: "conn_index k < conn_index k + 1" by (simp add: word_less_nat_alt)
  have w: "connector_get_worker 0 k = (Some (fst (hd (cor_workers k))), k)"
    using k(2) by (simp add: connector_get_worker_def hd_conv_nth)
  have "conn_index k + 1 \<notin> fst ` set (kp_dialled p)" using k(4) lt by force
  moreover have "\<forall>d\<in>set (kp_dialled p). fst d \<le> conn_index k + 1" using k(4) lt by force
  ultimately show ?thesis
    using k i by (simp add: dial_def add_new_connection_def w next_cid_def put_connection_def Let_def dial_ok_def)
qed

definition target :: "kpipe \<Rightarrow> nat \<Rightarrow> bytes \<times> u16 \<times> bytes" where
  "target p sid = (let s = pf_sessions (kp_factory p) sid in (ps_host s, ps_port s, ps_pipe_id s))"

lemma dial_session_works:
  assumes "dial_ok (Suc n) p"
  shows "\<exists>p'. dial_session sid p = Some p' \<and> dial_ok n p' \<and>
    map snd (kp_dialled p') = map snd (kp_dialled p) @ [target p sid] \<and>
    pf_sessions (kp_factory p') = pf_sessions (kp_factory p) \<and> bind_pipes (kp_factory p') = bind_pipes (kp_factory p) \<and>
    unbind_pipes (kp_factory p') = unbind_pipes (kp_factory p) \<and>
    kp_started p' = kp_started p \<and> kp_mode p' = kp_mode p \<and> kp_listener p' = kp_listener p"
  using dial_works [OF assms] by (fastforce simp: dial_session_def Let_def target_def)

lemma dial_all_works:
  assumes "dial_ok (length sids + n) p"
  shows "\<exists>p'. dial_all sids p = Some p' \<and> dial_ok n p' \<and>
    map snd (kp_dialled p') = map snd (kp_dialled p) @ map (target p) sids \<and>
    pf_sessions (kp_factory p') = pf_sessions (kp_factory p) \<and> bind_pipes (kp_factory p') = bind_pipes (kp_factory p) \<and>
    kp_mode p' = kp_mode p"
  using assms
proof (induction sids arbitrary: p)
  case (Cons sid sids)
  then have "dial_ok (Suc (length sids + n)) p" by simp
  from dial_session_works [OF this, of sid] obtain p' where
    p': "dial_session sid p = Some p'" "dial_ok (length sids + n) p'"
    "map snd (kp_dialled p') = map snd (kp_dialled p) @ [target p sid]"
    "pf_sessions (kp_factory p') = pf_sessions (kp_factory p)" "bind_pipes (kp_factory p') = bind_pipes (kp_factory p)"
    "kp_mode p' = kp_mode p"
    by blast
  have "target p' = target p" by (simp add: fun_eq_iff target_def p'(4))
  then show ?case using Cons.IH [OF p'(2)] p' by auto
qed auto

section \<open>Attaching\<close>

text \<open>Sessions to attach, each with the host and the port of its peer.\<close>

fun attach_all :: "(nat \<times> bytes \<times> u16) list \<Rightarrow> kpipe \<Rightarrow> kpipe option" where
  "attach_all [] p = Some p"
| "attach_all ((sid, h, port) # as) p = (case attach_pipe (Some sid) h port p of None \<Rightarrow> None | Some p \<Rightarrow> attach_all as p)"

definition pid_of :: "kpipe \<Rightarrow> nat \<Rightarrow> bytes" where
  "pid_of p sid = ps_pipe_id (pf_sessions (kp_factory p) sid)"

text \<open>The sessions have different names, none empty and none in use, and peers that can be dialled.\<close>

definition attach_ok :: "(nat \<times> bytes \<times> u16) list \<Rightarrow> kpipe \<Rightarrow> bool" where
  "attach_ok as p \<longleftrightarrow> distinct (map (pid_of p \<circ> fst) as) \<and>
     (\<forall>(sid, h, port)\<in>set as. pid_of p sid \<noteq> [] \<and> h \<noteq> [] \<and> port \<noteq> 0 \<and> pid_of p sid \<notin> fst ` set (bind_pipes (kp_factory p)))"

lemma update_new: "k \<notin> fst ` set xs \<Longrightarrow> AList.update k v xs = xs @ [(k, v)]"
  by (induction xs) auto

definition attach_effect :: "(nat \<times> bytes \<times> u16) list \<Rightarrow> kpipe \<Rightarrow> kpipe \<Rightarrow> bool" where
  "attach_effect as p p' \<longleftrightarrow>
     bind_pipes (kp_factory p') = bind_pipes (kp_factory p) @ map (\<lambda>(sid, _). (pid_of p sid, sid)) as \<and>
     unbind_pipes (kp_factory p') = unbind_pipes (kp_factory p) \<and> kp_started p' = kp_started p \<and> kp_mode p' = kp_mode p \<and>
     pid_of p' = pid_of p \<and> (\<forall>sid. sid \<notin> fst ` set as \<longrightarrow> target p' sid = target p sid) \<and>
     (\<forall>(sid, h, port)\<in>set as. target p' sid = (h, port, pid_of p sid))"

lemma attach_one:
  assumes "attach_ok [(sid, h, port)] p" "dial_ok (if kp_started p \<and> client_mode (kp_mode p) then Suc n else n) p"
  shows "\<exists>p'. attach_pipe (Some sid) h port p = Some p' \<and> dial_ok n p' \<and> attach_effect [(sid, h, port)] p p' \<and>
    map snd (kp_dialled p') =
      map snd (kp_dialled p) @ (if kp_started p \<and> client_mode (kp_mode p) then [(h, port, pid_of p sid)] else []) \<and>
    kp_listener p' = kp_listener p"
proof -
  note a = assms(1) [unfolded attach_ok_def pid_of_def, simplified]
  let ?f = "upd_session sid (\<lambda>s. s\<lparr>ps_port := port\<rparr>) (upd_session sid (\<lambda>s. s\<lparr>ps_host := h\<rparr>) (register_pipe sid 0 (kp_factory p)))"
  let ?p = "p\<lparr>kp_factory := ?f\<rparr>"
  have r: "register_pipe sid 0 (kp_factory p) =
      (kp_factory p)\<lparr>bind_pipes := bind_pipes (kp_factory p) @ [(pid_of p sid, sid)]\<rparr>"
    using a by (simp add: register_pipe_def add_bind_pipe_def update_new pid_of_def)
  have e: "attach_effect [(sid, h, port)] p ?p"
    by (simp add: attach_effect_def target_def pid_of_def fun_eq_iff Let_def r)
  show ?thesis
  proof (cases "kp_started p \<and> client_mode (kp_mode p)")
    case True
    then have "dial_ok (Suc n) ?p" using assms(2) by (simp add: dial_ok_def)
    from dial_session_works [OF this, of sid] e True a show ?thesis
      by (auto simp: attach_pipe_def attach_effect_def target_def pid_of_def dial_ok_def Let_def fun_eq_iff)
  next
    case False
    then show ?thesis using assms(2) e a
      by (auto simp: attach_pipe_def dial_ok_def attach_effect_def target_def pid_of_def Let_def fun_eq_iff)
  qed
qed

lemma attach_all_works:
  assumes "attach_ok as p" "dial_ok (if kp_started p \<and> client_mode (kp_mode p) then length as + n else n) p"
  shows "\<exists>p'. attach_all as p = Some p' \<and> dial_ok n p' \<and> attach_effect as p p' \<and>
    map snd (kp_dialled p') =
      map snd (kp_dialled p) @
      (if kp_started p \<and> client_mode (kp_mode p) then map (\<lambda>(sid, h, port). (h, port, pid_of p sid)) as else []) \<and>
    kp_listener p' = kp_listener p"
  using assms
proof (induction as arbitrary: p)
  case (Cons a as)
  obtain sid h port where a: "a = (sid, h, port)" by (cases a)
  let ?live = "kp_started p \<and> client_mode (kp_mode p)"
  have "attach_ok [(sid, h, port)] p" using Cons.prems(1) by (simp add: attach_ok_def a)
  moreover have "dial_ok (if ?live then Suc (length as + n) else n) p" using Cons.prems(2) by (auto split: if_splits)
  ultimately obtain p' where p': "attach_pipe (Some sid) h port p = Some p'" "attach_effect [(sid, h, port)] p p'"
    "dial_ok (if ?live then length as + n else n) p'"
    "map snd (kp_dialled p') = map snd (kp_dialled p) @ (if ?live then [(h, port, pid_of p sid)] else [])"
    "kp_listener p' = kp_listener p"
    using attach_one [of sid h port p "if ?live then length as + n else n"] by (cases ?live) auto
  then have eff: "bind_pipes (kp_factory p') = bind_pipes (kp_factory p) @ [(pid_of p sid, sid)]"
    "unbind_pipes (kp_factory p') = unbind_pipes (kp_factory p)" "pid_of p' = pid_of p"
    "kp_started p' = kp_started p" "kp_mode p' = kp_mode p"
    "\<And>x. x \<noteq> sid \<Longrightarrow> target p' x = target p x" "target p' sid = (h, port, pid_of p sid)"
    by (auto simp: attach_effect_def)
  have ne: "sid \<notin> fst ` set as" using Cons.prems(1) by (auto simp: attach_ok_def a)
  have "pid_of p sid \<notin> (pid_of p \<circ> fst) ` set as" using Cons.prems(1) by (simp add: attach_ok_def a)
  then have "attach_ok as p'"
    using Cons.prems(1) by (simp add: attach_ok_def a eff case_prod_beta) (metis comp_apply imageI)
  from Cons.IH [OF this] p'(3) obtain p'' where p'': "attach_all as p' = Some p''" "dial_ok n p''" "attach_effect as p' p''"
    "map snd (kp_dialled p'') = map snd (kp_dialled p') @ (if ?live then map (\<lambda>(sid, h, port). (h, port, pid_of p sid)) as else [])"
    "kp_listener p'' = kp_listener p'"
    unfolding eff(3-5) by auto
  have "attach_effect (a # as) p p''"
    using p''(3) ne unfolding attach_effect_def eff a by (auto simp: eff)
  then show ?case using p' p'' by (auto simp: a)
qed (auto simp: attach_effect_def split: if_splits)

section \<open>Starting\<close>

lemma kpipe_start_clients_works:
  assumes "client_mode (kp_mode p)" "dial_ok (length (start_clients (kp_factory p)) + n) p"
  shows "\<exists>p'. kpipe_start_clients p = Some (StartTrue, p') \<and> dial_ok n p' \<and>
    map snd (kp_dialled p') = map snd (kp_dialled p) @ map (target p) (start_clients (kp_factory p)) \<and>
    pf_sessions (kp_factory p') = pf_sessions (kp_factory p) \<and> bind_pipes (kp_factory p') = bind_pipes (kp_factory p) \<and>
    kp_started p' \<and> kp_mode p' = kp_mode p"
proof -
  from assms(2) obtain k where k: "kp_connector p = Some k" by (auto simp: dial_ok_def)
  then have same: "p\<lparr>kp_connector := Some k\<rparr> = p" by simp
  obtain q where "dial_all (start_clients (kp_factory p)) p = Some q" "dial_ok n q"
    "map snd (kp_dialled q) = map snd (kp_dialled p) @ map (target p) (start_clients (kp_factory p))"
    "pf_sessions (kp_factory q) = pf_sessions (kp_factory p)" "bind_pipes (kp_factory q) = bind_pipes (kp_factory p)"
    "kp_mode q = kp_mode p"
    using dial_all_works [OF assms(2)] by blast
  then show ?thesis
    using assms(1) k by (simp add: kpipe_start_clients_def kpipe_connect_def connector_start_def same dial_ok_def)
qed

text \<open>Starting a pipe whose listener is the one of a new pipe and whose acceptor works.\<close>

lemma kpipe_start_works:
  assumes "client_mode (kp_mode p)" "dial_ok (length (start_clients (kp_factory p)) + n) p"
    and "kp_listener p = kp_listener (KPipe_new (kp_mode p) ss i idx w)"
  shows "\<exists>p'. kpipe_start workers (True, True, True) port p = Some (StartTrue, p') \<and> dial_ok n p' \<and>
    map snd (kp_dialled p') = map snd (kp_dialled p) @ map (target p) (start_clients (kp_factory p)) \<and>
    pf_sessions (kp_factory p') = pf_sessions (kp_factory p) \<and> bind_pipes (kp_factory p') = bind_pipes (kp_factory p) \<and>
    kp_started p' \<and> kp_mode p' = kp_mode p"
proof (cases "server_mode (kp_mode p) \<and> port > 0")
  case True
  with assms(3) obtain l where l: "kp_listener p = Some l" "\<not> lis_running l" by (simp add: KPipe_new_def)
  obtain l' where l': "listener_start workers 0 True True True l = (StartTrue, l')"
    using l(2) by (simp add: listener_start_def Let_def)
  let ?p = "p\<lparr>kp_listener := Some l'\<rparr>"
  have "target ?p = target p" "dial_ok m ?p = dial_ok m p" for m by (simp_all add: fun_eq_iff target_def dial_ok_def)
  then show ?thesis
    using kpipe_start_clients_works [of ?p n] assms(1,2) True l(1) l' by (simp add: kpipe_start_def)
next
  case False
  then show ?thesis using kpipe_start_clients_works [OF assms(1,2)] by (auto simp: kpipe_start_def)
qed

text \<open>What both orders of attaching and starting lead to.\<close>

definition dialled_once :: "(nat \<times> bytes \<times> u16) list \<Rightarrow> kpipe \<Rightarrow> kpipe \<Rightarrow> bool" where
  "dialled_once as p q \<longleftrightarrow> distinct (map fst (kp_dialled q)) \<and>
     mset (map snd (kp_dialled q)) = mset (map (\<lambda>(sid, h, port). (h, port, pid_of p sid)) as) \<and>
     (\<forall>(sid, _)\<in>set as. kpipe_find (pid_of p sid) q = Some sid)"

lemma dialled_onceI:
  assumes "attach_ok as p" "dial_ok n q" "map snd (kp_dialled q) = map (\<lambda>(sid, h, port). (h, port, pid_of p sid)) as"
    and b: "bind_pipes (kp_factory q) = map (\<lambda>(sid, _). (pid_of p sid, sid)) as"
  shows "dialled_once as p q"
proof -
  have "distinct (map fst (map (\<lambda>(sid, _). (pid_of p sid, sid)) as))"
    using assms(1) by (simp add: attach_ok_def comp_def case_prod_beta)
  then have "kpipe_find (pid_of p sid) q = Some sid" if "(sid, y) \<in> set as" for sid y
    unfolding kpipe_find_def find_bind_pipe_def b using that by (intro map_of_is_SomeI) force+
  moreover have "distinct (map fst (kp_dialled q))" using assms(2) by (simp add: dial_ok_def)
  ultimately show ?thesis using assms(3) by (auto simp: dialled_once_def simp del: mset_map)
qed

lemma KPipe_new_state:
  assumes "client_mode m" "p = KPipe_new m ss i idx w" "unat idx + n < 2 ^ 64"
  shows "bind_pipes (kp_factory p) = []" "unbind_pipes (kp_factory p) = []" "kp_dialled p = []" "\<not> kp_started p"
    "kp_mode p = m" "dial_ok n p"
  using assms(1,3) by (simp_all add: assms(2) KPipe_new_def dial_ok_def)

lemma attach_then_start:
  assumes "client_mode m" "p = KPipe_new m ss i idx w" "attach_ok as p" "unat idx + length as < 2 ^ 64"
  shows "\<exists>p1 p2. attach_all as p = Some p1 \<and> kpipe_start workers (True, True, True) port p1 = Some (StartTrue, p2) \<and>
    dialled_once as p p2"
proof -
  note p = KPipe_new_state [OF assms(1,2,4)]
  from p obtain p1 where p1: "attach_all as p = Some p1" "dial_ok (length as) p1" "attach_effect as p p1"
    "kp_dialled p1 = []" "kp_listener p1 = kp_listener p"
    using attach_all_works [OF assms(3)] by auto
  then have e1: "bind_pipes (kp_factory p1) = map (\<lambda>(sid, _). (pid_of p sid, sid)) as" "unbind_pipes (kp_factory p1) = []"
    "kp_mode p1 = m" "\<forall>(sid, h, port)\<in>set as. target p1 sid = (h, port, pid_of p sid)"
    by (auto simp: attach_effect_def p)
  have "\<forall>x\<in>set (map fst as). ps_port (pf_sessions (kp_factory p1) x) \<noteq> 0 \<and> ps_host (pf_sessions (kp_factory p1) x) \<noteq> []"
    using e1(4) assms(3) by (fastforce simp: target_def attach_ok_def Let_def)
  then have c1: "start_clients (kp_factory p1) = map fst as" by (simp add: start_clients_def e1(1,2) comp_def case_prod_beta)
  have t1: "map (target p1) (map fst as) = map (\<lambda>(sid, h, port). (h, port, pid_of p sid)) as"
    using e1(4) by auto
  obtain p2 where "kpipe_start workers (True, True, True) port p1 = Some (StartTrue, p2)" "dial_ok 0 p2"
    "map snd (kp_dialled p2) = map (\<lambda>(sid, h, port). (h, port, pid_of p sid)) as"
    "bind_pipes (kp_factory p2) = bind_pipes (kp_factory p1)"
    using kpipe_start_works [of p1 0 ss i idx w workers port] p1 e1(3) assms(1,2) c1 t1 by auto
  then show ?thesis using p1(1) e1(1) dialled_onceI [OF assms(3)] by auto
qed

lemma start_then_attach:
  assumes "client_mode m" "p = KPipe_new m ss i idx w" "attach_ok as p" "unat idx + length as < 2 ^ 64"
  shows "\<exists>q p3. kpipe_start workers (True, True, True) port p = Some (StartTrue, q) \<and> attach_all as q = Some p3 \<and>
    dialled_once as p p3"
proof -
  note p = KPipe_new_state [OF assms(1,2,4)]
  obtain q where q: "kpipe_start workers (True, True, True) port p = Some (StartTrue, q)" "dial_ok (length as) q"
    "kp_dialled q = []" "pf_sessions (kp_factory q) = pf_sessions (kp_factory p)"
    "bind_pipes (kp_factory q) = []" "kp_started q" "kp_mode q = m"
    using kpipe_start_works [of p "length as" ss i idx w workers port] p assms(1,2) by (auto simp: start_clients_def)
  have pq: "pid_of q = pid_of p" by (simp add: pid_of_def fun_eq_iff q(4))
  then have "attach_ok as q" using assms(3) by (simp add: attach_ok_def q(5) p(1))
  then obtain p3 where "attach_all as q = Some p3" "dial_ok 0 p3" "attach_effect as q p3"
    "map snd (kp_dialled p3) = map (\<lambda>(sid, h, port). (h, port, pid_of p sid)) as"
    using attach_all_works [of as q 0] q pq assms(1) by auto
  then show ?thesis using q(1) dialled_onceI [OF assms(3)] by (auto simp: attach_effect_def q(5) pq)
qed

text \<open>
  C36: the order of attaching and starting does not matter. In a client or duet pipe, sessions
  with different names, each attached with a host and a port, are dialled exactly once each,
  with their host, port and name and under different connection ids, and found by their name,
  whether they are attached before the pipe is started or after it.
\<close>

theorem kpipe_attach_order:
  assumes "client_mode m" "p = KPipe_new m ss i idx w" "attach_ok as p" "unat idx + length as < 2 ^ 64"
  shows "\<exists>p1 p2 q p3. attach_all as p = Some p1 \<and> kpipe_start workers (True, True, True) port p1 = Some (StartTrue, p2) \<and>
    dialled_once as p p2 \<and>
    kpipe_start workers (True, True, True) port p = Some (StartTrue, q) \<and> attach_all as q = Some p3 \<and> dialled_once as p p3"
  using attach_then_start [OF assms] start_then_attach [OF assms] by blast

theorem kpipe_attach_order_witness:
  "\<exists>p1 p2. attach_all [(0, [49], 80), (1, [50], 81)] (KPipe_new PIPE_DUET_MODE (\<lambda>i. PipeSession_new [of_nat i + 97] [] 0) 2 1024
       (KNetWorker_new False)) = Some p1 \<and>
     kpipe_start 4 (True, True, True) 9999 p1 = Some (StartTrue, p2) \<and>
     dialled_once [(0, [49], 80), (1, [50], 81)] (KPipe_new PIPE_DUET_MODE (\<lambda>i. PipeSession_new [of_nat i + 97] [] 0) 2 1024
       (KNetWorker_new False)) p2"
proof -
  have "attach_ok [(0, [49], 80), (1, [50], 81)] (KPipe_new PIPE_DUET_MODE (\<lambda>i. PipeSession_new [of_nat i + 97] [] 0) 2 1024
       (KNetWorker_new False))"
    by (simp add: attach_ok_def KPipe_new_def pid_of_def PipeSession_new_def)
  then show ?thesis
    using kpipe_attach_order [OF _ refl, of PIPE_DUET_MODE "[(0, [49], 80), (1, [50], 81)]"
        "\<lambda>i. PipeSession_new [of_nat i + 97] [] 0" 2 1024 "KNetWorker_new False" 4 9999]
    by (auto simp: client_mode_def)
qed

end
