(* ===== verification/Http_Parser.thy ===== *)
theory Http_Parser
  imports Knet_Prelude
begin

text \<open>
  \<^verbatim>\<open>http/http_parser.hpp\<close>: the parser for HTTP messages, a state machine over the bytes of a
  buffer that calls back for every part it has found. Bytes are characters. The callbacks are
  one function on events and a user state, whose result is the C return value; the callbacks of
  the library do not touch the parser, so the local copies \<^verbatim>\<open>p_state\<close> and \<^verbatim>\<open>nread\<close> are the fields
  themselves. A case that jumps back with \<^verbatim>\<open>REEXECUTE\<close> has just set a fixed state: the jump is a
  call of the case of that state. Assertions are left out. The strict mode of the parser, which
  is the default, is the one modelled.
\<close>

section \<open>States, flags and errors\<close>

datatype parser_state =
    s_dead
  | s_start_req_or_res | s_res_or_resp_H | s_start_res | s_res_H | s_res_HT | s_res_HTT | s_res_HTTP
  | s_res_http_major | s_res_http_dot | s_res_http_minor | s_res_http_end
  | s_res_first_status_code | s_res_status_code | s_res_status_start | s_res_status | s_res_line_almost_done
  | s_start_req
  | s_req_method | s_req_spaces_before_url | s_req_schema | s_req_schema_slash | s_req_schema_slash_slash
  | s_req_server_start | s_req_server | s_req_server_with_at | s_req_path
  | s_req_query_string_start | s_req_query_string | s_req_fragment_start | s_req_fragment
  | s_req_http_start | s_req_http_H | s_req_http_HT | s_req_http_HTT | s_req_http_HTTP | s_req_http_I | s_req_http_IC
  | s_req_http_major | s_req_http_dot | s_req_http_minor | s_req_http_end | s_req_line_almost_done
  | s_header_field_start | s_header_field | s_header_value_discard_ws | s_header_value_discard_ws_almost_done
  | s_header_value_discard_lws | s_header_value_start | s_header_value | s_header_value_lws
  | s_header_almost_done
  | s_chunk_size_start | s_chunk_size | s_chunk_parameters | s_chunk_size_almost_done
  | s_headers_almost_done | s_headers_done
  | s_chunk_data | s_chunk_data_almost_done | s_chunk_data_done
  | s_body_identity | s_body_identity_eof
  | s_message_done

text \<open>\<^verbatim>\<open>PARSING_HEADER\<close>: the states up to \<^verbatim>\<open>s_headers_done\<close>.\<close>

definition parsing_header :: "parser_state \<Rightarrow> bool" where
  "parsing_header s \<longleftrightarrow> s \<notin> {s_chunk_data, s_chunk_data_almost_done, s_chunk_data_done, s_body_identity, s_body_identity_eof,
     s_message_done}"

datatype header_states =
    h_general | h_C | h_CO | h_CON
  | h_matching_connection | h_matching_proxy_connection | h_matching_content_length
  | h_matching_transfer_encoding | h_matching_upgrade
  | h_connection | h_content_length | h_content_length_num | h_content_length_ws | h_transfer_encoding | h_upgrade
  | h_matching_transfer_encoding_chunked | h_matching_connection_token_start | h_matching_connection_keep_alive
  | h_matching_connection_close | h_matching_connection_upgrade | h_matching_connection_token
  | h_transfer_encoding_chunked | h_connection_keep_alive | h_connection_close | h_connection_upgrade

datatype http_flag =
    F_CHUNKED | F_CONNECTION_KEEP_ALIVE | F_CONNECTION_CLOSE | F_CONNECTION_UPGRADE | F_TRAILING | F_UPGRADE | F_SKIPBODY
  | F_CONTENTLENGTH

datatype http_errno =
    HPE_OK | HPE_CB_message_begin | HPE_CB_url | HPE_CB_header_field | HPE_CB_header_value | HPE_CB_headers_complete
  | HPE_CB_body | HPE_CB_message_complete | HPE_CB_status | HPE_CB_chunk_header | HPE_CB_chunk_complete
  | HPE_INVALID_EOF_STATE | HPE_HEADER_OVERFLOW | HPE_CLOSED_CONNECTION | HPE_INVALID_VERSION | HPE_INVALID_STATUS
  | HPE_INVALID_METHOD | HPE_INVALID_URL | HPE_INVALID_HOST | HPE_INVALID_PORT | HPE_INVALID_PATH
  | HPE_INVALID_QUERY_STRING | HPE_INVALID_FRAGMENT | HPE_LF_EXPECTED | HPE_INVALID_HEADER_TOKEN
  | HPE_INVALID_CONTENT_LENGTH | HPE_UNEXPECTED_CONTENT_LENGTH | HPE_INVALID_CHUNK_SIZE | HPE_INVALID_CONSTANT
  | HPE_INVALID_INTERNAL_STATE | HPE_STRICT | HPE_PAUSED | HPE_UNKNOWN

datatype http_parser_type = HTTP_REQUEST | HTTP_RESPONSE | HTTP_BOTH

text \<open>
  The bit fields \<^verbatim>\<open>flags\<close>, \<^verbatim>\<open>index\<close> (7 bits), \<^verbatim>\<open>status_code\<close> and \<^verbatim>\<open>method\<close>: the flags are the set of
  their bits, the numbers stay far below their widths.
\<close>

record http_parser =
  hp_type :: http_parser_type
  hp_flags :: "http_flag set"
  hp_state :: parser_state
  header_state :: header_states
  hp_index :: nat
  lenient_http_headers :: bool
  nread :: u32
  content_length :: u64
  http_major :: nat
  http_minor :: nat
  hp_status :: nat
  hp_method :: nat
  hp_errno :: http_errno
  hp_upgrade :: bool

definition max_header_size :: nat where
  "max_header_size = 80 * 1024"

definition ULLONG_MAX :: u64 where
  "ULLONG_MAX = -1"

definition http_parser_init :: "http_parser_type \<Rightarrow> http_parser" where
  "http_parser_init t =
     \<lparr>hp_type = t, hp_flags = {},
      hp_state = (case t of HTTP_REQUEST \<Rightarrow> s_start_req | HTTP_RESPONSE \<Rightarrow> s_start_res | HTTP_BOTH \<Rightarrow> s_start_req_or_res),
      header_state = h_general, hp_index = 0, lenient_http_headers = False, nread = 0, content_length = 0,
      http_major = 0, http_minor = 0, hp_status = 0, hp_method = 0, hp_errno = HPE_OK, hp_upgrade = False\<rparr>"

section \<open>Characters\<close>

abbreviation CR :: char where "CR \<equiv> CHR 0x0D"
abbreviation LF :: char where "LF \<equiv> CHR 0x0A"
abbreviation TAB :: char where "TAB \<equiv> CHR 0x09"

definition char_code :: "char \<Rightarrow> nat" where
  "char_code c = of_char c"

text \<open>The constant strings end with a zero byte.\<close>

definition c_at :: "string \<Rightarrow> nat \<Rightarrow> char" where
  "c_at s i = (if i < length s then s ! i else CHR 0x00)"

definition tokens :: "nat list" where
  "tokens =
     [0, 0, 0, 0, 0, 0, 0, 0, 0, 0, 0, 0, 0, 0, 0, 0, 0, 0, 0, 0, 0, 0, 0, 0, 0, 0, 0, 0, 0, 0, 0, 0,
      32, 33, 0, 35, 36, 37, 38, 39, 0, 0, 42, 43, 0, 45, 46, 0, 48, 49, 50, 51, 52, 53, 54, 55, 56, 57, 0, 0, 0, 0, 0, 0,
      0, 97, 98, 99, 100, 101, 102, 103, 104, 105, 106, 107, 108, 109, 110, 111, 112, 113, 114, 115, 116, 117, 118, 119,
      120, 121, 122, 0, 0, 0, 94, 95,
      96, 97, 98, 99, 100, 101, 102, 103, 104, 105, 106, 107, 108, 109, 110, 111, 112, 113, 114, 115, 116, 117, 118, 119,
      120, 121, 122, 0, 124, 0, 126, 0]"

text \<open>\<^verbatim>\<open>STRICT_TOKEN\<close>; the second half of the array is zero.\<close>

definition token :: "char \<Rightarrow> char" where
  "token c = (if c = CHR '' '' then CHR 0x00 else if char_code c < 128 then char_of (tokens ! char_code c) else CHR 0x00)"

abbreviation is_token :: "char \<Rightarrow> bool" where
  "is_token c \<equiv> token c \<noteq> CHR 0x00"

text \<open>\<^verbatim>\<open>unhex\<close>: the array has 256 elements but only 128 initialisers, the others are zero.\<close>

definition unhex :: "char \<Rightarrow> int" where
  "unhex c =
     (if 48 \<le> char_code c \<and> char_code c \<le> 57 then int (char_code c) - 48
      else if 65 \<le> char_code c \<and> char_code c \<le> 70 then int (char_code c) - 55
      else if 97 \<le> char_code c \<and> char_code c \<le> 102 then int (char_code c) - 87
      else if char_code c < 128 then -1 else 0)"

definition normal_url_char :: "nat list" where
  "normal_url_char = [0, 0, 0, 0, 246, 255, 255, 127, 255, 255, 255, 255, 255, 255, 255, 127] @ replicate 16 0"

definition is_url_char :: "char \<Rightarrow> bool" where
  "is_url_char c \<longleftrightarrow> odd (normal_url_char ! (char_code c div 8) div 2 ^ (char_code c mod 8))"

definition LOWER :: "char \<Rightarrow> char" where
  "LOWER c = char_of (or (char_code c) 0x20)"

definition hp_alpha :: "char \<Rightarrow> bool" where
  "hp_alpha c \<longleftrightarrow> 97 \<le> char_code (LOWER c) \<and> char_code (LOWER c) \<le> 122"

definition is_number :: "char \<Rightarrow> bool" where
  "is_number c \<longleftrightarrow> 48 \<le> char_code c \<and> char_code c \<le> 57"

definition hp_alphanum :: "char \<Rightarrow> bool" where
  "hp_alphanum c \<longleftrightarrow> hp_alpha c \<or> is_number c"

definition is_hex :: "char \<Rightarrow> bool" where
  "is_hex c \<longleftrightarrow> is_number c \<or> 97 \<le> char_code (LOWER c) \<and> char_code (LOWER c) \<le> 102"

definition is_mark :: "char \<Rightarrow> bool" where
  "is_mark c \<longleftrightarrow> c \<in> set ''-_.!~*()'' \<or> c = CHR 0x27"

definition is_userinfo_char :: "char \<Rightarrow> bool" where
  "is_userinfo_char c \<longleftrightarrow> hp_alphanum c \<or> is_mark c \<or> c \<in> set ''%;:&=+$,''"

definition is_host_char :: "char \<Rightarrow> bool" where
  "is_host_char c \<longleftrightarrow> hp_alphanum c \<or> c = CHR ''.'' \<or> c = CHR ''-''"

definition is_header_char :: "char \<Rightarrow> bool" where
  "is_header_char c \<longleftrightarrow> c = CR \<or> c = LF \<or> c = TAB \<or> 31 < char_code c \<and> char_code c \<noteq> 127"

text \<open>The digit of a number character.\<close>

definition digit :: "char \<Rightarrow> nat" where
  "digit c = char_code c - 48"

section \<open>Methods\<close>

definition method_strings :: "string list" where
  "method_strings =
     [''DELETE'', ''GET'', ''HEAD'', ''POST'', ''PUT'', ''CONNECT'', ''OPTIONS'', ''TRACE'', ''COPY'', ''LOCK'', ''MKCOL'',
      ''MOVE'', ''PROPFIND'', ''PROPPATCH'', ''SEARCH'', ''UNLOCK'', ''BIND'', ''REBIND'', ''UNBIND'', ''ACL'', ''REPORT'',
      ''MKACTIVITY'', ''CHECKOUT'', ''MERGE'', ''M-SEARCH'', ''NOTIFY'', ''SUBSCRIBE'', ''UNSUBSCRIBE'', ''PATCH'', ''PURGE'',
      ''MKCALENDAR'', ''LINK'', ''UNLINK'', ''SOURCE'']"

text \<open>\<^verbatim>\<open>HTTP_CONNECT\<close> and \<^verbatim>\<open>HTTP_SOURCE\<close>.\<close>

abbreviation M_CONNECT :: nat where "M_CONNECT \<equiv> 5"
abbreviation M_SOURCE :: nat where "M_SOURCE \<equiv> 33"

text \<open>The method a first letter stands for until a later letter says otherwise.\<close>

definition first_method :: "(char \<times> nat) list" where
  "first_method =
     [(CHR ''A'', 19), (CHR ''B'', 16), (CHR ''C'', 5), (CHR ''D'', 0), (CHR ''G'', 1), (CHR ''H'', 2), (CHR ''L'', 9),
      (CHR ''M'', 10), (CHR ''N'', 25), (CHR ''O'', 6), (CHR ''P'', 3), (CHR ''R'', 20), (CHR ''S'', 26), (CHR ''T'', 7),
      (CHR ''U'', 15)]"

definition method_switch :: "((nat \<times> nat \<times> char) \<times> nat) list" where
  "method_switch =
     [((3, 1, CHR ''U''), 4), ((3, 1, CHR ''A''), 28), ((3, 1, CHR ''R''), 12), ((4, 2, CHR ''R''), 29),
      ((5, 1, CHR ''H''), 22), ((5, 2, CHR ''P''), 8), ((10, 1, CHR ''O''), 11), ((10, 1, CHR ''E''), 23),
      ((10, 1, CHR ''-''), 24), ((10, 2, CHR ''A''), 21), ((10, 3, CHR ''A''), 30), ((26, 1, CHR ''E''), 14),
      ((26, 1, CHR ''O''), 33), ((20, 2, CHR ''B''), 17), ((12, 4, CHR ''P''), 13), ((9, 1, CHR ''I''), 31),
      ((15, 2, CHR ''S''), 27), ((15, 2, CHR ''B''), 18), ((15, 3, CHR ''I''), 32)]"

definition http_method_str :: "nat \<Rightarrow> string" where
  "http_method_str m = (if m < length method_strings then method_strings ! m else ''<unknown>'')"

section \<open>URLs, character by character\<close>

definition parse_url_server :: "char \<Rightarrow> parser_state" where
  "parse_url_server ch =
     (if ch = CHR ''/'' then s_req_path
      else if ch = CHR ''?'' then s_req_query_string_start
      else if ch = CHR ''@'' then s_req_server_with_at
      else if is_userinfo_char ch \<or> ch = CHR ''['' \<or> ch = CHR '']'' then s_req_server
      else s_dead)"

definition parse_url_char :: "parser_state \<Rightarrow> char \<Rightarrow> parser_state" where
  "parse_url_char s ch =
     (if ch \<in> {CHR '' '', CR, LF} then s_dead
      else if ch \<in> {TAB, CHR 0x0C} then s_dead
      else case s of
        s_req_spaces_before_url \<Rightarrow>
          if ch = CHR ''/'' \<or> ch = CHR ''*'' then s_req_path else if hp_alpha ch then s_req_schema else s_dead
      | s_req_schema \<Rightarrow> if hp_alpha ch then s else if ch = CHR '':'' then s_req_schema_slash else s_dead
      | s_req_schema_slash \<Rightarrow> if ch = CHR ''/'' then s_req_schema_slash_slash else s_dead
      | s_req_schema_slash_slash \<Rightarrow> if ch = CHR ''/'' then s_req_server_start else s_dead
      | s_req_server_with_at \<Rightarrow> if ch = CHR ''@'' then s_dead else parse_url_server ch
      | s_req_server_start \<Rightarrow> parse_url_server ch
      | s_req_server \<Rightarrow> parse_url_server ch
      | s_req_path \<Rightarrow>
          if is_url_char ch then s
          else if ch = CHR ''?'' then s_req_query_string_start
          else if ch = CHR ''#'' then s_req_fragment_start else s_dead
      | s_req_query_string_start \<Rightarrow>
          if is_url_char ch \<or> ch = CHR ''?'' then s_req_query_string
          else if ch = CHR ''#'' then s_req_fragment_start else s_dead
      | s_req_query_string \<Rightarrow>
          if is_url_char ch \<or> ch = CHR ''?'' then s_req_query_string
          else if ch = CHR ''#'' then s_req_fragment_start else s_dead
      | s_req_fragment_start \<Rightarrow>
          if is_url_char ch \<or> ch = CHR ''?'' then s_req_fragment else if ch = CHR ''#'' then s else s_dead
      | s_req_fragment \<Rightarrow> if is_url_char ch \<or> ch = CHR ''?'' \<or> ch = CHR ''#'' then s else s_dead
      | _ \<Rightarrow> s_dead)"

end
