(* ===== verification/Http_Execute.thy ===== *)
theory Http_Execute
  imports Http_Parser
begin

text \<open>
  \<^verbatim>\<open>http_parser_execute\<close>: the loop over the bytes of a buffer. A case of the switch is a function
  of the position, the character and the run; it leaves the switch at a position, after which
  the loop goes on with the next byte (\<open>Go\<close>), or it returns (\<open>Stop\<close>).
\<close>

section \<open>Callbacks\<close>

text \<open>What is called back, with the data the callbacks of the library read.\<close>

datatype parse_event =
    OnMessageBegin
  | OnUrl string
  | OnStatus string u32
  | OnField string
  | OnValue string
  | OnHeadersComplete nat
  | OnBody string
  | OnMessageComplete
  | OnChunkHeader
  | OnChunkComplete

type_synonym 'u callbacks = "parse_event \<Rightarrow> 'u \<Rightarrow> int \<times> 'u"

text \<open>The marks \<^verbatim>\<open>header_field_mark\<close>, \<^verbatim>\<open>header_value_mark\<close>, \<dots> are offsets into the buffer.\<close>

datatype hp_mark = MarkField | MarkValue | MarkUrl | MarkBody | MarkStatus

record 'u hp_run =
  hp :: http_parser
  hp_marks :: "hp_mark \<Rightarrow> nat option"
  hp_user :: 'u

datatype 'u hp_out = Go nat "'u hp_run" | Stop nat "'u hp_run"

definition update_state :: "parser_state \<Rightarrow> 'u hp_run \<Rightarrow> 'u hp_run" where
  "update_state s r = r\<lparr>hp := (hp r)\<lparr>hp_state := s\<rparr>\<rparr>"

definition set_errno :: "http_errno \<Rightarrow> 'u hp_run \<Rightarrow> 'u hp_run" where
  "set_errno e r = r\<lparr>hp := (hp r)\<lparr>hp_errno := e\<rparr>\<rparr>"

definition fail :: "http_errno \<Rightarrow> nat \<Rightarrow> 'u hp_run \<Rightarrow> 'u hp_out" where
  "fail e p r = Stop p (set_errno e r)"

text \<open>\<^verbatim>\<open>STRICT_CHECK\<close> and the checks of the version: go on in a state, or fail.\<close>

definition expect :: "bool \<Rightarrow> http_errno \<Rightarrow> parser_state \<Rightarrow> nat \<Rightarrow> 'u hp_run \<Rightarrow> 'u hp_out" where
  "expect ok e s p r = (if ok then Go p (update_state s r) else fail e p r)"

definition add_flag :: "http_flag \<Rightarrow> 'u hp_run \<Rightarrow> 'u hp_run" where
  "add_flag f r = r\<lparr>hp := (hp r)\<lparr>hp_flags := insert f (hp_flags (hp r))\<rparr>\<rparr>"

text \<open>\<^verbatim>\<open>CALLBACK_NOTIFY_\<close>; \<open>er\<close> is returned if the callback fails.\<close>

definition callback_notify ::
  "'u callbacks \<Rightarrow> parse_event \<Rightarrow> http_errno \<Rightarrow> nat \<Rightarrow> 'u hp_run \<Rightarrow> ('u hp_run \<Rightarrow> 'u hp_out) \<Rightarrow> 'u hp_out" where
  "callback_notify cb ev e er r k =
     (case cb ev (hp_user r) of (rc, u) \<Rightarrow>
        let r = r\<lparr>hp_user := u\<rparr> in if rc \<noteq> 0 then Stop er (set_errno e r) else k r)"

fun data_event :: "hp_mark \<Rightarrow> http_parser \<Rightarrow> string \<Rightarrow> parse_event" where
  "data_event MarkField q s = OnField s"
| "data_event MarkValue q s = OnValue s"
| "data_event MarkUrl q s = OnUrl s"
| "data_event MarkBody q s = OnBody s"
| "data_event MarkStatus q s = OnStatus s (of_nat (hp_status q))"

fun data_errno :: "hp_mark \<Rightarrow> http_errno" where
  "data_errno MarkField = HPE_CB_header_field"
| "data_errno MarkValue = HPE_CB_header_value"
| "data_errno MarkUrl = HPE_CB_url"
| "data_errno MarkBody = HPE_CB_body"
| "data_errno MarkStatus = HPE_CB_status"

text \<open>\<^verbatim>\<open>CALLBACK_DATA_\<close> for the bytes from the mark up to \<open>to\<close>.\<close>

definition callback_data ::
  "'u callbacks \<Rightarrow> string \<Rightarrow> hp_mark \<Rightarrow> nat \<Rightarrow> nat \<Rightarrow> 'u hp_run \<Rightarrow> ('u hp_run \<Rightarrow> 'u hp_out) \<Rightarrow> 'u hp_out" where
  "callback_data cb data m to er r k =
     (case hp_marks r m of
        None \<Rightarrow> k r
      | Some a \<Rightarrow>
          callback_notify cb (data_event m (hp r) (take (to - a) (drop a data))) (data_errno m) er r
            (\<lambda>r. k (r\<lparr>hp_marks := (hp_marks r)(m := None)\<rparr>)))"

definition set_mark :: "hp_mark \<Rightarrow> nat \<Rightarrow> 'u hp_run \<Rightarrow> 'u hp_run" where
  "set_mark m p r = (if hp_marks r m = None then r\<lparr>hp_marks := (hp_marks r)(m := Some p)\<rparr> else r)"

definition count_header_size :: "nat \<Rightarrow> nat \<Rightarrow> 'u hp_run \<Rightarrow> ('u hp_run \<Rightarrow> 'u hp_out) \<Rightarrow> 'u hp_out" where
  "count_header_size v p r k =
     (let r = r\<lparr>hp := (hp r)\<lparr>nread := nread (hp r) + of_nat v\<rparr>\<rparr>
      in if max_header_size < unat (nread (hp r)) then fail HPE_HEADER_OVERFLOW p r else k r)"

section \<open>The end of messages\<close>

definition http_message_needs_eof :: "http_parser \<Rightarrow> bool" where
  "http_message_needs_eof q =
     (if hp_type q = HTTP_REQUEST then False
      else if hp_status q div 100 = 1 \<or> hp_status q = 204 \<or> hp_status q = 304 \<or> F_SKIPBODY \<in> hp_flags q then False
      else if F_CHUNKED \<in> hp_flags q \<or> content_length q \<noteq> ULLONG_MAX then False
      else True)"

definition http_should_keep_alive :: "http_parser \<Rightarrow> bool" where
  "http_should_keep_alive q =
     (if http_major q > 0 \<and> http_minor q > 0 then
        if F_CONNECTION_CLOSE \<in> hp_flags q then False else \<not> http_message_needs_eof q
      else if F_CONNECTION_KEEP_ALIVE \<notin> hp_flags q then False
      else \<not> http_message_needs_eof q)"

text \<open>\<^verbatim>\<open>NEW_MESSAGE\<close> and \<^verbatim>\<open>start_state\<close>.\<close>

definition new_message :: "http_parser \<Rightarrow> parser_state" where
  "new_message q =
     (if http_should_keep_alive q then if hp_type q = HTTP_REQUEST then s_start_req else s_start_res else s_dead)"

definition http_body_is_final :: "http_parser \<Rightarrow> bool" where
  "http_body_is_final q \<longleftrightarrow> hp_state q = s_message_done"

definition http_parser_pause :: "bool \<Rightarrow> http_parser \<Rightarrow> http_parser" where
  "http_parser_pause paused q =
     (if hp_errno q = HPE_OK \<or> hp_errno q = HPE_PAUSED then q\<lparr>hp_errno := (if paused then HPE_PAUSED else HPE_OK)\<rparr> else q)"

section \<open>The start of a message\<close>

definition exec_dead :: "nat \<Rightarrow> char \<Rightarrow> 'u hp_run \<Rightarrow> 'u hp_out" where
  "exec_dead p ch r = (if ch = CR \<or> ch = LF then Go p r else fail HPE_CLOSED_CONNECTION p r)"

definition clear_message :: "'u hp_run \<Rightarrow> 'u hp_run" where
  "clear_message r = r\<lparr>hp := (hp r)\<lparr>hp_flags := {}, content_length := ULLONG_MAX\<rparr>\<rparr>"

definition exec_start_req :: "'u callbacks \<Rightarrow> nat \<Rightarrow> char \<Rightarrow> 'u hp_run \<Rightarrow> 'u hp_out" where
  "exec_start_req cb p ch r =
     (if ch = CR \<or> ch = LF then Go p r
      else
        let r = clear_message r in
        if \<not> hp_alpha ch then fail HPE_INVALID_METHOD p r
        else
          let r = r\<lparr>hp := (hp r)\<lparr>hp_method := 0, hp_index := 1\<rparr>\<rparr> in
          case map_of first_method ch of
            None \<Rightarrow> fail HPE_INVALID_METHOD p r
          | Some m \<Rightarrow>
              callback_notify cb OnMessageBegin HPE_CB_message_begin (p + 1)
                (update_state s_req_method (r\<lparr>hp := (hp r)\<lparr>hp_method := m\<rparr>\<rparr>)) (Go p))"

definition exec_start_req_or_res :: "'u callbacks \<Rightarrow> nat \<Rightarrow> char \<Rightarrow> 'u hp_run \<Rightarrow> 'u hp_out" where
  "exec_start_req_or_res cb p ch r =
     (if ch = CR \<or> ch = LF then Go p r
      else
        let r = clear_message r in
        if ch = CHR ''H'' then
          callback_notify cb OnMessageBegin HPE_CB_message_begin (p + 1) (update_state s_res_or_resp_H r) (Go p)
        else exec_start_req cb p ch (update_state s_start_req (r\<lparr>hp := (hp r)\<lparr>hp_type := HTTP_REQUEST\<rparr>\<rparr>)))"

definition exec_res_or_resp_H :: "nat \<Rightarrow> char \<Rightarrow> 'u hp_run \<Rightarrow> 'u hp_out" where
  "exec_res_or_resp_H p ch r =
     (if ch = CHR ''T'' then Go p (update_state s_res_HT (r\<lparr>hp := (hp r)\<lparr>hp_type := HTTP_RESPONSE\<rparr>\<rparr>))
      else if ch \<noteq> CHR ''E'' then fail HPE_INVALID_CONSTANT p r
      else Go p (update_state s_req_method (r\<lparr>hp := (hp r)\<lparr>hp_type := HTTP_REQUEST, hp_method := 2, hp_index := 2\<rparr>\<rparr>)))"

definition exec_start_res :: "'u callbacks \<Rightarrow> nat \<Rightarrow> char \<Rightarrow> 'u hp_run \<Rightarrow> 'u hp_out" where
  "exec_start_res cb p ch r =
     (if ch = CR \<or> ch = LF then Go p r
      else
        let r = clear_message r in
        if ch = CHR ''H'' then
          callback_notify cb OnMessageBegin HPE_CB_message_begin (p + 1) (update_state s_res_H r) (Go p)
        else fail HPE_INVALID_CONSTANT p r)"

section \<open>The status line\<close>

definition set_major :: "char \<Rightarrow> 'u hp_run \<Rightarrow> 'u hp_run" where
  "set_major ch r = r\<lparr>hp := (hp r)\<lparr>http_major := digit ch\<rparr>\<rparr>"

definition set_minor :: "char \<Rightarrow> 'u hp_run \<Rightarrow> 'u hp_run" where
  "set_minor ch r = r\<lparr>hp := (hp r)\<lparr>http_minor := digit ch\<rparr>\<rparr>"

text \<open>\<^verbatim>\<open>s_res_H\<close> to \<^verbatim>\<open>s_res_http_end\<close>.\<close>

definition exec_res_version :: "nat \<Rightarrow> char \<Rightarrow> 'u hp_run \<Rightarrow> 'u hp_out" where
  "exec_res_version p ch r =
     (case hp_state (hp r) of
        s_res_H \<Rightarrow> expect (ch = CHR ''T'') HPE_STRICT s_res_HT p r
      | s_res_HT \<Rightarrow> expect (ch = CHR ''T'') HPE_STRICT s_res_HTT p r
      | s_res_HTT \<Rightarrow> expect (ch = CHR ''P'') HPE_STRICT s_res_HTTP p r
      | s_res_HTTP \<Rightarrow> expect (ch = CHR ''/'') HPE_STRICT s_res_http_major p r
      | s_res_http_major \<Rightarrow> expect (is_number ch) HPE_INVALID_VERSION s_res_http_dot p (if is_number ch then set_major ch r else r)
      | s_res_http_dot \<Rightarrow> expect (ch = CHR ''.'') HPE_INVALID_VERSION s_res_http_minor p r
      | s_res_http_minor \<Rightarrow> expect (is_number ch) HPE_INVALID_VERSION s_res_http_end p (if is_number ch then set_minor ch r else r)
      | _ \<Rightarrow> expect (ch = CHR '' '') HPE_INVALID_VERSION s_res_first_status_code p r)"

definition exec_res_first_status_code :: "nat \<Rightarrow> char \<Rightarrow> 'u hp_run \<Rightarrow> 'u hp_out" where
  "exec_res_first_status_code p ch r =
     (if \<not> is_number ch then if ch = CHR '' '' then Go p r else fail HPE_INVALID_STATUS p r
      else Go p (update_state s_res_status_code (r\<lparr>hp := (hp r)\<lparr>hp_status := digit ch\<rparr>\<rparr>)))"

definition exec_res_status :: "'u callbacks \<Rightarrow> string \<Rightarrow> nat \<Rightarrow> char \<Rightarrow> 'u hp_run \<Rightarrow> 'u hp_out" where
  "exec_res_status cb data p ch r =
     (if ch = CR then callback_data cb data MarkStatus p (p + 1) (update_state s_res_line_almost_done r) (Go p)
      else if ch = LF then callback_data cb data MarkStatus p (p + 1) (update_state s_header_field_start r) (Go p)
      else Go p r)"

definition exec_res_status_start :: "'u callbacks \<Rightarrow> string \<Rightarrow> nat \<Rightarrow> char \<Rightarrow> 'u hp_run \<Rightarrow> 'u hp_out" where
  "exec_res_status_start cb data p ch r =
     (let r = update_state s_res_status (set_mark MarkStatus p r);
          r = r\<lparr>hp := (hp r)\<lparr>hp_index := 0\<rparr>\<rparr>
      in if ch = CR \<or> ch = LF then exec_res_status cb data p ch r else Go p r)"

definition exec_res_status_code :: "'u callbacks \<Rightarrow> string \<Rightarrow> nat \<Rightarrow> char \<Rightarrow> 'u hp_run \<Rightarrow> 'u hp_out" where
  "exec_res_status_code cb data p ch r =
     (if \<not> is_number ch then
        if ch = CHR '' '' then Go p (update_state s_res_status_start r)
        else if ch = CR \<or> ch = LF then exec_res_status_start cb data p ch (update_state s_res_status_start r)
        else fail HPE_INVALID_STATUS p r
      else
        let r = r\<lparr>hp := (hp r)\<lparr>hp_status := hp_status (hp r) * 10 + digit ch\<rparr>\<rparr> in
        if 999 < hp_status (hp r) then fail HPE_INVALID_STATUS p r else Go p r)"

section \<open>The request line\<close>

definition exec_req_method :: "nat \<Rightarrow> char \<Rightarrow> 'u hp_run \<Rightarrow> 'u hp_out" where
  "exec_req_method p ch r =
     (let q = hp r;
          matcher = c_at (method_strings ! hp_method q) (hp_index q);
          next = (\<lambda>r. Go p (r\<lparr>hp := (hp r)\<lparr>hp_index := hp_index (hp r) + 1\<rparr>\<rparr>))
      in if ch = CHR 0x00 then fail HPE_INVALID_METHOD p r
         else if ch = CHR '' '' \<and> matcher = CHR 0x00 then next (update_state s_req_spaces_before_url r)
         else if ch = matcher then next r
         else if 65 \<le> char_code ch \<and> char_code ch \<le> 90 \<or> ch = CHR ''-'' then
           (case map_of method_switch (hp_method q, hp_index q, ch) of
              None \<Rightarrow> fail HPE_INVALID_METHOD p r
            | Some m \<Rightarrow> next (r\<lparr>hp := q\<lparr>hp_method := m\<rparr>\<rparr>))
         else fail HPE_INVALID_METHOD p r)"

text \<open>The state of the URL after a character, \<^verbatim>\<open>s_dead\<close> being an error.\<close>

definition url_step :: "nat \<Rightarrow> char \<Rightarrow> 'u hp_run \<Rightarrow> 'u hp_out" where
  "url_step p ch r =
     (let r = update_state (parse_url_char (hp_state (hp r)) ch) r
      in if hp_state (hp r) = s_dead then fail HPE_INVALID_URL p r else Go p r)"

definition exec_req_spaces_before_url :: "nat \<Rightarrow> char \<Rightarrow> 'u hp_run \<Rightarrow> 'u hp_out" where
  "exec_req_spaces_before_url p ch r =
     (if ch = CHR '' '' then Go p r
      else
        let r = set_mark MarkUrl p r in
        url_step p ch (if hp_method (hp r) = M_CONNECT then update_state s_req_server_start r else r))"

text \<open>\<^verbatim>\<open>s_req_schema\<close> to \<^verbatim>\<open>s_req_server_start\<close>.\<close>

definition exec_req_schema :: "nat \<Rightarrow> char \<Rightarrow> 'u hp_run \<Rightarrow> 'u hp_out" where
  "exec_req_schema p ch r =
     (if ch = CHR '' '' \<or> ch = CR \<or> ch = LF then fail HPE_INVALID_URL p r else url_step p ch r)"

text \<open>\<^verbatim>\<open>s_req_server\<close> to \<^verbatim>\<open>s_req_fragment\<close>.\<close>

definition exec_req_url :: "'u callbacks \<Rightarrow> string \<Rightarrow> nat \<Rightarrow> char \<Rightarrow> 'u hp_run \<Rightarrow> 'u hp_out" where
  "exec_req_url cb data p ch r =
     (if ch = CHR '' '' then callback_data cb data MarkUrl p (p + 1) (update_state s_req_http_start r) (Go p)
      else if ch = CR \<or> ch = LF then
        callback_data cb data MarkUrl p (p + 1)
          (update_state (if ch = CR then s_req_line_almost_done else s_header_field_start)
             (r\<lparr>hp := (hp r)\<lparr>http_major := 0, http_minor := 9\<rparr>\<rparr>)) (Go p)
      else url_step p ch r)"

definition exec_req_http_start :: "nat \<Rightarrow> char \<Rightarrow> 'u hp_run \<Rightarrow> 'u hp_out" where
  "exec_req_http_start p ch r =
     (if ch = CHR '' '' then Go p r
      else if ch = CHR ''H'' then Go p (update_state s_req_http_H r)
      else if ch = CHR ''I'' \<and> hp_method (hp r) = M_SOURCE then Go p (update_state s_req_http_I r)
      else fail HPE_INVALID_CONSTANT p r)"

text \<open>\<^verbatim>\<open>s_req_http_H\<close> to \<^verbatim>\<open>s_req_line_almost_done\<close>.\<close>

definition exec_req_version :: "nat \<Rightarrow> char \<Rightarrow> 'u hp_run \<Rightarrow> 'u hp_out" where
  "exec_req_version p ch r =
     (case hp_state (hp r) of
        s_req_http_H \<Rightarrow> expect (ch = CHR ''T'') HPE_STRICT s_req_http_HT p r
      | s_req_http_HT \<Rightarrow> expect (ch = CHR ''T'') HPE_STRICT s_req_http_HTT p r
      | s_req_http_HTT \<Rightarrow> expect (ch = CHR ''P'') HPE_STRICT s_req_http_HTTP p r
      | s_req_http_I \<Rightarrow> expect (ch = CHR ''C'') HPE_STRICT s_req_http_IC p r
      | s_req_http_IC \<Rightarrow> expect (ch = CHR ''E'') HPE_STRICT s_req_http_HTTP p r
      | s_req_http_HTTP \<Rightarrow> expect (ch = CHR ''/'') HPE_STRICT s_req_http_major p r
      | s_req_http_major \<Rightarrow> expect (is_number ch) HPE_INVALID_VERSION s_req_http_dot p (if is_number ch then set_major ch r else r)
      | s_req_http_dot \<Rightarrow> expect (ch = CHR ''.'') HPE_INVALID_VERSION s_req_http_minor p r
      | s_req_http_minor \<Rightarrow> expect (is_number ch) HPE_INVALID_VERSION s_req_http_end p (if is_number ch then set_minor ch r else r)
      | s_req_http_end \<Rightarrow>
          if ch = CR then Go p (update_state s_req_line_almost_done r)
          else if ch = LF then Go p (update_state s_header_field_start r)
          else fail HPE_INVALID_VERSION p r
      | _ \<Rightarrow> expect (ch = LF) HPE_LF_EXPECTED s_header_field_start p r)"

section \<open>After the headers\<close>

definition exec_message_done :: "'u callbacks \<Rightarrow> nat \<Rightarrow> 'u hp_run \<Rightarrow> 'u hp_out" where
  "exec_message_done cb p r =
     callback_notify cb OnMessageComplete HPE_CB_message_complete (p + 1) (update_state (new_message (hp r)) r)
       (\<lambda>r. if hp_upgrade (hp r) then Stop (p + 1) r else Go p r)"

text \<open>The end of a message that has no body.\<close>

definition complete_here :: "'u callbacks \<Rightarrow> nat \<Rightarrow> 'u hp_run \<Rightarrow> ('u hp_run \<Rightarrow> 'u hp_out) \<Rightarrow> 'u hp_out" where
  "complete_here cb p r =
     callback_notify cb OnMessageComplete HPE_CB_message_complete (p + 1) (update_state (new_message (hp r)) r)"

definition exec_headers_done :: "'u callbacks \<Rightarrow> nat \<Rightarrow> char \<Rightarrow> 'u hp_run \<Rightarrow> 'u hp_out" where
  "exec_headers_done cb p ch r =
     (if ch \<noteq> LF then fail HPE_STRICT p r
      else
        let r = r\<lparr>hp := (hp r)\<lparr>nread := 0\<rparr>\<rparr>;
            q = hp r;
            hasBody = (F_CHUNKED \<in> hp_flags q \<or> 0 < content_length q \<and> content_length q \<noteq> ULLONG_MAX)
        in if hp_upgrade q \<and> (hp_method q = M_CONNECT \<or> F_SKIPBODY \<in> hp_flags q \<or> \<not> hasBody) then complete_here cb p r (Stop (p + 1))
           else if F_SKIPBODY \<in> hp_flags q then complete_here cb p r (Go p)
           else if F_CHUNKED \<in> hp_flags q then Go p (update_state s_chunk_size_start r)
           else if content_length q = 0 then complete_here cb p r (Go p)
           else if content_length q \<noteq> ULLONG_MAX then Go p (update_state s_body_identity r)
           else if \<not> http_message_needs_eof q then complete_here cb p r (Go p)
           else Go p (update_state s_body_identity_eof r))"

definition exec_headers_almost_done :: "'u callbacks \<Rightarrow> nat \<Rightarrow> char \<Rightarrow> 'u hp_run \<Rightarrow> 'u hp_out" where
  "exec_headers_almost_done cb p ch r =
     (if ch \<noteq> LF then fail HPE_STRICT p r
      else if F_TRAILING \<in> hp_flags (hp r) then
        callback_notify cb OnChunkComplete HPE_CB_chunk_complete p (update_state s_message_done r) (exec_message_done cb p)
      else if F_CHUNKED \<in> hp_flags (hp r) \<and> F_CONTENTLENGTH \<in> hp_flags (hp r) then fail HPE_UNEXPECTED_CONTENT_LENGTH p r
      else
        let r = update_state s_headers_done r;
            q = hp r;
            r = r\<lparr>hp := q\<lparr>hp_upgrade :=
                    (if F_UPGRADE \<in> hp_flags q \<and> F_CONNECTION_UPGRADE \<in> hp_flags q
                     then hp_type q = HTTP_REQUEST \<or> hp_status q = 101
                     else hp_method q = M_CONNECT)\<rparr>\<rparr>
        in case cb (OnHeadersComplete (hp_method q)) (hp_user r) of (rc, u) \<Rightarrow>
          let r = r\<lparr>hp_user := u\<rparr> in
          if rc = 0 then exec_headers_done cb p ch r
          else if rc = 2 then exec_headers_done cb p ch (add_flag F_SKIPBODY (r\<lparr>hp := (hp r)\<lparr>hp_upgrade := True\<rparr>\<rparr>))
          else if rc = 1 then exec_headers_done cb p ch (add_flag F_SKIPBODY r)
          else Stop p (set_errno HPE_CB_headers_complete r))"

section \<open>Headers\<close>

text \<open>The names and tokens of interest, letter by letter; \<open>i\<close> is the index before the letter.\<close>

definition match_name :: "string \<Rightarrow> header_states \<Rightarrow> header_states \<Rightarrow> header_states \<Rightarrow> nat \<Rightarrow> char \<Rightarrow> header_states \<times> nat" where
  "match_name name self other found i c =
     (let i = i + 1 in
      (if length name < i \<or> c \<noteq> c_at name i then other else if i = length name - 1 then found else self, i))"

definition exec_header_field_start :: "'u callbacks \<Rightarrow> nat \<Rightarrow> char \<Rightarrow> 'u hp_run \<Rightarrow> 'u hp_out" where
  "exec_header_field_start cb p ch r =
     (if ch = CR then Go p (update_state s_headers_almost_done r)
      else if ch = LF then exec_headers_almost_done cb p ch (update_state s_headers_almost_done r)
      else
        let c = token ch in
        if c = CHR 0x00 then fail HPE_INVALID_HEADER_TOKEN p r
        else
          let r = update_state s_header_field (set_mark MarkField p r) in
          Go p (r\<lparr>hp := (hp r)\<lparr>hp_index := 0, header_state :=
                   (if c = CHR ''c'' then h_C
                    else if c = CHR ''p'' then h_matching_proxy_connection
                    else if c = CHR ''t'' then h_matching_transfer_encoding
                    else if c = CHR ''u'' then h_matching_upgrade
                    else h_general)\<rparr>\<rparr>))"

text \<open>One letter of a name, in a state other than \<^verbatim>\<open>h_general\<close>.\<close>

definition field_char :: "header_states \<Rightarrow> nat \<Rightarrow> char \<Rightarrow> header_states \<times> nat" where
  "field_char h i ch =
     (let c = token ch in
      case h of
        h_C \<Rightarrow> (if c = CHR ''o'' then h_CO else h_general, i + 1)
      | h_CO \<Rightarrow> (if c = CHR ''n'' then h_CON else h_general, i + 1)
      | h_CON \<Rightarrow>
          (if c = CHR ''n'' then h_matching_connection else if c = CHR ''t'' then h_matching_content_length else h_general, i + 1)
      | h_matching_connection \<Rightarrow> match_name ''connection'' h h_general h_connection i c
      | h_matching_proxy_connection \<Rightarrow> match_name ''proxy-connection'' h h_general h_connection i c
      | h_matching_content_length \<Rightarrow> match_name ''content-length'' h h_general h_content_length i c
      | h_matching_transfer_encoding \<Rightarrow> match_name ''transfer-encoding'' h h_general h_transfer_encoding i c
      | h_matching_upgrade \<Rightarrow> match_name ''upgrade'' h h_general h_upgrade i c
      | h_connection \<Rightarrow> (if ch \<noteq> CHR '' '' then h_general else h, i)
      | h_content_length \<Rightarrow> (if ch \<noteq> CHR '' '' then h_general else h, i)
      | h_transfer_encoding \<Rightarrow> (if ch \<noteq> CHR '' '' then h_general else h, i)
      | h_upgrade \<Rightarrow> (if ch \<noteq> CHR '' '' then h_general else h, i)
      | _ \<Rightarrow> (h, i))"

text \<open>
  The loop over a name: how many letters are taken, and the state after them. In
  \<^verbatim>\<open>h_general\<close> the letters are skipped in steps of at most \<^verbatim>\<open>max_header_size\<close>.
\<close>

fun field_scan :: "string \<Rightarrow> header_states \<Rightarrow> nat \<Rightarrow> nat \<times> header_states \<times> nat" where
  "field_scan [] h i = (0, h, i)"
| "field_scan (ch # s) h i =
     (if \<not> is_token ch then (0, h, i)
      else if h = h_general then
        let k = length (takeWhile is_token (take (min (length s + 1) max_header_size - 1) s))
        in case field_scan (drop k s) h i of (n, x) \<Rightarrow> (k + 1 + n, x)
      else case field_char h i ch of (h, i) \<Rightarrow> case field_scan s h i of (n, x) \<Rightarrow> (n + 1, x))"

definition exec_header_field :: "'u callbacks \<Rightarrow> string \<Rightarrow> nat \<Rightarrow> 'u hp_run \<Rightarrow> 'u hp_out" where
  "exec_header_field cb data p r =
     (case field_scan (drop p data) (header_state (hp r)) (hp_index (hp r)) of (n, h, i) \<Rightarrow>
        let r = r\<lparr>hp := (hp r)\<lparr>header_state := h, hp_index := i\<rparr>\<rparr> in
        if p + n = length data then count_header_size (n - 1) (p + n - 1) r (Go (p + n - 1))
        else
          count_header_size n (p + n) r
            (\<lambda>r. if data ! (p + n) = CHR '':''
                 then callback_data cb data MarkField (p + n) (p + n + 1) (update_state s_header_value_discard_ws r) (Go (p + n))
                 else fail HPE_INVALID_HEADER_TOKEN (p + n) r))"

text \<open>The end of a header: the flags its value stands for.\<close>

definition header_flags :: "'u hp_run \<Rightarrow> 'u hp_run" where
  "header_flags r =
     (case header_state (hp r) of
        h_connection_keep_alive \<Rightarrow> add_flag F_CONNECTION_KEEP_ALIVE r
      | h_connection_close \<Rightarrow> add_flag F_CONNECTION_CLOSE r
      | h_transfer_encoding_chunked \<Rightarrow> add_flag F_CHUNKED r
      | h_connection_upgrade \<Rightarrow> add_flag F_CONNECTION_UPGRADE r
      | _ \<Rightarrow> r)"

definition exec_header_value_start :: "nat \<Rightarrow> char \<Rightarrow> 'u hp_run \<Rightarrow> 'u hp_out" where
  "exec_header_value_start p ch r =
     (let r = update_state s_header_value (set_mark MarkValue p r);
          r = r\<lparr>hp := (hp r)\<lparr>hp_index := 0\<rparr>\<rparr>;
          c = LOWER ch;
          to = (\<lambda>h r. Go p (r\<lparr>hp := (hp r)\<lparr>header_state := h\<rparr>\<rparr>))
      in case header_state (hp r) of
           h_upgrade \<Rightarrow> to h_general (add_flag F_UPGRADE r)
         | h_transfer_encoding \<Rightarrow> to (if c = CHR ''c'' then h_matching_transfer_encoding_chunked else h_general) r
         | h_content_length \<Rightarrow>
             if \<not> is_number ch then fail HPE_INVALID_CONTENT_LENGTH p r
             else if F_CONTENTLENGTH \<in> hp_flags (hp r) then fail HPE_UNEXPECTED_CONTENT_LENGTH p r
             else
               let r = add_flag F_CONTENTLENGTH r
               in to h_content_length_num (r\<lparr>hp := (hp r)\<lparr>content_length := of_nat (digit ch)\<rparr>\<rparr>)
         | h_content_length_ws \<Rightarrow> Go p r
         | h_connection \<Rightarrow>
             to (if c = CHR ''k'' then h_matching_connection_keep_alive
                 else if c = CHR ''c'' then h_matching_connection_close
                 else if c = CHR ''u'' then h_matching_connection_upgrade
                 else h_matching_connection_token) r
         | h_matching_connection_token_start \<Rightarrow> Go p r
         | _ \<Rightarrow> to h_general r)"

definition exec_header_value_discard_ws :: "nat \<Rightarrow> char \<Rightarrow> 'u hp_run \<Rightarrow> 'u hp_out" where
  "exec_header_value_discard_ws p ch r =
     (if ch = CHR '' '' \<or> ch = TAB then Go p r
      else if ch = CR then Go p (update_state s_header_value_discard_ws_almost_done r)
      else if ch = LF then Go p (update_state s_header_value_discard_lws r)
      else exec_header_value_start p ch r)"

text \<open>
  One character of a value, in a state other than \<^verbatim>\<open>h_general\<close>: the local \<^verbatim>\<open>h_state\<close> and the parser.
\<close>

definition content_length_char :: "char \<Rightarrow> http_parser \<Rightarrow> http_errno option \<times> header_states \<times> http_parser" where
  "content_length_char ch q =
     (if ch = CHR '' '' then (None, h_content_length_ws, q)
      else if \<not> is_number ch then (Some HPE_INVALID_CONTENT_LENGTH, h_content_length_num, q)
      else if (ULLONG_MAX - 10) div 10 < content_length q then (Some HPE_INVALID_CONTENT_LENGTH, h_content_length_num, q)
      else (None, h_content_length_num, q\<lparr>content_length := content_length q * 10 + of_nat (digit ch)\<rparr>))"

definition connection_token_start :: "char \<Rightarrow> header_states \<Rightarrow> header_states" where
  "connection_token_start c h =
     (if c = CHR ''k'' then h_matching_connection_keep_alive
      else if c = CHR ''c'' then h_matching_connection_close
      else if c = CHR ''u'' then h_matching_connection_upgrade
      else if is_token c then h_matching_connection_token
      else if c = CHR '' '' \<or> c = TAB then h
      else h_general)"

definition connection_done :: "http_flag \<Rightarrow> char \<Rightarrow> header_states \<Rightarrow> http_parser \<Rightarrow> header_states \<times> http_parser" where
  "connection_done f ch h q =
     (if ch = CHR '','' then (h_matching_connection_token_start, q\<lparr>hp_flags := insert f (hp_flags q), hp_index := 0\<rparr>)
      else if ch \<noteq> CHR '' '' then (h_matching_connection_token, q)
      else (h, q))"

definition value_char :: "char \<Rightarrow> header_states \<Rightarrow> http_parser \<Rightarrow> http_errno option \<times> header_states \<times> http_parser" where
  "value_char ch h q =
     (let c = LOWER ch;
          match = (\<lambda>name other found. case match_name name h other found (hp_index q) c of (h, i) \<Rightarrow> (None, h, q\<lparr>hp_index := i\<rparr>))
      in case h of
           h_connection \<Rightarrow> (None, h, q)
         | h_transfer_encoding \<Rightarrow> (None, h, q)
         | h_content_length \<Rightarrow> if ch = CHR '' '' then (None, h, q) else content_length_char ch q
         | h_content_length_num \<Rightarrow> content_length_char ch q
         | h_content_length_ws \<Rightarrow> if ch = CHR '' '' then (None, h, q) else (Some HPE_INVALID_CONTENT_LENGTH, h, q)
         | h_matching_transfer_encoding_chunked \<Rightarrow> match ''chunked'' h_general h_transfer_encoding_chunked
         | h_matching_connection_token_start \<Rightarrow> (None, connection_token_start c h, q)
         | h_matching_connection_keep_alive \<Rightarrow> match ''keep-alive'' h_matching_connection_token h_connection_keep_alive
         | h_matching_connection_close \<Rightarrow> match ''close'' h_matching_connection_token h_connection_close
         | h_matching_connection_upgrade \<Rightarrow> match ''upgrade'' h_matching_connection_token h_connection_upgrade
         | h_matching_connection_token \<Rightarrow>
             if ch = CHR '','' then (None, h_matching_connection_token_start, q\<lparr>hp_index := 0\<rparr>) else (None, h, q)
         | h_transfer_encoding_chunked \<Rightarrow> (None, if ch \<noteq> CHR '' '' then h_general else h, q)
         | h_connection_keep_alive \<Rightarrow> (None, connection_done F_CONNECTION_KEEP_ALIVE ch h q)
         | h_connection_close \<Rightarrow> (None, connection_done F_CONNECTION_CLOSE ch h q)
         | h_connection_upgrade \<Rightarrow> (None, connection_done F_CONNECTION_UPGRADE ch h q)
         | _ \<Rightarrow> (None, h_general, q))"

text \<open>
  The loop over a value: how many characters are taken and why it stops. In \<^verbatim>\<open>h_general\<close> an
  inner loop runs over at most \<^verbatim>\<open>max_header_size\<close> characters; when it ends there, the outer loop
  steps over one character unseen. The errors of a length store \<^verbatim>\<open>h_state\<close>, the others do not.
\<close>

datatype value_end = AtCR | AtLF | AtEnd | BadChar | BadLength

definition value_text :: "bool \<Rightarrow> char \<Rightarrow> bool" where
  "value_text lenient c \<longleftrightarrow> c \<noteq> CR \<and> c \<noteq> LF \<and> (lenient \<or> is_header_char c)"

text \<open>How far the inner loop runs.\<close>

definition value_skip :: "bool \<Rightarrow> string \<Rightarrow> nat" where
  "value_skip lenient s = length (takeWhile (value_text lenient) (take (min (length s) max_header_size) s))"

fun value_scan :: "string \<Rightarrow> header_states \<Rightarrow> http_parser \<Rightarrow> nat \<times> value_end \<times> header_states \<times> http_parser" where
  "value_scan [] h q = (0, AtEnd, h, q)"
| "value_scan (ch # s) h q =
     (if ch = CR then (0, AtCR, h, q)
      else if ch = LF then (0, AtLF, h, q)
      else if \<not> lenient_http_headers q \<and> \<not> is_header_char ch then (0, BadChar, h, q)
      else if h = h_general then
        (let j = value_skip (lenient_http_headers q) (ch # s) in
         if j = length (ch # s) then (j, AtEnd, h, q)
         else if j = max_header_size then
           (case value_scan (drop j s) h q of (n, x) \<Rightarrow> (j + 1 + n, x))
         else if (ch # s) ! j = CR \<or> (ch # s) ! j = LF then
           (case value_scan (drop (j - 1) s) h q of (n, x) \<Rightarrow> (j + n, x))
         else (j, BadChar, h, q))
      else
        (case value_char ch h q of (e, h, q) \<Rightarrow>
           if e \<noteq> None then (0, BadLength, h, q) else (case value_scan s h q of (n, x) \<Rightarrow> (n + 1, x))))"

definition exec_header_almost_done :: "nat \<Rightarrow> char \<Rightarrow> 'u hp_run \<Rightarrow> 'u hp_out" where
  "exec_header_almost_done p ch r = expect (ch = LF) HPE_LF_EXPECTED s_header_value_lws p r"

definition exec_header_value :: "'u callbacks \<Rightarrow> string \<Rightarrow> nat \<Rightarrow> 'u hp_run \<Rightarrow> 'u hp_out" where
  "exec_header_value cb data p r =
     (case value_scan (drop p data) (header_state (hp r)) (hp r) of (n, e, h, q) \<Rightarrow>
        let r = r\<lparr>hp := q\<rparr>;
            rh = r\<lparr>hp := q\<lparr>header_state := h\<rparr>\<rparr>
        in case e of
             AtCR \<Rightarrow>
               callback_data cb data MarkValue (p + n) (p + n + 1) (update_state s_header_almost_done rh)
                 (\<lambda>r. count_header_size n (p + n) r (Go (p + n)))
           | AtLF \<Rightarrow>
               count_header_size n (p + n) (update_state s_header_almost_done r)
                 (\<lambda>r. callback_data cb data MarkValue (p + n) (p + n) (r\<lparr>hp := (hp r)\<lparr>header_state := h\<rparr>\<rparr>)
                        (exec_header_almost_done (p + n) LF))
           | AtEnd \<Rightarrow> count_header_size (n - 1) (p + n - 1) rh (Go (p + n - 1))
           | BadChar \<Rightarrow> fail HPE_INVALID_HEADER_TOKEN (p + n) r
           | BadLength \<Rightarrow> fail HPE_INVALID_CONTENT_LENGTH (p + n) rh)"

definition exec_header_value_lws :: "'u callbacks \<Rightarrow> nat \<Rightarrow> char \<Rightarrow> 'u hp_run \<Rightarrow> 'u hp_out" where
  "exec_header_value_lws cb p ch r =
     (if ch = CHR '' '' \<or> ch = TAB then
        let r = (if header_state (hp r) = h_content_length_num then r\<lparr>hp := (hp r)\<lparr>header_state := h_content_length_ws\<rparr>\<rparr> else r)
        in exec_header_value_start p ch (update_state s_header_value_start r)
      else exec_header_field_start cb p ch (update_state s_header_field_start (header_flags r)))"

definition exec_header_value_discard_lws :: "'u callbacks \<Rightarrow> string \<Rightarrow> nat \<Rightarrow> char \<Rightarrow> 'u hp_run \<Rightarrow> 'u hp_out" where
  "exec_header_value_discard_lws cb data p ch r =
     (if ch = CHR '' '' \<or> ch = TAB then Go p (update_state s_header_value_discard_ws r)
      else if header_state (hp r) = h_content_length then fail HPE_INVALID_CONTENT_LENGTH p r
      else
        callback_data cb data MarkValue p p (update_state s_header_field_start (set_mark MarkValue p (header_flags r)))
          (exec_header_field_start cb p ch))"

section \<open>Bodies\<close>

text \<open>How much of the announced length is in the buffer.\<close>

definition to_read :: "string \<Rightarrow> nat \<Rightarrow> 'u hp_run \<Rightarrow> nat" where
  "to_read data p r = min (unat (content_length (hp r))) (length data - p)"

definition take_body :: "string \<Rightarrow> nat \<Rightarrow> 'u hp_run \<Rightarrow> 'u hp_run" where
  "take_body data p r =
     (set_mark MarkBody p r)\<lparr>hp := (hp r)\<lparr>content_length := content_length (hp r) - of_nat (to_read data p r)\<rparr>\<rparr>"

definition exec_body_identity :: "'u callbacks \<Rightarrow> string \<Rightarrow> nat \<Rightarrow> 'u hp_run \<Rightarrow> 'u hp_out" where
  "exec_body_identity cb data p r =
     (let p' = p + (to_read data p r - 1);
          r = take_body data p r
      in if content_length (hp r) = 0
         then callback_data cb data MarkBody (p' + 1) p' (update_state s_message_done r) (exec_message_done cb p')
         else Go p' r)"

definition exec_body_identity_eof :: "string \<Rightarrow> nat \<Rightarrow> 'u hp_run \<Rightarrow> 'u hp_out" where
  "exec_body_identity_eof data p r = Go (length data - 1) (set_mark MarkBody p r)"

definition exec_chunk_size_start :: "nat \<Rightarrow> char \<Rightarrow> 'u hp_run \<Rightarrow> 'u hp_out" where
  "exec_chunk_size_start p ch r =
     (if unhex ch = -1 then fail HPE_INVALID_CHUNK_SIZE p r
      else Go p (update_state s_chunk_size (r\<lparr>hp := (hp r)\<lparr>content_length := of_int (unhex ch)\<rparr>\<rparr>)))"

definition exec_chunk_size :: "nat \<Rightarrow> char \<Rightarrow> 'u hp_run \<Rightarrow> 'u hp_out" where
  "exec_chunk_size p ch r =
     (if ch = CR then Go p (update_state s_chunk_size_almost_done r)
      else if unhex ch = -1 then
        if ch = CHR '';'' \<or> ch = CHR '' '' then Go p (update_state s_chunk_parameters r) else fail HPE_INVALID_CHUNK_SIZE p r
      else if (ULLONG_MAX - 16) div 16 < content_length (hp r) then fail HPE_INVALID_CONTENT_LENGTH p r
      else Go p (r\<lparr>hp := (hp r)\<lparr>content_length := content_length (hp r) * 16 + of_int (unhex ch)\<rparr>\<rparr>))"

definition exec_chunk_parameters :: "nat \<Rightarrow> char \<Rightarrow> 'u hp_run \<Rightarrow> 'u hp_out" where
  "exec_chunk_parameters p ch r = (if ch = CR then Go p (update_state s_chunk_size_almost_done r) else Go p r)"

definition exec_chunk_size_almost_done :: "'u callbacks \<Rightarrow> nat \<Rightarrow> char \<Rightarrow> 'u hp_run \<Rightarrow> 'u hp_out" where
  "exec_chunk_size_almost_done cb p ch r =
     (if ch \<noteq> LF then fail HPE_STRICT p r
      else
        let r = r\<lparr>hp := (hp r)\<lparr>nread := 0\<rparr>\<rparr>;
            r = (if content_length (hp r) = 0 then update_state s_header_field_start (add_flag F_TRAILING r)
                 else update_state s_chunk_data r)
        in callback_notify cb OnChunkHeader HPE_CB_chunk_header (p + 1) r (Go p))"

definition exec_chunk_data :: "string \<Rightarrow> nat \<Rightarrow> 'u hp_run \<Rightarrow> 'u hp_out" where
  "exec_chunk_data data p r =
     (let p' = p + (to_read data p r - 1);
          r = take_body data p r
      in Go p' (if content_length (hp r) = 0 then update_state s_chunk_data_almost_done r else r))"

definition exec_chunk_data_almost_done :: "'u callbacks \<Rightarrow> string \<Rightarrow> nat \<Rightarrow> char \<Rightarrow> 'u hp_run \<Rightarrow> 'u hp_out" where
  "exec_chunk_data_almost_done cb data p ch r =
     (if ch \<noteq> CR then fail HPE_STRICT p r
      else callback_data cb data MarkBody p (p + 1) (update_state s_chunk_data_done r) (Go p))"

definition exec_chunk_data_done :: "'u callbacks \<Rightarrow> nat \<Rightarrow> char \<Rightarrow> 'u hp_run \<Rightarrow> 'u hp_out" where
  "exec_chunk_data_done cb p ch r =
     (if ch \<noteq> LF then fail HPE_STRICT p r
      else
        callback_notify cb OnChunkComplete HPE_CB_chunk_complete (p + 1)
          (update_state s_chunk_size_start (r\<lparr>hp := (hp r)\<lparr>nread := 0\<rparr>\<rparr>)) (Go p))"

section \<open>The loop\<close>

definition exec_case :: "'u callbacks \<Rightarrow> string \<Rightarrow> nat \<Rightarrow> char \<Rightarrow> 'u hp_run \<Rightarrow> 'u hp_out" where
  "exec_case cb data p ch r =
     (case hp_state (hp r) of
        s_dead \<Rightarrow> exec_dead p ch r
      | s_start_req_or_res \<Rightarrow> exec_start_req_or_res cb p ch r
      | s_res_or_resp_H \<Rightarrow> exec_res_or_resp_H p ch r
      | s_start_res \<Rightarrow> exec_start_res cb p ch r
      | s_res_H \<Rightarrow> exec_res_version p ch r
      | s_res_HT \<Rightarrow> exec_res_version p ch r
      | s_res_HTT \<Rightarrow> exec_res_version p ch r
      | s_res_HTTP \<Rightarrow> exec_res_version p ch r
      | s_res_http_major \<Rightarrow> exec_res_version p ch r
      | s_res_http_dot \<Rightarrow> exec_res_version p ch r
      | s_res_http_minor \<Rightarrow> exec_res_version p ch r
      | s_res_http_end \<Rightarrow> exec_res_version p ch r
      | s_res_first_status_code \<Rightarrow> exec_res_first_status_code p ch r
      | s_res_status_code \<Rightarrow> exec_res_status_code cb data p ch r
      | s_res_status_start \<Rightarrow> exec_res_status_start cb data p ch r
      | s_res_status \<Rightarrow> exec_res_status cb data p ch r
      | s_res_line_almost_done \<Rightarrow> expect (ch = LF) HPE_STRICT s_header_field_start p r
      | s_start_req \<Rightarrow> exec_start_req cb p ch r
      | s_req_method \<Rightarrow> exec_req_method p ch r
      | s_req_spaces_before_url \<Rightarrow> exec_req_spaces_before_url p ch r
      | s_req_schema \<Rightarrow> exec_req_schema p ch r
      | s_req_schema_slash \<Rightarrow> exec_req_schema p ch r
      | s_req_schema_slash_slash \<Rightarrow> exec_req_schema p ch r
      | s_req_server_start \<Rightarrow> exec_req_schema p ch r
      | s_req_server \<Rightarrow> exec_req_url cb data p ch r
      | s_req_server_with_at \<Rightarrow> exec_req_url cb data p ch r
      | s_req_path \<Rightarrow> exec_req_url cb data p ch r
      | s_req_query_string_start \<Rightarrow> exec_req_url cb data p ch r
      | s_req_query_string \<Rightarrow> exec_req_url cb data p ch r
      | s_req_fragment_start \<Rightarrow> exec_req_url cb data p ch r
      | s_req_fragment \<Rightarrow> exec_req_url cb data p ch r
      | s_req_http_start \<Rightarrow> exec_req_http_start p ch r
      | s_req_http_H \<Rightarrow> exec_req_version p ch r
      | s_req_http_HT \<Rightarrow> exec_req_version p ch r
      | s_req_http_HTT \<Rightarrow> exec_req_version p ch r
      | s_req_http_HTTP \<Rightarrow> exec_req_version p ch r
      | s_req_http_I \<Rightarrow> exec_req_version p ch r
      | s_req_http_IC \<Rightarrow> exec_req_version p ch r
      | s_req_http_major \<Rightarrow> exec_req_version p ch r
      | s_req_http_dot \<Rightarrow> exec_req_version p ch r
      | s_req_http_minor \<Rightarrow> exec_req_version p ch r
      | s_req_http_end \<Rightarrow> exec_req_version p ch r
      | s_req_line_almost_done \<Rightarrow> exec_req_version p ch r
      | s_header_field_start \<Rightarrow> exec_header_field_start cb p ch r
      | s_header_field \<Rightarrow> exec_header_field cb data p r
      | s_header_value_discard_ws \<Rightarrow> exec_header_value_discard_ws p ch r
      | s_header_value_discard_ws_almost_done \<Rightarrow> expect (ch = LF) HPE_STRICT s_header_value_discard_lws p r
      | s_header_value_discard_lws \<Rightarrow> exec_header_value_discard_lws cb data p ch r
      | s_header_value_start \<Rightarrow> exec_header_value_start p ch r
      | s_header_value \<Rightarrow> exec_header_value cb data p r
      | s_header_value_lws \<Rightarrow> exec_header_value_lws cb p ch r
      | s_header_almost_done \<Rightarrow> exec_header_almost_done p ch r
      | s_chunk_size_start \<Rightarrow> exec_chunk_size_start p ch r
      | s_chunk_size \<Rightarrow> exec_chunk_size p ch r
      | s_chunk_parameters \<Rightarrow> exec_chunk_parameters p ch r
      | s_chunk_size_almost_done \<Rightarrow> exec_chunk_size_almost_done cb p ch r
      | s_headers_almost_done \<Rightarrow> exec_headers_almost_done cb p ch r
      | s_headers_done \<Rightarrow> exec_headers_done cb p ch r
      | s_chunk_data \<Rightarrow> exec_chunk_data data p r
      | s_chunk_data_almost_done \<Rightarrow> exec_chunk_data_almost_done cb data p ch r
      | s_chunk_data_done \<Rightarrow> exec_chunk_data_done cb p ch r
      | s_body_identity \<Rightarrow> exec_body_identity cb data p r
      | s_body_identity_eof \<Rightarrow> exec_body_identity_eof data p r
      | s_message_done \<Rightarrow> exec_message_done cb p r)"

definition exec_byte :: "'u callbacks \<Rightarrow> string \<Rightarrow> nat \<Rightarrow> 'u hp_run \<Rightarrow> 'u hp_out" where
  "exec_byte cb data p r =
     (if parsing_header (hp_state (hp r)) then count_header_size 1 p r (exec_case cb data p (data ! p))
      else exec_case cb data p (data ! p) r)"


text \<open>
  What a byte may do: the loop goes on behind it, or at most the whole buffer counts as parsed,
  because of an error or because the rest belongs to another protocol.
\<close>

definition out_ok :: "nat \<Rightarrow> nat \<Rightarrow> 'u hp_out \<Rightarrow> bool" where
  "out_ok len p out =
     (case out of
        Go p' r \<Rightarrow> p \<le> p' \<and> p' < len
      | Stop n r \<Rightarrow> n \<le> len \<and> (hp_errno (hp r) \<noteq> HPE_OK \<or> hp_upgrade (hp r)))"

named_theorems out_intros

lemma out_ok_simps [simp]: "out_ok len p (Go p' r) \<longleftrightarrow> p \<le> p' \<and> p' < len"
  "out_ok len p (Stop n r) \<longleftrightarrow> n \<le> len \<and> (hp_errno (hp r) \<noteq> HPE_OK \<or> hp_upgrade (hp r))"
  by (simp_all add: out_ok_def)

lemma hp_errno_set [simp]: "hp_errno (hp (set_errno e r)) = e"
  by (simp add: set_errno_def)

lemma out_ok_fail [simp]: "e \<noteq> HPE_OK \<Longrightarrow> out_ok len p (fail e n r) \<longleftrightarrow> n \<le> len"
  by (simp add: fail_def)

lemma out_ok_expect [simp]: "e \<noteq> HPE_OK \<Longrightarrow> p < len \<Longrightarrow> out_ok len p (expect b e s p r)"
  by (simp add: expect_def)

lemma data_errno_error [simp]: "data_errno m \<noteq> HPE_OK"
  by (cases m) simp_all

lemma out_ok_notify_user:
  "er \<le> len \<Longrightarrow> e \<noteq> HPE_OK \<Longrightarrow> (\<And>u. out_ok len p (k (r\<lparr>hp_user := u\<rparr>))) \<Longrightarrow> out_ok len p (callback_notify cb ev e er r k)"
  by (simp add: callback_notify_def Let_def split: prod.split)

lemma out_ok_notify [out_intros]:
  "er \<le> len \<Longrightarrow> e \<noteq> HPE_OK \<Longrightarrow> (\<And>r. out_ok len p (k r)) \<Longrightarrow> out_ok len p (callback_notify cb ev e er r k)"
  by (rule out_ok_notify_user)

lemma out_ok_data [out_intros]: "er \<le> len \<Longrightarrow> (\<And>r. out_ok len p (k r)) \<Longrightarrow> out_ok len p (callback_data cb data m to er r k)"
  by (auto simp: callback_data_def split: option.split intro!: out_ok_notify)

lemma out_ok_count [out_intros]: "n \<le> len \<Longrightarrow> (\<And>r. out_ok len p (k r)) \<Longrightarrow> out_ok len p (count_header_size v n r k)"
  by (simp add: count_header_size_def Let_def)

lemma out_ok_weaken: "out_ok len p' out \<Longrightarrow> p \<le> p' \<Longrightarrow> out_ok len p out"
  by (cases out) auto

lemma field_scan_length: "fst (field_scan s h i) \<le> length s"
proof (induction s h i rule: field_scan.induct)
  case (2 ch s h i)
  let ?k = "length (takeWhile is_token (take (min (length s + 1) max_header_size - 1) s))"
  have "?k \<le> length (take (min (length s + 1) max_header_size - 1) s)" by (rule length_takeWhile_le)
  then have k: "?k \<le> length s" by simp
  show ?case
  proof (cases "is_token ch \<and> h = h_general")
    case True
    then have "fst (field_scan (drop ?k s) h i) \<le> length s - ?k" using 2(1) by simp
    then show ?thesis using True k by (auto simp: Let_def split: prod.split)
  next
    case False
    then show ?thesis using 2(2) by (auto split: prod.splits)
  qed
qed simp

lemma value_skip_le: "value_skip l s \<le> length s" "value_skip l s \<le> max_header_size"
  using length_takeWhile_le [of "value_text l" "take (min (length s) max_header_size) s"]
  by (simp_all add: value_skip_def)

lemma value_scan_end:
  "case value_scan s h q of (n, e, x) \<Rightarrow> n \<le> length s \<and> (n = length s \<longleftrightarrow> e = AtEnd)"
proof (induction s h q rule: value_scan.induct)
  case (2 ch s h q)
  let ?j = "value_skip (lenient_http_headers q) (ch # s)"
  have j: "?j \<le> length (ch # s)" by (rule value_skip_le)
  show ?case
  proof (cases "ch = CR \<or> ch = LF \<or> \<not> lenient_http_headers q \<and> \<not> is_header_char ch")
    case False
    note ok = this
    show ?thesis
    proof (cases "h = h_general")
      case True
      have "value_text (lenient_http_headers q) ch" using ok by (auto simp: value_text_def)
      then have "0 < ?j" by (auto simp: value_skip_def max_header_size_def take_Cons split: nat.split)
      moreover have "length (drop (?j - 1) s) = length s - (?j - 1)" "length (drop ?j s) = length s - ?j" by simp_all
      ultimately show ?thesis
        using 2(1) [OF _ _ _ True refl] 2(2) [OF _ _ _ True refl] ok True j
        by (auto simp: Let_def split: prod.splits)
    next
      case False
      then show ?thesis using 2(3) ok by (auto split: prod.splits)
    qed
  qed auto
qed simp

lemmas exec_simple_defs = exec_dead_def exec_start_req_def exec_start_req_or_res_def exec_res_or_resp_H_def exec_start_res_def
  exec_res_version_def exec_res_first_status_code_def exec_res_status_def exec_res_status_start_def exec_res_status_code_def
  exec_req_method_def url_step_def exec_req_spaces_before_url_def exec_req_schema_def exec_req_url_def exec_req_http_start_def
  exec_req_version_def

lemma out_ok_start [out_intros]:
  assumes "p < len"
  shows "out_ok len p (exec_dead p ch r)" "out_ok len p (exec_start_req cb p ch r)"
    "out_ok len p (exec_start_req_or_res cb p ch r)" "out_ok len p (exec_res_or_resp_H p ch r)"
    "out_ok len p (exec_start_res cb p ch r)"
  using assms by (auto simp: exec_simple_defs Let_def intro!: out_intros split: option.split)

lemma out_ok_status_line [out_intros]:
  assumes "p < len"
  shows "out_ok len p (exec_res_version p ch r)" "out_ok len p (exec_res_first_status_code p ch r)"
    "out_ok len p (exec_res_status cb data p ch r)" "out_ok len p (exec_res_status_start cb data p ch r)"
    "out_ok len p (exec_res_status_code cb data p ch r)"
  using assms by (auto simp: exec_simple_defs Let_def intro!: out_intros split: parser_state.split)

lemma out_ok_request_line [out_intros]:
  assumes "p < len"
  shows "out_ok len p (exec_req_method p ch r)" "out_ok len p (exec_req_spaces_before_url p ch r)"
    "out_ok len p (exec_req_schema p ch r)" "out_ok len p (exec_req_url cb data p ch r)"
    "out_ok len p (exec_req_http_start p ch r)" "out_ok len p (exec_req_version p ch r)"
  using assms by (auto simp: exec_simple_defs Let_def intro!: out_intros split: option.split parser_state.split)

lemma out_ok_message_done [out_intros]: "p < len \<Longrightarrow> out_ok len p (exec_message_done cb p r)"
  by (auto simp: exec_message_done_def intro!: out_intros)

lemma out_ok_complete:
  "p < len \<Longrightarrow> out_ok len p (complete_here cb p r (Go p))"
  "p < len \<Longrightarrow> hp_upgrade (hp r) \<Longrightarrow> out_ok len p (complete_here cb p r (Stop (Suc p)))"
  by (auto simp: complete_here_def update_state_def intro!: out_ok_notify_user)

lemma out_ok_headers_done [out_intros]: "p < len \<Longrightarrow> out_ok len p (exec_headers_done cb p ch r)"
  by (simp add: exec_headers_done_def Let_def out_ok_complete)

lemma out_ok_headers_almost_done [out_intros]: "p < len \<Longrightarrow> out_ok len p (exec_headers_almost_done cb p ch r)"
  by (auto simp: exec_headers_almost_done_def Let_def intro!: out_intros split: prod.split)

lemma out_ok_field_start [out_intros]: "p < len \<Longrightarrow> out_ok len p (exec_header_field_start cb p ch r)"
  by (auto simp: exec_header_field_start_def Let_def intro!: out_intros)

lemma out_ok_value_start [out_intros]: "p < len \<Longrightarrow> out_ok len p (exec_header_value_start p ch r)"
  by (auto simp: exec_header_value_start_def Let_def split: header_states.split)

lemma out_ok_header_small [out_intros]:
  assumes "p < len"
  shows "out_ok len p (exec_header_value_discard_ws p ch r)" "out_ok len p (exec_header_almost_done p ch r)"
    "out_ok len p (exec_header_value_lws cb p ch r)" "out_ok len p (exec_header_value_discard_lws cb data p ch r)"
  using assms by (auto simp: exec_header_value_discard_ws_def exec_header_almost_done_def exec_header_value_lws_def
      exec_header_value_discard_lws_def Let_def intro!: out_intros)

lemma out_ok_header_field [out_intros]:
  assumes "p < length data"
  shows "out_ok (length data) p (exec_header_field cb data p r)"
proof -
  obtain n h i where s: "field_scan (drop p data) (header_state (hp r)) (hp_index (hp r)) = (n, h, i)" by (cases "field_scan (drop p data) (header_state (hp r)) (hp_index (hp r))")
  have "n \<le> length data - p" using field_scan_length [of "drop p data" "header_state (hp r)" "hp_index (hp r)"] s by simp
  then show ?thesis using assms by (auto simp: exec_header_field_def s Let_def intro!: out_intros)
qed

lemma out_ok_header_value [out_intros]:
  assumes "p < length data"
  shows "out_ok (length data) p (exec_header_value cb data p r)"
proof -
  obtain n e h q where s: "value_scan (drop p data) (header_state (hp r)) (hp r) = (n, e, h, q)"
    by (cases "value_scan (drop p data) (header_state (hp r)) (hp r)")
  have n: "n \<le> length data - p" "n = length data - p \<longleftrightarrow> e = AtEnd"
    using value_scan_end [of "drop p data" "header_state (hp r)" "hp r"] by (simp_all add: s)
  have "out_ok (length data) p (exec_header_almost_done (p + n) LF r)" if "e = AtLF" for r :: "'a hp_run"
    using n that assms by (intro out_ok_weaken [OF out_ok_header_small(2)]) auto
  then show ?thesis
    using n assms by (cases e) (auto simp: exec_header_value_def s Let_def intro!: out_intros)
qed

lemma out_ok_bodies [out_intros]:
  assumes "p < length data"
  shows "out_ok (length data) p (exec_body_identity cb data p r)" "out_ok (length data) p (exec_body_identity_eof data p r)"
    "out_ok (length data) p (exec_chunk_data data p r)"
proof -
  have t: "p + (to_read data p r - 1) < length data" using assms by (auto simp: to_read_def)
  show "out_ok (length data) p (exec_body_identity cb data p r)"
    using t by (auto simp: exec_body_identity_def Let_def intro!: out_intros intro: out_ok_weaken [OF out_ok_message_done])
  show "out_ok (length data) p (exec_chunk_data data p r)" "out_ok (length data) p (exec_body_identity_eof data p r)"
    using t assms by (auto simp: exec_chunk_data_def exec_body_identity_eof_def Let_def)
qed

lemma out_ok_chunks [out_intros]:
  assumes "p < len"
  shows "out_ok len p (exec_chunk_size_start p ch r)" "out_ok len p (exec_chunk_size p ch r)"
    "out_ok len p (exec_chunk_parameters p ch r)" "out_ok len p (exec_chunk_size_almost_done cb p ch r)"
    "out_ok len p (exec_chunk_data_almost_done cb data p ch r)" "out_ok len p (exec_chunk_data_done cb p ch r)"
  using assms by (auto simp: exec_chunk_size_start_def exec_chunk_size_def exec_chunk_parameters_def exec_chunk_size_almost_done_def
      exec_chunk_data_almost_done_def exec_chunk_data_done_def Let_def intro!: out_intros)

lemma out_ok_case [out_intros]: "p < length data \<Longrightarrow> out_ok (length data) p (exec_case cb data p ch r)"
  unfolding exec_case_def by (cases "hp_state (hp r)") (auto intro: out_intros)

lemma out_ok_byte: "p < length data \<Longrightarrow> out_ok (length data) p (exec_byte cb data p r)"
  by (auto simp: exec_byte_def intro!: out_intros)

text \<open>The marks that are left over when the bytes are used up.\<close>

definition execute_end :: "'u callbacks \<Rightarrow> string \<Rightarrow> 'u hp_run \<Rightarrow> 'u hp_out" where
  "execute_end cb data r =
     (let len = length data; call = (\<lambda>m k r. callback_data cb data m len len r k)
      in call MarkField (call MarkValue (call MarkUrl (call MarkBody (call MarkStatus (Stop len))))) r)"

function execute_loop :: "'u callbacks \<Rightarrow> string \<Rightarrow> nat \<Rightarrow> 'u hp_run \<Rightarrow> nat \<times> 'u hp_run" where
  "execute_loop cb data p r =
     (if p < length data then
        (case exec_byte cb data p r of
           Go p' r \<Rightarrow> execute_loop cb data (p' + 1) r
         | Stop n r \<Rightarrow> (n, r))
      else
        (case execute_end cb data r of
           Go p' r \<Rightarrow> (length data, r)
         | Stop n r \<Rightarrow> (n, r)))"
  by pat_completeness auto
termination
proof (relation "measure (\<lambda>(cb, data, p, r). length data - p)")
  fix cb :: "'u callbacks" and data p r p' r'
  assume "p < length data" "exec_byte cb data p r = Go p' r'"
  then show "((cb, data, p' + 1, r'), cb, data, p, r) \<in> measure (\<lambda>(cb, data, p, r). length data - p)"
    using out_ok_byte [of p data cb r] by auto
qed simp

declare execute_loop.simps [simp del]

definition initial_marks :: "parser_state \<Rightarrow> hp_mark \<Rightarrow> nat option" where
  "initial_marks s m =
     (if m = MarkField \<and> s = s_header_field then Some 0
      else if m = MarkValue \<and> s = s_header_value then Some 0
      else if m = MarkUrl \<and> s \<in> {s_req_path, s_req_schema, s_req_schema_slash, s_req_schema_slash_slash, s_req_server_start,
                s_req_server, s_req_server_with_at, s_req_query_string_start, s_req_query_string, s_req_fragment_start,
                s_req_fragment} then Some 0
      else if m = MarkStatus \<and> s = s_res_status then Some 0
      else None)"

text \<open>\<^verbatim>\<open>http_parser_execute\<close>: the number of bytes parsed, the parser and what the callbacks left.\<close>

definition http_parser_execute :: "'u callbacks \<Rightarrow> string \<Rightarrow> http_parser \<Rightarrow> 'u \<Rightarrow> nat \<times> http_parser \<times> 'u" where
  "http_parser_execute cb data q u =
     (if hp_errno q \<noteq> HPE_OK then (0, q, u)
      else if data = [] then
        (if hp_state q = s_body_identity_eof then
           (case cb OnMessageComplete u of (rc, u) \<Rightarrow>
              (0, if rc \<noteq> 0 then q\<lparr>hp_errno := HPE_CB_message_complete\<rparr> else q, u))
         else if hp_state q \<in> {s_dead, s_start_req_or_res, s_start_res, s_start_req} then (0, q, u)
         else (1, q\<lparr>hp_errno := HPE_INVALID_EOF_STATE\<rparr>, u))
      else
        (case execute_loop cb data 0 \<lparr>hp = q, hp_marks = initial_marks (hp_state q), hp_user = u\<rparr> of
           (n, r) \<Rightarrow> (n, hp r, hp_user r)))"

text \<open>Without an error and without a change of protocol, the whole buffer is parsed.\<close>

definition parsed_ok :: "nat \<Rightarrow> nat \<times> 'u hp_run \<Rightarrow> bool" where
  "parsed_ok len out \<longleftrightarrow> fst out \<le> len \<and> (hp_errno (hp (snd out)) = HPE_OK \<longrightarrow> \<not> hp_upgrade (hp (snd out)) \<longrightarrow> fst out = len)"

lemma callback_data_stop:
  assumes "\<And>r. \<exists>r'. k r = Stop len r'"
  shows "\<exists>r'. callback_data cb data m to len r k = Stop len r'"
  using assms by (auto simp: callback_data_def callback_notify_def Let_def split: option.split prod.split)

lemma execute_end_stop: "\<exists>r'. execute_end cb data r = Stop (length data) r'"
  unfolding execute_end_def Let_def by (intro callback_data_stop exI) (rule refl)

lemma execute_loop_bound: "parsed_ok (length data) (execute_loop cb data p r)"
proof (induction cb data p r rule: execute_loop.induct)
  case (1 cb data p r)
  show ?case
  proof (cases "p < length data")
    case True
    then show ?thesis
      using 1 out_ok_byte [of p data cb r] by (subst execute_loop.simps) (auto simp: parsed_ok_def split: hp_out.split)
  next
    case False
    then show ?thesis
      using execute_end_stop [of cb data r] by (subst execute_loop.simps) (auto simp: parsed_ok_def)
  qed
qed



text \<open>
  C31: what the result of the parser means. On a buffer that is not empty, at most the whole of
  it is parsed; and if the parser is not in an error state afterwards, either the whole buffer
  was parsed or the rest belongs to another protocol.
\<close>

theorem http_parser_contract:
  assumes "http_parser_execute cb data q u = (n, q', u')" "data \<noteq> []"
  shows "n \<le> length data \<and> (hp_errno q' = HPE_OK \<longrightarrow> hp_upgrade q' \<or> n = length data)"
  using assms execute_loop_bound [of data cb 0 "\<lparr>hp = q, hp_marks = initial_marks (hp_state q), hp_user = u\<rparr>"]
  by (auto simp: http_parser_execute_def parsed_ok_def split: if_splits prod.splits)

text \<open>Callbacks that record the events and never fail.\<close>

definition log_events :: "parse_event list callbacks" where
  "log_events e es = (0, es @ [e])"

theorem http_parser_contract_witness:
  "case http_parser_execute log_events ''GET'' (http_parser_init HTTP_REQUEST) [] of (n, q, es) \<Rightarrow>
     n \<le> 3 \<and> (hp_errno q = HPE_OK \<longrightarrow> hp_upgrade q \<or> n = 3)"
  using http_parser_contract [of log_events "''GET''" "http_parser_init HTTP_REQUEST" "[]"]
  by (auto simp: eval_nat_numeral split: prod.split)

end
