(* ===== verification/Http_Parser_Run.thy ===== *)
theory Http_Parser_Run
  imports Http_Execute
begin

text \<open>
  The parser on texts whose parts are known: a configuration is a run in a state at a position,
  and each lemma takes it over one part of a message, the method, the URL, the version, a header
  name or a header value, to the next configuration.
\<close>

section \<open>Configurations\<close>

text \<open>A run in a state, before the byte at a position: all bytes before it are counted.\<close>

definition conf :: "http_parser \<Rightarrow> parser_state \<Rightarrow> nat \<Rightarrow> (hp_mark \<Rightarrow> nat option) \<Rightarrow> 'u \<Rightarrow> 'u hp_run" where
  "conf q s p ms u = \<lparr>hp = q\<lparr>hp_state := s, nread := of_nat p, hp_errno := HPE_OK\<rparr>, hp_marks = ms, hp_user = u\<rparr>"

lemma conf_select [simp]:
  "hp_type (hp (conf q s p ms u)) = hp_type q" "hp_flags (hp (conf q s p ms u)) = hp_flags q"
  "hp_state (hp (conf q s p ms u)) = s" "header_state (hp (conf q s p ms u)) = header_state q"
  "hp_index (hp (conf q s p ms u)) = hp_index q"
  "lenient_http_headers (hp (conf q s p ms u)) = lenient_http_headers q" "nread (hp (conf q s p ms u)) = of_nat p"
  "content_length (hp (conf q s p ms u)) = content_length q" "http_major (hp (conf q s p ms u)) = http_major q"
  "http_minor (hp (conf q s p ms u)) = http_minor q" "hp_status (hp (conf q s p ms u)) = hp_status q"
  "hp_method (hp (conf q s p ms u)) = hp_method q" "hp_upgrade (hp (conf q s p ms u)) = hp_upgrade q"
  "hp_errno (hp (conf q s p ms u)) = HPE_OK" "hp_marks (conf q s p ms u) = ms" "hp_user (conf q s p ms u) = u"
  by (simp_all add: conf_def)

lemma conf_update [simp]:
  "hp (conf q s p ms u)\<lparr>hp_type := t\<rparr> = hp (conf (q\<lparr>hp_type := t\<rparr>) s p ms u)"
  "hp (conf q s p ms u)\<lparr>hp_flags := f\<rparr> = hp (conf (q\<lparr>hp_flags := f\<rparr>) s p ms u)"
  "hp (conf q s p ms u)\<lparr>hp_state := s'\<rparr> = hp (conf q s' p ms u)"
  "hp (conf q s p ms u)\<lparr>header_state := h\<rparr> = hp (conf (q\<lparr>header_state := h\<rparr>) s p ms u)"
  "hp (conf q s p ms u)\<lparr>hp_index := i\<rparr> = hp (conf (q\<lparr>hp_index := i\<rparr>) s p ms u)"
  "hp (conf q s p ms u)\<lparr>nread := of_nat p'\<rparr> = hp (conf q s p' ms u)"
  "hp (conf q s p ms u)\<lparr>content_length := l\<rparr> = hp (conf (q\<lparr>content_length := l\<rparr>) s p ms u)"
  "hp (conf q s p ms u)\<lparr>http_major := a\<rparr> = hp (conf (q\<lparr>http_major := a\<rparr>) s p ms u)"
  "hp (conf q s p ms u)\<lparr>http_minor := a\<rparr> = hp (conf (q\<lparr>http_minor := a\<rparr>) s p ms u)"
  "hp (conf q s p ms u)\<lparr>hp_status := a\<rparr> = hp (conf (q\<lparr>hp_status := a\<rparr>) s p ms u)"
  "hp (conf q s p ms u)\<lparr>hp_method := a\<rparr> = hp (conf (q\<lparr>hp_method := a\<rparr>) s p ms u)"
  "hp (conf q s p ms u)\<lparr>hp_upgrade := b\<rparr> = hp (conf (q\<lparr>hp_upgrade := b\<rparr>) s p ms u)"
  by (cases q; simp add: conf_def)+

lemma conf_assign [simp]: "conf q s p ms u\<lparr>hp := hp (conf q' s' p' ms' u')\<rparr> = conf q' s' p' ms u"
  "conf q s p ms u\<lparr>hp_user := u'\<rparr> = conf q s p ms u'" "conf q s p ms u\<lparr>hp_marks := ms'\<rparr> = conf q s p ms' u"
  "update_state s' (conf q s p ms u) = conf q s' p ms u"
  "add_flag f (conf q s p ms u) = conf (q\<lparr>hp_flags := insert f (hp_flags q)\<rparr>) s p ms u"
  "set_mark m a (conf q s p ms u) = conf q s p (if ms m = None then ms(m := Some a) else ms) u"
  by (cases q; simp add: conf_def update_state_def add_flag_def set_mark_def)+

lemma count_conf [simp]:
  assumes "p + v \<le> max_header_size"
  shows "count_header_size v a (conf q s p ms u) k = k (conf q s (p + v) ms u)"
proof -
  have 1: "unat (of_nat (p + v) :: u32) = p + v"
    using assms by (simp add: unat_of_nat take_bit_nat_eq_self max_header_size_def del: of_nat_add)
  have 3: "\<not> max_header_size < p + v" using assms by simp
  show ?thesis by (simp only: count_header_size_def Let_def of_nat_add [symmetric] conf_update conf_assign conf_select 1 3 if_False)
qed

lemma expect_conf [simp]:
  "expect True e s' a (conf q s p ms u) = Go a (conf q s' p ms u)"
  by (simp add: expect_def)

lemma notify_conf: "cb e u = (0, u') \<Longrightarrow> callback_notify cb e er a (conf q s p ms u) k = k (conf q s p ms u')"
  by (simp add: callback_notify_def)

lemma data_conf:
  assumes "ms m = Some a" "drop a data = text @ rest" "to = a + length text"
    "cb (data_event m (hp (conf q s p ms u)) text) u = (0, u')"
  shows "callback_data cb data m to er (conf q s p ms u) k = k (conf q s p (ms(m := None)) u')"
  using assms by (simp add: callback_data_def notify_conf)

lemma drop_step: "drop p data = c # t \<Longrightarrow> p < length data \<and> data ! p = c \<and> drop (Suc p) data = t"
  by (metis Cons_nth_drop_Suc drop_eq_Nil leI list.distinct(1) list.inject)

lemma drop_text: "drop p data = a @ b \<Longrightarrow> drop (p + length a) data = b"
  by (metis add.commute append_eq_conv_conj drop_drop)

lemma exec_step:
  assumes "drop p data = c # t" "parsing_header s" "p < max_header_size"
  shows "execute_loop cb data p (conf q s p ms u) =
    (case exec_case cb data p c (conf q s (Suc p) ms u) of
       Go p' r \<Rightarrow> execute_loop cb data (Suc p') r
     | Stop n r \<Rightarrow> (n, r))"
  using drop_step [OF assms(1)] assms(2,3)
  by (subst execute_loop.simps) (simp add: exec_byte_def split: hp_out.split)

lemma exec_go:
  assumes "drop p data = c # t" "parsing_header s" "p < max_header_size"
    "exec_case cb data p c (conf q s (Suc p) ms u) = Go p' r"
  shows "execute_loop cb data p (conf q s p ms u) = execute_loop cb data (Suc p') r"
  using exec_step [OF assms(1-3), of cb q ms u] assms(4) by simp

section \<open>The request line\<close>

text \<open>One letter of the method after the first.\<close>

definition method_char :: "nat \<times> nat \<Rightarrow> char \<Rightarrow> (nat \<times> nat) option" where
  "method_char mi ch =
     (case mi of (m, i) \<Rightarrow>
        if ch \<in> {CHR 0x00, CHR '' ''} then None
        else if ch = c_at (method_strings ! m) i then Some (m, i + 1)
        else if 65 \<le> char_code ch \<and> char_code ch \<le> 90 \<or> ch = CHR ''-'' then map_option (\<lambda>m. (m, i + 1)) (map_of method_switch (m, i, ch))
        else None)"

fun method_run :: "string \<Rightarrow> nat \<times> nat \<Rightarrow> (nat \<times> nat) option" where
  "method_run [] mi = Some mi"
| "method_run (c # cs) mi = Option.bind (method_char mi c) (method_run cs)"

lemma method_runs:
  "\<forall>k\<in>set [0..<34]. case map_of first_method (hd (method_strings ! k)) of
     None \<Rightarrow> False
   | Some m \<Rightarrow> method_run (tl (method_strings ! k)) (m, 1) = Some (k, length (method_strings ! k))"
  by code_simp


lemma parsing_header_states [simp]:
  "parsing_header s_start_req" "parsing_header s_start_res" "parsing_header s_req_method" "parsing_header s_req_spaces_before_url"
  "parsing_header s_req_path" "parsing_header s_req_query_string_start" "parsing_header s_req_query_string"
  "parsing_header s_req_http_start" "parsing_header s_req_http_H" "parsing_header s_req_http_HT" "parsing_header s_req_http_HTT"
  "parsing_header s_req_http_HTTP" "parsing_header s_req_http_major" "parsing_header s_req_http_dot"
  "parsing_header s_req_http_minor" "parsing_header s_req_http_end" "parsing_header s_req_line_almost_done"
  "parsing_header s_header_field_start" "parsing_header s_header_field" "parsing_header s_header_value_discard_ws"
  "parsing_header s_header_value" "parsing_header s_header_almost_done" "parsing_header s_header_value_lws"
  "parsing_header s_headers_almost_done"
  by (simp_all add: parsing_header_def)

lemma exec_method_char:
  assumes "method_char (hp_method q, hp_index q) ch = Some (m, i)"
  shows "exec_req_method p ch (conf q s_req_method n ms u) = Go p (conf (q\<lparr>hp_method := m, hp_index := i\<rparr>) s_req_method n ms u)"
proof -
  have "q\<lparr>hp_index := i\<rparr> = q\<lparr>hp_method := hp_method q, hp_index := i\<rparr>" for i by (cases q) simp
  then show ?thesis
    using assms by (auto simp: exec_req_method_def method_char_def Let_def split: if_splits option.splits)
qed

lemma exec_method_run:
  assumes "drop p data = cs @ rest" "method_run cs (hp_method q, hp_index q) = Some (m, i)" "p + length cs \<le> max_header_size"
  shows "execute_loop cb data p (conf q s_req_method p ms u) =
    execute_loop cb data (p + length cs) (conf (q\<lparr>hp_method := m, hp_index := i\<rparr>) s_req_method (p + length cs) ms u)"
  using assms
proof (induction cs arbitrary: p q)
  case Nil
  then have "q\<lparr>hp_method := m, hp_index := i\<rparr> = q" by (cases q) simp
  then show ?case by simp
next
  case (Cons c cs)
  then obtain m' i' where c: "method_char (hp_method q, hp_index q) c = Some (m', i')" "method_run cs (m', i') = Some (m, i)"
    by (auto simp: bind_eq_Some_conv)
  have d: "drop p data = c # cs @ rest" using Cons.prems(1) by simp
  have "execute_loop cb data p (conf q s_req_method p ms u) =
      execute_loop cb data (Suc p) (conf (q\<lparr>hp_method := m', hp_index := i'\<rparr>) s_req_method (Suc p) ms u)"
    by (rule exec_go [OF d]) (use Cons.prems(3) exec_method_char [OF c(1)] in \<open>simp_all add: exec_case_def\<close>)
  then show ?case
    using Cons.IH [of "Suc p" "q\<lparr>hp_method := m', hp_index := i'\<rparr>"] drop_step [OF d] c(2) Cons.prems(3) by simp
qed

text \<open>The characters of a URL that keep its scanner alive.\<close>

definition url_states :: "parser_state set" where
  "url_states = {s_req_path, s_req_query_string_start, s_req_query_string}"

fun url_run :: "parser_state \<Rightarrow> string \<Rightarrow> bool" where
  "url_run s [] = True"
| "url_run s (c # cs) \<longleftrightarrow> c \<notin> {CHR '' '', CR, LF} \<and> parse_url_char s c \<in> url_states \<and> url_run (parse_url_char s c) cs"

lemma exec_url_run:
  assumes "drop p data = cs @ rest" "s \<in> url_states" "url_run s cs" "p + length cs \<le> max_header_size"
  shows "\<exists>s'\<in>url_states. execute_loop cb data p (conf q s p ms u) =
    execute_loop cb data (p + length cs) (conf q s' (p + length cs) ms u)"
  using assms
proof (induction cs arbitrary: p s)
  case (Cons c cs)
  have d: "drop p data = c # cs @ rest" using Cons.prems(1) by simp
  let ?s = "parse_url_char s c"
  have s: "?s \<in> url_states" "url_run ?s cs" "c \<notin> {CHR '' '', CR, LF}" using Cons.prems(3) by simp_all
  then have "?s \<noteq> s_dead" by (auto simp: url_states_def)
  then have u: "exec_req_url cb data p c (conf q s (Suc p) ms u) = Go p (conf q ?s (Suc p) ms u)"
    using s(3) by (simp add: exec_req_url_def url_step_def Let_def)
  have "execute_loop cb data p (conf q s p ms u) = execute_loop cb data (Suc p) (conf q ?s (Suc p) ms u)"
    by (rule exec_go [OF d]) (use Cons.prems(2,4) u in \<open>auto simp: exec_case_def url_states_def\<close>)
  then show ?case using Cons.IH [OF _ s(1,2), of "Suc p"] drop_step [OF d] Cons.prems(4) by simp
qed auto

lemma exec_step_hd:
  assumes "drop p data \<noteq> []" "parsing_header s" "p < max_header_size"
  shows "execute_loop cb data p (conf q s p ms u) =
    (case exec_case cb data p (hd (drop p data)) (conf q s (Suc p) ms u) of
       Go p' r \<Rightarrow> execute_loop cb data (Suc p') r
     | Stop n r \<Rightarrow> (n, r))"
  using exec_step [of p data "hd (drop p data)" "tl (drop p data)" s cb q ms u] assms by simp

lemma drop_Suc_tl: "drop (Suc p) data = tl (drop p data)"
  by (simp add: drop_Suc tl_drop)

lemma exec_version:
  assumes "drop p data = ''HTTP/1.1'' @ [CR, LF] @ rest" "p + 10 \<le> max_header_size"
  shows "execute_loop cb data p (conf q s_req_http_start p ms u) =
    execute_loop cb data (p + 10) (conf (q\<lparr>http_major := 1, http_minor := 1\<rparr>) s_header_field_start (p + 10) ms u)"
proof -
  have n: "is_number CHR ''1''" "digit CHR ''1'' = 1" by code_simp+
  show ?thesis
    using assms by (simp add: exec_step_hd drop_Suc_tl exec_case_def exec_req_http_start_def exec_req_version_def
        set_major_def set_minor_def n) (simp add: eval_nat_numeral)
qed

section \<open>Header names\<close>

definition first_field_state :: "char \<Rightarrow> header_states" where
  "first_field_state ch =
     (let c = token ch in
      if c = CHR ''c'' then h_C
      else if c = CHR ''p'' then h_matching_proxy_connection
      else if c = CHR ''t'' then h_matching_transfer_encoding
      else if c = CHR ''u'' then h_matching_upgrade
      else h_general)"

definition field_run :: "string \<Rightarrow> header_states \<times> nat \<Rightarrow> header_states \<times> nat" where
  "field_run s hi = foldl (\<lambda>(h, i) c. field_char h i c) hi s"

lemma field_run_simps [simp]: "field_run [] hi = hi" "field_run (c # s) (h, i) = field_run s (field_char h i c)"
  by (simp_all add: field_run_def)

lemma field_char_general [simp]: "field_char h_general i c = (h_general, i)"
  by (simp add: field_char_def)

lemma field_run_general: "field_run s (h_general, i) = (h_general, i)"
  by (induction s) simp_all

lemma takeWhile_limited:
  assumes "\<forall>x\<in>set s. P x" "\<not> P d"
  shows "length (takeWhile P (take n (s @ d # rest))) = min n (length s)"
  using assms by (induction s arbitrary: n) (auto simp: take_Cons split: nat.split)

lemma field_scan_general:
  assumes "\<forall>c\<in>set s. is_token c" "\<not> is_token d"
  shows "field_scan (s @ d # rest) h_general i = (length s, h_general, i)"
  using assms(1)
proof (induction "length s" arbitrary: s rule: less_induct)
  case less
  show ?case
  proof (cases s)
    case Nil
    then show ?thesis using assms(2) by simp
  next
    case (Cons c t)
    let ?k = "length (takeWhile is_token (take (min (length (t @ d # rest) + 1) max_header_size - 1) (t @ d # rest)))"
    have "?k = min (min (length (t @ d # rest) + 1) max_header_size - 1) (length t)"
      by (rule takeWhile_limited) (use less.prems Cons assms(2) in simp_all)
    then have k: "?k \<le> length t" by (simp only: min.cobounded2)
    then have "drop ?k (t @ d # rest) = drop ?k t @ d # rest" by simp
    moreover have "field_scan (drop ?k t @ d # rest) h_general i = (length (drop ?k t), h_general, i)"
      using less.prems Cons by (intro less.hyps) (auto dest: in_set_dropD)
    ultimately show ?thesis using Cons less.prems k by (simp add: Let_def)
  qed
qed

lemma field_scan_run:
  assumes "\<forall>c\<in>set s. is_token c" "\<not> is_token d"
  shows "field_scan (s @ d # rest) h i = (length s, field_run s (h, i))"
  using assms(1)
proof (induction s arbitrary: h i)
  case Nil
  then show ?case using assms(2) by simp
next
  case (Cons c s)
  show ?case
  proof (cases "h = h_general")
    case True
    then show ?thesis using field_scan_general [of "c # s"] Cons.prems assms(2) field_run_general [of "c # s"] by simp
  next
    case False
    then show ?thesis using Cons by (simp split: prod.split)
  qed
qed

lemma colon_token [simp]: "\<not> is_token CHR '':''" "token CR = CHR 0x00" "token LF = CHR 0x00" "token CHR '' '' = CHR 0x00" "token TAB = CHR 0x00"
  by code_simp+

text \<open>A name and its colon: the callback gets the name.\<close>

lemma exec_field:
  assumes d: "drop p data = k @ CHR '':'' # rest" and k: "k \<noteq> []" "\<forall>c\<in>set k. is_token c"
    and p: "p + length k < max_header_size" and cb: "cb (OnField k) u = (0, u')" and ms: "ms = (\<lambda>_. None)"
    and h: "field_run (tl k) (first_field_state (hd k), 0) = (h, i)"
  shows "execute_loop cb data p (conf q s_header_field_start p ms u) =
    execute_loop cb data (Suc (p + length k))
      (conf (q\<lparr>header_state := h, hp_index := i\<rparr>) s_header_value_discard_ws (Suc (p + length k)) ms u')"
proof -
  obtain c s where c: "k = c # s" using k(1) by (cases k) auto
  have tok: "is_token c" using k(2) c by simp
  then have nc: "c \<noteq> CR" "c \<noteq> LF" by auto
  let ?q = "q\<lparr>hp_index := 0, header_state := first_field_state c\<rparr>"
  let ?m = "ms(MarkField := Some p)"
  have d1: "drop p data = c # s @ CHR '':'' # rest" using d c by simp
  then have d2: "drop (Suc p) data = s @ CHR '':'' # rest" by (rule drop_step [THEN conjunct2, THEN conjunct2])
  have "exec_header_field_start cb p c (conf q s_header_field_start (Suc p) ms u) = Go p (conf ?q s_header_field (Suc p) ?m u)"
    using tok nc ms by (simp add: exec_header_field_start_def first_field_state_def Let_def)
  then have 1: "execute_loop cb data p (conf q s_header_field_start p ms u) =
      execute_loop cb data (Suc p) (conf ?q s_header_field (Suc p) ?m u)"
    by (intro exec_go [OF d1]) (use p in \<open>simp_all add: exec_case_def\<close>)
  have len: "Suc (p + length s) < length data"
    using arg_cong [OF d2, of length] by simp
  have nth: "data ! Suc (p + length s) = CHR '':''"
    using d2 len by (metis add_Suc nth_append_length nth_drop le_add1 less_imp_le_nat add_leD1 less_or_eq_imp_le)
  have fs: "field_scan (drop (Suc p) data) (first_field_state c) 0 = (length s, h, i)"
    using field_scan_run [of s "CHR '':''" rest "first_field_state c" 0] h d2 k(2) c by simp
  let ?r = "?q\<lparr>header_state := h, hp_index := i\<rparr>"
  have r: "?r = q\<lparr>header_state := h, hp_index := i\<rparr>" by (cases q) simp
  have cd: "callback_data cb data MarkField (Suc (p + length s)) er (conf ?r s_header_value_discard_ws a ?m u) g =
      g (conf ?r s_header_value_discard_ws a ms u')" for er a and g :: "'a hp_run \<Rightarrow> 'a hp_out"
    using data_conf [of ?m MarkField p data k "CHR '':'' # rest" "Suc (p + length s)" cb ?r s_header_value_discard_ws a u u' er g]
      d cb ms by (simp add: c)
  have e: "exec_header_field cb data (Suc p) (conf ?q s_header_field (Suc (Suc p)) ?m u) =
      Go (Suc (p + length s)) (conf ?r s_header_value_discard_ws (Suc (Suc (p + length s))) ms u')"
    using p len nth fs cd by (simp add: exec_header_field_def c)
  obtain x y where xy: "drop (Suc p) data = x # y" using d2 by (cases s) auto
  have "execute_loop cb data (Suc p) (conf ?q s_header_field (Suc p) ?m u) =
      execute_loop cb data (Suc (Suc (p + length s))) (conf ?r s_header_value_discard_ws (Suc (Suc (p + length s))) ms u')"
    by (rule exec_go [OF xy]) (use p e c in \<open>simp_all add: exec_case_def\<close>)
  then show ?thesis using 1 by (simp only: r) (simp add: c)
qed

section \<open>Header values\<close>

definition value_begin :: "char \<Rightarrow> http_parser \<Rightarrow> http_parser option" where
  "value_begin ch q =
     (let c = LOWER ch; q = q\<lparr>hp_index := 0\<rparr>; to = (\<lambda>h q. Some (q\<lparr>header_state := h\<rparr>))
      in case header_state q of
           h_upgrade \<Rightarrow> to h_general (q\<lparr>hp_flags := insert F_UPGRADE (hp_flags q)\<rparr>)
         | h_transfer_encoding \<Rightarrow> to (if c = CHR ''c'' then h_matching_transfer_encoding_chunked else h_general) q
         | h_content_length \<Rightarrow>
             if \<not> is_number ch \<or> F_CONTENTLENGTH \<in> hp_flags q then None
             else to h_content_length_num
                    (q\<lparr>hp_flags := insert F_CONTENTLENGTH (hp_flags q), content_length := of_nat (digit ch)\<rparr>)
         | h_content_length_ws \<Rightarrow> Some q
         | h_connection \<Rightarrow>
             to (if c = CHR ''k'' then h_matching_connection_keep_alive
                 else if c = CHR ''c'' then h_matching_connection_close
                 else if c = CHR ''u'' then h_matching_connection_upgrade
                 else h_matching_connection_token) q
         | h_matching_connection_token_start \<Rightarrow> Some q
         | _ \<Rightarrow> to h_general q)"

lemma exec_value_begin:
  assumes "value_begin c q = Some q'" "ms MarkValue = None"
  shows "exec_header_value_start p c (conf q s n ms u) = Go p (conf q' s_header_value n (ms(MarkValue := Some p)) u)"
  using assms by (simp add: exec_header_value_start_def value_begin_def Let_def split: header_states.splits if_splits)

fun value_run :: "string \<Rightarrow> header_states \<times> http_parser \<Rightarrow> (header_states \<times> http_parser) option" where
  "value_run [] hq = Some hq"
| "value_run (c # cs) (h, q) =
     (if h = h_general then value_run cs (h, q)
      else case value_char c h q of (e, hq) \<Rightarrow> if e = None then value_run cs hq else None)"

lemma value_run_general: "value_run s (h_general, q) = Some (h_general, q)"
  by (induction s) simp_all

lemma value_skip_run:
  assumes "\<forall>c\<in>set v. value_text False c" "length v < max_header_size"
  shows "value_skip l (v @ CR # rest) = length v"
proof -
  have "length (takeWhile (value_text l) (take n (v @ CR # rest))) = min n (length v)" for n
    by (rule takeWhile_limited) (use assms(1) in \<open>auto simp: value_text_def\<close>)
  then show ?thesis unfolding value_skip_def using assms(2) by (simp only: length_append)
qed

lemma value_scan_general:
  assumes "\<forall>c\<in>set v. value_text False c" "length v < max_header_size"
  shows "value_scan (v @ CR # rest) h_general q = (length v, AtCR, h_general, q)"
proof (cases v)
  case (Cons c w)
  have j: "value_skip (lenient_http_headers q) (c # w @ CR # rest) = Suc (length w)"
    using value_skip_run [OF assms, of _ rest] Cons by simp
  have "c \<noteq> CR" "c \<noteq> LF" "is_header_char c" using assms(1) Cons by (auto simp: value_text_def)
  then show ?thesis using assms(2) by (simp add: Cons j Let_def nth_append)
qed simp

lemma value_scan_run:
  assumes "\<forall>c\<in>set v. value_text False c" "length v < max_header_size" "value_run v (h, q) = Some (h', q')"
  shows "value_scan (v @ CR # rest) h q = (length v, AtCR, h', q')"
  using assms
proof (induction v arbitrary: h q)
  case (Cons c v)
  show ?case
  proof (cases "h = h_general")
    case True
    then show ?thesis using value_scan_general [OF Cons.prems(1,2)] Cons.prems(3) value_run_general [of "c # v" q] by simp
  next
    case False
    obtain e h1 q1 where x: "value_char c h q = (e, h1, q1)" by (cases "value_char c h q")
    have "value_scan (v @ CR # rest) h1 q1 = (length v, AtCR, h', q')"
      by (rule Cons.IH) (use Cons.prems False x in \<open>auto split: if_splits\<close>)
    moreover have "e = None" using Cons.prems(3) False x by (auto split: if_splits)
    moreover have "c \<noteq> CR" "c \<noteq> LF" "is_header_char c" using Cons.prems(1) by (auto simp: value_text_def)
    ultimately show ?thesis using False x by simp
  qed
qed simp

lemma value_char_conf:
  "value_char ch h (hp (conf q s p ms u)) = (case value_char ch h q of (e, h, q) \<Rightarrow> (e, h, hp (conf q s p ms u)))"
  by (simp add: value_char_def content_length_char_def connection_done_def Let_def split: header_states.split prod.split)

lemma value_run_conf:
  "value_run v (h, hp (conf q s p ms u)) = map_option (\<lambda>(h, q). (h, hp (conf q s p ms u))) (value_run v (h, q))"
  by (induction v arbitrary: h q) (auto simp: value_char_conf split: prod.split)

text \<open>A value and its line end: the callback gets the value.\<close>

lemma exec_value:
  assumes d: "drop p data = CHR '' '' # v @ CR # LF # rest" and v: "v \<noteq> []" "\<forall>c\<in>set v. value_text False c"
      "hd v \<noteq> CHR '' ''" "hd v \<noteq> TAB"
    and p: "p + length v + 2 < max_header_size" and cb: "cb (OnValue v) u = (0, u')" and ms: "ms = (\<lambda>_. None)"
    and h: "value_begin (hd v) q = Some q1" "value_run (tl v) (header_state q1, q1) = Some (h, q2)"
  shows "execute_loop cb data p (conf q s_header_value_discard_ws p ms u) =
    execute_loop cb data (p + length v + 3) (conf (q2\<lparr>header_state := h\<rparr>) s_header_value_lws (p + length v + 3) ms u')"
proof -
  define q3 where "q3 = q2\<lparr>header_state := h\<rparr>"
  obtain c s where c: "v = c # s" using v(1) by (cases v) auto
  have nc: "c \<noteq> CR" "c \<noteq> LF" "c \<noteq> CHR '' ''" "c \<noteq> TAB" using v c by (auto simp: value_text_def)
  have d1: "drop (Suc p) data = c # s @ CR # LF # rest" using drop_step [OF d] c by simp
  have d2: "drop (Suc (Suc p)) data = s @ CR # LF # rest" using drop_step [OF d1] by simp
  have d3: "drop (Suc (Suc (p + length s))) data = CR # LF # rest"
    using d2 by (metis add.commute add_Suc_right append_eq_conv_conj drop_drop)
  have d4: "drop (Suc (Suc (Suc (p + length s)))) data = LF # rest" using drop_step [OF d3] by simp
  have 1: "execute_loop cb data p (conf q s_header_value_discard_ws p ms u) =
      execute_loop cb data (Suc p) (conf q s_header_value_discard_ws (Suc p) ms u)"
    by (rule exec_go [OF d]) (use p in \<open>simp_all add: exec_case_def exec_header_value_discard_ws_def\<close>)
  let ?m = "ms(MarkValue := Some (Suc p))"
  have b: "exec_header_value_start (Suc p) c (conf q s_header_value_discard_ws (Suc (Suc p)) ms u) =
      Go (Suc p) (conf q1 s_header_value (Suc (Suc p)) ?m u)"
    by (rule exec_value_begin) (use h(1) c ms in simp_all)
  have 2: "execute_loop cb data (Suc p) (conf q s_header_value_discard_ws (Suc p) ms u) =
      execute_loop cb data (Suc (Suc p)) (conf q1 s_header_value (Suc (Suc p)) ?m u)"
    by (rule exec_go [OF d1]) (use p nc b c in \<open>simp_all add: exec_case_def exec_header_value_discard_ws_def\<close>)
  let ?q = "\<lambda>q. conf q s_header_value (Suc (Suc (Suc p))) ?m u"
  have vs: "value_scan (drop (Suc (Suc p)) data) (header_state q1) (hp (?q q1)) = (length s, AtCR, h, hp (?q q2))"
    unfolding d2 by (rule value_scan_run) (use v(2) p h(2) c in \<open>auto simp: value_run_conf\<close>)
  have cd: "callback_data cb data MarkValue (Suc (Suc (p + length s))) er (conf q3 s_header_almost_done a ?m u) g =
      g (conf q3 s_header_almost_done a ms u')" for er a and g :: "'a hp_run \<Rightarrow> 'a hp_out"
    using data_conf [of ?m MarkValue "Suc p" data v "CR # LF # rest" "Suc (Suc (p + length s))" cb q3 s_header_almost_done a u u' er g]
      d1 cb ms by (simp add: c)
  have e: "exec_header_value cb data (Suc (Suc p)) (conf q1 s_header_value (Suc (Suc (Suc p))) ?m u) =
      Go (Suc (Suc (p + length s))) (conf q3 s_header_almost_done (Suc (Suc (Suc (p + length s)))) ms u')"
    using p cd by (simp add: exec_header_value_def vs Let_def c q3_def)
  obtain x y where xy: "drop (Suc (Suc p)) data = x # y" using d2 by (cases s) auto
  have 3: "execute_loop cb data (Suc (Suc p)) (conf q1 s_header_value (Suc (Suc p)) ?m u) =
      execute_loop cb data (Suc (Suc (Suc (p + length s)))) (conf q3 s_header_almost_done (Suc (Suc (Suc (p + length s)))) ms u')"
    by (rule exec_go [OF xy]) (use p e c in \<open>simp_all add: exec_case_def\<close>)
  have 4: "execute_loop cb data (Suc (Suc (Suc (p + length s)))) (conf q3 s_header_almost_done (Suc (Suc (Suc (p + length s)))) ms u') =
      execute_loop cb data (Suc (Suc (Suc (Suc (p + length s))))) (conf q3 s_header_value_lws (Suc (Suc (Suc (Suc (p + length s))))) ms u')"
    by (rule exec_go [OF d4]) (use p c in \<open>simp_all add: exec_case_def exec_header_almost_done_def\<close>)
  show ?thesis using 1 2 3 4 by (simp add: c eval_nat_numeral q3_def)
qed

text \<open>The end of a header, seen with the first byte behind it.\<close>

definition end_flags :: "http_parser \<Rightarrow> http_parser" where
  "end_flags q =
     (case header_state q of
        h_connection_keep_alive \<Rightarrow> q\<lparr>hp_flags := insert F_CONNECTION_KEEP_ALIVE (hp_flags q)\<rparr>
      | h_connection_close \<Rightarrow> q\<lparr>hp_flags := insert F_CONNECTION_CLOSE (hp_flags q)\<rparr>
      | h_transfer_encoding_chunked \<Rightarrow> q\<lparr>hp_flags := insert F_CHUNKED (hp_flags q)\<rparr>
      | h_connection_upgrade \<Rightarrow> q\<lparr>hp_flags := insert F_CONNECTION_UPGRADE (hp_flags q)\<rparr>
      | _ \<Rightarrow> q)"

lemma header_flags_conf: "header_flags (conf q s p ms u) = conf (end_flags q) s p ms u"
  by (simp add: header_flags_def end_flags_def split: header_states.split)

lemma exec_lws:
  assumes d: "drop p data = c # rest" and "c \<noteq> CHR '' ''" "c \<noteq> TAB" and p: "p < max_header_size"
  shows "execute_loop cb data p (conf q s_header_value_lws p ms u) =
    execute_loop cb data p (conf (end_flags q) s_header_field_start p ms u)"
  using assms(2,3) by (simp add: exec_step [OF d _ p] exec_case_def exec_header_value_lws_def header_flags_conf)

end
