(* ===== verification/Http_Parse_Url.thy ===== *)
theory Http_Parse_Url
  imports Http_Parser
begin

text \<open>
  \<^verbatim>\<open>http_parser_parse_url\<close> of \<^verbatim>\<open>http/http_parser.hpp\<close>: the parts of a URL as offsets and lengths of
  sixteen bits, the parts of the host, and the port. What the structure held before the call
  is an argument; a result other than zero is None.
\<close>

section \<open>Data\<close>

datatype url_field = UF_SCHEMA | UF_HOST | UF_PORT | UF_PATH | UF_QUERY | UF_FRAGMENT | UF_USERINFO

record http_parser_url =
  field_set :: "url_field set"
  url_port :: "16 word"
  field_off :: "url_field \<Rightarrow> 16 word"
  field_len :: "url_field \<Rightarrow> 16 word"

definition http_parser_url_init :: http_parser_url where
  "http_parser_url_init = \<lparr>field_set = {}, url_port = 0, field_off = (\<lambda>_. 0), field_len = (\<lambda>_. 0)\<rparr>"

datatype http_host_state =
    s_http_host_dead | s_http_userinfo_start | s_http_userinfo | s_http_host_start | s_http_host_v6_start | s_http_host
  | s_http_host_v6 | s_http_host_v6_end | s_http_host_v6_zone_start | s_http_host_v6_zone | s_http_host_port_start
  | s_http_host_port

text \<open>A part begins, or grows by one.\<close>

definition field_begin :: "url_field \<Rightarrow> nat \<Rightarrow> 16 word \<Rightarrow> http_parser_url \<Rightarrow> http_parser_url" where
  "field_begin f p len u =
     u\<lparr>field_off := (field_off u)(f := of_nat p), field_set := insert f (field_set u), field_len := (field_len u)(f := len)\<rparr>"

definition field_more :: "url_field \<Rightarrow> http_parser_url \<Rightarrow> http_parser_url" where
  "field_more f u = u\<lparr>field_len := (field_len u)(f := field_len u f + 1)\<rparr>"

definition field_text :: "string \<Rightarrow> url_field \<Rightarrow> http_parser_url \<Rightarrow> string" where
  "field_text buf f u = take (unat (field_len u f)) (drop (unat (field_off u f)) buf)"

section \<open>The host\<close>

definition host_port_start :: "char \<Rightarrow> http_host_state" where
  "host_port_start ch = (if ch = CHR '':'' then s_http_host_port_start else s_http_host_dead)"

definition host_v6_char :: "bool \<Rightarrow> char \<Rightarrow> http_host_state" where
  "host_v6_char inside ch =
     (if is_hex ch \<or> ch = CHR '':'' \<or> ch = CHR ''.'' then s_http_host_v6
      else if inside \<and> ch = CHR ''%'' then s_http_host_v6_zone_start
      else s_http_host_dead)"

definition host_zone_char :: "char \<Rightarrow> http_host_state" where
  "host_zone_char ch = (if hp_alphanum ch \<or> ch \<in> set ''%.-_~'' then s_http_host_v6_zone else s_http_host_dead)"

definition host_userinfo_char :: "char \<Rightarrow> http_host_state" where
  "host_userinfo_char ch =
     (if ch = CHR ''@'' then s_http_host_start else if is_userinfo_char ch then s_http_userinfo else s_http_host_dead)"

definition host_port_char :: "char \<Rightarrow> http_host_state" where
  "host_port_char ch = (if is_number ch then s_http_host_port else s_http_host_dead)"

definition http_parse_host_char :: "http_host_state \<Rightarrow> char \<Rightarrow> http_host_state" where
  "http_parse_host_char s ch =
     (case s of
        s_http_userinfo \<Rightarrow> host_userinfo_char ch
      | s_http_userinfo_start \<Rightarrow> host_userinfo_char ch
      | s_http_host_start \<Rightarrow>
          if ch = CHR ''['' then s_http_host_v6_start else if is_host_char ch then s_http_host else s_http_host_dead
      | s_http_host \<Rightarrow> if is_host_char ch then s_http_host else host_port_start ch
      | s_http_host_v6_end \<Rightarrow> host_port_start ch
      | s_http_host_v6 \<Rightarrow> if ch = CHR '']'' then s_http_host_v6_end else host_v6_char True ch
      | s_http_host_v6_start \<Rightarrow> host_v6_char False ch
      | s_http_host_v6_zone \<Rightarrow> if ch = CHR '']'' then s_http_host_v6_end else host_zone_char ch
      | s_http_host_v6_zone_start \<Rightarrow> host_zone_char ch
      | s_http_host_port \<Rightarrow> host_port_char ch
      | s_http_host_port_start \<Rightarrow> host_port_char ch
      | s_http_host_dead \<Rightarrow> s_http_host_dead)"

text \<open>What a character of the host adds; \<open>s\<close> is the state before, \<open>t\<close> the state after it.\<close>

definition host_field :: "http_host_state \<Rightarrow> http_host_state \<Rightarrow> nat \<Rightarrow> http_parser_url \<Rightarrow> http_parser_url" where
  "host_field s t p u =
     (let host_at = (\<lambda>u. if s \<noteq> t then u\<lparr>field_off := (field_off u)(UF_HOST := of_nat p)\<rparr> else u);
          part = (\<lambda>f u. if s \<noteq> t then field_begin f p 0 u else u)
      in case t of
           s_http_host \<Rightarrow> field_more UF_HOST (host_at u)
         | s_http_host_v6 \<Rightarrow> field_more UF_HOST (host_at u)
         | s_http_host_v6_zone_start \<Rightarrow> field_more UF_HOST u
         | s_http_host_v6_zone \<Rightarrow> field_more UF_HOST u
         | s_http_host_port \<Rightarrow> field_more UF_PORT (part UF_PORT u)
         | s_http_userinfo \<Rightarrow> field_more UF_USERINFO (part UF_USERINFO u)
         | _ \<Rightarrow> u)"

fun host_loop :: "http_host_state \<Rightarrow> nat \<Rightarrow> string \<Rightarrow> http_parser_url \<Rightarrow> (http_host_state \<times> http_parser_url) option" where
  "host_loop s p [] u = Some (s, u)"
| "host_loop s p (ch # cs) u =
     (let t = http_parse_host_char s ch
      in if t = s_http_host_dead then None else host_loop t (p + 1) cs (host_field s t p u))"

definition http_parse_host :: "string \<Rightarrow> bool \<Rightarrow> http_parser_url \<Rightarrow> http_parser_url option" where
  "http_parse_host buf found_at u =
     (let off = unat (field_off u UF_HOST);
          text = take (unat (field_len u UF_HOST)) (drop off buf)
      in case host_loop (if found_at then s_http_userinfo_start else s_http_host_start) off text
                (u\<lparr>field_len := (field_len u)(UF_HOST := 0)\<rparr>) of
           None \<Rightarrow> None
         | Some (s, u) \<Rightarrow>
             if s \<in> {s_http_host_start, s_http_host_v6_start, s_http_host_v6, s_http_host_v6_zone_start, s_http_host_v6_zone,
                  s_http_host_port_start, s_http_userinfo, s_http_userinfo_start} then None
             else Some u)"

section \<open>The URL\<close>

text \<open>The part a state belongs to: None for an error, \<open>Some None\<close> for a delimiter.\<close>

definition url_part :: "parser_state \<Rightarrow> url_field option option" where
  "url_part s =
     (case s of
        s_req_schema_slash \<Rightarrow> Some None
      | s_req_schema_slash_slash \<Rightarrow> Some None
      | s_req_server_start \<Rightarrow> Some None
      | s_req_query_string_start \<Rightarrow> Some None
      | s_req_fragment_start \<Rightarrow> Some None
      | s_req_schema \<Rightarrow> Some (Some UF_SCHEMA)
      | s_req_server_with_at \<Rightarrow> Some (Some UF_HOST)
      | s_req_server \<Rightarrow> Some (Some UF_HOST)
      | s_req_path \<Rightarrow> Some (Some UF_PATH)
      | s_req_query_string \<Rightarrow> Some (Some UF_QUERY)
      | s_req_fragment \<Rightarrow> Some (Some UF_FRAGMENT)
      | _ \<Rightarrow> None)"

fun url_loop ::
  "parser_state \<Rightarrow> nat \<Rightarrow> url_field option \<Rightarrow> bool \<Rightarrow> string \<Rightarrow> http_parser_url \<Rightarrow> (bool \<times> http_parser_url) option" where
  "url_loop s p old found_at [] u = Some (found_at, u)"
| "url_loop s p old found_at (ch # cs) u =
     (let s = parse_url_char s ch;
          found_at = (found_at \<or> s = s_req_server_with_at)
      in case url_part s of
           None \<Rightarrow> None
         | Some None \<Rightarrow> url_loop s (p + 1) old found_at cs u
         | Some (Some f) \<Rightarrow>
             url_loop s (p + 1) (Some f) found_at cs (if old = Some f then field_more f u else field_begin f p 1 u))"

text \<open>The number of the port, as long as it fits.\<close>

fun port_loop :: "string \<Rightarrow> nat \<Rightarrow> nat option" where
  "port_loop [] v = Some v"
| "port_loop (ch # cs) v = (let v = v * 10 + digit ch in if 0xffff < v then None else port_loop cs v)"

definition parse_port :: "string \<Rightarrow> http_parser_url \<Rightarrow> http_parser_url option" where
  "parse_port buf u =
     (if UF_PORT \<in> field_set u then map_option (\<lambda>v. u\<lparr>url_port := of_nat v\<rparr>) (port_loop (field_text buf UF_PORT u) 0)
      else Some u)"

definition http_parser_parse_url :: "string \<Rightarrow> bool \<Rightarrow> http_parser_url \<Rightarrow> http_parser_url option" where
  "http_parser_parse_url buf is_connect u =
     (if buf = [] then None
      else
        case url_loop (if is_connect then s_req_server_start else s_req_spaces_before_url) 0 None False buf
               (u\<lparr>url_port := 0, field_set := {}\<rparr>) of
          None \<Rightarrow> None
        | Some (found_at, u) \<Rightarrow>
            if UF_SCHEMA \<in> field_set u \<and> UF_HOST \<notin> field_set u then None
            else
              case (if UF_HOST \<in> field_set u then http_parse_host buf found_at u else Some u) of
                None \<Rightarrow> None
              | Some u \<Rightarrow> if is_connect \<and> field_set u \<noteq> {UF_HOST, UF_PORT} then None else parse_port buf u)"

section \<open>Paths and queries\<close>

definition path_text :: "string \<Rightarrow> bool" where
  "path_text s \<longleftrightarrow> s \<noteq> [] \<and> hd s = CHR ''/'' \<and> (\<forall>c\<in>set s. is_url_char c \<and> c \<noteq> CHR ''?'' \<and> c \<noteq> CHR ''#'')"

definition query_text :: "string \<Rightarrow> bool" where
  "query_text s \<longleftrightarrow> (\<forall>c\<in>set s. is_url_char c \<or> c = CHR ''?'')"

definition url_text :: "string \<Rightarrow> string option \<Rightarrow> string" where
  "url_text path query = path @ (case query of None \<Rightarrow> [] | Some q \<Rightarrow> CHR ''?'' # q)"

lemma url_char_plain: "is_url_char c \<Longrightarrow> c \<notin> {CHR '' '', CR, LF, TAB, CHR 0x0C, CHR ''?'', CHR ''#''}"
proof -
  have "\<not> is_url_char CHR '' ''" "\<not> is_url_char CR" "\<not> is_url_char LF" "\<not> is_url_char TAB" "\<not> is_url_char CHR 0x0C"
    "\<not> is_url_char CHR ''?''" "\<not> is_url_char CHR ''#''"
    by (simp_all add: is_url_char_def char_code_def normal_url_char_def)
  then show "is_url_char c \<Longrightarrow> c \<notin> {CHR '' '', CR, LF, TAB, CHR 0x0C, CHR ''?'', CHR ''#''}"
    by (intro notI, elim insertE emptyE) simp_all
qed

lemma parse_path_char: "is_url_char c \<Longrightarrow> parse_url_char s_req_path c = s_req_path"
  using url_char_plain [of c] by (simp add: parse_url_char_def)

lemma parse_query_char:
  assumes "is_url_char c \<or> c = CHR ''?''" "s \<in> {s_req_query_string_start, s_req_query_string}"
  shows "parse_url_char s c = s_req_query_string"
proof -
  have "c \<notin> {CHR '' '', CR, LF, TAB, CHR 0x0C}" using assms(1) url_char_plain [of c] by auto
  then show ?thesis using assms by (elim disjE insertE emptyE) (simp_all add: parse_url_char_def)
qed

lemma parse_path_start: "parse_url_char s_req_spaces_before_url CHR ''/'' = s_req_path"
  "parse_url_char s_req_path CHR ''?'' = s_req_query_string_start"
  by code_simp+

lemma field_more_pow:
  "(field_more f ^^ n) u = u\<lparr>field_len := (field_len u)(f := field_len u f + of_nat n)\<rparr>"
  by (induction n) (simp_all add: field_more_def fun_upd_def add_ac cong: if_cong)

text \<open>A run of characters that stay in one state.\<close>

lemma url_loop_run:
  assumes "\<forall>c\<in>set cs. parse_url_char s c = s" "url_part s = Some (Some f)" "s \<noteq> s_req_server_with_at"
  shows "url_loop s p (Some f) a (cs @ rest) u = url_loop s (p + length cs) (Some f) a rest ((field_more f ^^ length cs) u)"
  using assms(1)
proof (induction cs arbitrary: p u)
  case (Cons c cs)
  then show ?case using assms(2,3) by (simp add: Let_def funpow_swap1)
qed simp

lemma url_loop_path:
  assumes "path_text path"
  shows "url_loop s_req_spaces_before_url 0 None False (path @ rest) u =
    url_loop s_req_path (length path) (Some UF_PATH) False rest (field_begin UF_PATH 0 (of_nat (length path)) u)"
proof -
  obtain cs where p: "path = CHR ''/'' # cs" using assms by (cases path) (auto simp: path_text_def)
  have "\<forall>c\<in>set cs. parse_url_char s_req_path c = s_req_path" using assms p parse_path_char by (auto simp: path_text_def)
  from url_loop_run [OF this, of UF_PATH 1 False rest] show ?thesis
    by (simp add: p Let_def parse_path_start url_part_def field_more_pow field_begin_def)
qed

lemma url_loop_query:
  assumes "query_text q"
  shows "url_loop s_req_path p (Some UF_PATH) False (CHR ''?'' # q) u =
    Some (False, if q = [] then u else field_begin UF_QUERY (p + 1) (of_nat (length q)) u)"
proof (cases q)
  case Nil
  then show ?thesis by (simp add: Let_def parse_path_start url_part_def)
next
  case (Cons c cs)
  have "\<forall>c\<in>set q. parse_url_char s c = s_req_query_string" if "s \<in> {s_req_query_string_start, s_req_query_string}" for s
    using assms that parse_query_char by (auto simp: query_text_def)
  then have "\<forall>c\<in>set cs. parse_url_char s_req_query_string c = s_req_query_string"
    "parse_url_char s_req_query_string_start c = s_req_query_string" using Cons by simp_all
  from url_loop_run [OF this(1), of UF_QUERY "p + 2" False "[]"] this(2) show ?thesis
    by (simp add: Cons Let_def parse_path_start url_part_def field_more_pow field_begin_def)
qed

text \<open>The URL of a request: its path and its query.\<close>

definition text_fields :: "string \<Rightarrow> string option \<Rightarrow> http_parser_url \<Rightarrow> http_parser_url" where
  "text_fields path query u =
     (let u = field_begin UF_PATH 0 (of_nat (length path)) (u\<lparr>url_port := 0, field_set := {}\<rparr>)
      in if query = None \<or> query = Some [] then u
         else field_begin UF_QUERY (length path + 1) (of_nat (length (the query))) u)"

lemma parse_url_text:
  assumes "path_text path" "\<forall>q. query = Some q \<longrightarrow> query_text q"
  shows "http_parser_parse_url (url_text path query) False u = Some (text_fields path query u)"
proof -
  have "url_loop s_req_spaces_before_url 0 None False (url_text path query) (u\<lparr>url_port := 0, field_set := {}\<rparr>) =
      Some (False, text_fields path query u)"
    using url_loop_path [OF assms(1)] url_loop_path [OF assms(1), of "[]"] url_loop_query assms(2)
    by (cases query) (simp_all add: url_text_def text_fields_def Let_def del: url_loop.simps(2))
  moreover have "url_text path query \<noteq> []" using assms(1) by (auto simp: path_text_def url_text_def)
  moreover have "UF_SCHEMA \<notin> field_set (text_fields path query u)" "UF_HOST \<notin> field_set (text_fields path query u)"
    "UF_PORT \<notin> field_set (text_fields path query u)"
    by (simp_all add: text_fields_def field_begin_def Let_def)
  ultimately show ?thesis by (simp add: http_parser_parse_url_def parse_port_def)
qed

lemma text_fields_set: "UF_PATH \<in> field_set (text_fields path query u)"
  "UF_QUERY \<in> field_set (text_fields path query u) \<longleftrightarrow> query \<noteq> None \<and> query \<noteq> Some []"
  by (simp_all add: text_fields_def field_begin_def Let_def)

lemma text_fields_path:
  assumes "length (url_text path query) < 65536"
  shows "field_text (url_text path query) UF_PATH (text_fields path query u) = path"
proof -
  have "length path < 65536" using assms by (simp add: url_text_def)
  then have "unat (of_nat (length path) :: 16 word) = length path" by (simp add: unat_of_nat take_bit_nat_eq_self)
  then show ?thesis by (simp add: field_text_def text_fields_def field_begin_def url_text_def Let_def)
qed

lemma text_fields_query:
  assumes "length (url_text path (Some q)) < 65536" "q \<noteq> []"
  shows "field_text (url_text path (Some q)) UF_QUERY (text_fields path (Some q) u) = q"
proof -
  have "length path + 1 < 65536" "length q < 65536" using assms by (simp_all add: url_text_def)
  then have "unat (of_nat (length path + 1) :: 16 word) = length path + 1" "unat (of_nat (length q) :: 16 word) = length q"
    by (simp_all only: unat_of_nat take_bit_nat_eq_self)
       (simp_all add: take_bit_nat_eq_self)
  then show ?thesis using assms(2) by (simp add: field_text_def text_fields_def field_begin_def url_text_def Let_def)
qed

end
