(* ===== verification/Http_Message.thy ===== *)
theory Http_Message
  imports Knet_Url Registry "HOL-Library.List_Lexorder" "HOL-Library.Char_ord"
begin

text \<open>
  \<^verbatim>\<open>http/http_message.hpp\<close>, \<^verbatim>\<open>http_encoder.hpp\<close> and the encoding side of \<^verbatim>\<open>http_request.hpp\<close> and
  \<^verbatim>\<open>http_response.hpp\<close>: methods, status lines, headers and the text of messages. The text is
  shown to be readable: a reference reader of the grammar of HTTP messages recovers what was
  written. The encoder's headers are a \<^verbatim>\<open>std::map\<close>, an association list ordered by key.
\<close>

section \<open>Names\<close>

datatype HttpMethod = HTTP_GET | HTTP_HEAD | HTTP_POST | HTTP_PUT | HTTP_DELETE | HTTP_TRACE | HTTP_OPTIONS
  | HTTP_CONNECT | HTTP_PATCH

fun http_method_string :: "HttpMethod \<Rightarrow> string" where
  "http_method_string HTTP_GET = ''GET''"
| "http_method_string HTTP_POST = ''POST''"
| "http_method_string HTTP_HEAD = ''HEAD''"
| "http_method_string HTTP_PUT = ''PUT''"
| "http_method_string HTTP_DELETE = ''DELETE''"
| "http_method_string HTTP_TRACE = ''TRACE''"
| "http_method_string HTTP_OPTIONS = ''OPTIONS''"
| "http_method_string HTTP_CONNECT = ''CONNECT''"
| "http_method_string HTTP_PATCH = ''TRACE''"

definition query_add :: "string \<Rightarrow> string \<Rightarrow> string \<Rightarrow> string" where
  "query_add k v parameters = (if parameters \<noteq> [] then parameters @ ''&'' else parameters) @ k @ ''='' @ v"

definition mime_mappings :: "(string \<times> string) list" where
  "mime_mappings = [(''gif'', ''image/gif''), (''htm'', ''text/html''), (''html'', ''text/html''),
     (''jpg'', ''image/jpeg''), (''png'', ''image/png''), (''txt'', ''text/html'')]"

definition to_mime :: "string \<Rightarrow> string" where
  "to_mime ext = (case map_of mime_mappings ext of Some m \<Rightarrow> m | None \<Rightarrow> ''text/plain'')"

definition status_table :: "(nat \<times> string) list" where
  "status_table =
     [(101, ''HTTP/1.1 101  Web Socket Protocol Handshake''), (200, ''HTTP/1.0 200 OK''), (201, ''HTTP/1.0 201 Created''),
      (202, ''HTTP/1.0 202 Accepted''), (204, ''HTTP/1.0 204 No Content''), (300, ''HTTP/1.0 300 Multiple Choices''),
      (301, ''HTTP/1.0 301 Moved Permanently''), (302, ''HTTP/1.0 302 Moved Temporarily''),
      (304, ''HTTP/1.0 304 Not Modified''), (400, ''HTTP/1.0 400 Bad Request''), (401, ''HTTP/1.0 401 Unauthorized''),
      (403, ''HTTP/1.0 403 Forbidden''), (404, ''HTTP/1.0 404 Not Found''),
      (500, ''HTTP/1.0 500 Internal Server Error''), (501, ''HTTP/1.0 501 Not Implemented''),
      (502, ''HTTP/1.0 502 Bad Gateway''), (503, ''HTTP/1.0 503 Service Unavailable'')]"

definition status_string :: "u32 \<Rightarrow> string" where
  "status_string code =
     (case map_of status_table (unat code) of Some s \<Rightarrow> s | None \<Rightarrow> ''HTTP/1.0 400 Bad Request'')"

section \<open>Headers\<close>

text \<open>\<^verbatim>\<open>http_headers[key] = value\<close>.\<close>

fun map_put :: "'k::linorder \<Rightarrow> 'v \<Rightarrow> ('k \<times> 'v) list \<Rightarrow> ('k \<times> 'v) list" where
  "map_put k v [] = [(k, v)]"
| "map_put k v ((k', v') # xs) =
     (if k < k' then (k, v) # (k', v') # xs else if k = k' then (k, v) # xs else (k', v') # map_put k v xs)"

text \<open>The part of a message the encoder works on.\<close>

record http_body =
  content_type :: string
  content :: string
  http_headers :: "(string \<times> string) list"

definition http_body_new :: http_body where
  "http_body_new = \<lparr>content_type = [], content = [], http_headers = []\<rparr>"

definition add_header :: "string \<Rightarrow> string \<Rightarrow> http_body \<Rightarrow> http_body" where
  "add_header key value m = m\<lparr>http_headers := map_put key value (http_headers m)\<rparr>"

definition set_cookie :: "string \<Rightarrow> http_body \<Rightarrow> http_body" where
  "set_cookie v = add_header ''Cookie'' v"

definition set_content_type :: "string \<Rightarrow> http_body \<Rightarrow> http_body" where
  "set_content_type v = add_header ''Content-Type'' v"

definition set_host :: "string \<Rightarrow> http_body \<Rightarrow> http_body" where
  "set_host name = add_header ''Host'' name"

definition set_agent :: "string \<Rightarrow> http_body \<Rightarrow> http_body" where
  "set_agent agent = add_header ''User-Agent'' agent"

definition set_content :: "string \<Rightarrow> string \<Rightarrow> http_body \<Rightarrow> http_body" where
  "set_content body type m =
     (if body \<noteq> []
      then add_header ''Content-Length'' (to_string (length body)) (m\<lparr>content_type := to_mime type, content := body\<rparr>)
      else m)"

section \<open>Messages\<close>

definition crlf :: string where
  "crlf = [CHR 0x0D, CHR 0x0A]"

record HttpRequest =
  rq_body :: http_body
  rq_method :: HttpMethod
  rq_url :: string

definition HttpRequest_new :: "HttpMethod \<Rightarrow> string \<Rightarrow> string \<Rightarrow> string \<Rightarrow> HttpRequest" where
  "HttpRequest_new method url body type =
     \<lparr>rq_body = set_content body type http_body_new, rq_method = method, rq_url = url\<rparr>"

text \<open>
  \<open>rs_writer\<close>: a writer is set. The texts given to the writer are recorded in \<open>rs_written\<close>.
\<close>

record HttpResponse =
  rs_body :: http_body
  rs_code :: u32
  rs_writer :: bool
  rs_written :: "string list"

definition HttpResponse_new :: "u32 \<Rightarrow> string \<Rightarrow> string \<Rightarrow> HttpResponse" where
  "HttpResponse_new code rsp type =
     \<lparr>rs_body = set_content rsp type http_body_new, rs_code = code, rs_writer = False, rs_written = []\<rparr>"

definition encode_headers :: "(string \<times> string) list \<Rightarrow> string" where
  "encode_headers hs = concat (map (\<lambda>(k, v). if k \<noteq> [] then k @ '': '' @ v @ crlf else []) hs)"

definition encode_request :: "HttpRequest \<Rightarrow> string" where
  "encode_request r =
     http_method_string (rq_method r) @ '' '' @ rq_url r @ '' '' @ ''HTTP/1.1'' @ crlf @
     encode_headers (http_headers (rq_body r)) @ crlf @ content (rq_body r)"

text \<open>\<open>date\<close> is the formatted local time.\<close>

definition encode_response :: "string \<Rightarrow> HttpResponse \<Rightarrow> string" where
  "encode_response date r =
     status_string (rs_code r) @ crlf @ encode_headers (http_headers (rs_body r)) @
     ''Server: KNet Http Server v0.1'' @ crlf @ ''Date: '' @ date @ crlf @ crlf @ content (rs_body r)"

text \<open>The two forms of \<^verbatim>\<open>write\<close>, and \<^verbatim>\<open>json\<close>; \<open>result\<close> is what the writer returns.\<close>

definition response_put :: "string \<Rightarrow> int \<Rightarrow> HttpResponse \<Rightarrow> int \<times> HttpResponse" where
  "response_put date result r = (result, r\<lparr>rs_written := rs_written r @ [encode_response date r]\<rparr>)"

definition response_write :: "string \<Rightarrow> int \<Rightarrow> HttpResponse \<Rightarrow> int \<times> HttpResponse" where
  "response_write date result r =
     (if rs_writer r
      then response_put date result (r\<lparr>rs_code := (if rs_code r = 0 then 200 else rs_code r)\<rparr>)
      else (-1, r))"

definition response_write_msg :: "string \<Rightarrow> int \<Rightarrow> string \<Rightarrow> u32 \<Rightarrow> HttpResponse \<Rightarrow> int \<times> HttpResponse" where
  "response_write_msg date result msg code r =
     (if rs_writer r
      then response_put date result (r\<lparr>rs_code := (if rs_code r = 0 then code else rs_code r),
                                      rs_body := set_content msg ''txt'' (rs_body r)\<rparr>)
      else (-1, r))"

definition response_json :: "string \<Rightarrow> int \<Rightarrow> string \<Rightarrow> HttpResponse \<Rightarrow> int \<times> HttpResponse" where
  "response_json date result msg r =
     (if rs_writer r
      then response_put date result (r\<lparr>rs_body := set_content_type ''application/json'' (rs_body r)\<rparr>)
      else (-1, r))"

section \<open>A reference reader\<close>

text \<open>
  The grammar of a message (RFC 7230, 3): a start line, header lines, an empty line, the
  body. \<open>find_str\<close> finds the first place of a separator.
\<close>

definition cut :: "string \<Rightarrow> string \<Rightarrow> (string \<times> string) option" where
  "cut sep s = map_option (\<lambda>p. (take p s, drop (p + length sep) s)) (find_str sep s)"

fun read_lines :: "nat \<Rightarrow> string \<Rightarrow> (string list \<times> string) option" where
  "read_lines 0 s = None"
| "read_lines (Suc n) s =
     (case cut crlf s of
        None \<Rightarrow> None
      | Some (line, rest) \<Rightarrow>
          if line = [] then Some ([], rest)
          else map_option (\<lambda>(ls, body). (line # ls, body)) (read_lines n rest))"

definition read_message_text :: "string \<Rightarrow> (string \<times> (string \<times> string) option list \<times> string) option" where
  "read_message_text s =
     (case read_lines (length s) s of
        Some (start # hs, body) \<Rightarrow> Some (start, map (cut '': '') hs, body)
      | _ \<Rightarrow> None)"

definition read_request_line :: "string \<Rightarrow> (string \<times> string \<times> string) option" where
  "read_request_line s =
     (case cut '' '' s of
        None \<Rightarrow> None
      | Some (method, rest) \<Rightarrow> map_option (\<lambda>(url, version). (method, url, version)) (cut '' '' rest))"

lemma find_str_first:
  assumes "c \<notin> set a"
  shows "find_str (c # sep) (a @ c # sep @ b) = Some (length a)"
  using assms by (induction a) auto

lemma cut_first: "c \<notin> set a \<Longrightarrow> cut (c # sep) (a @ c # sep @ b) = Some (a, b)"
  by (simp add: cut_def find_str_first)

lemma cut_crlf: "CHR 0x0D \<notin> set a \<Longrightarrow> cut crlf (a @ crlf @ b) = Some (a, b)"
  using cut_first [of "CHR 0x0D" a "[CHR 0x0A]" b] by (simp add: crlf_def)

definition line_ok :: "string \<Rightarrow> bool" where
  "line_ok l \<longleftrightarrow> l \<noteq> [] \<and> CHR 0x0D \<notin> set l"

lemma read_lines_printed:
  assumes "\<forall>l\<in>set ls. line_ok l" "length ls < n"
  shows "read_lines n (concat (map (\<lambda>l. l @ crlf) ls) @ crlf @ body) = Some (ls, body)"
  using assms
proof (induction ls arbitrary: n)
  case Nil
  then show ?case using cut_crlf [of "[]" body] by (cases n) simp_all
next
  case (Cons l ls)
  then obtain m where "n = Suc m" "length ls < m" by (cases n) auto
  then show ?case
    using Cons cut_crlf [of l "concat (map (\<lambda>l. l @ crlf) ls) @ crlf @ body"] by (simp add: line_ok_def)
qed

lemma length_printed: "length ls < length (concat (map (\<lambda>l. l @ crlf) ls) @ crlf @ body)"
  by (induction ls) (simp_all add: crlf_def)

text \<open>Headers a message can carry: keys without colons, nothing with a carriage return.\<close>

definition headers_ok :: "(string \<times> string) list \<Rightarrow> bool" where
  "headers_ok hs \<longleftrightarrow> (\<forall>(k, v)\<in>set hs. CHR '':'' \<notin> set k \<and> CHR 0x0D \<notin> set k \<and> CHR 0x0D \<notin> set v)"

definition header_line :: "string \<times> string \<Rightarrow> string" where
  "header_line h = fst h @ '': '' @ snd h"

definition sent_headers :: "(string \<times> string) list \<Rightarrow> (string \<times> string) list" where
  "sent_headers hs = filter (\<lambda>h. fst h \<noteq> []) hs"

lemma encode_headers_lines:
  "encode_headers hs = concat (map (\<lambda>l. l @ crlf) (map header_line (sent_headers hs)))"
  by (induction hs) (auto simp: encode_headers_def sent_headers_def header_line_def)

lemma header_line_ok: "headers_ok hs \<Longrightarrow> h \<in> set (sent_headers hs) \<Longrightarrow> line_ok (header_line h) \<and> cut '': '' (header_line h) = Some h"
  using cut_first [of "CHR '':''" "fst h" "'' ''" "snd h"]
  by (auto simp: headers_ok_def sent_headers_def header_line_def line_ok_def)

lemma read_message_printed:
  assumes "line_ok start" "headers_ok hs" "\<forall>l\<in>set extra. line_ok l"
  shows "read_message_text (start @ crlf @ encode_headers hs @ concat (map (\<lambda>l. l @ crlf) extra) @ crlf @ body) =
    Some (start, map Some (sent_headers hs) @ map (cut '': '') extra, body)"
proof -
  let ?ls = "start # map header_line (sent_headers hs) @ extra"
  have "\<forall>l\<in>set ?ls. line_ok l" using assms header_line_ok by auto
  from read_lines_printed [OF this length_printed, of body]
  have "read_lines (length (concat (map (\<lambda>l. l @ crlf) ?ls) @ crlf @ body)) (concat (map (\<lambda>l. l @ crlf) ?ls) @ crlf @ body) =
      Some (?ls, body)" .
  moreover have "map (cut '': '') (map header_line (sent_headers hs)) = map Some (sent_headers hs)"
    using header_line_ok [OF assms(2)] by simp
  ultimately show ?thesis by (simp add: read_message_text_def encode_headers_lines)
qed

section \<open>Headers and the content\<close>

lemma map_of_put: "map_of (map_put k v xs) = (map_of xs)(k \<mapsto> v)"
  by (induction k v xs rule: map_put.induct) (auto simp: fun_eq_iff)

lemma map_put_keys: "fst ` set (map_put k v xs) = insert k (fst ` set xs)"
  by (induction k v xs rule: map_put.induct) auto

lemma map_put_sorted: "sorted_wrt (<) (map fst xs) \<Longrightarrow> sorted_wrt (<) (map fst (map_put k v xs))"
proof (induction k v xs rule: map_put.induct)
  case (2 k v k' v' xs)
  show ?case
  proof (cases "k' < k")
    case True
    moreover have "\<forall>x\<in>fst ` set (map_put k v xs). k' < x" using True 2(2) by (simp add: map_put_keys)
    moreover have "sorted_wrt (<) (map fst (map_put k v xs))" using True 2 by simp
    ultimately show ?thesis by auto
  next
    case False
    then show ?thesis using 2(2) by (auto dest: less_trans)
  qed
qed simp

lemma set_map_put:
  "sorted_wrt (<) (map fst xs) \<Longrightarrow> set (map_put k v xs) = insert (k, v) {h \<in> set xs. fst h \<noteq> k}"
proof (induction k v xs rule: map_put.induct)
  case (2 k v k' v' xs)
  then have "\<forall>h\<in>set xs. k' < fst h" by auto
  then show ?case using 2 by (auto simp: not_less dest: order.strict_trans)
qed simp

text \<open>The calls that fill a message.\<close>

datatype body_call = CallHeader string string | CallContent string string

fun run_call :: "body_call \<Rightarrow> http_body \<Rightarrow> http_body" where
  "run_call (CallHeader k v) m = add_header k v m"
| "run_call (CallContent b t) m = set_content b t m"

definition sets_length :: "body_call \<Rightarrow> bool" where
  "sets_length c \<longleftrightarrow> (\<exists>v. c = CallHeader ''Content-Length'' v)"

definition length_ok :: "http_body \<Rightarrow> bool" where
  "length_ok m \<longleftrightarrow> sorted_wrt (<) (map fst (http_headers m)) \<and>
     map_of (http_headers m) ''Content-Length'' = (if content m = [] then None else Some (to_string (length (content m))))"

lemma length_ok_call: "length_ok m \<Longrightarrow> \<not> sets_length c \<Longrightarrow> length_ok (run_call c m)"
  by (cases c) (auto simp: length_ok_def add_header_def set_content_def map_of_put map_put_sorted sets_length_def)

lemma length_ok_calls:
  assumes "\<forall>c\<in>set cs. \<not> sets_length c" "length_ok m"
  shows "length_ok (fold run_call cs m)"
  using assms by (induction cs arbitrary: m) (simp_all add: length_ok_call)

lemma length_ok_new: "length_ok http_body_new"
  by (simp add: length_ok_def http_body_new_def)

lemma map_of_sent: "k \<noteq> [] \<Longrightarrow> map_of (sent_headers hs) k = map_of hs k"
  by (induction hs) (auto simp: sent_headers_def)

section \<open>Correctness of the texts\<close>

lemma method_ok: "line_ok (http_method_string m) \<and> CHR '' '' \<notin> set (http_method_string m)"
  by (cases m) (simp_all add: line_ok_def)

lemma read_request_line_printed:
  assumes "CHR '' '' \<notin> set url"
  shows "read_request_line (http_method_string m @ '' '' @ url @ '' '' @ version) = Some (http_method_string m, url, version)"
proof -
  have "cut '' '' (http_method_string m @ '' '' @ url @ '' '' @ version) = Some (http_method_string m, url @ '' '' @ version)"
    using cut_first [of "CHR '' ''" "http_method_string m" "[]" "url @ '' '' @ version"] method_ok by simp
  moreover have "cut '' '' (url @ '' '' @ version) = Some (url, version)"
    using cut_first [of "CHR '' ''" url "[]" version] assms by simp
  ultimately show ?thesis by (simp add: read_request_line_def)
qed

lemma request_text:
  assumes "length_ok m" "headers_ok (http_headers m)" "CHR '' '' \<notin> set url" "CHR 0x0D \<notin> set url"
  shows "\<exists>line. read_message_text (encode_request \<lparr>rq_body = m, rq_method = meth, rq_url = url\<rparr>) =
      Some (line, map Some (sent_headers (http_headers m)), content m) \<and>
    read_request_line line = Some (http_method_string meth, url, ''HTTP/1.1'')"
proof -
  let ?line = "http_method_string meth @ '' '' @ url @ '' '' @ ''HTTP/1.1''"
  have "line_ok ?line" using assms(4) method_ok [of meth] by (auto simp: line_ok_def)
  from read_message_printed [OF this assms(2), of "[]" "content m"]
  have "read_message_text (encode_request \<lparr>rq_body = m, rq_method = meth, rq_url = url\<rparr>) =
      Some (?line, map Some (sent_headers (http_headers m)), content m)" by (simp add: encode_request_def)
  then show ?thesis using read_request_line_printed [OF assms(3), of meth "''HTTP/1.1''"] by blast
qed

text \<open>
  An encoded request can be read back. For a request filled by any calls that do not set
  the length themselves, with a URL without blanks and headers without carriage returns or
  colons in their names, the text is a request line with the method, the URL and the version,
  one header line per header with a name, in the order of the names, and the content behind
  an empty line; and the header that announces the length of the content is its length.
\<close>

theorem http_request_roundtrip:
  assumes "m = fold run_call cs http_body_new" "\<forall>c\<in>set cs. \<not> sets_length c" "headers_ok (http_headers m)"
    and "CHR '' '' \<notin> set url" "CHR 0x0D \<notin> set url"
  shows "\<exists>line hs. read_message_text (encode_request \<lparr>rq_body = m, rq_method = meth, rq_url = url\<rparr>) =
      Some (line, map Some hs, content m) \<and>
    read_request_line line = Some (http_method_string meth, url, ''HTTP/1.1'') \<and>
    hs = sent_headers (http_headers m) \<and> sorted_wrt (<) (map fst hs) \<and>
    (content m \<noteq> [] \<longrightarrow> map_of hs ''Content-Length'' = Some (to_string (length (content m))))"
proof -
  have ok: "length_ok m" using length_ok_calls [OF assms(2) length_ok_new] assms(1) by simp
  then have "sorted_wrt (<) (map fst (sent_headers (http_headers m)))"
    by (simp add: length_ok_def sent_headers_def sorted_wrt_map sorted_wrt_filter)
  with request_text [OF ok assms(3-5), of meth] ok show ?thesis by (auto simp: length_ok_def map_of_sent)
qed

text \<open>
  An encoded response can be read back: the status line of its code, its headers, the
  server and date lines, and its content, whose length the headers announce.
\<close>

theorem http_response_roundtrip:
  assumes "m = fold run_call cs http_body_new" "\<forall>c\<in>set cs. \<not> sets_length c" "headers_ok (http_headers m)"
    and "CHR 0x0D \<notin> set date" "rs_body r = m"
  shows "read_message_text (encode_response date r) =
      Some (status_string (rs_code r), map Some (sent_headers (http_headers m)) @
        [Some (''Server'', ''KNet Http Server v0.1''), Some (''Date'', date)], content m) \<and>
    (content m \<noteq> [] \<longrightarrow> map_of (sent_headers (http_headers m)) ''Content-Length'' = Some (to_string (length (content m))))"
proof -
  let ?x = "[header_line (''Server'', ''KNet Http Server v0.1''), header_line (''Date'', date)]"
  have st: "line_ok (status_string c)" for c
  proof -
    have "\<forall>s\<in>snd ` set status_table. line_ok s" by code_simp
    then show ?thesis
      by (auto simp: status_string_def line_ok_def split: option.splits dest!: map_of_SomeD)
  qed
  have x: "\<forall>l\<in>set ?x. line_ok l" using assms(4) by (simp add: line_ok_def header_line_def)
  have c: "map (cut '': '') ?x = [Some (''Server'', ''KNet Http Server v0.1''), Some (''Date'', date)]"
    using cut_first [of "CHR '':''" "''Server''" "'' ''"] cut_first [of "CHR '':''" "''Date''" "'' ''" date]
    by (simp add: header_line_def)
  have "length_ok m" using length_ok_calls [OF assms(2) length_ok_new] assms(1) by simp
  then show ?thesis
    using read_message_printed [OF st [of "rs_code r"] assms(3) x, of "content m"] assms(5) c
    by (simp add: encode_response_def header_line_def length_ok_def map_of_sent)
qed

definition demo_calls :: "body_call list" where
  "demo_calls = [CallHeader ''Host'' ''x'', CallContent ''hi'' ''txt'']"

definition demo_body :: http_body where
  "demo_body = fold run_call demo_calls http_body_new"

lemma demo_body: "content demo_body = ''hi''" "headers_ok (http_headers demo_body)" "\<forall>c\<in>set demo_calls. \<not> sets_length c"
  by (code_simp, code_simp, simp add: demo_calls_def sets_length_def)

theorem http_request_roundtrip_witness:
  "\<exists>line hs. read_message_text (encode_request \<lparr>rq_body = demo_body, rq_method = HTTP_POST, rq_url = ''/a''\<rparr>) =
     Some (line, map Some hs, ''hi'') \<and> read_request_line line = Some (''POST'', ''/a'', ''HTTP/1.1'')"
  using http_request_roundtrip [OF demo_body_def demo_body(3,2), of "''/a''" HTTP_POST] demo_body(1) by auto

theorem http_response_roundtrip_witness:
  "\<exists>hs. read_message_text (encode_response ''today'' ((HttpResponse_new 404 [] [])\<lparr>rs_body := demo_body\<rparr>)) =
     Some (''HTTP/1.0 404 Not Found'', hs, ''hi'')"
proof -
  have "status_string 404 = ''HTTP/1.0 404 Not Found''" by code_simp
  then show ?thesis
    using http_response_roundtrip [OF demo_body_def demo_body(3,2), of "''today''"
        "(HttpResponse_new 404 [] [])\<lparr>rs_body := demo_body\<rparr>"] demo_body(1)
    by (simp add: HttpResponse_new_def)
qed

end
