(* ===== verification/Http_Parser_Request.thy ===== *)
theory Http_Parser_Request
  imports Http_Parser_Run Http_Parse_Url Http_Message
begin

text \<open>
  The parser on whole requests: what a header does to the parser, which names it recognises,
  the length, the body, and the theorem that a well-formed request is parsed to its end with
  one callback per part.
\<close>

section \<open>Whole headers\<close>

text \<open>What a header does to the parser; None stands for an error.\<close>

definition header_step :: "string \<times> string \<Rightarrow> http_parser \<Rightarrow> http_parser option" where
  "header_step kv q =
     (case kv of (k, v) \<Rightarrow>
        case field_run (tl k) (first_field_state (hd k), 0) of (h, i) \<Rightarrow>
          Option.bind (value_begin (hd v) (q\<lparr>header_state := h, hp_index := i\<rparr>)) (\<lambda>q1.
            map_option (\<lambda>(h, q2). end_flags (q2\<lparr>header_state := h\<rparr>)) (value_run (tl v) (header_state q1, q1))))"

text \<open>The callbacks on a list of events, as long as they return zero.\<close>

fun run_events :: "'u callbacks \<Rightarrow> parse_event list \<Rightarrow> 'u \<Rightarrow> 'u option" where
  "run_events cb [] u = Some u"
| "run_events cb (e # es) u = (case cb e u of (rc, u) \<Rightarrow> if rc = 0 then run_events cb es u else None)"

lemma run_events_append: "run_events cb (xs @ ys) u = Option.bind (run_events cb xs u) (run_events cb ys)"
  by (induction xs arbitrary: u) (auto split: prod.split)

definition header_events :: "(string \<times> string) list \<Rightarrow> parse_event list" where
  "header_events hs = concat (map (\<lambda>(k, v). [OnField k, OnValue v]) hs)"

definition header_text_ok :: "string \<times> string \<Rightarrow> bool" where
  "header_text_ok h \<longleftrightarrow> fst h \<noteq> [] \<and> (\<forall>c\<in>set (fst h). is_token c) \<and> snd h \<noteq> [] \<and>
     (\<forall>c\<in>set (snd h). value_text False c) \<and> hd (snd h) \<noteq> CHR '' '' \<and> hd (snd h) \<noteq> TAB"

abbreviation no_marks :: "hp_mark \<Rightarrow> nat option" where
  "no_marks \<equiv> \<lambda>_. None"

definition head_line :: "string \<times> string \<Rightarrow> string" where
  "head_line h = header_line h @ crlf"

lemma exec_header:
  assumes d: "drop p data = head_line h @ c # rest" and c: "c \<noteq> CHR '' ''" "c \<noteq> TAB" and h: "header_text_ok h"
    and p: "p + length (head_line h) < max_header_size" and q: "header_step h q = Some q'"
    and cb: "run_events cb (header_events [h]) u = Some u'"
  shows "execute_loop cb data p (conf q s_header_field_start p no_marks u) =
    execute_loop cb data (p + length (head_line h)) (conf q' s_header_field_start (p + length (head_line h)) no_marks u')"
proof -
  obtain k v where kv: "h = (k, v)" by (cases h)
  obtain f i where f: "field_run (tl k) (first_field_state (hd k), 0) = (f, i)"
    by (cases "field_run (tl k) (first_field_state (hd k), 0)")
  from q obtain q1 g q2 where q1: "value_begin (hd v) (q\<lparr>header_state := f, hp_index := i\<rparr>) = Some q1"
    "value_run (tl v) (header_state q1, q1) = Some (g, q2)" "q' = end_flags (q2\<lparr>header_state := g\<rparr>)"
    by (auto simp: header_step_def kv f bind_eq_Some_conv)
  from cb obtain w where w: "cb (OnField k) u = (0, w)" "cb (OnValue v) w = (0, u')"
    by (auto simp: header_events_def kv split: prod.splits if_splits)
  have d1: "drop p data = k @ CHR '':'' # CHR '' '' # v @ CR # LF # c # rest"
    using d by (simp add: head_line_def header_line_def crlf_def kv)
  then have d2: "drop (Suc (p + length k)) data = CHR '' '' # v @ CR # LF # c # rest"
    by (metis add.commute add_Suc append_eq_conv_conj drop_drop drop_step)
  have d3: "drop (p + length k + length v + 4) data = c # rest"
  proof -
    have "drop (length v + 3) (drop (Suc (p + length k)) data) = c # rest" unfolding d2 by (simp add: eval_nat_numeral)
    then show ?thesis by (simp add: add_ac)
  qed
  have len: "length (head_line h) = length k + length v + 4" by (simp add: head_line_def header_line_def crlf_def kv)
  have 1: "execute_loop cb data p (conf q s_header_field_start p no_marks u) =
    execute_loop cb data (Suc (p + length k))
      (conf (q\<lparr>header_state := f, hp_index := i\<rparr>) s_header_value_discard_ws (Suc (p + length k)) no_marks w)"
    by (rule exec_field [where k = k and cb = cb, OF d1 _ _ _ w(1) refl f]) (use h p len in \<open>auto simp: header_text_ok_def kv\<close>)
  have 2: "execute_loop cb data (Suc (p + length k))
      (conf (q\<lparr>header_state := f, hp_index := i\<rparr>) s_header_value_discard_ws (Suc (p + length k)) no_marks w) =
    execute_loop cb data (Suc (p + length k) + length v + 3)
      (conf (q2\<lparr>header_state := g\<rparr>) s_header_value_lws (Suc (p + length k) + length v + 3) no_marks u')"
    by (rule exec_value [where v = v and cb = cb, OF d2 _ _ _ _ _ w(2) refl q1(1,2)]) (use h p len in \<open>auto simp: header_text_ok_def kv\<close>)
  have 3: "Suc (p + length k) + length v + 3 = p + length k + length v + 4" by simp
  show ?thesis
    using 1 2 exec_lws [OF d3 c, of cb "q2\<lparr>header_state := g\<rparr>" no_marks u'] h p
    unfolding 3 len q1(3) by (simp add: header_text_ok_def kv add.assoc)
qed

text \<open>All headers, up to the empty line.\<close>

fun headers_step :: "(string \<times> string) list \<Rightarrow> http_parser \<Rightarrow> http_parser option" where
  "headers_step [] q = Some q"
| "headers_step (h # hs) q = Option.bind (header_step h q) (headers_step hs)"

lemma token_plain: "is_token c \<Longrightarrow> c \<noteq> CHR '' '' \<and> c \<noteq> TAB \<and> c \<noteq> CR \<and> c \<noteq> LF"
  by auto

lemma exec_headers:
  assumes "drop p data = concat (map head_line hs) @ CR # rest" "\<forall>h\<in>set hs. header_text_ok h"
    "p + length (concat (map head_line hs)) < max_header_size" "headers_step hs q = Some q'"
    "run_events cb (header_events hs) u = Some u'"
  shows "execute_loop cb data p (conf q s_header_field_start p no_marks u) =
    execute_loop cb data (p + length (concat (map head_line hs)))
      (conf q' s_header_field_start (p + length (concat (map head_line hs))) no_marks u')"
  using assms
proof (induction hs arbitrary: p q u)
  case Nil
  then show ?case by (simp add: header_events_def)
next
  case (Cons h hs)
  from Cons.prems(4) obtain q1 where q1: "header_step h q = Some q1" "headers_step hs q1 = Some q'"
    by (auto simp: bind_eq_Some_conv)
  have "header_events (h # hs) = header_events [h] @ header_events hs" by (simp add: header_events_def)
  with Cons.prems(5) obtain u1 where u1: "run_events cb (header_events [h]) u = Some u1"
    "run_events cb (header_events hs) u1 = Some u'" by (auto simp: run_events_append bind_eq_Some_conv)
  let ?r = "concat (map head_line hs) @ CR # rest"
  obtain c t where c: "?r = c # t" "c \<noteq> CHR '' ''" "c \<noteq> TAB"
  proof (cases hs)
    case Nil
    then show ?thesis using that [of CR rest] by simp
  next
    case (Cons g gs)
    obtain k v where g: "g = (k, v)" by (cases g)
    then obtain x y where k: "k = x # y" "is_token x"
      using \<open>\<forall>h\<in>set (h # hs). header_text_ok h\<close> Cons by (cases k) (auto simp: header_text_ok_def)
    show ?thesis using that [of x] k token_plain [OF k(2)] by (simp add: Cons g head_line_def header_line_def)
  qed
  have d: "drop p data = head_line h @ ?r" using Cons.prems(1) by simp
  have 1: "execute_loop cb data p (conf q s_header_field_start p no_marks u) =
    execute_loop cb data (p + length (head_line h)) (conf q1 s_header_field_start (p + length (head_line h)) no_marks u1)"
    by (rule exec_header [OF _ c(2,3) _ _ q1(1) u1(1)]) (use d c(1) Cons.prems(2,3) in simp_all)
  have "drop (p + length (head_line h)) data = ?r" using d by (rule drop_text)
  from Cons.IH [OF this _ _ q1(2) u1(2)] Cons.prems(2,3) 1 show ?case by (simp add: add.assoc)
qed

section \<open>What the headers say\<close>

text \<open>Which name, in lower case, a state stands for while it is read.\<close>

fun name_inv :: "string \<Rightarrow> header_states \<times> nat \<Rightarrow> bool" where
  "name_inv s (h_general, i) = True"
| "name_inv s (h_C, i) \<longleftrightarrow> s = ''c'' \<and> i = 0"
| "name_inv s (h_CO, i) \<longleftrightarrow> s = ''co'' \<and> i = 1"
| "name_inv s (h_CON, i) \<longleftrightarrow> s = ''con'' \<and> i = 2"
| "name_inv s (h_matching_connection, i) \<longleftrightarrow> i < 9 \<and> s = take (i + 1) ''connection''"
| "name_inv s (h_matching_proxy_connection, i) \<longleftrightarrow> i < 15 \<and> s = take (i + 1) ''proxy-connection''"
| "name_inv s (h_matching_content_length, i) \<longleftrightarrow> i < 13 \<and> s = take (i + 1) ''content-length''"
| "name_inv s (h_matching_transfer_encoding, i) \<longleftrightarrow> i < 16 \<and> s = take (i + 1) ''transfer-encoding''"
| "name_inv s (h_matching_upgrade, i) \<longleftrightarrow> i < 6 \<and> s = take (i + 1) ''upgrade''"
| "name_inv s (h_connection, i) \<longleftrightarrow> s \<in> {''connection'', ''proxy-connection''}"
| "name_inv s (h_content_length, i) \<longleftrightarrow> s = ''content-length''"
| "name_inv s (h_transfer_encoding, i) \<longleftrightarrow> s = ''transfer-encoding''"
| "name_inv s (h_upgrade, i) \<longleftrightarrow> s = ''upgrade''"
| "name_inv s (_, i) = False"

lemma match_name_step:
  assumes "s = take (i + 1) name" "i + 1 < length name" "c \<noteq> CHR 0x00"
  obtains "match_name name self h_general found i c = (h_general, i + 1)"
  | "match_name name self h_general found i c = (found, i + 1)" "s @ [c] = name"
  | "match_name name self h_general found i c = (self, i + 1)" "i + 2 < length name" "s @ [c] = take (i + 2) name"
proof (cases "c = name ! (i + 1)")
  case True
  then have t: "s @ [c] = take (i + 2) name" using assms by (simp add: take_Suc_conv_app_nth)
  show ?thesis
  proof (cases "i + 1 = length name - 1")
    case e: True
    have l: "i + 2 = length name" using e assms(2) by linarith
    have "s @ [c] = name" using t unfolding l by simp
    moreover have "match_name name self h_general found i c = (found, i + 1)"
      using e True assms by (simp add: match_name_def c_at_def)
    ultimately show ?thesis using that(2) by blast
  next
    case False
    then have "match_name name self h_general found i c = (self, i + 1)"
      using True assms by (simp add: match_name_def c_at_def)
    then show ?thesis using that(3) t False assms by linarith
  qed
next
  case False
  then have "match_name name self h_general found i c = (h_general, i + 1)"
    using assms by (simp add: match_name_def c_at_def)
  then show ?thesis using that(1) by blast
qed

lemma name_inv_step:
  assumes "name_inv s (h, i)" "is_token c"
  shows "name_inv (s @ [token c]) (field_char h i c)"
proof (cases h)
  case h_matching_connection
  show ?thesis
    by (rule match_name_step [of s i "''connection''" "token c" h_matching_connection h_connection])
      (use assms h_matching_connection in \<open>simp_all add: field_char_def\<close>)
next
  case h_matching_proxy_connection
  show ?thesis
    by (rule match_name_step [of s i "''proxy-connection''" "token c" h_matching_proxy_connection h_connection])
      (use assms h_matching_proxy_connection in \<open>simp_all add: field_char_def\<close>)
next
  case h_matching_content_length
  show ?thesis
    by (rule match_name_step [of s i "''content-length''" "token c" h_matching_content_length h_content_length])
      (use assms h_matching_content_length in \<open>simp_all add: field_char_def\<close>)
next
  case h_matching_transfer_encoding
  show ?thesis
    by (rule match_name_step [of s i "''transfer-encoding''" "token c" h_matching_transfer_encoding h_transfer_encoding])
      (use assms h_matching_transfer_encoding in \<open>simp_all add: field_char_def\<close>)
next
  case h_matching_upgrade
  show ?thesis
    by (rule match_name_step [of s i "''upgrade''" "token c" h_matching_upgrade h_upgrade])
      (use assms h_matching_upgrade in \<open>simp_all add: field_char_def\<close>)
qed (use assms in \<open>auto simp: field_char_def Let_def eval_nat_numeral\<close>)

lemma name_inv_run:
  assumes "\<forall>c\<in>set k. is_token c" "name_inv s hi"
  shows "name_inv (s @ map token k) (field_run k hi)"
  using assms
proof (induction k arbitrary: s hi)
  case (Cons c k)
  obtain h i where hi: "hi = (h, i)" by (cases hi)
  have "name_inv ((s @ [token c]) @ map token k) (field_run k (field_char h i c))"
    by (rule Cons.IH) (use Cons.prems name_inv_step hi in auto)
  then show ?case by (simp add: hi)
qed simp

lemma name_inv_field:
  assumes "k \<noteq> []" "\<forall>c\<in>set k. is_token c"
  shows "name_inv (map token k) (field_run (tl k) (first_field_state (hd k), 0))"
proof -
  obtain c s where k: "k = c # s" using assms(1) by (cases k) auto
  have "name_inv [token c] (first_field_state c, 0)" by (simp add: first_field_state_def Let_def)
  from name_inv_run [OF _ this, of s] assms(2) show ?thesis by (simp add: k)
qed

text \<open>The parts of the parser that headers leave alone.\<close>

definition same_head :: "http_parser \<Rightarrow> http_parser \<Rightarrow> bool" where
  "same_head q q' \<longleftrightarrow> hp_type q' = hp_type q \<and> hp_method q' = hp_method q \<and> hp_status q' = hp_status q \<and>
     http_major q' = http_major q \<and> http_minor q' = http_minor q \<and> lenient_http_headers q' = lenient_http_headers q"

definition conn_states :: "header_states set" where
  "conn_states = {h_general, h_matching_connection_token_start, h_matching_connection_keep_alive, h_matching_connection_close,
     h_matching_connection_upgrade, h_matching_connection_token, h_connection_keep_alive, h_connection_close, h_connection_upgrade}"

definition conn_flags :: "http_flag set" where
  "conn_flags = {F_CONNECTION_KEEP_ALIVE, F_CONNECTION_CLOSE, F_CONNECTION_UPGRADE}"

definition conn_only :: "http_parser \<Rightarrow> http_parser \<Rightarrow> bool" where
  "conn_only q q' \<longleftrightarrow> same_head q q' \<and> content_length q' = content_length q \<and> hp_flags q \<subseteq> hp_flags q' \<and>
     hp_flags q' \<subseteq> hp_flags q \<union> conn_flags"

lemma conn_only_refl [simp]: "conn_only q q"
  by (simp add: conn_only_def same_head_def)

lemma conn_only_trans: "conn_only q q1 \<Longrightarrow> conn_only q1 q2 \<Longrightarrow> conn_only q q2"
  unfolding conn_only_def same_head_def by auto

lemma match_name_states: "fst (match_name name self other found i c) \<in> {self, other, found}"
  by (simp add: match_name_def Let_def)

lemma value_char_conn:
  assumes "h \<in> conn_states"
  obtains h' q' where "value_char c h q = (None, h', q')" "h' \<in> conn_states" "conn_only q q'"
proof -
  have u: "conn_only q (q\<lparr>hp_index := i\<rparr>)" for i by (auto simp: conn_only_def same_head_def)
  have f: "conn_only q (q\<lparr>hp_flags := insert f (hp_flags q), hp_index := i\<rparr>)" if "f \<in> conn_flags" for f i
    using that by (auto simp: conn_only_def same_head_def)
  have "\<exists>h' q'. value_char c h q = (None, h', q') \<and> h' \<in> conn_states \<and> conn_only q q'"
    using assms unfolding conn_states_def
    by (elim insertE emptyE)
      (simp_all add: value_char_def match_name_def connection_token_start_def connection_done_def Let_def u
        f conn_flags_def)
  then show thesis using that by blast
qed

lemma value_run_conn:
  assumes "h \<in> conn_states"
  shows "\<exists>h' q'. value_run v (h, q) = Some (h', q') \<and> h' \<in> conn_states \<and> conn_only q q'"
  using assms
proof (induction v arbitrary: h q)
  case (Cons c v)
  show ?case
  proof (cases "h = h_general")
    case True
    then show ?thesis using value_run_general [of v] Cons.prems by simp
  next
    case False
    obtain h1 q1 where 1: "value_char c h q = (None, h1, q1)" "h1 \<in> conn_states" "conn_only q q1"
      using value_char_conn [OF Cons.prems] by blast
    from Cons.IH [OF 1(2), of q1] 1(3) conn_only_trans show ?thesis using False 1(1) by fastforce
  qed
qed simp

lemma end_flags_conn: "header_state q \<in> conn_states \<Longrightarrow> conn_only q (end_flags q)"
  unfolding conn_states_def
  by (elim insertE emptyE) (auto simp: end_flags_def conn_only_def same_head_def conn_flags_def)

text \<open>A header that is not about the body or about a protocol changes at most the flags of the connection.\<close>

lemma header_step_other:
  assumes "header_text_ok h" "map token (fst h) \<notin> {''content-length'', ''transfer-encoding''}"
  obtains q' where "header_step h q = Some q'" "same_head q q'" "content_length q' = content_length q" "hp_flags q \<subseteq> hp_flags q'"
    "hp_flags q' \<subseteq> hp_flags q \<union> conn_flags \<union> (if map token (fst h) = ''upgrade'' then {F_UPGRADE} else {})"
proof -
  obtain k v where kv: "h = (k, v)" by (cases h)
  obtain f i where f: "field_run (tl k) (first_field_state (hd k), 0) = (f, i)"
    by (cases "field_run (tl k) (first_field_state (hd k), 0)")
  have n: "name_inv (map token k) (f, i)" using name_inv_field [of k] assms(1) f by (simp add: header_text_ok_def kv)
  let ?q = "q\<lparr>header_state := f, hp_index := i\<rparr>"
  have b: "\<exists>q1. value_begin (hd v) ?q = Some q1 \<and> header_state q1 \<in> conn_states \<and> same_head q q1 \<and> content_length q1 = content_length q \<and>
      hp_flags q \<subseteq> hp_flags q1 \<and> hp_flags q1 \<subseteq> hp_flags q \<union> (if map token k = ''upgrade'' then {F_UPGRADE} else {})"
    using n assms(2) by (cases f) (auto simp: value_begin_def Let_def same_head_def conn_states_def kv)
  then obtain q1 where q1: "value_begin (hd v) ?q = Some q1" "header_state q1 \<in> conn_states" "same_head q q1"
    "content_length q1 = content_length q" "hp_flags q1 \<subseteq> hp_flags q \<union> (if map token k = ''upgrade'' then {F_UPGRADE} else {})"
    "hp_flags q \<subseteq> hp_flags q1" by blast
  obtain g q2 where q2: "value_run (tl v) (header_state q1, q1) = Some (g, q2)" "g \<in> conn_states" "conn_only q1 q2"
    using value_run_conn [OF q1(2), of "tl v" q1] by blast
  have "conn_only q2 (q2\<lparr>header_state := g\<rparr>)" by (simp add: conn_only_def same_head_def)
  moreover have "conn_only (q2\<lparr>header_state := g\<rparr>) (end_flags (q2\<lparr>header_state := g\<rparr>))"
    by (rule end_flags_conn) (simp add: q2(2))
  ultimately have e: "conn_only q1 (end_flags (q2\<lparr>header_state := g\<rparr>))" using q2(3) conn_only_trans by blast
  show thesis
  proof (rule that)
    show "header_step h q = Some (end_flags (q2\<lparr>header_state := g\<rparr>))" by (simp add: header_step_def kv f q1(1) q2(1))
    show "same_head q (end_flags (q2\<lparr>header_state := g\<rparr>))" using e q1(3) by (simp add: conn_only_def same_head_def)
    show "content_length (end_flags (q2\<lparr>header_state := g\<rparr>)) = content_length q" using e q1(4) by (simp add: conn_only_def)
    show "hp_flags q \<subseteq> hp_flags (end_flags (q2\<lparr>header_state := g\<rparr>))" using e q1(6) by (auto simp: conn_only_def)
    show "hp_flags (end_flags (q2\<lparr>header_state := g\<rparr>)) \<subseteq>
        hp_flags q \<union> conn_flags \<union> (if map token (fst h) = ''upgrade'' then {F_UPGRADE} else {})"
    proof -
      have s: "A \<subseteq> B \<union> C \<Longrightarrow> B \<subseteq> D \<union> X \<Longrightarrow> A \<subseteq> D \<union> C \<union> X" for A B C D X :: "http_flag set" by blast
      show ?thesis unfolding kv fst_conv by (rule s [OF _ q1(5)]) (use e in \<open>simp add: conn_only_def\<close>)
    qed
  qed
qed

section \<open>The length\<close>

lemma length_field: "field_run (tl ''Content-Length'') (first_field_state (hd ''Content-Length''), 0) = (h_content_length, 13)"
  by code_simp

lemma is_number_digit: "is_number c = is_digit c" "digit c = digit_val c"
  by (simp_all add: is_number_def is_digit_def digit_def digit_val_def char_code_def)

lemma content_length_digit:
  assumes "is_digit c" "content_length q = of_nat n" "10 * n + digit_val c < 2 ^ 32"
  shows "value_char c h_content_length_num q =
    (None, h_content_length_num, q\<lparr>content_length := of_nat (10 * n + digit_val c)\<rparr>)"
proof -
  have "c \<noteq> CHR '' ''" using assms(1) by (auto simp: is_digit_def)
  moreover have "\<not> (ULLONG_MAX - 10) div 10 < (of_nat n :: u64)"
  proof -
    have "unat (of_nat n :: u64) = n" using assms(3) by (simp add: unat_of_nat take_bit_nat_eq_self)
    moreover have "unat ((ULLONG_MAX - 10) div 10) = 1844674407370955160" by (simp add: ULLONG_MAX_def unat_div)
    ultimately show ?thesis using assms(3) by (simp add: word_less_nat_alt)
  qed
  ultimately show ?thesis
    using assms(1,2) by (simp add: value_char_def content_length_char_def is_number_digit mult.commute)
qed

lemma foldl_digits_mono: "n \<le> foldl (\<lambda>n c. 10 * n + digit_val c) n ds"
proof (induction ds arbitrary: n)
  case (Cons d ds)
  have "n \<le> 10 * n + digit_val d" by simp
  also have "\<dots> \<le> foldl (\<lambda>n c. 10 * n + digit_val c) (10 * n + digit_val d) ds" by (rule Cons.IH)
  finally show ?case by simp
qed simp

lemma content_length_run:
  assumes "\<forall>c\<in>set ds. is_digit c" "content_length q = of_nat n" "foldl (\<lambda>n c. 10 * n + digit_val c) n ds < 2 ^ 32"
  shows "value_run ds (h_content_length_num, q) =
    Some (h_content_length_num, q\<lparr>content_length := of_nat (foldl (\<lambda>n c. 10 * n + digit_val c) n ds)\<rparr>)"
  using assms
proof (induction ds arbitrary: q n)
  case Nil
  then show ?case by (cases q) simp
next
  case (Cons d ds)
  have "10 * n + digit_val d < 2 ^ 32"
    using Cons.prems(3) foldl_digits_mono [of "10 * n + digit_val d" ds] by (auto intro: le_less_trans)
  then have "value_char d h_content_length_num q =
      (None, h_content_length_num, q\<lparr>content_length := of_nat (10 * n + digit_val d)\<rparr>)"
    by (intro content_length_digit) (use Cons.prems in auto)
  moreover have "value_run ds (h_content_length_num, q\<lparr>content_length := of_nat (10 * n + digit_val d)\<rparr>) =
    Some (h_content_length_num, (q\<lparr>content_length := of_nat (10 * n + digit_val d)\<rparr>)
      \<lparr>content_length := of_nat (foldl (\<lambda>n c. 10 * n + digit_val c) (10 * n + digit_val d) ds)\<rparr>)"
    by (rule Cons.IH) (use Cons.prems in auto)
  ultimately show ?case by simp
qed

lemma header_step_length:
  assumes "F_CONTENTLENGTH \<notin> hp_flags q" "n < 2 ^ 32"
  obtains q' where "header_step (''Content-Length'', to_string n) q = Some q'" "same_head q q'" "content_length q' = of_nat n"
    "hp_flags q' = insert F_CONTENTLENGTH (hp_flags q)"
proof -
  obtain d ds where d: "to_string n = d # ds" "is_digit d" "\<forall>c\<in>set ds. is_digit c" "foldl (\<lambda>n c. 10 * n + digit_val c) (digit_val d) ds = n"
    using to_string_digits [of n] by (cases "to_string n") (auto simp: digits_val_def)
  let ?q = "q\<lparr>header_state := h_content_length_num, hp_index := 0, hp_flags := insert F_CONTENTLENGTH (hp_flags q),
    content_length := of_nat (digit_val d)\<rparr>"
  have 1: "value_begin d (q\<lparr>header_state := h_content_length, hp_index := 13\<rparr>) = Some ?q"
    using assms(1) d(2) by (cases q) (simp add: value_begin_def is_number_digit)
  have 2: "value_run ds (header_state ?q, ?q) = Some (h_content_length_num, ?q\<lparr>content_length := of_nat n\<rparr>)"
    using content_length_run [OF d(3), of ?q "digit_val d"] d(4) assms(2) by simp
  show thesis
  proof (rule that)
    show "header_step (''Content-Length'', to_string n) q =
        Some (end_flags ((?q\<lparr>content_length := of_nat n\<rparr>)\<lparr>header_state := h_content_length_num\<rparr>))"
      using 1 2 length_field unfolding header_step_def d(1) by simp
  qed (simp_all add: end_flags_def same_head_def)
qed

section \<open>The end of the headers and the body\<close>

definition is_length :: "string \<times> string \<Rightarrow> bool" where
  "is_length h \<longleftrightarrow> map token (fst h) = ''content-length''"

text \<open>How the end of the body is known: there is none, or its length is announced once, and nothing else is.\<close>

definition body_framed :: "(string \<times> string) list \<Rightarrow> string \<Rightarrow> bool" where
  "body_framed hs body \<longleftrightarrow>
     filter is_length hs = (if body = [] then [] else [(''Content-Length'', to_string (length body))]) \<and>
     (\<forall>h\<in>set hs. map token (fst h) \<noteq> ''transfer-encoding'' \<and> (body \<noteq> [] \<longrightarrow> map token (fst h) \<noteq> ''upgrade''))"

lemma headers_step_framed:
  assumes "\<forall>h\<in>set hs. header_text_ok h \<and> map token (fst h) \<noteq> ''transfer-encoding'' \<and> (up \<or> map token (fst h) \<noteq> ''upgrade'')"
    "filter is_length hs = [] \<or> filter is_length hs = [(''Content-Length'', to_string n)] \<and> F_CONTENTLENGTH \<notin> hp_flags q" "n < 2 ^ 32"
  shows "\<exists>q'. headers_step hs q = Some q' \<and> same_head q q' \<and>
    content_length q' = (if filter is_length hs = [] then content_length q else of_nat n) \<and>
    hp_flags q' \<subseteq> hp_flags q \<union> conn_flags \<union> {F_CONTENTLENGTH} \<union> (if up then {F_UPGRADE} else {})"
  using assms(1,2)
proof (induction hs arbitrary: q)
  case Nil
  then show ?case by (auto simp: same_head_def)
next
  case (Cons h hs)
  let ?X = "conn_flags \<union> {F_CONTENTLENGTH} \<union> (if up then {F_UPGRADE} else {})"
  have "\<exists>q1. header_step h q = Some q1 \<and> same_head q q1 \<and> content_length q1 = (if is_length h then of_nat n else content_length q) \<and>
      hp_flags q1 \<subseteq> hp_flags q \<union> ?X \<and> (is_length h \<or> F_CONTENTLENGTH \<notin> hp_flags q \<longrightarrow> is_length h \<or> F_CONTENTLENGTH \<notin> hp_flags q1)"
  proof (cases "is_length h")
    case True
    then have "h = (''Content-Length'', to_string n)" "F_CONTENTLENGTH \<notin> hp_flags q" using Cons.prems(2) by auto
    moreover from header_step_length [OF this(2) assms(3)] obtain q1 where
      "header_step (''Content-Length'', to_string n) q = Some q1" "same_head q q1" "content_length q1 = of_nat n"
      "hp_flags q1 = insert F_CONTENTLENGTH (hp_flags q)" by blast
    ultimately show ?thesis using True by auto
  next
    case False
    have n: "map token (fst h) \<notin> {''content-length'', ''transfer-encoding''}"
      using False Cons.prems(1) by (simp add: is_length_def)
    obtain q1 where q1: "header_step h q = Some q1" "same_head q q1" "content_length q1 = content_length q"
      "hp_flags q1 \<subseteq> hp_flags q \<union> conn_flags \<union> (if map token (fst h) = ''upgrade'' then {F_UPGRADE} else {})"
      by (rule header_step_other [OF _ n, of q]) (use Cons.prems(1) in auto)
    have "hp_flags q1 \<subseteq> hp_flags q \<union> conn_flags \<union> (if up then {F_UPGRADE} else {})"
      using q1(4) Cons.prems(1) by (cases "map token (fst h) = ''upgrade''"; cases up) auto
    moreover have "F_CONTENTLENGTH \<notin> conn_flags \<union> (if up then {F_UPGRADE} else {})" by (simp add: conn_flags_def)
    ultimately have "hp_flags q1 \<subseteq> hp_flags q \<union> ?X" "F_CONTENTLENGTH \<notin> hp_flags q \<longrightarrow> F_CONTENTLENGTH \<notin> hp_flags q1"
      by blast+
    then show ?thesis using q1(1-3) False by auto
  qed
  then obtain q1 where q1: "header_step h q = Some q1" "same_head q q1"
    "content_length q1 = (if is_length h then of_nat n else content_length q)" "hp_flags q1 \<subseteq> hp_flags q \<union> ?X"
    "is_length h \<or> F_CONTENTLENGTH \<notin> hp_flags q \<longrightarrow> is_length h \<or> F_CONTENTLENGTH \<notin> hp_flags q1" by blast
  have "\<exists>q'. headers_step hs q1 = Some q' \<and> same_head q1 q' \<and>
      content_length q' = (if filter is_length hs = [] then content_length q1 else of_nat n) \<and>
      hp_flags q' \<subseteq> hp_flags q1 \<union> conn_flags \<union> {F_CONTENTLENGTH} \<union> (if up then {F_UPGRADE} else {})"
    by (rule Cons.IH) (use Cons.prems q1(5) in \<open>auto split: if_splits\<close>)
  then obtain q' where q': "headers_step hs q1 = Some q'" "same_head q1 q'"
    "content_length q' = (if filter is_length hs = [] then content_length q1 else of_nat n)" "hp_flags q' \<subseteq> hp_flags q1 \<union> ?X"
    by (auto simp: Un_assoc)
  have "hp_flags q' \<subseteq> hp_flags q \<union> ?X" using q'(4) q1(4) by blast
  moreover have "same_head q q'" using q1(2) q'(2) by (simp add: same_head_def)
  moreover have "content_length q' = (if filter is_length (h # hs) = [] then content_length q else of_nat n)"
    using q'(3) q1(3) Cons.prems(2) by auto
  ultimately show ?case using q1(1) q'(1) by (simp add: Un_assoc)
qed

lemma new_message_state: "new_message q \<in> {s_start_req, s_start_res, s_dead}"
  by (simp add: new_message_def)

lemma execute_end_marks: "execute_loop cb data (length data) (conf q s p no_marks u) = (length data, conf q s p no_marks u)"
  by (subst execute_loop.simps) (simp add: execute_end_def callback_data_def Let_def)

lemma complete_conf:
  "cb OnMessageComplete u = (0, u') \<Longrightarrow> complete_here cb p (conf q s n ms u) k = k (conf q (new_message (hp (conf q s n ms u))) n ms u')"
  by (simp add: complete_here_def notify_conf)

lemma nread_zero: "hp (conf q s p ms u)\<lparr>nread := 0\<rparr> = hp (conf q s 0 ms u)"
  by (cases q) (simp add: conf_def)

definition body_events :: "string \<Rightarrow> parse_event list" where
  "body_events body = (if body = [] then [] else [OnBody body]) @ [OnMessageComplete]"

lemma exec_body:
  assumes d: "drop p data = body" and b: "body \<noteq> []" "length body < 2 ^ 32" and q: "content_length q = of_nat (length body)" "\<not> hp_upgrade q"
    and cb: "run_events cb (body_events body) u = Some u'"
  shows "\<exists>q' s n. execute_loop cb data p (conf q s_body_identity 0 no_marks u) = (length data, conf q' s n no_marks u') \<and>
    hp_method q' = hp_method q \<and> hp_upgrade q' = hp_upgrade q"
proof -
  have p: "p < length data" "length data - p = length body" using d b(1) by auto
  then have len: "length data = p + length body" by simp
  have l: "unat (of_nat (length body) :: u64) = length body" using b(2) by (simp add: unat_of_nat take_bit_nat_eq_self)
  obtain w where w: "cb (OnBody body) u = (0, w)" "cb OnMessageComplete w = (0, u')"
    using cb b(1) by (auto simp: body_events_def split: prod.splits if_splits)
  let ?r = "conf q s_body_identity 0 no_marks u"
  let ?m = "no_marks(MarkBody := Some p)"
  let ?q = "q\<lparr>content_length := 0\<rparr>"
  have t: "to_read data p ?r = length body" by (simp add: to_read_def q(1) l p(2))
  have tb: "take_body data p ?r = conf ?q s_body_identity 0 ?m u"
    by (simp add: take_body_def t q(1))
  have e: "Suc (p + (length body - Suc 0)) = length data" "Suc (p + length body - Suc 0) = length data"
    using len b(1) [folded length_greater_0_conv] by linarith+
  have cd: "callback_data cb data MarkBody (length data) er (conf ?q s_message_done 0 ?m u) g = g (conf ?q s_message_done 0 no_marks w)"
    for er and g :: "'a hp_run \<Rightarrow> 'a hp_out"
    using data_conf [of ?m MarkBody p data body "[]" "length data" cb ?q s_message_done 0 u w er g] d w(1) by (simp add: len)
  have "exec_body_identity cb data p ?r = Go (p + (length body - Suc 0)) (conf ?q (new_message (hp (conf ?q s_message_done 0 no_marks w))) 0 no_marks u')"
    by (simp add: exec_body_identity_def t tb e cd Let_def exec_message_done_def notify_conf w(2) q(2))
  then have "execute_loop cb data p ?r =
      execute_loop cb data (length data) (conf ?q (new_message (hp (conf ?q s_message_done 0 no_marks w))) 0 no_marks u')"
    using p e by (subst execute_loop.simps) (simp add: exec_byte_def exec_case_def parsing_header_def)
  then show ?thesis using execute_end_marks by fastforce
qed

text \<open>What the headers say about a change of protocol.\<close>

definition says_upgrade :: "http_parser \<Rightarrow> bool" where
  "says_upgrade q =
     (if F_UPGRADE \<in> hp_flags q \<and> F_CONNECTION_UPGRADE \<in> hp_flags q then hp_type q = HTTP_REQUEST \<or> hp_status q = 101
      else hp_method q = M_CONNECT)"

lemma exec_headers_end:
  assumes d: "drop p data = CR # LF # body" and p: "p + 2 \<le> max_header_size"
    and q: "F_TRAILING \<notin> hp_flags q" "F_CHUNKED \<notin> hp_flags q" and cb: "cb (OnHeadersComplete (hp_method q)) u = (0, w)"
  shows "execute_loop cb data p (conf q s_header_field_start p no_marks u) =
      (case exec_headers_done cb (Suc p) LF (conf (q\<lparr>hp_upgrade := says_upgrade q\<rparr>) s_headers_done (p + 2) no_marks w) of
         Go p' r \<Rightarrow> execute_loop cb data (Suc p') r
       | Stop n r \<Rightarrow> (n, r))"
    "drop (Suc (Suc p)) data = body" "length data = p + 2 + length body"
proof -
  have d1: "drop (Suc p) data = LF # body" using drop_step [OF d] by simp
  show d2: "drop (Suc (Suc p)) data = body" using drop_step [OF d1] by simp
  show "length data = p + 2 + length body" using drop_step [OF d1] d2 by (metis add_2_eq_Suc' length_drop le_add_diff_inverse Suc_leI)
  have 1: "execute_loop cb data p (conf q s_header_field_start p no_marks u) =
      execute_loop cb data (Suc p) (conf q s_headers_almost_done (Suc p) no_marks u)"
    by (rule exec_go [OF d]) (use p in \<open>simp_all add: exec_case_def exec_header_field_start_def\<close>)
  have "exec_headers_almost_done cb (Suc p) LF (conf q s_headers_almost_done (Suc (Suc p)) no_marks u) =
      exec_headers_done cb (Suc p) LF (conf (q\<lparr>hp_upgrade := says_upgrade q\<rparr>) s_headers_done (Suc (Suc p)) no_marks w)"
    using q cb by (simp add: exec_headers_almost_done_def says_upgrade_def Let_def)
  then show "execute_loop cb data p (conf q s_header_field_start p no_marks u) =
      (case exec_headers_done cb (Suc p) LF (conf (q\<lparr>hp_upgrade := says_upgrade q\<rparr>) s_headers_done (p + 2) no_marks w) of
         Go p' r \<Rightarrow> execute_loop cb data (Suc p') r
       | Stop n r \<Rightarrow> (n, r))"
    using 1 exec_step [OF d1, of s_headers_almost_done cb q no_marks u] p by (simp add: exec_case_def)
qed

text \<open>A message with a body whose length is announced.\<close>

lemma exec_length_body:
  assumes d: "drop p data = CR # LF # body" and p: "p + 2 \<le> max_header_size" and b: "length body < 2 ^ 32" "body \<noteq> []"
    and q: "content_length q = of_nat (length body)" "hp_flags q \<inter> {F_CHUNKED, F_TRAILING, F_SKIPBODY} = {}" "\<not> says_upgrade q"
    and cb: "run_events cb (OnHeadersComplete (hp_method q) # body_events body) u = Some u'"
  shows "\<exists>q' s n. execute_loop cb data p (conf q s_header_field_start p no_marks u) = (length data, conf q' s n no_marks u') \<and>
    hp_method q' = hp_method q \<and> \<not> hp_upgrade q'"
proof -
  obtain w where w: "cb (OnHeadersComplete (hp_method q)) u = (0, w)" "run_events cb (body_events body) w = Some u'"
    using cb by (auto split: prod.splits if_splits)
  have f: "F_CHUNKED \<notin> hp_flags q" "F_TRAILING \<notin> hp_flags q" "F_SKIPBODY \<notin> hp_flags q" using q(2) by auto
  note e = exec_headers_end [where cb = cb, OF d p f(2,1) w(1)]
  let ?q = "q\<lparr>hp_upgrade := False\<rparr>"
  have l: "unat (of_nat (length body) :: u64) = length body" using b by (simp add: unat_of_nat take_bit_nat_eq_self)
  have "(of_nat (length body) :: u64) \<noteq> 0" using l b(2) by (metis length_0_conv unat_0)
  moreover have "(of_nat (length body) :: u64) \<noteq> ULLONG_MAX"
  proof
    assume "(of_nat (length body) :: u64) = ULLONG_MAX"
    then have "length body = unat (ULLONG_MAX :: u64)" using l by simp
    also have "\<dots> = 18446744073709551615"
      by (simp add: ULLONG_MAX_def unsigned_minus_1_eq_mask mask_eq_exp_minus_1)
    finally show False using b by simp
  qed
  ultimately have "exec_headers_done cb (Suc p) LF (conf ?q s_headers_done (p + 2) no_marks w) =
      Go (Suc p) (conf ?q s_body_identity 0 no_marks w)"
    using f q(1) by (simp add: exec_headers_done_def Let_def nread_zero)
  then have 1: "execute_loop cb data p (conf q s_header_field_start p no_marks u) =
      execute_loop cb data (Suc (Suc p)) (conf ?q s_body_identity 0 no_marks w)" using e(1) q(3) by simp
  from exec_body [OF e(2) b(2,1), of ?q cb w u'] w(2) q(1) obtain q' s n where
    "execute_loop cb data (Suc (Suc p)) (conf ?q s_body_identity 0 no_marks w) = (length data, conf q' s n no_marks u')"
    "hp_method q' = hp_method q" "\<not> hp_upgrade q'" by auto
  then show ?thesis using 1 by fastforce
qed

text \<open>A message that ends with its headers.\<close>

lemma exec_no_body:
  assumes d: "drop p data = [CR, LF]" and p: "p + 2 \<le> max_header_size"
    and q: "content_length q = ULLONG_MAX" "hp_flags q \<inter> {F_CHUNKED, F_TRAILING, F_SKIPBODY} = {}"
    and cb: "run_events cb (OnHeadersComplete (hp_method q) #
      (if says_upgrade q \<or> \<not> http_message_needs_eof q then [OnMessageComplete] else [])) u = Some u'"
  shows "\<exists>q' s n. execute_loop cb data p (conf q s_header_field_start p no_marks u) = (length data, conf q' s n no_marks u') \<and>
    hp_method q' = hp_method q \<and> hp_upgrade q' = says_upgrade q"
proof -
  let ?q = "q\<lparr>hp_upgrade := says_upgrade q\<rparr>"
  obtain w where w: "cb (OnHeadersComplete (hp_method q)) u = (0, w)"
    "run_events cb (if says_upgrade q \<or> \<not> http_message_needs_eof q then [OnMessageComplete] else []) w = Some u'"
    using cb by (auto split: prod.splits if_splits)
  have f: "F_CHUNKED \<notin> hp_flags q" "F_TRAILING \<notin> hp_flags q" "F_SKIPBODY \<notin> hp_flags q" using q(2) by auto
  note e = exec_headers_end [where cb = cb, OF d p f(2,1) w(1)]
  have u: "(ULLONG_MAX :: u64) \<noteq> 0" by (simp add: ULLONG_MAX_def)
  have len: "length data = Suc (Suc p)" using e(3) by simp
  have eof: "http_message_needs_eof (hp (conf (q\<lparr>hp_upgrade := x\<rparr>) s_headers_done 0 no_marks w)) = http_message_needs_eof q" for x
    by (simp add: http_message_needs_eof_def)
  let ?s = "new_message (hp (conf ?q s_headers_done 0 no_marks w))"
  show ?thesis
  proof (cases "says_upgrade q \<or> \<not> http_message_needs_eof q")
    case True
    then have c: "cb OnMessageComplete w = (0, u')" using w(2) by (auto split: prod.splits if_splits)
    have "exec_headers_done cb (Suc p) LF (conf ?q s_headers_done (p + 2) no_marks w) =
        (if says_upgrade q then Stop (Suc (Suc p)) (conf ?q ?s 0 no_marks u') else Go (Suc p) (conf ?q ?s 0 no_marks u'))"
      using True f q(1) u eof
      by (auto simp: exec_headers_done_def Let_def complete_conf [where cb = cb, OF c] nread_zero)
    then have "execute_loop cb data p (conf q s_header_field_start p no_marks u) = (length data, conf ?q ?s 0 no_marks u')"
      using execute_end_marks [of cb data ?q ?s 0 u'] unfolding e(1) len by (cases "says_upgrade q") simp_all
    then show ?thesis by fastforce
  next
    case False
    then have "u' = w" using w(2) by simp
    have "exec_headers_done cb (Suc p) LF (conf ?q s_headers_done (p + 2) no_marks w) =
        Go (Suc p) (conf ?q s_body_identity_eof 0 no_marks w)"
      using False f q(1) u eof by (simp add: exec_headers_done_def Let_def nread_zero)
    then have "execute_loop cb data p (conf q s_header_field_start p no_marks u) = (length data, conf ?q s_body_identity_eof 0 no_marks u')"
      using execute_end_marks [of cb data ?q s_body_identity_eof 0 w] \<open>u' = w\<close> unfolding e(1) len by simp
    then show ?thesis by fastforce
  qed
qed

section \<open>Whole requests\<close>

definition http_request_text :: "string \<Rightarrow> string \<Rightarrow> (string \<times> string) list \<Rightarrow> string \<Rightarrow> string" where
  "http_request_text meth url hs body =
     meth @ '' '' @ url @ '' HTTP/1.1'' @ [CR, LF] @ concat (map head_line hs) @ [CR, LF] @ body"

definition request_events :: "string \<Rightarrow> (string \<times> string) list \<Rightarrow> nat \<Rightarrow> string \<Rightarrow> parse_event list" where
  "request_events url hs m body = [OnMessageBegin, OnUrl url] @ header_events hs @ [OnHeadersComplete m] @ body_events body"

lemma url_run_path:
  assumes "\<forall>c\<in>set cs. is_url_char c" "url_run s_req_path rest"
  shows "url_run s_req_path (cs @ rest)"
  using assms(1)
proof (induction cs)
  case Nil
  then show ?case using assms(2) by simp
next
  case (Cons c cs)
  then have "parse_url_char s_req_path c = s_req_path" using parse_path_char by simp
  moreover have "c \<notin> {CHR '' '', CR, LF}" using Cons.prems url_char_plain [of c] by auto
  ultimately show ?case using Cons by (simp add: url_states_def)
qed

lemma url_run_query:
  assumes "query_text q" "s \<in> {s_req_query_string_start, s_req_query_string}"
  shows "url_run s q"
  using assms
proof (induction q arbitrary: s)
  case (Cons c q)
  have c: "is_url_char c \<or> c = CHR ''?''" using Cons.prems(1) by (simp add: query_text_def)
  have "parse_url_char s c = s_req_query_string" using parse_query_char [OF c Cons.prems(2)] .
  moreover have "c \<notin> {CHR '' '', CR, LF}" using c url_char_plain [of c] by auto
  ultimately show ?case using Cons by (simp add: url_states_def query_text_def)
qed simp

lemma url_run_text:
  assumes "path_text path" "\<forall>q. query = Some q \<longrightarrow> query_text q"
  obtains t where "url_text path query = CHR ''/'' # t" "url_run s_req_path t"
proof -
  obtain cs where p: "path = CHR ''/'' # cs" using assms(1) by (cases path) (auto simp: path_text_def)
  have "\<forall>c\<in>set cs. is_url_char c" using assms(1) p by (simp add: path_text_def)
  moreover have "url_run s_req_path (case query of None \<Rightarrow> [] | Some q \<Rightarrow> CHR ''?'' # q)"
    using assms(2) url_run_query parse_path_start by (auto simp: url_states_def split: option.split)
  ultimately show thesis using that url_run_path by (auto simp: url_text_def p)
qed

text \<open>The method, the URL and the version.\<close>

lemma exec_method:
  assumes d: "drop 0 data = method_strings ! k @ CHR '' '' # rest" and k: "k < 34" and cb: "cb OnMessageBegin u = (0, u')"
    and q: "q = http_parser_init HTTP_REQUEST"
  shows "\<exists>q'. execute_loop cb data 0 (conf q s_start_req 0 no_marks u) =
      execute_loop cb data (length (method_strings ! k) + 1) (conf q' s_req_spaces_before_url (length (method_strings ! k) + 1) no_marks u') \<and>
    hp_type q' = HTTP_REQUEST \<and> hp_method q' = k \<and> hp_flags q' = {} \<and> content_length q' = ULLONG_MAX"
proof -
  have "k \<in> set [0..<34]" using k by simp
  from bspec [OF method_runs this] obtain m where m: "map_of first_method (hd (method_strings ! k)) = Some m"
    "method_run (tl (method_strings ! k)) (m, 1) = Some (k, length (method_strings ! k))" by (auto split: option.splits)
  have ne: "\<forall>k\<in>set [0..<34]. method_strings ! k \<noteq> [] \<and> hp_alpha (hd (method_strings ! k)) \<and> length (method_strings ! k) < 20 \<and>
      hd (method_strings ! k) \<noteq> CR \<and> hd (method_strings ! k) \<noteq> LF" by code_simp
  then obtain c s where c: "method_strings ! k = c # s" "hp_alpha c" "length s < 20" "c \<noteq> CR" "c \<noteq> LF"
    using bspec [OF ne \<open>k \<in> set [0..<34]\<close>] by (cases "method_strings ! k") auto
  have d0: "drop 0 data = c # s @ CHR '' '' # rest" using d c(1) by simp
  have d1: "drop 1 data = s @ CHR '' '' # rest" using drop_step [OF d0] by simp
  have d2: "drop (1 + length s) data = CHR '' '' # rest" using d1 by (rule drop_text)
  let ?q = "q\<lparr>hp_flags := {}, content_length := ULLONG_MAX, hp_method := 0, hp_index := 1, hp_method := m\<rparr>"
  have 1: "execute_loop cb data 0 (conf q s_start_req 0 no_marks u) = execute_loop cb data (Suc 0) (conf ?q s_req_method (Suc 0) no_marks u')"
    by (rule exec_go [OF d0]) (use c m(1) cb in \<open>simp_all add: exec_case_def exec_start_req_def clear_message_def Let_def notify_conf max_header_size_def\<close>)
  let ?r = "?q\<lparr>hp_method := k, hp_index := Suc (length s)\<rparr>"
  have 2: "execute_loop cb data 1 (conf ?q s_req_method 1 no_marks u') =
      execute_loop cb data (1 + length s) (conf ?r s_req_method (1 + length s) no_marks u')"
    by (rule exec_method_run [OF d1]) (use m(2) c in \<open>simp_all add: max_header_size_def\<close>)
  have at: "c_at (method_strings ! k) (Suc (length s)) = CHR 0x00" by (simp add: c(1) c_at_def)
  have 3: "execute_loop cb data (1 + length s) (conf ?r s_req_method (1 + length s) no_marks u') =
      execute_loop cb data (Suc (1 + length s)) (conf (?r\<lparr>hp_index := Suc (Suc (length s))\<rparr>) s_req_spaces_before_url (Suc (1 + length s)) no_marks u')"
    by (rule exec_go [OF d2]) (use c(3) at in \<open>simp_all add: exec_case_def exec_req_method_def Let_def max_header_size_def\<close>)
  show ?thesis
    using 1 2 3 by (intro exI [of _ "?r\<lparr>hp_index := Suc (Suc (length s))\<rparr>"]) (simp add: c(1) q http_parser_init_def)
qed

lemma exec_url:
  assumes d: "drop p data = url_text path query @ CHR '' '' # rest" and u: "path_text path" "\<forall>q. query = Some q \<longrightarrow> query_text q"
    and p: "p + length (url_text path query) < max_header_size" and q: "hp_method q \<noteq> M_CONNECT"
    and cb: "cb (OnUrl (url_text path query)) u = (0, u')"
  shows "execute_loop cb data p (conf q s_req_spaces_before_url p no_marks u) =
    execute_loop cb data (Suc (p + length (url_text path query)))
      (conf q s_req_http_start (Suc (p + length (url_text path query))) no_marks u')"
proof -
  obtain t where t: "url_text path query = CHR ''/'' # t" "url_run s_req_path t" using url_run_text [OF u] .
  have d0: "drop p data = CHR ''/'' # t @ CHR '' '' # rest" using d t(1) by simp
  have d1: "drop (Suc p) data = t @ CHR '' '' # rest" using drop_step [OF d0] by simp
  have d2: "drop (Suc p + length t) data = CHR '' '' # rest" using d1 by (rule drop_text)
  let ?m = "no_marks(MarkUrl := Some p)"
  have 1: "execute_loop cb data p (conf q s_req_spaces_before_url p no_marks u) = execute_loop cb data (Suc p) (conf q s_req_path (Suc p) ?m u)"
    by (rule exec_go [OF d0]) (use p q parse_path_start in \<open>simp_all add: exec_case_def exec_req_spaces_before_url_def url_step_def Let_def\<close>)
  obtain s where s: "s \<in> url_states" "execute_loop cb data (Suc p) (conf q s_req_path (Suc p) ?m u) =
      execute_loop cb data (Suc p + length t) (conf q s (Suc p + length t) ?m u)"
    using exec_url_run [OF d1 _ t(2), of cb q ?m u] p t(1) by (auto simp: url_states_def)
  have cd: "callback_data cb data MarkUrl (Suc p + length t) er (conf q s_req_http_start a ?m u) g = g (conf q s_req_http_start a no_marks u')"
    for er a and g :: "'a hp_run \<Rightarrow> 'a hp_out"
    using data_conf [of ?m MarkUrl p data "url_text path query" "CHR '' '' # rest" "Suc p + length t" cb q s_req_http_start a u u' er g]
      d cb t(1) by simp
  have 2: "execute_loop cb data (Suc p + length t) (conf q s (Suc p + length t) ?m u) =
      execute_loop cb data (Suc (Suc p + length t)) (conf q s_req_http_start (Suc (Suc p + length t)) no_marks u')"
    by (rule exec_go [OF d2]) (use p s(1) cd t(1) in \<open>auto simp: exec_case_def exec_req_url_def url_states_def\<close>)
  show ?thesis using 1 s(2) 2 t(1) by simp
qed

lemma parse_request:
  assumes k: "k < 34" "k \<noteq> M_CONNECT" and url: "path_text path" "\<forall>q. query = Some q \<longrightarrow> query_text q"
    and hs: "\<forall>h\<in>set hs. header_text_ok h" "body_framed hs body"
    and t: "t = http_request_text (method_strings ! k) (url_text path query) hs body"
      "length t \<le> max_header_size + length body" "length body < 2 ^ 32"
    and cb: "run_events cb (request_events (url_text path query) hs k body) u = Some u'"
  shows "\<exists>q. http_parser_execute cb t (http_parser_init HTTP_REQUEST) u = (length t, q, u') \<and> hp_errno q = HPE_OK \<and> hp_method q = k"
proof -
  let ?m = "length (method_strings ! k)" and ?u = "url_text path query" and ?H = "concat (map head_line hs)"
  let ?p1 = "?m + 1" and ?p2 = "Suc (?m + 1 + length ?u)"
  have len: "length t = ?p2 + 10 + length ?H + 2 + length body" by (simp add: t(1) http_request_text_def)
  have ev: "request_events ?u hs k body = [OnMessageBegin] @ [OnUrl ?u] @ header_events hs @ OnHeadersComplete k # body_events body"
    by (simp add: request_events_def)
  from cb obtain u1 u2 u3 where e': "run_events cb [OnMessageBegin] u = Some u1" "run_events cb [OnUrl ?u] u1 = Some u2"
    and e: "run_events cb (header_events hs) u2 = Some u3" "run_events cb (OnHeadersComplete k # body_events body) u3 = Some u'"
    unfolding ev run_events_append bind_eq_Some_conv by blast
  then have c: "cb OnMessageBegin u = (0, u1)" "cb (OnUrl ?u) u1 = (0, u2)" by (auto split: prod.splits if_splits)
  have d0: "drop 0 t = method_strings ! k @ CHR '' '' # ?u @ CHR '' '' # ''HTTP/1.1'' @ [CR, LF] @ ?H @ CR # LF # body"
    by (simp add: t(1) http_request_text_def)
  have d1: "drop ?p1 t = ?u @ CHR '' '' # ''HTTP/1.1'' @ [CR, LF] @ ?H @ CR # LF # body"
    by (simp add: t(1) http_request_text_def)
  have d2: "drop ?p2 t = ''HTTP/1.1'' @ [CR, LF] @ ?H @ CR # LF # body"
    by (simp add: t(1) http_request_text_def)
  have d3: "drop (?p2 + 10) t = ?H @ CR # LF # body" 
    using drop_text [of ?p2 t "''HTTP/1.1'' @ [CR, LF]" "?H @ CR # LF # body"] d2 by (simp add: eval_nat_numeral)
  have d4: "drop (?p2 + 10 + length ?H) t = CR # LF # body" using d3 by (rule drop_text)
  have M: "?p2 + 10 + length ?H + 2 \<le> max_header_size" using t(2) len by simp
  obtain q1 where q1: "execute_loop cb t 0 (conf (http_parser_init HTTP_REQUEST) s_start_req 0 no_marks u) =
      execute_loop cb t ?p1 (conf q1 s_req_spaces_before_url ?p1 no_marks u1)"
    "hp_type q1 = HTTP_REQUEST" "hp_method q1 = k" "hp_flags q1 = {}" "content_length q1 = ULLONG_MAX"
    using exec_method [where cb = cb, OF d0 k(1) c(1) refl] by auto
  have 2: "execute_loop cb t ?p1 (conf q1 s_req_spaces_before_url ?p1 no_marks u1) =
      execute_loop cb t ?p2 (conf q1 s_req_http_start ?p2 no_marks u2)"
    by (rule exec_url [where cb = cb, OF d1 url _ _ c(2)]) (use M k(2) q1(3) in auto)
  let ?q = "q1\<lparr>http_major := 1, http_minor := 1\<rparr>"
  have 3: "execute_loop cb t ?p2 (conf q1 s_req_http_start ?p2 no_marks u2) =
      execute_loop cb t (?p2 + 10) (conf ?q s_header_field_start (?p2 + 10) no_marks u2)"
    by (rule exec_version [OF d2]) (use M in simp)
  have "\<exists>q'. headers_step hs ?q = Some q' \<and> same_head ?q q' \<and>
      content_length q' = (if filter is_length hs = [] then content_length ?q else of_nat (length body)) \<and>
      hp_flags q' \<subseteq> hp_flags ?q \<union> conn_flags \<union> {F_CONTENTLENGTH} \<union> (if body = [] then {F_UPGRADE} else {})"
    by (rule headers_step_framed) (use hs t(3) q1(4) in \<open>auto simp: body_framed_def\<close>)
  then obtain q2 where q2: "headers_step hs ?q = Some q2" "same_head ?q q2"
    "content_length q2 = (if filter is_length hs = [] then ULLONG_MAX else of_nat (length body))"
    "hp_flags q2 \<subseteq> conn_flags \<union> {F_CONTENTLENGTH} \<union> (if body = [] then {F_UPGRADE} else {})" using q1(4,5) by auto
  have 4: "execute_loop cb t (?p2 + 10) (conf ?q s_header_field_start (?p2 + 10) no_marks u2) =
      execute_loop cb t (?p2 + 10 + length ?H) (conf q2 s_header_field_start (?p2 + 10 + length ?H) no_marks u3)"
    by (rule exec_headers [OF d3 hs(1) _ q2(1) e(1)]) (use M in simp)
  have f: "hp_type q2 = HTTP_REQUEST" "hp_method q2 = k" using q2(2) q1(2,3) by (simp_all add: same_head_def)
  have fl: "hp_flags q2 \<inter> {F_CHUNKED, F_TRAILING, F_SKIPBODY} = {}" "body \<noteq> [] \<Longrightarrow> F_UPGRADE \<notin> hp_flags q2"
    using q2(4) by (auto simp: conn_flags_def split: if_splits)
  have "\<exists>q' s n. execute_loop cb t (?p2 + 10 + length ?H) (conf q2 s_header_field_start (?p2 + 10 + length ?H) no_marks u3) =
      (length t, conf q' s n no_marks u') \<and> hp_method q' = hp_method q2"
  proof (cases "body = []")
    case True
    have "drop (?p2 + 10 + length ?H) t = [CR, LF]" using d4 True by simp
    from exec_no_body [OF this M _ fl(1), of cb u3 u'] show ?thesis
      using e(2) f q2(3) hs(2) True by (auto simp: body_framed_def http_message_needs_eof_def body_events_def)
  next
    case False
    from exec_length_body [OF d4 M t(3) False _ fl(1), of cb u3 u'] show ?thesis
      using e(2) f q2(3) hs(2) False fl(2) k(2) by (auto simp: body_framed_def says_upgrade_def)
  qed
  then obtain q' s n where 5: "execute_loop cb t 0 (conf (http_parser_init HTTP_REQUEST) s_start_req 0 no_marks u) =
      (length t, conf q' s n no_marks u')" "hp_method q' = k"
    unfolding q1(1) 2 3 4 f(2) by blast
  have i: "\<lparr>hp = http_parser_init HTTP_REQUEST, hp_marks = initial_marks s_start_req, hp_user = u\<rparr> =
      conf (http_parser_init HTTP_REQUEST) s_start_req 0 no_marks u"
    by (simp add: conf_def http_parser_init_def initial_marks_def fun_eq_iff)
  have "hp_errno (http_parser_init HTTP_REQUEST) = HPE_OK" "hp_state (http_parser_init HTTP_REQUEST) = s_start_req"
    by (simp_all add: http_parser_init_def)
  moreover have "t \<noteq> []" using len by auto
  ultimately show ?thesis using 5 by (simp add: http_parser_execute_def i)
qed

end
