(* ===== verification/Http_Parser_Response.thy ===== *)
theory Http_Parser_Response
  imports Http_Parser_Request
begin

text \<open>
  The parser on whole responses: the status line, the headers, and the ways a response ends,
  with a body of announced length, without a body, or with a change of protocol.
\<close>

section \<open>The status line\<close>

lemma parsing_header_response [simp]:
  "parsing_header s_res_H" "parsing_header s_res_HT" "parsing_header s_res_HTT" "parsing_header s_res_HTTP"
  "parsing_header s_res_http_major" "parsing_header s_res_http_dot" "parsing_header s_res_http_minor"
  "parsing_header s_res_http_end" "parsing_header s_res_first_status_code" "parsing_header s_res_status_code"
  "parsing_header s_res_status_start" "parsing_header s_res_status" "parsing_header s_res_line_almost_done"
  by (simp_all add: parsing_header_def)

definition status_number :: "char \<Rightarrow> char \<Rightarrow> char \<Rightarrow> nat" where
  "status_number a b c = (digit a * 10 + digit b) * 10 + digit c"

lemma digit_bound: "is_number c \<Longrightarrow> digit c \<le> 9"
  by (auto simp: is_number_def digit_def)

lemma exec_status_start:
  assumes "drop 0 data = ''HTTP/1.'' @ [v] @ '' '' @ [a, b, c] @ '' '' @ rest" "is_number v" "is_number a" "is_number b" "is_number c"
    "cb OnMessageBegin u = (0, u')" "q = http_parser_init HTTP_RESPONSE"
  shows "\<exists>q'. execute_loop cb data 0 (conf q s_start_res 0 no_marks u) =
      execute_loop cb data 13 (conf q' s_res_status_start 13 no_marks u') \<and>
    hp_type q' = HTTP_RESPONSE \<and> hp_method q' = 0 \<and> hp_flags q' = {} \<and> content_length q' = ULLONG_MAX \<and>
    hp_status q' = status_number a b c"
proof -
  have n: "is_number CHR ''1''" by code_simp
  have sp: "\<not> is_number CHR '' ''" by code_simp
  have st: "digit a * 10 + digit b \<le> 999" "(digit a * 10 + digit b) * 10 + digit c \<le> 999"
    using digit_bound [OF assms(3)] digit_bound [OF assms(4)] digit_bound [OF assms(5)] by simp_all
  let ?q = "q\<lparr>hp_flags := {}, content_length := ULLONG_MAX, http_major := digit CHR ''1'', http_minor := digit v,
    hp_status := digit a, hp_status := digit a * 10 + digit b, hp_status := status_number a b c\<rparr>"
  have "execute_loop cb data 0 (conf q s_start_res 0 no_marks u) =
      execute_loop cb data (Suc (Suc (Suc (Suc (Suc (Suc (Suc (Suc (Suc (Suc (Suc (Suc (Suc 0)))))))))))))
       (conf ?q s_res_status_start (Suc (Suc (Suc (Suc (Suc (Suc (Suc (Suc (Suc (Suc (Suc (Suc (Suc 0))))))))))))) no_marks u')"
    using assms(1-6) n sp st
    by (simp add: exec_step_hd drop_Suc_tl exec_case_def exec_start_res_def clear_message_def notify_conf exec_res_version_def
        set_major_def set_minor_def exec_res_first_status_code_def exec_res_status_code_def Let_def max_header_size_def
        status_number_def del: drop0)
  then show ?thesis by (intro exI [of _ ?q]) (simp add: assms(7) http_parser_init_def eval_nat_numeral)
qed


lemma exec_status_run:
  assumes "drop p data = cs @ rest" "\<forall>c\<in>set cs. c \<noteq> CR \<and> c \<noteq> LF" "p + length cs \<le> max_header_size"
  shows "execute_loop cb data p (conf q s_res_status p ms u) =
    execute_loop cb data (p + length cs) (conf q s_res_status (p + length cs) ms u)"
  using assms
proof (induction cs arbitrary: p)
  case (Cons c cs)
  have d: "drop p data = c # cs @ rest" using Cons.prems(1) by simp
  have "execute_loop cb data p (conf q s_res_status p ms u) = execute_loop cb data (Suc p) (conf q s_res_status (Suc p) ms u)"
    by (rule exec_go [OF d]) (use Cons.prems(2,3) in \<open>simp_all add: exec_case_def exec_res_status_def\<close>)
  then show ?case using Cons.IH [of "Suc p"] drop_step [OF d] Cons.prems(2,3) by simp
qed simp

lemma exec_reason:
  assumes d: "drop p data = reason @ CR # LF # rest" and r: "reason \<noteq> []" "\<forall>c\<in>set reason. c \<noteq> CR \<and> c \<noteq> LF"
    and p: "p + length reason + 2 \<le> max_header_size" and cb: "cb (OnStatus reason (of_nat (hp_status q))) u = (0, u')"
  shows "execute_loop cb data p (conf q s_res_status_start p no_marks u) =
    execute_loop cb data (p + length reason + 2) (conf (q\<lparr>hp_index := 0\<rparr>) s_header_field_start (p + length reason + 2) no_marks u')"
proof -
  obtain c cs where c: "reason = c # cs" using r(1) by (cases reason) auto
  have d0: "drop p data = c # cs @ CR # LF # rest" using d c by simp
  have d1: "drop (Suc p) data = cs @ CR # LF # rest" using drop_step [OF d0] by simp
  have d2: "drop (Suc p + length cs) data = CR # LF # rest" using d1 by (rule drop_text)
  have d3: "drop (Suc (Suc p + length cs)) data = LF # rest" using drop_step [OF d2] by simp
  let ?m = "no_marks(MarkStatus := Some p)" and ?q = "q\<lparr>hp_index := 0\<rparr>"
  have 1: "execute_loop cb data p (conf q s_res_status_start p no_marks u) = execute_loop cb data (Suc p) (conf ?q s_res_status (Suc p) ?m u)"
    by (rule exec_go [OF d0]) (use p r(2) c in \<open>simp_all add: exec_case_def exec_res_status_start_def Let_def\<close>)
  have 2: "execute_loop cb data (Suc p) (conf ?q s_res_status (Suc p) ?m u) =
      execute_loop cb data (Suc p + length cs) (conf ?q s_res_status (Suc p + length cs) ?m u)"
    by (rule exec_status_run [OF d1]) (use p r(2) c in simp_all)
  have cd: "callback_data cb data MarkStatus (Suc p + length cs) er (conf ?q s_res_line_almost_done a ?m u) g =
      g (conf ?q s_res_line_almost_done a no_marks u')" for er a and g :: "'a hp_run \<Rightarrow> 'a hp_out"
    using data_conf [of ?m MarkStatus p data reason "CR # LF # rest" "Suc p + length cs" cb ?q s_res_line_almost_done a u u' er g]
      d cb c by simp
  have 3: "execute_loop cb data (Suc p + length cs) (conf ?q s_res_status (Suc p + length cs) ?m u) =
      execute_loop cb data (Suc (Suc p + length cs)) (conf ?q s_res_line_almost_done (Suc (Suc p + length cs)) no_marks u')"
    by (rule exec_go [OF d2]) (use p cd c in \<open>simp_all add: exec_case_def exec_res_status_def\<close>)
  have 4: "execute_loop cb data (Suc (Suc p + length cs)) (conf ?q s_res_line_almost_done (Suc (Suc p + length cs)) no_marks u') =
      execute_loop cb data (Suc (Suc (Suc p + length cs))) (conf ?q s_header_field_start (Suc (Suc (Suc p + length cs))) no_marks u')"
    by (rule exec_go [OF d3]) (use p c in \<open>simp_all add: exec_case_def\<close>)
  show ?thesis using 1 2 3 4 by (simp add: c)
qed

section \<open>Whole responses\<close>

definition http_response_text :: "string \<Rightarrow> (string \<times> string) list \<Rightarrow> string \<Rightarrow> string" where
  "http_response_text line hs body = line @ [CR, LF] @ concat (map head_line hs) @ [CR, LF] @ body"

definition status_line_ok :: "nat \<Rightarrow> string \<Rightarrow> bool" where
  "status_line_ok n line \<longleftrightarrow> 13 < length line \<and> take 7 line = ''HTTP/1.'' \<and> is_number (line ! 7) \<and> line ! 8 = CHR '' '' \<and>
     is_number (line ! 9) \<and> is_number (line ! 10) \<and> is_number (line ! 11) \<and> n = status_number (line ! 9) (line ! 10) (line ! 11) \<and>
     line ! 12 = CHR '' '' \<and> (\<forall>c\<in>set (drop 13 line). c \<noteq> CR \<and> c \<noteq> LF)"

text \<open>
  The callbacks for a response. Without a body and without a length, the body lasts until the
  connection ends, except for statuses that have no body and for a change of protocol.
\<close>

definition response_events :: "nat \<Rightarrow> string \<Rightarrow> (string \<times> string) list \<Rightarrow> bool \<Rightarrow> string \<Rightarrow> parse_event list" where
  "response_events n reason hs upgrade body =
     [OnMessageBegin, OnStatus reason (of_nat n)] @ header_events hs @ [OnHeadersComplete 0] @
     (if body \<noteq> [] \<or> upgrade \<or> n div 100 = 1 \<or> n = 204 \<or> n = 304 then body_events body else [])"

lemma status_line_split:
  assumes "status_line_ok n line"
  obtains v a b c reason where "line = ''HTTP/1.'' @ [v] @ '' '' @ [a, b, c] @ '' '' @ reason" "is_number v" "is_number a" "is_number b"
    "is_number c" "n = status_number a b c" "reason = drop 13 line" "reason \<noteq> []" "\<forall>c\<in>set reason. c \<noteq> CR \<and> c \<noteq> LF"
proof -
  have l: "13 < length line" using assms by (simp add: status_line_ok_def)
  have "line = take 7 line @ line ! 7 # line ! 8 # line ! 9 # line ! 10 # line ! 11 # line ! 12 # drop 13 line"
  proof -
    have "line = take 7 line @ drop 7 line" by simp
    moreover have "drop 7 line = line ! 7 # drop 8 line" "drop 8 line = line ! 8 # drop 9 line" "drop 9 line = line ! 9 # drop 10 line"
      "drop 10 line = line ! 10 # drop 11 line" "drop 11 line = line ! 11 # drop 12 line" "drop 12 line = line ! 12 # drop 13 line"
      using l Cons_nth_drop_Suc [of 7 line] Cons_nth_drop_Suc [of 8 line] Cons_nth_drop_Suc [of 9 line] Cons_nth_drop_Suc [of 10 line]
        Cons_nth_drop_Suc [of 11 line] Cons_nth_drop_Suc [of 12 line] by simp_all
    ultimately show ?thesis by simp
  qed
  then show thesis
    using that [of "line ! 7" "line ! 9" "line ! 10" "line ! 11" "drop 13 line"] assms l by (simp add: status_line_ok_def)
qed

text \<open>The headers that ask for a change of protocol.\<close>

lemma upgrade_fields:
  "field_run (tl ''Upgrade'') (first_field_state (hd ''Upgrade''), 0) = (h_upgrade, 6)"
  "field_run (tl ''Connection'') (first_field_state (hd ''Connection''), 0) = (h_connection, 9)"
  by code_simp+

lemma header_step_upgrade: "\<exists>q'. header_step (''Upgrade'', v) q = Some q' \<and> F_UPGRADE \<in> hp_flags q'"
  unfolding header_step_def
  by (simp only: upgrade_fields split_conv) (simp add: value_begin_def value_run_general end_flags_def)

lemma header_step_connection: "\<exists>q'. header_step (''Connection'', ''Upgrade'') q = Some q' \<and> F_CONNECTION_UPGRADE \<in> hp_flags q'"
proof -
  have l: "LOWER CHR ''U'' = CHR ''u''" "LOWER CHR ''p'' = CHR ''p''" "LOWER CHR ''g'' = CHR ''g''" "LOWER CHR ''r'' = CHR ''r''"
    "LOWER CHR ''a'' = CHR ''a''" "LOWER CHR ''d'' = CHR ''d''" "LOWER CHR ''e'' = CHR ''e''" by code_simp+
  have "value_begin CHR ''U'' (q\<lparr>header_state := h_connection, hp_index := 9\<rparr>) =
      Some (q\<lparr>hp_index := 0, header_state := h_matching_connection_upgrade\<rparr>)" by (cases q) (simp add: value_begin_def l)
  moreover have "\<exists>i. value_run ''pgrade'' (h_matching_connection_upgrade, q\<lparr>hp_index := 0, header_state := h_matching_connection_upgrade\<rparr>) =
      Some (h_connection_upgrade, q\<lparr>hp_index := i, header_state := h_matching_connection_upgrade\<rparr>)"
    by (cases q) (simp add: value_char_def match_name_def c_at_def l Let_def)
  ultimately show ?thesis
    unfolding header_step_def by (simp only: upgrade_fields split_conv) (auto simp: end_flags_def)
qed

lemma headers_step_upgrade:
  assumes "\<forall>h\<in>set hs. header_text_ok h \<and> map token (fst h) \<notin> {''content-length'', ''transfer-encoding''}" "headers_step hs q = Some q'"
  shows "hp_flags q \<subseteq> hp_flags q' \<and> ((''Connection'', ''Upgrade'') \<in> set hs \<longrightarrow> F_CONNECTION_UPGRADE \<in> hp_flags q') \<and>
    (\<forall>v. (''Upgrade'', v) \<in> set hs \<longrightarrow> F_UPGRADE \<in> hp_flags q')"
  using assms
proof (induction hs arbitrary: q)
  case (Cons h hs)
  then obtain q1 where q1: "header_step h q = Some q1" "headers_step hs q1 = Some q'" by (auto simp: bind_eq_Some_conv)
  have ih: "hp_flags q1 \<subseteq> hp_flags q' \<and> ((''Connection'', ''Upgrade'') \<in> set hs \<longrightarrow> F_CONNECTION_UPGRADE \<in> hp_flags q') \<and>
      (\<forall>v. (''Upgrade'', v) \<in> set hs \<longrightarrow> F_UPGRADE \<in> hp_flags q')"
    by (rule Cons.IH [OF _ q1(2)]) (use Cons.prems(1) in simp)
  have sub: "hp_flags q \<subseteq> hp_flags q1" by (rule header_step_other [of h q]) (use Cons.prems(1) q1(1) in auto)
  have c: "h = (''Connection'', ''Upgrade'') \<longrightarrow> F_CONNECTION_UPGRADE \<in> hp_flags q1" using header_step_connection [of q] q1(1) by auto
  have u: "h = (''Upgrade'', v) \<longrightarrow> F_UPGRADE \<in> hp_flags q1" for v using header_step_upgrade [of v q] q1(1) by auto
  have head: "(x \<in> set (h # hs) \<longrightarrow> f \<in> hp_flags q')" if "h = x \<longrightarrow> f \<in> hp_flags q1" "x \<in> set hs \<longrightarrow> f \<in> hp_flags q'" for x f
    using that ih by auto
  show ?case
  proof (intro conjI allI)
    show "hp_flags q \<subseteq> hp_flags q'" using ih sub by blast
    show "(''Connection'', ''Upgrade'') \<in> set (h # hs) \<longrightarrow> F_CONNECTION_UPGRADE \<in> hp_flags q'" by (rule head [OF c]) (use ih in blast)
    show "(''Upgrade'', v) \<in> set (h # hs) \<longrightarrow> F_UPGRADE \<in> hp_flags q'" for v by (rule head [OF u]) (use ih in blast)
  qed
qed simp

lemma parse_response:
  assumes line: "status_line_ok n line" and hs: "\<forall>h\<in>set hs. header_text_ok h" "body_framed hs body"
    and t: "t = http_response_text line hs body" "length t \<le> max_header_size + length body" "length body < 2 ^ 32"
    and cb: "\<forall>up. run_events cb (response_events n (drop 13 line) hs up body) u = Some u'"
  shows "\<exists>q. http_parser_execute cb t (http_parser_init HTTP_RESPONSE) u = (length t, q, u') \<and> hp_errno q = HPE_OK \<and>
    (n \<noteq> 101 \<longrightarrow> \<not> hp_upgrade q) \<and>
    (n = 101 \<and> body = [] \<and> (''Connection'', ''Upgrade'') \<in> set hs \<and> (\<exists>v. (''Upgrade'', v) \<in> set hs) \<longrightarrow> hp_upgrade q)"
proof -
  obtain v a b c reason where l: "line = ''HTTP/1.'' @ [v] @ '' '' @ [a, b, c] @ '' '' @ reason" "is_number v" "is_number a" "is_number b"
    "is_number c" "n = status_number a b c" "reason = drop 13 line" "reason \<noteq> []" "\<forall>c\<in>set reason. c \<noteq> CR \<and> c \<noteq> LF"
    using status_line_split [OF line] .
  let ?H = "concat (map head_line hs)" and ?p = "13 + length reason + 2"
  have len: "length t = ?p + length ?H + 2 + length body" by (simp add: t(1) http_response_text_def l(1))
  have M: "?p + length ?H + 2 \<le> max_header_size" using t(2) len by simp
  have d0: "drop 0 t = ''HTTP/1.'' @ [v] @ '' '' @ [a, b, c] @ '' '' @ reason @ CR # LF # ?H @ CR # LF # body"
    by (simp add: t(1) http_response_text_def l(1))
  have d1: "drop 13 t = reason @ CR # LF # ?H @ CR # LF # body" by (simp add: t(1) http_response_text_def l(1))
  have d2: "drop ?p t = ?H @ CR # LF # body"
    using drop_text [of 13 t "reason @ [CR, LF]" "?H @ CR # LF # body"] d1 by simp
  have d3: "drop (?p + length ?H) t = CR # LF # body" using d2 by (rule drop_text)
  let ?tail = "\<lambda>up. if body \<noteq> [] \<or> up \<or> n div 100 = 1 \<or> n = 204 \<or> n = 304 then body_events body else []"
  have ev: "response_events n (drop 13 line) hs up body =
      [OnMessageBegin] @ [OnStatus reason (of_nat n)] @ header_events hs @ OnHeadersComplete 0 # ?tail up" for up
    by (simp add: response_events_def l(7))
  from cb [rule_format, of False] obtain u1 u2 u3 where e': "run_events cb [OnMessageBegin] u = Some u1"
    "run_events cb [OnStatus reason (of_nat n)] u1 = Some u2" and e: "run_events cb (header_events hs) u2 = Some u3"
    unfolding ev run_events_append bind_eq_Some_conv by blast
  have e3: "run_events cb (OnHeadersComplete 0 # ?tail up) u3 = Some u'" for up
    using cb [rule_format, of up] e' e unfolding ev run_events_append by simp
  have cc: "cb OnMessageBegin u = (0, u1)" "cb (OnStatus reason (of_nat n)) u1 = (0, u2)" using e' by (auto split: prod.splits if_splits)
  obtain q0 where q0: "execute_loop cb t 0 (conf (http_parser_init HTTP_RESPONSE) s_start_res 0 no_marks u) =
      execute_loop cb t 13 (conf q0 s_res_status_start 13 no_marks u1)"
    "hp_type q0 = HTTP_RESPONSE" "hp_method q0 = 0" "hp_flags q0 = {}" "content_length q0 = ULLONG_MAX" "hp_status q0 = n"
    using exec_status_start [where cb = cb, OF d0 l(2-5) cc(1) refl] l(6) by auto
  let ?q = "q0\<lparr>hp_index := 0\<rparr>"
  have 1: "execute_loop cb t 13 (conf q0 s_res_status_start 13 no_marks u1) =
      execute_loop cb t ?p (conf ?q s_header_field_start ?p no_marks u2)"
    by (rule exec_reason [where cb = cb, OF d1 l(8,9)]) (use M cc(2) q0(6) in auto)
  have "\<exists>q'. headers_step hs ?q = Some q' \<and> same_head ?q q' \<and>
      content_length q' = (if filter is_length hs = [] then content_length ?q else of_nat (length body)) \<and>
      hp_flags q' \<subseteq> hp_flags ?q \<union> conn_flags \<union> {F_CONTENTLENGTH} \<union> (if body = [] then {F_UPGRADE} else {})"
    by (rule headers_step_framed) (use hs t(3) q0(4) in \<open>auto simp: body_framed_def\<close>)
  then obtain q2 where q2: "headers_step hs ?q = Some q2" "same_head ?q q2"
    "content_length q2 = (if filter is_length hs = [] then ULLONG_MAX else of_nat (length body))"
    "hp_flags q2 \<subseteq> conn_flags \<union> {F_CONTENTLENGTH} \<union> (if body = [] then {F_UPGRADE} else {})" using q0(4,5) by auto
  have 2: "execute_loop cb t ?p (conf ?q s_header_field_start ?p no_marks u2) =
      execute_loop cb t (?p + length ?H) (conf q2 s_header_field_start (?p + length ?H) no_marks u3)"
    by (rule exec_headers [OF d2 hs(1) _ q2(1) e]) (use M in simp)
  have f: "hp_type q2 = HTTP_RESPONSE" "hp_method q2 = 0" "hp_status q2 = n" using q2(2) q0(2,3,6) by (simp_all add: same_head_def)
  have fl: "hp_flags q2 \<inter> {F_CHUNKED, F_TRAILING, F_SKIPBODY} = {}" "body \<noteq> [] \<Longrightarrow> F_UPGRADE \<notin> hp_flags q2"
    using q2(4) by (auto simp: conn_flags_def split: if_splits)
  have up: "says_upgrade q2" if "n = 101" "body = []" "(''Connection'', ''Upgrade'') \<in> set hs" "(''Upgrade'', v) \<in> set hs" for v
  proof -
    have "filter is_length hs = []" using hs(2) that(2) by (simp add: body_framed_def)
    then have "\<forall>h\<in>set hs. header_text_ok h \<and> map token (fst h) \<notin> {''content-length'', ''transfer-encoding''}"
      using hs by (auto simp: body_framed_def is_length_def filter_empty_conv)
    from headers_step_upgrade [OF this q2(1)] that show ?thesis by (auto simp: says_upgrade_def f)
  qed
  have "\<exists>q' s m. execute_loop cb t (?p + length ?H) (conf q2 s_header_field_start (?p + length ?H) no_marks u3) =
      (length t, conf q' s m no_marks u') \<and> hp_upgrade q' = says_upgrade q2"
  proof (cases "body = []")
    case True
    have d: "drop (?p + length ?H) t = [CR, LF]" using d3 True by simp
    have cl: "content_length q2 = ULLONG_MAX" using q2(3) hs(2) True by (simp add: body_framed_def)
    have "\<not> http_message_needs_eof q2 \<longleftrightarrow> n div 100 = 1 \<or> n = 204 \<or> n = 304"
      using fl(1) cl f by (auto simp: http_message_needs_eof_def)
    then have tail: "?tail (says_upgrade q2) = (if says_upgrade q2 \<or> \<not> http_message_needs_eof q2 then [OnMessageComplete] else [])"
      by (simp add: True body_events_def)
    have "run_events cb (OnHeadersComplete (hp_method q2) #
        (if says_upgrade q2 \<or> \<not> http_message_needs_eof q2 then [OnMessageComplete] else [])) u3 = Some u'"
      using e3 [of "says_upgrade q2"] unfolding tail f(2) .
    from exec_no_body [OF d M cl fl(1) this] show ?thesis by blast
  next
    case False
    then have "\<not> says_upgrade q2" using fl(2) f(2) by (simp add: says_upgrade_def)
    with exec_length_body [OF d3 M t(3) False _ fl(1), of cb u3 u'] show ?thesis
      using e3 [of False] f q2(3) hs(2) False by (auto simp: body_framed_def)
  qed
  then obtain q' s m where 3: "execute_loop cb t 0 (conf (http_parser_init HTTP_RESPONSE) s_start_res 0 no_marks u) =
      (length t, conf q' s m no_marks u')" "hp_upgrade q' = says_upgrade q2"
    unfolding q0(1) 1 2 by blast
  have i: "\<lparr>hp = http_parser_init HTTP_RESPONSE, hp_marks = initial_marks s_start_res, hp_user = u\<rparr> =
      conf (http_parser_init HTTP_RESPONSE) s_start_res 0 no_marks u"
    by (simp add: conf_def http_parser_init_def initial_marks_def fun_eq_iff)
  have "hp_errno (http_parser_init HTTP_RESPONSE) = HPE_OK" "hp_state (http_parser_init HTTP_RESPONSE) = s_start_res"
    by (simp_all add: http_parser_init_def)
  moreover have "t \<noteq> []" using len by auto
  moreover have "n \<noteq> 101 \<longrightarrow> \<not> says_upgrade q2" using f by (simp add: says_upgrade_def)
  ultimately show ?thesis using 3 up by (auto simp: http_parser_execute_def i)
qed

end
