(* ===== verification/Http_Server.thy ===== *)
theory Http_Server
  imports Http_Parser_Response Tcp_Connection
begin

text \<open>
  \<^verbatim>\<open>http/http_decoder.hpp\<close>, \<^verbatim>\<open>http_context.hpp\<close>, \<^verbatim>\<open>http_connection.hpp\<close> and \<^verbatim>\<open>http_factory.hpp\<close>: the
  callbacks that collect a message from the parser, and the connection that routes requests
  to handlers.
\<close>

section \<open>The decoder\<close>

record http_decoder =
  request_url :: string
  http_status :: string
  hd_body :: string
  http_path :: string
  http_query :: string
  hd_headers :: "(string \<times> string) list"
  parse_key :: string
  hd_url :: string
  hd_status :: u32
  hd_method :: nat
  hd_upgrade :: bool

definition http_decoder_new :: http_decoder where
  "http_decoder_new = \<lparr>request_url = [], http_status = [], hd_body = [], http_path = [], http_query = [], hd_headers = [],
     parse_key = [], hd_url = [], hd_status = 0, hd_method = 0, hd_upgrade = False\<rparr>"

text \<open>
  The callbacks for requests (True) and responses. The structure for the parts of the URL is
  not initialised; of its parts only those are read that the call has set.
\<close>

fun on_event :: "bool \<Rightarrow> http_decoder callbacks" where
  "on_event req (OnUrl s) d = (0, if req then d\<lparr>request_url := s, hd_url := s\<rparr> else d)"
| "on_event req (OnStatus s code) d = (0, if req then d else d\<lparr>http_status := s, hd_status := code\<rparr>)"
| "on_event req (OnField s) d = (0, d\<lparr>parse_key := s\<rparr>)"
| "on_event req (OnValue s) d = (0, d\<lparr>hd_headers := hd_headers d @ [(parse_key d, s)]\<rparr>)"
| "on_event req (OnHeadersComplete m) d =
     (if req then
        (case http_parser_parse_url (request_url d) False http_parser_url_init of
           None \<Rightarrow> (0, d)
         | Some u \<Rightarrow>
             if UF_PATH \<notin> field_set u then (-1, d)
             else
               (0, d\<lparr>http_path := field_text (request_url d) UF_PATH u,
                     http_query := (if UF_QUERY \<in> field_set u then field_text (request_url d) UF_QUERY u else http_query d),
                     hd_method := m\<rparr>))
      else (0, d))"
| "on_event req (OnBody s) d = (0, d\<lparr>hd_body := s\<rparr>)"
| "on_event req OnMessageBegin d = (0, d)"
| "on_event req OnMessageComplete d = (0, d)"
| "on_event req OnChunkHeader d = (0, d)"
| "on_event req OnChunkComplete d = (0, d)"

text \<open>\<^verbatim>\<open>parse_request\<close> and \<^verbatim>\<open>parse_response\<close>.\<close>

definition http_parse :: "bool \<Rightarrow> string \<Rightarrow> http_decoder \<Rightarrow> nat \<times> http_decoder" where
  "http_parse req s d =
     (case http_parser_execute (on_event req) s (http_parser_init (if req then HTTP_REQUEST else HTTP_RESPONSE)) d of
        (n, q, d) \<Rightarrow> (n, d\<lparr>hd_upgrade := hp_upgrade q\<rparr>))"

definition get_header :: "string \<Rightarrow> http_decoder \<Rightarrow> string" where
  "get_header key d = (case map_of (hd_headers d) key of Some v \<Rightarrow> v | None \<Rightarrow> [])"

section \<open>Routing\<close>

text \<open>
  A handler is given the request and the response, which it may write; its result is an
  \<^verbatim>\<open>int32_t\<close>. \<open>sent\<close> is the result of the connection's \<^verbatim>\<open>send\<close>, \<open>date\<close> the current time.
\<close>

type_synonym http_function = "http_decoder \<Rightarrow> HttpResponse \<Rightarrow> int \<times> HttpResponse"

record HttpHandler =
  http_handler :: "http_function option"
  context_handler :: "http_function option"

definition handler_call :: "string \<Rightarrow> int \<Rightarrow> HttpHandler \<Rightarrow> http_function" where
  "handler_call date sent h req rsp =
     (case context_handler h of
        Some f \<Rightarrow> f req rsp
      | None \<Rightarrow> (case http_handler h of Some f \<Rightarrow> f req rsp | None \<Rightarrow> response_write date sent rsp))"

definition text_bytes :: "string \<Rightarrow> bytes" where
  "text_bytes s = map (\<lambda>c. of_nat (of_char c)) s"

definition bytes_text :: "bytes \<Rightarrow> string" where
  "bytes_text b = map (\<lambda>x. char_of (unat x)) b"

definition send_text_act :: "string \<Rightarrow> sock_act" where
  "send_text_act s = ActSend [ArgString (text_bytes s)]"

text \<open>\<^verbatim>\<open>HttpConnection::write\<close> of a response.\<close>

definition http_write :: "string \<Rightarrow> bool \<Rightarrow> HttpResponse \<Rightarrow> sock_act list" where
  "http_write date connected rsp =
     (if connected then [send_text_act (encode_response date rsp)] else []) @ [ActClose]"

text \<open>
  \<^verbatim>\<open>HttpConnection::handle_data\<close>: what it sends and closes. The routes are a null pointer
  (None) or a table; a handler's writes go out while it runs.
\<close>

definition http_handle_data ::
  "string \<Rightarrow> int \<Rightarrow> bool \<Rightarrow> (string \<times> HttpHandler) list option \<Rightarrow> bytes \<Rightarrow> sock_act list" where
  "http_handle_data date sent connected routers data =
     (case http_parse True (bytes_text data) http_decoder_new of (msgLen, req) \<Rightarrow>
        if (of_nat msgLen :: u32) > 0 then
          (case routers of
             None \<Rightarrow> []
           | Some rs \<Rightarrow>
               (case map_of rs (http_path req) of
                  Some h \<Rightarrow>
                    (case handler_call date sent h req ((HttpResponse_new 0 [] [])\<lparr>rs_writer := True\<rparr>) of (rst, rsp) \<Rightarrow>
                       map send_text_act (rs_written rsp) @
                       (if rst < 0 then http_write date connected (HttpResponse_new 501 [] ''txt'') else []) @ [ActClose])
                | None \<Rightarrow> http_write date connected (HttpResponse_new 404 [] ''txt'') @ [ActClose]))
        else [])"

definition register_router :: "string \<Rightarrow> HttpHandler \<Rightarrow> (string \<times> HttpHandler) list \<Rightarrow> (string \<times> HttpHandler) list" where
  "register_router path h rs = AList.update path h rs"

definition register_http :: "string \<Rightarrow> http_function \<Rightarrow> (string \<times> HttpHandler) list \<Rightarrow> (string \<times> HttpHandler) list" where
  "register_http path f rs =
     (let h = (case map_of rs path of Some h \<Rightarrow> h | None \<Rightarrow> \<lparr>http_handler = None, context_handler = None\<rparr>)
      in AList.update path (h\<lparr>http_handler := Some f\<rparr>) rs)"

definition register_context :: "string \<Rightarrow> http_function \<Rightarrow> (string \<times> HttpHandler) list \<Rightarrow> (string \<times> HttpHandler) list" where
  "register_context path f rs =
     (let h = (case map_of rs path of Some h \<Rightarrow> h | None \<Rightarrow> \<lparr>http_handler = None, context_handler = None\<rparr>)
      in AList.update path (h\<lparr>context_handler := Some f\<rparr>) rs)"

text \<open>\<^verbatim>\<open>send_first_request\<close> of a client's connection.\<close>

definition send_first_request :: "HttpRequest option \<Rightarrow> sock_act list" where
  "send_first_request req = (case req of Some r \<Rightarrow> [send_text_act (encode_request r)] | None \<Rightarrow> [])"

section \<open>Texts and bytes\<close>

lemma bytes_text_inverse [simp]: "bytes_text (text_bytes s) = s"
  by (induction s) (simp_all add: bytes_text_def text_bytes_def unat_of_nat)

section \<open>Decoding what was encoded\<close>

lemma run_header_events:
  "run_events (on_event req) (header_events hs) d =
     Some (d\<lparr>hd_headers := hd_headers d @ hs, parse_key := (if hs = [] then parse_key d else fst (List.last hs))\<rparr>)"
  by (induction hs arbitrary: d) (auto simp: header_events_def)

lemma run_request_events:
  assumes "path_text path" "\<forall>q. query = Some q \<longrightarrow> query_text q" "length (url_text path query) < 65536"
  obtains d where "run_events (on_event True) (request_events (url_text path query) hs k body) http_decoder_new = Some d"
    "hd_url d = url_text path query" "http_path d = path" "http_query d = (case query of Some q \<Rightarrow> q | None \<Rightarrow> [])"
    "hd_headers d = hs" "hd_body d = body" "hd_method d = k"
proof -
  let ?u = "url_text path query"
  let ?d = "http_decoder_new\<lparr>request_url := ?u, hd_url := ?u, hd_headers := hs,
    parse_key := (if hs = [] then [] else fst (List.last hs))\<rparr>"
  let ?e = "?d\<lparr>http_path := path, http_query := (case query of Some q \<Rightarrow> q | None \<Rightarrow> []), hd_method := k\<rparr>"
  have "on_event True (OnHeadersComplete k) ?d = (0, ?e)"
    using parse_url_text [OF assms(1,2), of http_parser_url_init] text_fields_set [of path query http_parser_url_init]
      text_fields_path [OF assms(3)] text_fields_query [of path] assms(3)
    by (auto simp: http_decoder_new_def split: option.split)
  moreover have "run_events (on_event True) ([OnMessageBegin, OnUrl ?u] @ header_events hs) http_decoder_new = Some ?d"
    by (simp add: run_header_events http_decoder_new_def)
  moreover have "run_events (on_event True) (body_events body) ?e = Some (?e\<lparr>hd_body := body\<rparr>)"
    by (simp add: body_events_def http_decoder_new_def)
  ultimately have "run_events (on_event True) (request_events ?u hs k body) http_decoder_new = Some (?e\<lparr>hd_body := body\<rparr>)"
    unfolding request_events_def append_assoc [symmetric] by (simp only: run_events_append) simp
  then show thesis by (rule that) simp_all
qed

text \<open>A well-formed request of moderate size is decoded into its parts.\<close>

lemma request_decoded:
  assumes "k < 34" "k \<noteq> M_CONNECT" "path_text path" "\<forall>q. query = Some q \<longrightarrow> query_text q"
    "\<forall>h\<in>set hs. header_text_ok h" "body_framed hs body"
    "t = http_request_text (method_strings ! k) (url_text path query) hs body" "length t < 65536"
  obtains d where "http_parse True t http_decoder_new = (length t, d)"
    "hd_url d = url_text path query" "http_path d = path" "http_query d = (case query of Some q \<Rightarrow> q | None \<Rightarrow> [])"
    "hd_headers d = hs" "hd_body d = body" "hd_method d = k"
proof -
  have l: "length t \<le> max_header_size + length body" "length body < 2 ^ 32" "length (url_text path query) < 65536"
    using assms(7,8) by (simp_all add: http_request_text_def max_header_size_def)
  obtain d where d: "run_events (on_event True) (request_events (url_text path query) hs k body) http_decoder_new = Some d"
    "hd_url d = url_text path query" "http_path d = path" "http_query d = (case query of Some q \<Rightarrow> q | None \<Rightarrow> [])"
    "hd_headers d = hs" "hd_body d = body" "hd_method d = k" using run_request_events [OF assms(3,4) l(3)] .
  from parse_request [OF assms(1-7) l(1,2) d(1)] obtain q where
    "http_parser_execute (on_event True) t (http_parser_init HTTP_REQUEST) http_decoder_new = (length t, q, d)" by blast
  then have "http_parse True t http_decoder_new = (length t, d\<lparr>hd_upgrade := hp_upgrade q\<rparr>)" by (simp add: http_parse_def)
  then show thesis by (rule that) (simp_all add: d)
qed

section \<open>Requests of the library\<close>

text \<open>Calls that add only headers the parser passes on and that do not change the framing.\<close>

fun plain_call :: "body_call \<Rightarrow> bool" where
  "plain_call (CallHeader k v) \<longleftrightarrow> header_text_ok (k, v) \<and>
     map token k \<notin> {''transfer-encoding'', ''content-length'', ''upgrade''}"
| "plain_call (CallContent b t) \<longleftrightarrow> True"

definition body_plain :: "http_body \<Rightarrow> bool" where
  "body_plain m \<longleftrightarrow> length_ok m \<and> (\<forall>h\<in>set (http_headers m). header_text_ok h \<and>
     map token (fst h) \<notin> {''transfer-encoding'', ''upgrade''} \<and>
     (is_length h \<longrightarrow> content m \<noteq> [] \<and> h = (''Content-Length'', to_string (length (content m)))))"

lemma digit_value_text: "is_digit c \<Longrightarrow> value_text False c \<and> c \<noteq> CHR '' '' \<and> c \<noteq> TAB"
  by (auto simp: is_digit_def value_text_def is_header_char_def char_code_def)

lemma length_header_ok: "header_text_ok (''Content-Length'', to_string n)"
proof -
  have "\<forall>c\<in>set ''Content-Length''. is_token c" by code_simp
  moreover have "to_string n \<noteq> [] \<and> (\<forall>c\<in>set (to_string n). is_digit c)" using to_string_digits by blast
  ultimately show ?thesis using digit_value_text by (simp add: header_text_ok_def)
qed

lemma token_length: "map token ''Content-Length'' = ''content-length''"
  by code_simp

lemma body_plain_call:
  assumes "body_plain m" "plain_call c"
  shows "body_plain (run_call c m)"
proof (cases c)
  case (CallHeader k v)
  have "\<not> sets_length c" using assms(2) CallHeader token_length by (auto simp: sets_length_def)
  then have "length_ok (run_call c m)" using assms(1) length_ok_call by (simp add: body_plain_def)
  then show ?thesis
    using assms CallHeader by (auto simp: body_plain_def add_header_def set_map_put length_ok_def is_length_def)
next
  case (CallContent b t)
  have "length_ok (run_call c m)"
    by (rule length_ok_call) (use assms(1) CallContent in \<open>simp_all add: body_plain_def sets_length_def\<close>)
  then show ?thesis
    using assms(1) CallContent length_header_ok token_length
    by (auto simp: body_plain_def set_content_def add_header_def set_map_put length_ok_def is_length_def)
qed

lemma body_plain_calls: "\<forall>c\<in>set cs. plain_call c \<Longrightarrow> body_plain m \<Longrightarrow> body_plain (fold run_call cs m)"
  by (induction cs arbitrary: m) (simp_all add: body_plain_call)

lemma body_plain_new: "body_plain http_body_new"
  by (simp add: body_plain_def length_ok_new) (simp add: http_body_new_def)

lemma filter_one: "distinct xs \<Longrightarrow> (\<And>y. y \<in> set xs \<Longrightarrow> P y \<longleftrightarrow> y = x) \<Longrightarrow> filter P xs = (if x \<in> set xs then [x] else [])"
  by (induction xs) auto

lemma body_plain_framed:
  assumes "body_plain m"
  shows "body_framed (http_headers m) (content m)"
proof -
  let ?h = "(''Content-Length'', to_string (length (content m)))"
  have d: "distinct (http_headers m)"
    using assms strict_sorted_iff [of "map fst (http_headers m)"] by (auto simp: body_plain_def length_ok_def distinct_map)
  have "?h \<in> set (http_headers m) \<longleftrightarrow> content m \<noteq> []"
    using assms token_length by (force simp: body_plain_def length_ok_def is_length_def dest: map_of_SomeD)
  moreover have "filter is_length (http_headers m) = (if ?h \<in> set (http_headers m) then [?h] else [])"
    by (rule filter_one [OF d]) (use assms token_length in \<open>auto simp: body_plain_def is_length_def\<close>)
  ultimately show ?thesis using assms by (auto simp: body_framed_def body_plain_def)
qed

lemma encode_request_text:
  assumes "\<forall>h\<in>set (http_headers (rq_body r)). fst h \<noteq> []"
  shows "encode_request r =
    http_request_text (http_method_string (rq_method r)) (rq_url r) (http_headers (rq_body r)) (content (rq_body r))"
proof -
  have "sent_headers hs = hs" if "\<forall>h\<in>set hs. fst h \<noteq> []" for hs :: "(string \<times> string) list"
    using that by (simp add: sent_headers_def)
  then have "encode_headers (http_headers (rq_body r)) = concat (map head_line (http_headers (rq_body r)))"
    using assms by (simp add: encode_headers_lines head_line_def [abs_def] comp_def)
  then show ?thesis by (simp add: encode_request_def http_request_text_def crlf_def)
qed

lemma method_known:
  assumes "meth \<noteq> HTTP_CONNECT"
  obtains k where "k < 34" "k \<noteq> M_CONNECT" "http_method_string meth = method_strings ! k"
proof -
  have m: "''DELETE'' = method_strings ! 0" "''GET'' = method_strings ! 1" "''HEAD'' = method_strings ! 2" "''POST'' = method_strings ! 3"
    "''PUT'' = method_strings ! 4" "''OPTIONS'' = method_strings ! 6" "''TRACE'' = method_strings ! 7"
    by (simp_all add: method_strings_def)
  then show thesis
    using that [of 0] that [of 1] that [of 2] that [of 3] that [of 4] that [of 6] that [of 7] assms by (cases meth) simp_all
qed

lemma http_request_decoded:
  assumes "m = fold run_call cs http_body_new" "\<forall>c\<in>set cs. plain_call c" "meth \<noteq> HTTP_CONNECT"
    "path_text path" "\<forall>q. query = Some q \<longrightarrow> query_text q"
    "r = \<lparr>rq_body = m, rq_method = meth, rq_url = url_text path query\<rparr>" "length (encode_request r) < 65536"
  obtains d where "http_parse True (encode_request r) http_decoder_new = (length (encode_request r), d)"
    "hd_url d = url_text path query" "http_path d = path" "http_query d = (case query of Some q \<Rightarrow> q | None \<Rightarrow> [])"
    "hd_body d = content m" "http_method_str (hd_method d) = http_method_string meth"
    "\<forall>k. get_header k d = (case map_of (http_headers m) k of Some v \<Rightarrow> v | None \<Rightarrow> [])"
proof -
  have b: "body_plain m" using body_plain_calls [OF assms(2) body_plain_new] assms(1) by simp
  then have h: "\<forall>h\<in>set (http_headers m). header_text_ok h" by (simp add: body_plain_def)
  obtain k where k: "k < 34" "k \<noteq> M_CONNECT" "http_method_string meth = method_strings ! k" using method_known [OF assms(3)] .
  have "encode_request r = http_request_text (method_strings ! k) (url_text path query) (http_headers m) (content m)"
    using encode_request_text [of r] h assms(6) k(3) by (simp add: header_text_ok_def)
  from request_decoded [OF k(1,2) assms(4,5) h body_plain_framed [OF b] this assms(7)] obtain d where
    d: "http_parse True (encode_request r) http_decoder_new = (length (encode_request r), d)"
    "hd_url d = url_text path query" "http_path d = path" "http_query d = (case query of Some q \<Rightarrow> q | None \<Rightarrow> [])"
    "hd_headers d = http_headers m" "hd_body d = content m" "hd_method d = k" .
  have "http_method_str k = http_method_string meth" using k by (simp add: http_method_str_def method_strings_def)
  then show thesis using that [OF d(1-4,6)] d(5,7) by (simp add: get_header_def)
qed

section \<open>Responses of the library\<close>

lemma status_lines: "\<forall>(n, l)\<in>set status_table. status_line_ok n l"
  by code_simp

text \<open>The number in the status line.\<close>

definition sent_status :: "u32 \<Rightarrow> nat" where
  "sent_status code = (if unat code \<in> fst ` set status_table then unat code else 400)"

lemma status_string_ok: "status_line_ok (sent_status code) (status_string code)"
proof (cases "map_of status_table (unat code)")
  case None
  then have "sent_status code = 400" "status_string code = ''HTTP/1.0 400 Bad Request''"
    by (simp add: sent_status_def map_of_eq_None_iff, simp add: status_string_def)
  moreover have "status_line_ok 400 ''HTTP/1.0 400 Bad Request''" by code_simp
  ultimately show ?thesis by simp
next
  case (Some l)
  then have "(unat code, l) \<in> set status_table" by (rule map_of_SomeD)
  with Some show ?thesis using status_lines by (force simp: sent_status_def status_string_def)
qed

lemma run_response_events:
  "run_events (on_event False) (response_events n reason hs up body) http_decoder_new =
     Some (http_decoder_new\<lparr>http_status := reason, hd_status := of_nat n, hd_headers := hs,
       parse_key := (if hs = [] then [] else fst (List.last hs)), hd_body := body\<rparr>)"
  by (simp add: response_events_def run_events_append run_header_events body_events_def http_decoder_new_def)

definition response_headers :: "string \<Rightarrow> HttpResponse \<Rightarrow> (string \<times> string) list" where
  "response_headers date r = http_headers (rs_body r) @ [(''Server'', ''KNet Http Server v0.1''), (''Date'', date)]"

lemma response_framed:
  assumes "\<forall>h\<in>set (http_headers (rs_body r)). header_text_ok h" "body_framed (http_headers (rs_body r)) (content (rs_body r))"
    "header_text_ok (''Date'', date)"
  shows "\<forall>h\<in>set (response_headers date r). header_text_ok h" "body_framed (response_headers date r) (content (rs_body r))"
    "encode_response date r = http_response_text (status_string (rs_code r)) (response_headers date r) (content (rs_body r))"
proof -
  have "header_text_ok (''Server'', ''KNet Http Server v0.1'')" by code_simp
  then show "\<forall>h\<in>set (response_headers date r). header_text_ok h" using assms(1,3) by (simp add: response_headers_def)
  have "map token ''Server'' \<notin> {''content-length'', ''transfer-encoding'', ''upgrade''}"
    "map token ''Date'' \<notin> {''content-length'', ''transfer-encoding'', ''upgrade''}" by code_simp+
  then show "body_framed (response_headers date r) (content (rs_body r))"
    using assms(2) by (simp add: body_framed_def response_headers_def is_length_def ball_Un)
  have "sent_headers (http_headers (rs_body r)) = http_headers (rs_body r)"
    using assms(1) by (simp add: sent_headers_def header_text_ok_def)
  then show "encode_response date r = http_response_text (status_string (rs_code r)) (response_headers date r) (content (rs_body r))"
    by (simp add: encode_response_def http_response_text_def response_headers_def encode_headers_lines head_line_def [abs_def]
        header_line_def comp_def crlf_def)
qed

lemma response_decoded:
  assumes "\<forall>h\<in>set (http_headers (rs_body r)). header_text_ok h" "body_framed (http_headers (rs_body r)) (content (rs_body r))"
    "header_text_ok (''Date'', date)" "length (encode_response date r) < 65536"
  obtains d where "http_parse False (encode_response date r) http_decoder_new = (length (encode_response date r), d)"
    "hd_status d = of_nat (sent_status (rs_code r))" "hd_headers d = response_headers date r" "hd_body d = content (rs_body r)"
    "sent_status (rs_code r) \<noteq> 101 \<Longrightarrow> \<not> hd_upgrade d"
    "sent_status (rs_code r) = 101 \<Longrightarrow> content (rs_body r) = [] \<Longrightarrow> (''Connection'', ''Upgrade'') \<in> set (response_headers date r) \<Longrightarrow>
      (''Upgrade'', v) \<in> set (response_headers date r) \<Longrightarrow> hd_upgrade d"
proof -
  note f = response_framed [OF assms(1-3)]
  have l: "length (encode_response date r) \<le> max_header_size + length (content (rs_body r))" "length (content (rs_body r)) < 2 ^ 32"
    using assms(4) by (simp_all add: f(3) http_response_text_def max_header_size_def)
  let ?d = "http_decoder_new\<lparr>http_status := drop 13 (status_string (rs_code r)), hd_status := of_nat (sent_status (rs_code r)),
    hd_headers := response_headers date r, parse_key := ''Date'', hd_body := content (rs_body r)\<rparr>"
  have "\<forall>up. run_events (on_event False) (response_events (sent_status (rs_code r)) (drop 13 (status_string (rs_code r)))
      (response_headers date r) up (content (rs_body r))) http_decoder_new = Some ?d"
    by (simp add: run_response_events) (simp add: response_headers_def)
  from parse_response [OF status_string_ok f(1,2,3) l this] obtain q where
    q: "http_parser_execute (on_event False) (encode_response date r) (http_parser_init HTTP_RESPONSE) http_decoder_new =
      (length (encode_response date r), q, ?d)" "sent_status (rs_code r) \<noteq> 101 \<longrightarrow> \<not> hp_upgrade q"
    "sent_status (rs_code r) = 101 \<and> content (rs_body r) = [] \<and> (''Connection'', ''Upgrade'') \<in> set (response_headers date r) \<and>
      (\<exists>v. (''Upgrade'', v) \<in> set (response_headers date r)) \<longrightarrow> hp_upgrade q" by blast
  show thesis
  proof (rule that)
    show "http_parse False (encode_response date r) http_decoder_new = (length (encode_response date r), ?d\<lparr>hd_upgrade := hp_upgrade q\<rparr>)"
      by (simp add: http_parse_def q(1))
  qed (use q(2,3) in auto)
qed

text \<open>
  C30: responses are decoded. A response filled by calls that set ordinary headers and content is
  parsed to its end by the decoder of responses, with the number of its status line (400 for a
  code the library has no line for), all its headers in order, the server and date headers
  behind them, and its content; it never looks like a change of protocol, unless its code is
  101.
\<close>

theorem http_response_decoded:
  assumes "rs_body r = fold run_call cs http_body_new" "\<forall>c\<in>set cs. plain_call c" "header_text_ok (''Date'', date)"
    and "length (encode_response date r) < 65536"
  shows "\<exists>d. http_parse False (encode_response date r) http_decoder_new = (length (encode_response date r), d) \<and>
    hd_status d = of_nat (sent_status (rs_code r)) \<and> hd_body d = content (rs_body r) \<and>
    hd_headers d = http_headers (rs_body r) @ [(''Server'', ''KNet Http Server v0.1''), (''Date'', date)] \<and>
    (rs_code r \<noteq> 101 \<longrightarrow> \<not> hd_upgrade d)"
proof -
  have b: "body_plain (rs_body r)" using body_plain_calls [OF assms(2) body_plain_new] assms(1) by simp
  then have "\<forall>h\<in>set (http_headers (rs_body r)). header_text_ok h" by (simp add: body_plain_def)
  from response_decoded [OF this body_plain_framed [OF b] assms(3,4)] obtain d where
    d: "http_parse False (encode_response date r) http_decoder_new = (length (encode_response date r), d)"
    "hd_status d = of_nat (sent_status (rs_code r))" "hd_headers d = response_headers date r" "hd_body d = content (rs_body r)"
    "sent_status (rs_code r) \<noteq> 101 \<longrightarrow> \<not> hd_upgrade d" by blast
  have "sent_status (rs_code r) \<noteq> 101" if "rs_code r \<noteq> 101"
  proof -
    have "unat (rs_code r) \<noteq> 101" using that by (simp add: word_unat_eq_iff)
    then show ?thesis by (simp add: sent_status_def)
  qed
  with d show ?thesis by (auto simp: response_headers_def)
qed

theorem http_response_decoded_witness:
  "\<exists>d. http_parse False (encode_response ''today'' ((HttpResponse_new 200 [] [])\<lparr>rs_body := demo_body\<rparr>)) http_decoder_new = (93, d) \<and>
     hd_status d = of_nat (sent_status 200) \<and> hd_body d = ''hi''"
proof -
  let ?r = "(HttpResponse_new 200 [] [])\<lparr>rs_body := demo_body\<rparr>"
  have 1: "\<forall>c\<in>set demo_calls. plain_call c" "header_text_ok (''Date'', ''today'')" by code_simp+
  have 2: "length (encode_response ''today'' ?r) = 93" by code_simp
  have 3: "rs_body ?r = fold run_call demo_calls http_body_new" by (simp add: demo_body_def)
  show ?thesis
    using http_response_decoded [OF 3 1, unfolded 2] demo_body(1) by (auto simp: HttpResponse_new_def)
qed

section \<open>Requests are served\<close>

lemma encode_request_length: "0 < length (encode_request r)"
  by (simp add: encode_request_def crlf_def)



end
