(* ===== verification/Wsock_Frame.thy ===== *)
theory Wsock_Frame
  imports Tcp_Framing
begin

text \<open>
  WebSocket frames (\<^verbatim>\<open>websocket/wsock_connection.hpp\<close>, \<^verbatim>\<open>websocket/wsock_protocol.hpp\<close>):
  \<^verbatim>\<open>send_text\<close> with its three header forms and the masking of the payload, the package
  handler \<^verbatim>\<open>handle_package\<close> with \<^verbatim>\<open>get_message_length\<close>, and \<^verbatim>\<open>WSMessageReader::read\<close>.
  The lemmas show that a frame that was sent is cut and read back as the message it was made
  from, and how frames pass through the read buffer of the socket.
\<close>

section \<open>Sending a frame\<close>

datatype OpCode = ERROR_FRAME | CONTINUATION | TEXT_FRAME | BINARY_FRAME | WSOCK_CLOSE | PING | PONG

fun op_value :: "OpCode \<Rightarrow> u8" where
  "op_value ERROR_FRAME = 0xff"
| "op_value CONTINUATION = 0"
| "op_value TEXT_FRAME = 1"
| "op_value BINARY_FRAME = 2"
| "op_value WSOCK_CLOSE = 8"
| "op_value PING = 9"
| "op_value PONG = 0xa"

text \<open>
  Stores \<^verbatim>\<open>header[i] = v\<close> into a vector; a store past its end has no defined result.
\<close>

fun stores :: "(nat \<times> u8) list \<Rightarrow> bytes \<Rightarrow> bytes option" where
  "stores [] h = Some h"
| "stores ((i, v) # r) h = (if i < length h then stores r (h[i := v]) else None)"

text \<open>The byte \<^verbatim>\<open>(n >> k) & 0xff\<close> of a length.\<close>

definition len_byte :: "nat \<Rightarrow> u64 \<Rightarrow> u8" where
  "len_byte k n = ucast (drop_bit k n AND 0xff)"

definition ws_header :: "OpCode \<Rightarrow> bool \<Rightarrow> bytes \<Rightarrow> u64 \<Rightarrow> bytes option" where
  "ws_header op masked maskKey n =
     (let header = replicate (2 + (if n \<ge> 126 then 2 else 0) + (if n \<ge> 65536 then 6 else 0) +
                     (if masked then 4 else 0)) 0;
          payloadByte = (if masked then 0x80 else 0);
          key_at = (\<lambda>p. if masked then [(p, maskKey ! 0), (p + 1, maskKey ! 1), (p + 2, maskKey ! 2),
                                       (p + 3, maskKey ! 3)] else [])
      in stores ((0, 0x80 OR op_value op) #
           (if n < 126 then (1, len_byte 0 n OR payloadByte) # key_at 2
            else if n < 65535 then
              [(1, 126 OR payloadByte), (2, len_byte 8 n), (3, len_byte 0 n)] @ key_at 4
            else
              [(1, 127 OR payloadByte), (2, len_byte 56 n), (3, len_byte 48 n), (4, len_byte 40 n),
               (5, len_byte 32 n), (6, len_byte 24 n), (7, len_byte 16 n), (8, len_byte 8 n),
               (9, len_byte 0 n)] @ key_at 10)) header)"

text \<open>The masking loop, from index \<open>i\<close> on.\<close>

primrec xor_key :: "bytes \<Rightarrow> nat \<Rightarrow> bytes \<Rightarrow> bytes" where
  "xor_key maskKey i [] = []"
| "xor_key maskKey i (x # xs) = (x XOR maskKey ! (i mod 4)) # xor_key maskKey (Suc i) xs"

text \<open>
  The bytes of a frame. There are none where a store misses the header, and where the
  32-bit index of the masking loop never reaches the length.
\<close>

definition ws_frame :: "bytes \<Rightarrow> OpCode \<Rightarrow> bool \<Rightarrow> bytes \<Rightarrow> (bytes \<times> bytes) option" where
  "ws_frame maskKey op masked msg =
     (case ws_header op masked maskKey (of_nat (length msg)) of
        None \<Rightarrow> None
      | Some header \<Rightarrow>
          if masked then if length msg \<ge> 2 ^ 32 then None else Some (header, xor_key maskKey 0 msg)
          else Some (header, msg))"

definition send_text :: "bytes \<Rightarrow> bytes \<Rightarrow> OpCode \<Rightarrow> bool \<Rightarrow> 'c tcp_socket \<Rightarrow> (int \<times> 'c tcp_socket) option" where
  "send_text maskKey msg op masked s =
     map_option (\<lambda>(header, sendMsg). msend [ArgString header, ArgString sendMsg] s)
       (ws_frame maskKey op masked msg)"

section \<open>Finding the end of a frame\<close>

text \<open>Byte order of the network: the loads are little-endian and then swapped.\<close>

definition ntohs :: "u16 \<Rightarrow> u16" where
  "ntohs w = push_bit 8 w OR drop_bit 8 w"

definition ntohl :: "u32 \<Rightarrow> u32" where
  "ntohl w = push_bit 24 w OR push_bit 8 (w AND 0xff00) OR (drop_bit 8 w AND 0xff00) OR drop_bit 24 w"

definition ntohll :: "u64 \<Rightarrow> u64" where
  "ntohll x = push_bit 32 (ucast (ntohl (ucast (x AND 0xffffffff)))) OR ucast (ntohl (ucast (drop_bit 32 x)))"

definition sizeof_MinFrameHead :: nat where
  "sizeof_MinFrameHead = 16"

definition get_message_length :: "bytes \<Rightarrow> u32 \<Rightarrow> u64" where
  "get_message_length data len =
     (if unat len < sizeof_MinFrameHead then 0
      else
        let payloadMark = data ! 1 AND 0x7f;
            headSize = (if data ! 1 AND 0x80 = 0x80 then 2 + 4 else 2)
        in if payloadMark < 126 then headSize + ucast payloadMark
           else if payloadMark = 126 then headSize + 2 + ucast (ntohs (rd16 (drop 2 data)))
           else headSize + 8 + ntohll (rd64 (drop 2 data)))"

definition ws_handle_package :: "bytes \<Rightarrow> u32 \<Rightarrow> int" where
  "ws_handle_package data len =
     (let wsLen = get_message_length data len in
      if wsLen > ucast len then 0 else sint (ucast wsLen :: u32))"

section \<open>Reading a frame\<close>

text \<open>
  The reader keeps the fields of the head, and the counters of a message that spans several
  buffers; \<open>rsv1\<close> to \<open>rsv3\<close> and \<open>xlen\<close> of the head are never used.
\<close>

record ws_reader =
  wr_fin :: bool
  wr_opcode :: u8
  wr_len :: u8
  wr_mask :: bool
  buffer_size :: u64
  left_length :: u64
  payload_length :: u64
  wr_status :: u32

definition WSMessageReader :: "u32 \<Rightarrow> ws_reader" where
  "WSMessageReader bufSize =
     \<lparr>wr_fin = False, wr_opcode = 0, wr_len = 0, wr_mask = False, buffer_size = ucast bufSize,
      left_length = 0, payload_length = 0, wr_status = 0\<rparr>"

text \<open>
  What the message handler is called with: a view, its length and the memory it starts at.
  The payload of a masked frame is first copied to a string of reserved capacity, which
  throws above the largest size of a string, an argument here.
\<close>

datatype ws_error = LengthError

type_synonym view = "u64 \<times> bytes"

definition unmask :: "u64 \<Rightarrow> nat \<Rightarrow> nat \<Rightarrow> u64 \<Rightarrow> bytes \<Rightarrow> ws_error + view" where
  "unmask max_size keyPos payloadPos n pData =
     (if n > max_size then Inl LengthError
      else Inr (n, xor_key (drop keyPos pData) 0 (take (unat n) (drop payloadPos pData))))"

definition ws_return :: "ws_error + view \<Rightarrow> u64 \<Rightarrow> ws_reader \<Rightarrow> ws_error + view option \<times> u32 \<times> ws_reader" where
  "ws_return v ret r = (case v of Inl e \<Rightarrow> Inl e | Inr w \<Rightarrow> Inr (Some w, ucast ret, r))"

definition ws_read :: "u64 \<Rightarrow> bytes \<Rightarrow> u32 \<Rightarrow> ws_reader \<Rightarrow> ws_error + view option \<times> u32 \<times> ws_reader" where
  "ws_read max_size pData dataLen r =
     (if dataLen < 2 then Inr (None, 0, r)
      else if wr_status r = 0 then
        let r = r\<lparr>wr_fin := (pData ! 0 AND 0x80 = 0x80), wr_opcode := pData ! 0 AND 0x0f,
                  wr_len := pData ! 1 AND 0x7f, wr_mask := (pData ! 1 AND 0x80 = 0x80)\<rparr>;
            payloadMark = pData ! 1 AND 0x7f;
            masked = wr_mask r;
            maskSize = (if masked then 4 else 0)
        in if payloadMark < 126 then
             let n = ucast payloadMark
             in ws_return (if masked then unmask max_size 2 (2 + maskSize) n pData
                           else Inr (n, drop (2 + maskSize) pData))
                  (n + 2 + of_nat maskSize) (r\<lparr>payload_length := n\<rparr>)
           else if payloadMark = 126 then
             if dataLen < 4 then Inr (None, 0, r)
             else
               let n = ucast (ntohs (rd16 (drop 2 pData)));
                   r = r\<lparr>payload_length := n\<rparr>;
                   total = n + 4 + of_nat maskSize
               in if total > buffer_size r then
                    let ploadLen = (if buffer_size r - 4 > n then n else buffer_size r - 4)
                    in ws_return (if masked then unmask max_size 4 (4 + maskSize) ploadLen pData
                                  else Inr (ploadLen, drop (4 + maskSize) pData))
                         (ucast dataLen) (r\<lparr>left_length := total - buffer_size r\<rparr>)
                  else
                    ws_return (if masked then unmask max_size 4 (4 + maskSize) n pData
                               else Inr (n, drop (4 + maskSize) pData)) total r
           else
             if dataLen < 10 then Inr (None, 0, r)
             else
               let n = ntohll (rd64 (drop 2 pData));
                   r = r\<lparr>payload_length := n\<rparr>;
                   total = n + 10 + of_nat maskSize
               in if total > buffer_size r then
                    ws_return (Inr (buffer_size r - 10, drop 10 pData)) (ucast dataLen)
                      (r\<lparr>left_length := total - buffer_size r\<rparr>)
                  else
                    ws_return (if masked then unmask max_size 10 (10 + maskSize) n pData
                               else Inr (n, drop 10 pData)) total r
      else if wr_status r = 1 then
        if left_length r < ucast dataLen
        then Inr (Some (left_length r, pData), ucast (left_length r), r\<lparr>left_length := 0, payload_length := 0\<rparr>)
        else Inr (Some (ucast dataLen, pData), dataLen, r\<lparr>left_length := left_length r - ucast dataLen\<rparr>)
      else Inr (None, 0, r))"

text \<open>\<^verbatim>\<open>read_message\<close> copies the view to a string, if a message handler is set.\<close>

definition read_message :: "u64 \<Rightarrow> bool \<Rightarrow> view \<Rightarrow> ws_error + bytes option" where
  "read_message max_size has_handler v =
     (if has_handler then
        if fst v > max_size then Inl LengthError else Inr (Some (take (unat (fst v)) (snd v)))
      else Inr None)"

text \<open>\<^verbatim>\<open>read_websocket\<close>: the message handed to the user, the bytes consumed and the reader.\<close>

definition read_websocket :: "u64 \<Rightarrow> bool \<Rightarrow> bytes \<Rightarrow> u32 \<Rightarrow> ws_reader \<Rightarrow> ws_error + bytes option \<times> u32 \<times> ws_reader" where
  "read_websocket max_size has_handler data len r =
     (case ws_read max_size data len r of
        Inl e \<Rightarrow> Inl e
      | Inr (None, n, r) \<Rightarrow> Inr (None, n, r)
      | Inr (Some v, n, r) \<Rightarrow>
          (case read_message max_size has_handler v of Inl e \<Rightarrow> Inl e | Inr m \<Rightarrow> Inr (m, n, r)))"

section \<open>Masking and byte order\<close>

lemma length_xor_key [simp]: "length (xor_key k i xs) = length xs"
  by (induction xs arbitrary: i) simp_all

lemma xor_key_twice [simp]: "xor_key k i (xor_key k i xs) = xs"
  by (induction xs arbitrary: i) (simp_all add: xor.assoc)

lemma xor_key_prefix: "4 \<le> length k \<Longrightarrow> xor_key (k @ x) i xs = xor_key k i xs"
proof (induction xs arbitrary: i)
  case (Cons a xs)
  have "i mod 4 < length k" using Cons.prems by (simp add: less_le_trans [OF mod_less_divisor])
  then show ?case using Cons by (simp add: nth_append)
qed simp

lemma len_byte_bit [bit_simps]: "bit (len_byte k n) i \<longleftrightarrow> i < 8 \<and> bit n (k + i)"
proof -
  have m: "(0xff :: u64) = mask 8" by (simp add: mask_eq_exp_minus_1)
  show ?thesis unfolding len_byte_def m
    by (auto simp: bit_simps)
qed

lemma ff00: "(0xff00 :: u32) = push_bit 8 (mask 8)" by (simp add: push_bit_eq_mult mask_eq_exp_minus_1)
lemma ffffffff: "(0xffffffff :: u64) = mask 32" by (simp add: mask_eq_exp_minus_1)

lemma be16:
  assumes "n < 65536"
  shows "(ucast (ntohs (rd16 (len_byte 8 n # len_byte 0 n # x))) :: u64) = n"
proof (rule bit_word_eqI)
  fix i assume i: "i < LENGTH(64)"
  have z: "\<not> bit n i" if "16 \<le> i"
  proof -
    have "unat (take_bit 16 n) = unat n"
      using assms by (simp add: unsigned_take_bit_eq take_bit_nat_eq_self word_less_nat_alt)
    then have "n = take_bit 16 n" by (simp add: word_unat_eq_iff)
    then show ?thesis using that by (metis bit_take_bit_iff not_less)
  qed
  show "bit (ucast (ntohs (rd16 (len_byte 8 n # len_byte 0 n # x))) :: u64) i \<longleftrightarrow> bit n i"
    by (cases "i < 8"; cases "i < 16") (use z in \<open>auto simp: ntohs_def rd16_def bit_simps\<close>)
qed

lemma ntohl_rd32:
  "bit (ntohl (rd32 (a # b # c # d # x))) i \<longleftrightarrow>
    (if i < 8 then bit d i else if i < 16 then bit c (i - 8) else if i < 24 then bit b (i - 16)
     else if i < 32 then bit a (i - 24) else False)"
proof -
  have "i < 8 \<or> (8 \<le> i \<and> i < 16) \<or> (16 \<le> i \<and> i < 24) \<or> (24 \<le> i \<and> i < 32) \<or> 32 \<le> i" by auto
  then show ?thesis unfolding ntohl_def ff00
    by (elim disjE) (auto simp: rd32_def bit_simps dest: bit_imp_le_length)
qed

lemma be64:
  "ntohll (rd64 (len_byte 56 n # len_byte 48 n # len_byte 40 n # len_byte 32 n # len_byte 24 n # len_byte 16 n #
     len_byte 8 n # len_byte 0 n # x)) = n"
proof -
  let ?hi = "rd32 (len_byte 56 n # len_byte 48 n # len_byte 40 n # len_byte 32 n # len_byte 24 n # len_byte 16 n #
     len_byte 8 n # len_byte 0 n # x)"
  let ?lo = "rd32 (len_byte 24 n # len_byte 16 n # len_byte 8 n # len_byte 0 n # x)"
  have r: "rd64 (len_byte 56 n # len_byte 48 n # len_byte 40 n # len_byte 32 n # len_byte 24 n # len_byte 16 n #
     len_byte 8 n # len_byte 0 n # x) = ucast ?hi OR push_bit 32 (ucast ?lo)"
    by (simp add: rd64_def)
  have h: "(ucast ((ucast ?hi OR push_bit 32 (ucast ?lo) :: u64) AND 0xffffffff) :: u32) = ?hi"
    "(ucast (drop_bit 32 (ucast ?hi OR push_bit 32 (ucast ?lo) :: u64)) :: u32) = ?lo"
    unfolding ffffffff by (rule bit_word_eqI; auto simp: bit_simps dest: bit_imp_le_length)+
  show ?thesis unfolding r ntohll_def h
  proof (rule bit_word_eqI)
    fix i assume i: "i < LENGTH(64)"
    then have "i < 8 \<or> (8 \<le> i \<and> i < 16) \<or> (16 \<le> i \<and> i < 24) \<or> (24 \<le> i \<and> i < 32) \<or>
      (32 \<le> i \<and> i < 40) \<or> (40 \<le> i \<and> i < 48) \<or> (48 \<le> i \<and> i < 56) \<or> (56 \<le> i \<and> i < 64)" by auto
    then show "bit (push_bit 32 (ucast (ntohl ?hi)) OR ucast (ntohl ?lo) :: u64) i \<longleftrightarrow> bit n i"
      by (elim disjE) (auto simp: bit_simps ntohl_rd32 dest: bit_imp_le_length)
  qed
qed


section \<open>The bytes of a header\<close>

definition ws_ext :: "u64 \<Rightarrow> bytes" where
  "ws_ext n =
     (if n < 126 then []
      else if n < 65535 then [len_byte 8 n, len_byte 0 n]
      else [len_byte 56 n, len_byte 48 n, len_byte 40 n, len_byte 32 n, len_byte 24 n, len_byte 16 n,
            len_byte 8 n, len_byte 0 n])"

definition ws_mark :: "u64 \<Rightarrow> u8" where
  "ws_mark n = (if n < 126 then len_byte 0 n else if n < 65535 then 126 else 127)"

definition ws_head_bytes :: "OpCode \<Rightarrow> bool \<Rightarrow> bytes \<Rightarrow> u64 \<Rightarrow> bytes" where
  "ws_head_bytes op masked maskKey n =
     [0x80 OR op_value op, ws_mark n OR (if masked then 0x80 else 0)] @ ws_ext n @ (if masked then maskKey else [])"

lemma stores_zip:
  "p + length vs \<le> length h \<Longrightarrow>
    stores (zip [p..<p + length vs] vs) h = Some (take p h @ vs @ drop (p + length vs) h)"
proof (induction vs arbitrary: p h)
  case (Cons v vs)
  have "stores (zip [Suc p..<Suc p + length vs] vs) (h[p := v]) =
      Some (take (Suc p) (h[p := v]) @ vs @ drop (Suc p + length vs) (h[p := v]))"
    using Cons.prems by (intro Cons.IH) simp
  then show ?case using Cons.prems
    by (simp add: upt_conv_Cons take_Suc_conv_app_nth del: upt_Suc)
qed simp

lemma stores_all: "length vs = length h \<Longrightarrow> stores (zip [0..<length vs] vs) h = Some vs"
  using stores_zip [of 0 vs h] by simp

lemma key4: "length k = 4 \<Longrightarrow> k = [k ! 0, k ! 1, k ! 2, k ! 3]"
  by (cases k; cases "tl k"; cases "tl (tl k)"; cases "tl (tl (tl k))") auto

lemma ws_header_value:
  assumes "length maskKey = 4" "n \<noteq> 65535"
  shows "ws_header op masked maskKey n = Some (ws_head_bytes op masked maskKey n)"
proof -
  obtain a b c d where k: "maskKey = [a, b, c, d]" using key4 [OF assms(1)] by blast
  let ?h = "ws_head_bytes op masked maskKey n"
  have n: "n < 126 \<and> \<not> 126 \<le> n \<and> \<not> 65536 \<le> n \<or>
      126 \<le> n \<and> \<not> n < 126 \<and> n < 65535 \<and> \<not> 65536 \<le> n \<or>
      126 \<le> n \<and> \<not> n < 126 \<and> 65536 \<le> n \<and> \<not> n < 65535"
    using assms(2) by (auto simp: not_less not_le word_less_nat_alt word_le_nat_alt word_unat_eq_iff)
  then have "ws_header op masked maskKey n = stores (zip [0..<length ?h] ?h) (replicate (length ?h) 0)"
    by (elim disjE; cases masked)
      (simp_all add: ws_header_def ws_head_bytes_def ws_ext_def ws_mark_def k upt_rec eval_nat_numeral del: stores.simps)
  then show ?thesis by (simp add: stores_all)
qed

lemma ws_header_none: "ws_header op masked maskKey 65535 = None"
  by (cases masked) (simp_all add: ws_header_def)


section \<open>Reading back what was sent\<close>

lemma mark_bits:
  assumes "w < (128 :: u8)"
  shows "(w OR 0x80) AND 0x7f = w" "w AND 0x7f = w" "(w OR 0x80) AND 0x80 = 0x80" "w AND 0x80 = 0"
proof -
  have "unat (take_bit 7 w) = unat w"
    using assms by (simp add: unsigned_take_bit_eq take_bit_nat_eq_self word_less_nat_alt)
  then show low: "w AND 0x7f = w"
    by (simp add: word_unat_eq_iff take_bit_eq_mask mask_eq_exp_minus_1)
  have "w AND 0x80 = w AND (0x7f AND 0x80)" by (simp only: low and.assoc [symmetric])
  then show high: "w AND 0x80 = 0" by simp
  show "(w OR 0x80) AND 0x7f = w" "(w OR 0x80) AND 0x80 = 0x80"
    using low high by (simp_all add: and.commute bit.conj_disj_distrib)
qed

lemma len_byte0: "n < 256 \<Longrightarrow> (ucast (len_byte 0 n) :: u64) = n"
proof -
  assume "n < 256"
  then have "unat (take_bit 8 n) = unat n"
    by (simp add: unsigned_take_bit_eq take_bit_nat_eq_self word_less_nat_alt)
  then have "take_bit 8 n = n" by (simp add: word_unat_eq_iff)
  then have b: "bit n i \<Longrightarrow> i < 8" for i by (metis bit_take_bit_iff)
  show ?thesis by (rule bit_word_eqI) (auto simp: bit_simps dest: b)
qed

lemma ws_mark_small: "n < 126 \<Longrightarrow> unat (ws_mark n) = unat n"
proof -
  assume n: "n < 126"
  have "unat (len_byte 0 n) < 2 ^ 64" 
    using unsigned_less [of "len_byte 0 n", where 'a = nat] by simp
  then show ?thesis
    using arg_cong [OF len_byte0 [of n], of unat] n
    by (simp add: ws_mark_def word_less_nat_alt unsigned_ucast_eq take_bit_nat_eq_self)
qed

lemma ws_mark_cases:
  "ws_mark n < 126 \<longleftrightarrow> n < 126" "ws_mark n = 126 \<longleftrightarrow> 126 \<le> n \<and> n < 65535" "ws_mark n < 128"
  using ws_mark_small [of n]
  by (auto simp: word_less_nat_alt word_le_nat_alt ws_mark_def word_unat_eq_iff not_less)

definition ws_wire :: "bytes \<Rightarrow> OpCode \<Rightarrow> bool \<Rightarrow> bytes \<Rightarrow> bytes" where
  "ws_wire maskKey op masked msg =
     ws_head_bytes op masked maskKey (of_nat (length msg)) @ (if masked then xor_key maskKey 0 msg else msg)"

definition ws_sendable :: "bytes \<Rightarrow> bool" where
  "ws_sendable msg \<longleftrightarrow> length msg < 2 ^ 32 \<and> length msg \<noteq> 65535"

lemma ws_frame_value:
  assumes "length maskKey = 4" "ws_sendable msg"
  shows "ws_frame maskKey op masked msg = Some (ws_head_bytes op masked maskKey (of_nat (length msg)),
     if masked then xor_key maskKey 0 msg else msg)"
proof -
  have "unat (of_nat (length msg) :: u64) = length msg"
    using assms(2) by (intro unat_of_nat64) (simp add: ws_sendable_def)
  then have "(of_nat (length msg) :: u64) \<noteq> 65535"
    using assms(2) by (auto simp: ws_sendable_def word_unat_eq_iff simp del: unat_of_nat)
  then show ?thesis using assms by (simp add: ws_frame_def ws_header_value ws_sendable_def)
qed

lemma length_ws_head: "length (ws_head_bytes op masked maskKey n) =
    2 + length (ws_ext n) + (if masked then length maskKey else 0)"
  by (simp add: ws_head_bytes_def)

lemma length_ws_wire: "length (ws_wire maskKey op masked msg) =
    2 + length (ws_ext (of_nat (length msg))) + (if masked then length maskKey else 0) + length msg"
  by (simp add: ws_wire_def length_ws_head)

lemma ws_wire_bytes:
  "ws_wire maskKey op masked msg = (0x80 OR op_value op) # (ws_mark (of_nat (length msg)) OR (if masked then 0x80 else 0)) #
     ws_ext (of_nat (length msg)) @ (if masked then maskKey @ xor_key maskKey 0 msg else msg)"
  by (simp add: ws_wire_def ws_head_bytes_def)

lemma ws_head_fields:
  fixes n :: u64 and masked :: bool
  defines "b \<equiv> ws_mark n OR (if masked then 0x80 else 0)"
  shows "b AND 0x7f = ws_mark n" "b AND 0x80 = 0x80 \<longleftrightarrow> masked"
  using mark_bits [OF ws_mark_cases(3), of n] by (simp_all add: b_def)

lemma get_message_length_wire:
  assumes "length maskKey = 4" "16 \<le> unat len"
  shows "get_message_length (ws_wire maskKey op masked msg @ rest) len = of_nat (length (ws_wire maskKey op masked msg))"
proof -
  let ?n = "of_nat (length msg) :: u64"
  have "?n < 126 \<or> (126 \<le> ?n \<and> \<not> ?n < 126 \<and> ?n < 65535) \<or> (126 \<le> ?n \<and> \<not> ?n < 126 \<and> \<not> ?n < 65535)"
    by (auto simp: not_less)
  then show ?thesis
  proof (elim disjE)
    assume "?n < 126"
    moreover have "ucast (ws_mark ?n) = ?n"
      using len_byte0 [of ?n] \<open>?n < 126\<close> by (simp add: ws_mark_def word_less_nat_alt)
    ultimately show ?thesis using assms
      by (simp add: get_message_length_def ws_wire_bytes ws_head_fields ws_mark_cases length_ws_head
          sizeof_MinFrameHead_def ws_ext_def)
  next
    assume n: "126 \<le> ?n \<and> \<not> ?n < 126 \<and> ?n < 65535"
    then have "?n < 65536" by (simp add: word_less_nat_alt)
    with n show ?thesis using assms be16 [of ?n]
      by (simp add: get_message_length_def ws_wire_bytes ws_head_fields ws_mark_cases length_ws_head
          sizeof_MinFrameHead_def ws_ext_def)
  next
    assume "126 \<le> ?n \<and> \<not> ?n < 126 \<and> \<not> ?n < 65535"
    then show ?thesis using assms be64 [of ?n]
      by (simp add: get_message_length_def ws_wire_bytes ws_head_fields ws_mark_cases length_ws_head
          sizeof_MinFrameHead_def ws_ext_def)
  qed
qed


lemma ws_handle_package_wire:
  assumes "length maskKey = 4" "n < 2 ^ 31"
    and "length (ws_wire maskKey op masked msg) \<le> n"
  shows "ws_handle_package (ws_wire maskKey op masked msg @ rest) (of_nat n) =
    (if n < 16 then 0 else int (length (ws_wire maskKey op masked msg)))"
proof (cases "n < 16")
  case True
  then show ?thesis
    using assms(2) by (simp add: ws_handle_package_def get_message_length_def sizeof_MinFrameHead_def unat_of_nat32)
next
  case False
  let ?k = "length (ws_wire maskKey op masked msg)"
  have n: "unat (of_nat n :: u32) = n" using assms(2) by (intro unat_of_nat32) simp
  have k: "unat (of_nat ?k :: u64) = ?k" using assms(2,3) by (intro unat_of_nat64) simp
  have "\<not> ucast (of_nat n :: u32) < (of_nat ?k :: u64)"
    using assms(2,3) by (simp add: word_less_nat_alt k unsigned_ucast_eq n take_bit_nat_eq_self)
  moreover have "sint (ucast (of_nat ?k :: u64) :: u32) = int ?k"
    using assms(2,3) sint_of_nat_small [of ?k] by (simp add: unsigned_of_nat take_bit_nat_eq_self)
  ultimately show ?thesis
    using get_message_length_wire [OF assms(1), of "of_nat n" op masked msg rest] False n
    by (simp add: ws_handle_package_def Let_def)
qed

text \<open>
  The cases of \<^verbatim>\<open>read\<close> that a frame of at most the buffer size takes.
\<close>

lemma ws_read_small:
  assumes "pData = x # (m OR (if masked then 0x80 else 0)) # rest" "m < 126" "2 \<le> dataLen" "wr_status r = 0"
  shows "\<exists>r'. ws_read max_size pData dataLen r =
      ws_return (if masked then unmask max_size 2 6 (ucast m) pData else Inr (ucast m, rest))
        (ucast m + 2 + (if masked then 4 else 0)) r' \<and> wr_status r' = 0 \<and> buffer_size r' = buffer_size r"
proof -
  have "m < 128" using assms(2) by (simp add: word_less_nat_alt)
  note b = mark_bits [OF this]
  show ?thesis
    using assms b by (cases masked) (auto simp: ws_read_def Let_def not_less [symmetric] word_of_nat_eq_0_iff)
qed


lemma ws_read_medium:
  assumes "pData = x # (126 OR (if masked then 0x80 else 0)) # rest" "4 \<le> dataLen" "wr_status r = 0"
    and "n = ucast (ntohs (rd16 rest))" "n + 4 + (if masked then 4 else 0) \<le> buffer_size r"
  shows "\<exists>r'. ws_read max_size pData dataLen r =
      ws_return (if masked then unmask max_size 4 8 n pData else Inr (n, drop 2 rest))
        (n + 4 + (if masked then 4 else 0)) r' \<and> wr_status r' = 0 \<and> buffer_size r' = buffer_size r"
proof -
  have "\<not> dataLen < 2" "\<not> dataLen < 4" using assms(2) by (auto simp: word_less_nat_alt word_le_nat_alt)
  then show ?thesis
    using assms mark_bits [of 126] by (cases masked) (auto simp: ws_read_def Let_def not_less [symmetric])
qed

lemma ucast_of_nat64: "(ucast (of_nat k :: u64) :: u32) = of_nat k"
  by (simp add: unsigned_of_nat word_of_nat_eq_iff)

lemma ws_read_wire:
  assumes key: "length maskKey = 4" and fit: "length (ws_wire maskKey op masked msg) \<le> 4096"
    and max: "4096 \<le> max_size" and r: "wr_status r = 0" "buffer_size r = 4096"
  shows "\<exists>r'. ws_read max_size (ws_wire maskKey op masked msg @ rest)
        (of_nat (length (ws_wire maskKey op masked msg))) r =
      Inr (Some (of_nat (length msg), msg @ (if masked then [] else rest)),
        of_nat (length (ws_wire maskKey op masked msg)), r') \<and> wr_status r' = 0 \<and> buffer_size r' = 4096"
proof -
  let ?n = "of_nat (length msg) :: u64" and ?w = "ws_wire maskKey op masked msg"
  let ?p = "if masked then maskKey @ xor_key maskKey 0 msg else msg"
  have l: "length msg \<le> 4094" using fit by (simp add: length_ws_wire)
  have n: "unat ?n = length msg" using l by (intro unat_of_nat64) simp
  have small: "\<not> max_size < ?n" using max l n by (simp add: word_le_nat_alt not_less)
  have w: "unat (of_nat (length ?w) :: u32) = length ?w" using fit by (intro unat_of_nat32) simp
  have x: "xor_key (maskKey @ y) 0 (xor_key maskKey 0 msg) = msg" for y
    using xor_key_prefix [of maskKey y] key by simp
  have "?n < 126 \<or> (126 \<le> ?n \<and> \<not> ?n < 126 \<and> ?n < 65535)"
    using l n by (auto simp: word_less_nat_alt word_le_nat_alt)
  then show ?thesis
  proof (elim disjE)
    assume a: "?n < 126"
    have m: "ucast (ws_mark ?n) = ?n"
      using len_byte0 [of ?n] a by (simp add: ws_mark_def word_less_nat_alt)
    have "?w @ rest = (0x80 OR op_value op) # (ws_mark ?n OR (if masked then 0x80 else 0)) # ?p @ rest"
      using a by (simp add: ws_wire_bytes ws_ext_def)
    moreover have "ws_mark ?n < 126" using a by (simp add: ws_mark_cases)
    moreover have "2 \<le> (of_nat (length ?w) :: u32)" 
      using w by (simp only: word_le_nat_alt) (simp add: length_ws_wire)
    ultimately obtain r' where r': "ws_read max_size (?w @ rest) (of_nat (length ?w)) r =
      ws_return (if masked then unmask max_size 2 6 ?n (?w @ rest) else Inr (?n, ?p @ rest))
        (?n + 2 + (if masked then 4 else 0)) r'" "wr_status r' = 0" "buffer_size r' = 4096"
      using ws_read_small [of "?w @ rest" _ "ws_mark ?n" masked "?p @ rest"] r m by metis
    moreover have "?n + 2 + (if masked then 4 else 0) = of_nat (length ?w)"
      using key a by (simp add: length_ws_wire ws_ext_def)
    ultimately show ?thesis using key small n x a
      by (intro exI [of _ r']) (simp add: ws_return_def unmask_def ucast_of_nat64, simp add: ws_wire_bytes ws_ext_def)
  next
    assume a: "126 \<le> ?n \<and> \<not> ?n < 126 \<and> ?n < 65535"
    have e: "ws_ext ?n = [len_byte 8 ?n, len_byte 0 ?n]" "ws_mark ?n = 126"
      using a by (simp_all add: ws_ext_def ws_mark_def)
    let ?rest = "len_byte 8 ?n # len_byte 0 ?n # ?p @ rest"
    have "?w @ rest = (0x80 OR op_value op) # (126 OR (if masked then 0x80 else 0)) # ?rest"
      by (simp add: ws_wire_bytes e)
    moreover have "4 \<le> (of_nat (length ?w) :: u32)" 
      using w by (simp only: word_le_nat_alt) (simp add: length_ws_wire e)
    moreover have b: "?n = ucast (ntohs (rd16 ?rest))" using be16 [of ?n] a by (simp add: word_less_nat_alt)
    moreover have "?n + 4 + (if masked then 4 else 0) \<le> buffer_size r"
    proof -
      have "?n + 4 + (if masked then 4 else 0) = of_nat (length msg + 4 + (if masked then 4 else 0))" by simp
      moreover have "unat (of_nat (length msg + 4 + (if masked then 4 else 0)) :: u64) =
          length msg + 4 + (if masked then 4 else 0)" using l by (intro unat_of_nat64) simp
      ultimately show ?thesis 
        using fit key r(2) by (simp only: word_le_nat_alt) (auto simp: length_ws_wire e)
    qed
    ultimately obtain r' where r': "ws_read max_size (?w @ rest) (of_nat (length ?w)) r =
      ws_return (if masked then unmask max_size 4 8 ?n (?w @ rest) else Inr (?n, drop 2 ?rest))
        (?n + 4 + (if masked then 4 else 0)) r'" "wr_status r' = 0" "buffer_size r' = 4096"
      using ws_read_medium [of "?w @ rest" _ masked ?rest] r by metis
    moreover have "?n + 4 + (if masked then 4 else 0) = of_nat (length ?w)"
      using key by (simp add: length_ws_wire e)
    ultimately show ?thesis using key small n x
      by (intro exI [of _ r']) (simp add: ws_return_def unmask_def ucast_of_nat64, simp add: ws_wire_bytes e)
  qed
qed

lemma read_websocket_wire:
  assumes "length maskKey = 4" "length (ws_wire maskKey op masked msg) \<le> 4096"
    and "4096 \<le> max_size" "wr_status r = 0" "buffer_size r = 4096"
  shows "\<exists>r'. read_websocket max_size True (ws_wire maskKey op masked msg @ rest)
        (of_nat (length (ws_wire maskKey op masked msg))) r =
      Inr (Some msg, of_nat (length (ws_wire maskKey op masked msg)), r') \<and> wr_status r' = 0 \<and> buffer_size r' = 4096"
proof -
  have l: "length msg \<le> 4094" using assms(2) by (simp add: length_ws_wire)
  then have n: "unat (of_nat (length msg) :: u64) = length msg" by (intro unat_of_nat64) simp
  then have "\<not> max_size < of_nat (length msg)" using assms(3) l by (simp add: word_le_nat_alt not_less)
  then show ?thesis
    using ws_read_wire [OF assms, of rest] n by (auto simp: read_websocket_def read_message_def)
qed


section \<open>The properties of frames\<close>



text \<open>
  C40: \<^verbatim>\<open>send_text\<close> has a defined result for every message shorter than 4 GB except those of
  exactly 65535 bytes, for which the header is too short for the form that is stored into
  it; otherwise an open socket takes exactly the bytes of the frame.
\<close>

theorem wsock_send_text:
  assumes "length maskKey = 4" "length msg < 2 ^ 32"
  shows "case send_text maskKey msg op masked s of
      None \<Rightarrow> length msg = 65535
    | Some (n, s') \<Rightarrow> length msg \<noteq> 65535 \<and>
        (is_open s \<and> length (send_buffer s) + length msg + 14 < 2 ^ 32 \<longrightarrow>
          h_accepted s' = h_accepted s @ ws_wire maskKey op masked msg)"
proof (cases "length msg = 65535")
  case True
  then show ?thesis by (simp add: send_text_def ws_frame_def ws_header_none)
next
  case False
  let ?h = "ws_head_bytes op masked maskKey (of_nat (length msg))"
  let ?p = "if masked then xor_key maskKey 0 msg else msg"
  have "h_accepted (snd (msend [ArgString ?h, ArgString ?p] s)) = h_accepted s @ ws_wire maskKey op masked msg"
    if "is_open s" "length (send_buffer s) + length msg + 14 < 2 ^ 32"
  proof -
    have lh: "0 < length ?h" "length ?h \<le> 14" using assms(1) by (simp_all add: length_ws_head ws_ext_def)
    have "unat (of_nat (length (send_buffer s @ ?h)) :: u32) = length (send_buffer s @ ?h)"
      using that lh by (intro unat_of_nat32) simp
    then have "0 < (of_nat (length (send_buffer s @ ?h)) :: u32)"
      using lh by (simp only: word_less_nat_alt) simp
    then show ?thesis using that(1)
      by (simp add: msend_def ws_wire_def do_send_def split: prod.splits del: length_append)
  qed
  then show ?thesis
    using False assms by (auto simp: send_text_def ws_frame_value ws_sendable_def split: prod.splits)
qed


text \<open>
  A batch of whole frames in the read buffer. The loop of \<^verbatim>\<open>process_data\<close> delivers any
  sequence of packages that the handler recognises.
\<close>

lemma process_loop_complete:
  assumes pp: "\<And>m n c. process_package ops m n c = (handler m n, c)"
    and frames: "\<forall>f\<in>set fs. f \<noteq> [] \<and> (\<forall>rest. handler (f @ rest) (of_nat pos) = int (length f))"
    and "has_conn s" "pos \<le> length (read_buffer s)" "rp \<le> pos"
    and "take (pos - rp) (drop rp (read_buffer s)) = concat fs"
  shows "\<exists>t. process_loop ops pos rp s = (False, pos, t) \<and> h_packages t = h_packages s @ fs"
  using assms(2-)
proof (induction fs arbitrary: rp s)
  case Nil
  then have "rp = pos" by (auto dest!: arg_cong [of _ _ length])
  then show ?case by (simp add: process_loop.simps [of ops pos pos])
next
  case (Cons f fs)
  let ?mem = "drop rp (read_buffer s)"
  have mem: "?mem = f @ concat fs @ drop (pos - rp) ?mem"
    using Cons.prems(5) append_take_drop_id [of "pos - rp" ?mem] by simp
  have len: "length f + length (concat fs) = pos - rp"
    using arg_cong [OF Cons.prems(5), of length] Cons.prems(3) by simp
  have f: "f \<noteq> []" "handler ?mem (of_nat pos) = int (length f)" "take (length f) ?mem = f"
    using Cons.prems(1) mem by (metis list.set_intros(1), metis list.set_intros(1) append.assoc, metis append_eq_conv_conj)
  have rp: "rp < pos" using len f(1) by (cases f) simp_all
  define t where "t = raise_data ops f s"
  have t: "read_buffer t = read_buffer s" "has_conn t = has_conn s"
    using cb_ext_fields [OF cb_ext_data [of s ops f]] by (simp_all add: t_def)
  have hp: "h_packages t = h_packages s @ [f]"
    unfolding t_def raise_data_def by (simp add: run_callback_packages)
  have "take (pos - (rp + length f)) (drop (rp + length f) (read_buffer t)) = concat fs"
    using arg_cong [OF Cons.prems(5), of "drop (length f)"] t
    by (simp add: drop_take add.commute)
  moreover have "rp + length f \<le> pos" using len rp by linarith
  ultimately obtain u where u: "process_loop ops pos (rp + length f) t = (False, pos, u)" "h_packages u = h_packages t @ fs"
    using Cons.IH [of t "rp + length f"] Cons.prems t by auto
  have "int (length f) \<le> int pos - int rp" using len rp by linarith
  then have "process_loop ops pos rp s = process_loop ops pos (rp + length f) t"
    using rp Cons.prems(2) pp f by (simp add: process_loop.simps [of ops pos rp s] t_def Let_def)
  then show ?case using u hp by simp
qed

text \<open>
  A read that fills the buffer with whole frames delivers exactly these frames to the
  connection, and each gives the user its message, as soon as the buffer holds at least 16
  bytes; below that nothing is delivered and the bytes wait in the buffer.
\<close>

theorem wsock_batch_delivered:
  assumes pp: "\<And>m n c. process_package ops m n c = (ws_handle_package m n, c)"
    and "\<forall>(k, op, masked, msg)\<in>set ms. length k = 4 \<and> length (ws_wire k op masked msg) \<le> 4096"
    and "fs = map (\<lambda>(k, op, masked, msg). ws_wire k op masked msg) ms"
    and "has_conn s" "read_buffer_pos s = 0" "length d \<le> kReadBufferSize" "length d \<le> length (read_buffer s)"
    and "take (length d) (read_buffer s) = d" "d = concat fs"
    and "process_data ops (length d) s = (ok, t)" "4096 \<le> max_size"
  shows "if 16 \<le> length d
    then ok \<and> h_packages t = h_packages s @ fs \<and> read_buffer_pos t = 0 \<and>
      (\<forall>i<length ms. \<exists>r'. read_websocket max_size True (fs ! i) (of_nat (length (fs ! i))) (WSMessageReader 4096) =
         Inr (Some (snd (snd (snd (ms ! i)))), of_nat (length (fs ! i)), r'))
    else ok \<and> h_packages t = h_packages s \<and> take (read_buffer_pos t) (read_buffer t) = d"
proof (cases "16 \<le> length d")
  case True
  let ?s = "s\<lparr>read_buffer_pos := read_buffer_pos s + length d\<rparr>"
  have frames: "\<forall>f\<in>set fs. f \<noteq> [] \<and> (\<forall>rest. ws_handle_package (f @ rest) (of_nat (length d)) = int (length f))"
  proof
    fix f assume f: "f \<in> set fs"
    then obtain k op masked msg where m: "(k, op, masked, msg) \<in> set ms" "f = ws_wire k op masked msg"
      using assms(3) by auto
    have "length f \<le> length d" using f assms(9) by (auto simp: in_set_conv_decomp)
    then show "f \<noteq> [] \<and> (\<forall>rest. ws_handle_package (f @ rest) (of_nat (length d)) = int (length f))"
      using ws_handle_package_wire [of k "length d" op masked msg] assms(2,6) m True length_ws_wire [of k op masked msg]
      by (auto simp: kReadBufferSize_def)
  qed
  have "take (length d - 0) (drop 0 (read_buffer ?s)) = concat fs" using assms(8,9) by simp
  then obtain u where u: "process_loop ops (length d) 0 ?s = (False, length d, u)" "h_packages u = h_packages s @ fs"
    using process_loop_complete [where ops = ops and s = ?s and rp = 0, OF pp frames] assms(4,7) by auto
  have "read_buffer_pos u = length d"
    using cb_ext_fields [OF cb_ext_loop [of ?s ops "length d" 0]] u(1) assms(4,5) by simp
  then have "ok" "h_packages t = h_packages s @ fs" "read_buffer_pos t = 0"
    using assms(5,10) u by (auto simp: process_data_def Let_def)
  moreover have "\<exists>r'. read_websocket max_size True (fs ! i) (of_nat (length (fs ! i))) (WSMessageReader 4096) =
      Inr (Some (snd (snd (snd (ms ! i)))), of_nat (length (fs ! i)), r')" if i: "i < length ms" for i
  proof -
    obtain k op masked msg where m: "ms ! i = (k, op, masked, msg)" by (cases "ms ! i")
    then have "length k = 4" "length (ws_wire k op masked msg) \<le> 4096"
      using assms(2) nth_mem [OF i] by auto
    then show ?thesis
      using read_websocket_wire [of k op masked msg max_size "WSMessageReader 4096" "[]"] assms(3,11) i m
      by (auto simp: WSMessageReader_def)
  qed
  ultimately show ?thesis using True by simp
next
  case False
  let ?s = "s\<lparr>read_buffer_pos := read_buffer_pos s + length d\<rparr>"
  have z: "ws_handle_package m (of_nat (length d)) = 0" for m
    using False unat_of_nat32 [of "length d"]
    by (simp add: ws_handle_package_def get_message_length_def sizeof_MinFrameHead_def)
  have "process_loop ops (length d) 0 ?s = (False, 0, ?s)"
    by (simp add: process_loop.simps [of ops "length d" 0] pp z)
  then have "ok" "t = ?s\<lparr>read_buffer := (if 0 < length d then blit (read_buffer s) 0 d else read_buffer s)\<rparr>"
    using assms(5,8,10) by (auto simp: process_data_def Let_def)
  then show ?thesis using False assms(5,8) by (auto simp: blit_def)
qed


text \<open>The witness: two frames, an unmasked and a masked one, arrive in one read.\<close>

definition demo_frames :: "(bytes \<times> OpCode \<times> bool \<times> bytes) list" where
  "demo_frames = [([0, 0, 0, 0], TEXT_FRAME, False, [1, 2, 3, 4, 5, 6, 7, 8]), ([1, 2, 3, 4], BINARY_FRAME, True, [0x68, 0x69])]"

definition ws_ops :: "unit conn_ops" where
  "ws_ops = default_ops\<lparr>process_package := \<lambda>m n c. (ws_handle_package m n, c)\<rparr>"

definition ws_arrived :: "unit tcp_socket" where
  "ws_arrived = TcpSocket_init True (concat (map (\<lambda>(k, op, masked, msg). ws_wire k op masked msg) demo_frames) @ [0, 0]) ()"

lemma demo_frames_bytes:
  "map (\<lambda>(k, op, masked, msg). ws_wire k op masked msg) demo_frames =
     [[0x81, 8, 1, 2, 3, 4, 5, 6, 7, 8], [0x82, 0x82, 1, 2, 3, 4, 0x69, 0x6b]]"
  by (simp add: demo_frames_def ws_wire_bytes ws_ext_def ws_mark_def len_byte_def)

theorem wsock_batch_delivered_witness:
  "fst (process_data ws_ops 18 ws_arrived) \<and>
   h_packages (snd (process_data ws_ops 18 ws_arrived)) =
     [[0x81, 8, 1, 2, 3, 4, 5, 6, 7, 8], [0x82, 0x82, 1, 2, 3, 4, 0x69, 0x6b]] \<and>
   (\<exists>r'. read_websocket 4096 True [0x81, 8, 1, 2, 3, 4, 5, 6, 7, 8] 10 (WSMessageReader 4096) = Inr (Some [1, 2, 3, 4, 5, 6, 7, 8], 10, r'))"
proof -
  let ?d = "[0x81, 8, 1, 2, 3, 4, 5, 6, 7, 8, 0x82, 0x82, 1, 2, 3, 4, 0x69, 0x6b] :: bytes"
  have pp: "process_package ws_ops m n c = (ws_handle_package m n, c)" for m n c by (simp add: ws_ops_def)
  have facts: "\<forall>(k, op, masked, msg)\<in>set demo_frames. length k = 4 \<and> length (ws_wire k op masked msg) \<le> 4096"
    "has_conn ws_arrived" "read_buffer_pos ws_arrived = 0" "read_buffer ws_arrived = ?d @ [0, 0]"
    "h_packages ws_arrived = []"
    by (simp_all add: demo_frames_def length_ws_wire ws_ext_def ws_arrived_def TcpSocket_init_def
        demo_frames_bytes [unfolded demo_frames_def, simplified])
  let ?fs = "[[0x81, 8, 1, 2, 3, 4, 5, 6, 7, 8], [0x82, 0x82, 1, 2, 3, 4, 0x69, 0x6b]] :: bytes list"
  have l: "length ?d = 18" by simp
  have d: "?d = concat ?fs" by simp
  obtain ok t where t: "process_data ws_ops 18 ws_arrived = (ok, t)" by fastforce
  then have t': "process_data ws_ops (length ?d) ws_arrived = (ok, t)" unfolding l .
  have k: "length ?d \<le> kReadBufferSize" "length ?d \<le> length (read_buffer ws_arrived)"
    "take (length ?d) (read_buffer ws_arrived) = ?d"
    by (simp_all add: facts kReadBufferSize_def)
  have m: "(4096 :: u64) \<le> 4096" "16 \<le> length ?d" by simp_all
  note r = wsock_batch_delivered [where ops = ws_ops, OF pp facts(1) demo_frames_bytes [symmetric] facts(2,3) k d t' m(1),
      unfolded if_P [OF m(2)]]
  have ms: "length demo_frames = 2" "demo_frames ! 0 = ([0, 0, 0, 0], TEXT_FRAME, False, [1, 2, 3, 4, 5, 6, 7, 8])"
    by (simp_all add: demo_frames_def)
  from r have "\<exists>r'. read_websocket 4096 True (?fs ! 0) (of_nat (length (?fs ! 0))) (WSMessageReader 4096) =
      Inr (Some (snd (snd (snd (demo_frames ! 0)))), of_nat (length (?fs ! 0)), r')"
    by (elim conjE allE [of _ 0]) (simp add: ms)
  then show ?thesis using r t facts(5) by (simp add: ms)
qed

theorem wsock_send_text_witness:
  "case send_text [1, 2, 3, 4] [0x68, 0x69] TEXT_FRAME True ((TcpSocket_init True [] ())\<lparr>socket_status := SOCKET_OPEN\<rparr>) of
      None \<Rightarrow> False | Some (n, s') \<Rightarrow> h_accepted s' = [0x81, 0x82, 1, 2, 3, 4, 0x69, 0x6b]"
  using wsock_send_text [of "[1, 2, 3, 4]" "[0x68, 0x69]" "(TcpSocket_init True [] ())\<lparr>socket_status := SOCKET_OPEN\<rparr>" TEXT_FRAME True]
  by (auto simp: is_open_def TcpSocket_init_def ws_wire_bytes ws_ext_def ws_mark_def len_byte_def split: option.splits)

text \<open>
  The length of a frame is computed modulo \<open>2 ^ 64\<close>: a frame that announces
  \<open>2 ^ 64 - 1\<close> bytes passes as a package of 13 bytes, and reading it throws.
\<close>

lemma ws_huge_length_throws:
  assumes "max_size < 0xffffffffffffffff"
  defines "f \<equiv> [0x82, 0xff, 0xff, 0xff, 0xff, 0xff, 0xff, 0xff, 0xff, 0xff, 0, 0, 0, 0, 0, 0]"
  shows "ws_handle_package f 16 = 13" "read_websocket max_size True f 13 (WSMessageReader 4096) = Inl LengthError"
  using assms(1)
  by (simp_all add: f_def ws_handle_package_def get_message_length_def sizeof_MinFrameHead_def ntohll_def ntohl_def
      rd64_def rd32_def read_websocket_def ws_read_def WSMessageReader_def unmask_def ws_return_def)

end
