(* ===== verification/Wsock_Handshake.thy ===== *)
theory Wsock_Handshake
  imports Knet_Prelude
begin

text \<open>
  \<^verbatim>\<open>websocket/wsock_shakehand.hpp\<close>: the accept key of the WebSocket handshake. The code
  computes SHA-1 with five rotating registers and a schedule of sixteen words updated in
  place, unrolled by templates, and two base64 encoders. The theory states SHA-1 and base64
  as their standards do and shows that the code computes them.
\<close>

section \<open>The code\<close>

definition rol :: "u32 \<Rightarrow> nat \<Rightarrow> u32" where
  "rol v bits = push_bit bits v OR drop_bit (32 - bits) v"

definition blk :: "u32 list \<Rightarrow> nat \<Rightarrow> u32" where
  "blk b i = rol (b ! ((i + 13) mod 16) XOR b ! ((i + 8) mod 16) XOR b ! ((i + 2) mod 16) XOR b ! i) 1"

text \<open>\<^verbatim>\<open>Sha1Loop<state>::f<i>(a, b)\<close>.\<close>

definition Sha1Loop_f :: "nat \<Rightarrow> nat \<Rightarrow> u32 list \<times> u32 list \<Rightarrow> u32 list \<times> u32 list" where
  "Sha1Loop_f state i ab =
     (let a = fst ab; b = snd ab in
      if state = 1 then
        let a = a[i mod 5 := a ! (i mod 5) +
                  (((a ! ((3 + i) mod 5) AND (a ! ((2 + i) mod 5) XOR a ! ((1 + i) mod 5))) XOR a ! ((1 + i) mod 5)) +
                   b ! i + 0x5a827999 + rol (a ! ((4 + i) mod 5)) 5)]
        in (a[(3 + i) mod 5 := rol (a ! ((3 + i) mod 5)) 30], b)
      else if state = 2 then
        let b = b[i := blk b i];
            a = a[(1 + i) mod 5 := a ! ((1 + i) mod 5) +
                  (((a ! ((4 + i) mod 5) AND (a ! ((3 + i) mod 5) XOR a ! ((2 + i) mod 5))) XOR a ! ((2 + i) mod 5)) +
                   b ! i + 0x5a827999 + rol (a ! ((5 + i) mod 5)) 5)]
        in (a[(4 + i) mod 5 := rol (a ! ((4 + i) mod 5)) 30], b)
      else if state = 3 then
        let b = b[(i + 4) mod 16 := blk b ((i + 4) mod 16)];
            a = a[i mod 5 := a ! (i mod 5) +
                  ((a ! ((3 + i) mod 5) XOR a ! ((2 + i) mod 5) XOR a ! ((1 + i) mod 5)) +
                   b ! ((i + 4) mod 16) + 0x6ed9eba1 + rol (a ! ((4 + i) mod 5)) 5)]
        in (a[(3 + i) mod 5 := rol (a ! ((3 + i) mod 5)) 30], b)
      else if state = 4 then
        let b = b[(i + 8) mod 16 := blk b ((i + 8) mod 16)];
            a = a[i mod 5 := a ! (i mod 5) +
                  ((((a ! ((3 + i) mod 5) OR a ! ((2 + i) mod 5)) AND a ! ((1 + i) mod 5)) OR
                    (a ! ((3 + i) mod 5) AND a ! ((2 + i) mod 5))) +
                   b ! ((i + 8) mod 16) + 0x8f1bbcdc + rol (a ! ((4 + i) mod 5)) 5)]
        in (a[(3 + i) mod 5 := rol (a ! ((3 + i) mod 5)) 30], b)
      else if state = 5 then
        let b = b[(i + 12) mod 16 := blk b ((i + 12) mod 16)];
            a = a[i mod 5 := a ! (i mod 5) +
                  ((a ! ((3 + i) mod 5) XOR a ! ((2 + i) mod 5) XOR a ! ((1 + i) mod 5)) +
                   b ! ((i + 12) mod 16) + 0xca62c1d6 + rol (a ! ((4 + i) mod 5)) 5)]
        in (a[(3 + i) mod 5 := rol (a ! ((3 + i) mod 5)) 30], b)
      else (a, b[i := b ! i + a ! (4 - i)]))"

primrec static_for :: "nat \<Rightarrow> nat \<Rightarrow> u32 list \<times> u32 list \<Rightarrow> u32 list \<times> u32 list" where
  "static_for 0 state ab = ab"
| "static_for (Suc n) state ab = Sha1Loop_f state n (static_for n state ab)"

definition sha1 :: "u32 list \<Rightarrow> u32 list \<Rightarrow> u32 list" where
  "sha1 hash b =
     (let ab = ([hash ! 4, hash ! 3, hash ! 2, hash ! 1, hash ! 0], b);
          ab = static_for 16 1 ab;
          ab = static_for 4 2 ab;
          ab = static_for 20 3 ab;
          ab = static_for 20 4 ab;
          ab = static_for 20 5 ab
      in snd (static_for 5 6 (fst ab, hash)))"

section \<open>SHA-1 as FIPS 180-4 defines it\<close>

function schedule :: "u32 list \<Rightarrow> nat \<Rightarrow> u32" where
  "schedule m t =
     (if t < 16 then m ! t
      else rol (schedule m (t - 3) XOR schedule m (t - 8) XOR schedule m (t - 14) XOR schedule m (t - 16)) 1)"
  by pat_completeness auto

termination
  by (relation "measure snd") auto

declare schedule.simps [simp del]

definition round_fun :: "nat \<Rightarrow> u32 \<Rightarrow> u32 \<Rightarrow> u32 \<Rightarrow> u32" where
  "round_fun t x y z =
     (if t < 20 then (x AND y) XOR (NOT x AND z)
      else if t < 40 then x XOR y XOR z
      else if t < 60 then (x AND y) XOR (x AND z) XOR (y AND z)
      else x XOR y XOR z)"

definition round_const :: "nat \<Rightarrow> u32" where
  "round_const t = (if t < 20 then 0x5a827999 else if t < 40 then 0x6ed9eba1 else if t < 60 then 0x8f1bbcdc else 0xca62c1d6)"

type_synonym sha_regs = "u32 \<times> u32 \<times> u32 \<times> u32 \<times> u32"

fun sha_round :: "u32 list \<Rightarrow> nat \<Rightarrow> sha_regs \<Rightarrow> sha_regs" where
  "sha_round m t (a, b, c, d, e) =
     (rol a 5 + round_fun t b c d + e + round_const t + schedule m t, a, rol b 30, c, d)"

primrec sha_rounds :: "u32 list \<Rightarrow> nat \<Rightarrow> sha_regs \<Rightarrow> sha_regs" where
  "sha_rounds m 0 r = r"
| "sha_rounds m (Suc t) r = sha_round m t (sha_rounds m t r)"

definition sha_compress :: "u32 list \<Rightarrow> u32 list \<Rightarrow> u32 list" where
  "sha_compress h m =
     (case sha_rounds m 80 (h ! 0, h ! 1, h ! 2, h ! 3, h ! 4) of (a, b, c, d, e) \<Rightarrow>
        [h ! 0 + a, h ! 1 + b, h ! 2 + c, h ! 3 + d, h ! 4 + e])"

section \<open>The rounds of the code\<close>

text \<open>One round as the templates write it, at the global round number.\<close>

definition code_round :: "nat \<Rightarrow> u32 list \<times> u32 list \<Rightarrow> u32 list \<times> u32 list" where
  "code_round t ab =
     (let a = fst ab;
          b = (if t < 16 then snd ab else (snd ab)[t mod 16 := blk (snd ab) (t mod 16)]);
          a = a[t mod 5 := a ! (t mod 5) +
                (round_fun t (a ! ((t + 3) mod 5)) (a ! ((t + 2) mod 5)) (a ! ((t + 1) mod 5)) +
                 b ! (t mod 16) + round_const t + rol (a ! ((t + 4) mod 5)) 5)]
      in (a[(t + 3) mod 5 := rol (a ! ((t + 3) mod 5)) 30], b))"

lemma choose_alt: "(x AND (y XOR z)) XOR z = (x AND y) XOR (NOT x AND z)" for x y z :: u32
  by (rule bit_word_eqI) (auto simp: bit_simps)

lemma majority_alt: "((x OR y) AND z) OR (x AND y) = (x AND y) XOR (x AND z) XOR (y AND z)" for x y z :: u32
  by (rule bit_word_eqI) (auto simp: bit_simps)

lemma Sha1Loop_1: "i < 16 \<Longrightarrow> Sha1Loop_f 1 i ab = code_round i ab"
  by (simp add: Sha1Loop_f_def code_round_def choose_alt round_fun_def round_const_def Let_def add.commute)


lemma mod_shift: "x = y + k * n \<Longrightarrow> x mod n = y mod n" for x y k n :: nat
  by simp

lemma Sha1Loop_2:
  assumes "i < 4"
  shows "Sha1Loop_f 2 i ab = code_round (16 + i) ab"
proof -
  have idx: "(16 + i) mod 5 = (1 + i) mod 5" "(16 + i + 3) mod 5 = (4 + i) mod 5" "(16 + i + 2) mod 5 = (3 + i) mod 5"
    "(16 + i + 1) mod 5 = (2 + i) mod 5" "(16 + i + 4) mod 5 = (5 + i) mod 5" "(16 + i) mod 16 = i"
    using assms by (simp_all add: mod_shift [where k = 3 and n = 5])
  show ?thesis
    unfolding Sha1Loop_f_def code_round_def idx using assms
    by (simp add: choose_alt round_fun_def round_const_def Let_def)
qed

lemma shift_index:
  fixes k i off :: nat
  assumes "off = 20 * k"
  shows "(off + i) mod 5 = i mod 5" "(off + i + 3) mod 5 = (3 + i) mod 5" "(off + i + 2) mod 5 = (2 + i) mod 5"
    "(off + i + 1) mod 5 = (1 + i) mod 5" "(off + i + 4) mod 5 = (4 + i) mod 5"
  unfolding assms by (rule mod_shift [where k = "4 * k"], simp)+

lemma Sha1Loop_3:
  assumes "i < 20"
  shows "Sha1Loop_f 3 i ab = code_round (20 + i) ab"
proof -
  have m: "(20 + i) mod 16 = (i + 4) mod 16" by (rule mod_shift [where k = 1]) simp
  have o: "20 = 20 * (1 :: nat)" by simp
  show ?thesis
    unfolding Sha1Loop_f_def code_round_def shift_index [OF o] m using assms
    by (simp add: round_fun_def round_const_def Let_def)
qed

lemma Sha1Loop_4:
  assumes "i < 20"
  shows "Sha1Loop_f 4 i ab = code_round (40 + i) ab"
proof -
  have m: "(40 + i) mod 16 = (i + 8) mod 16" by (rule mod_shift [where k = 2]) simp
  have o: "40 = 20 * (2 :: nat)" by simp
  show ?thesis
    unfolding Sha1Loop_f_def code_round_def shift_index [OF o] m using assms
    by (simp add: majority_alt round_fun_def round_const_def Let_def)
qed

lemma Sha1Loop_5:
  assumes "i < 20"
  shows "Sha1Loop_f 5 i ab = code_round (60 + i) ab"
proof -
  have m: "(60 + i) mod 16 = (i + 12) mod 16" by (rule mod_shift [where k = 3]) simp
  have o: "60 = 20 * (3 :: nat)" by simp
  show ?thesis
    unfolding Sha1Loop_f_def code_round_def shift_index [OF o] m using assms
    by (simp add: round_fun_def round_const_def Let_def)
qed

primrec code_rounds :: "nat \<Rightarrow> u32 list \<times> u32 list \<Rightarrow> u32 list \<times> u32 list" where
  "code_rounds 0 ab = ab"
| "code_rounds (Suc t) ab = code_round t (code_rounds t ab)"

lemma static_for_rounds:
  assumes "\<And>i ab. i < n \<Longrightarrow> Sha1Loop_f state i ab = code_round (off + i) ab"
  shows "static_for n state (code_rounds off ab) = code_rounds (off + n) ab"
  using assms by (induction n) simp_all

lemma all_rounds:
  "static_for 20 5 (static_for 20 4 (static_for 20 3 (static_for 4 2 (static_for 16 1 ab)))) = code_rounds 80 ab"
proof -
  have "static_for 16 1 ab = code_rounds 16 ab"
    using static_for_rounds [of 16 1 0 ab] Sha1Loop_1 by simp
  moreover have "static_for 4 2 (code_rounds 16 ab) = code_rounds 20 ab"
    using static_for_rounds [of 4 2 16 ab] Sha1Loop_2 by simp
  moreover have "static_for 20 3 (code_rounds 20 ab) = code_rounds 40 ab"
    using static_for_rounds [of 20 3 20 ab] Sha1Loop_3 by simp
  moreover have "static_for 20 4 (code_rounds 40 ab) = code_rounds 60 ab"
    using static_for_rounds [of 20 4 40 ab] Sha1Loop_4 by simp
  moreover have "static_for 20 5 (code_rounds 60 ab) = code_rounds 80 ab"
    using static_for_rounds [of 20 5 60 ab] Sha1Loop_5 by simp
  ultimately show ?thesis by simp
qed

section \<open>Registers and schedule in place\<close>

definition regs_at :: "nat \<Rightarrow> u32 list \<Rightarrow> sha_regs" where
  "regs_at t a = (a ! ((t + 4) mod 5), a ! ((t + 3) mod 5), a ! ((t + 2) mod 5), a ! ((t + 1) mod 5), a ! (t mod 5))"

definition ring_at :: "u32 list \<Rightarrow> nat \<Rightarrow> u32 list \<Rightarrow> bool" where
  "ring_at m t b \<longleftrightarrow> length b = 16 \<and> (\<forall>s. t - 16 \<le> s \<and> s < t - 16 + 16 \<longrightarrow> b ! (s mod 16) = schedule m s)"

lemma ring_at_init: "length m = 16 \<Longrightarrow> ring_at m 0 m"
  by (simp add: ring_at_def schedule.simps)

lemma ring_at_low: "ring_at m t b \<Longrightarrow> t < 16 \<Longrightarrow> ring_at m (Suc t) b"
  by (simp add: ring_at_def)

lemma blk_schedule:
  assumes "ring_at m t b" "16 \<le> t"
  shows "blk b (t mod 16) = schedule m t"
proof -
  have r: "b ! (s mod 16) = schedule m s" if "t - 16 \<le> s" "s < t" for s
    using assms that by (simp add: ring_at_def)
  have idx: "(t mod 16 + 13) mod 16 = (t - 3) mod 16" "(t mod 16 + 8) mod 16 = (t - 8) mod 16"
    "(t mod 16 + 2) mod 16 = (t - 14) mod 16" "t mod 16 = (t - 16) mod 16"
    unfolding mod_add_left_eq by (rule mod_shift [where k = 1]; use assms(2) in simp)+
  have "blk b (t mod 16) = rol (schedule m (t - 3) XOR schedule m (t - 8) XOR schedule m (t - 14) XOR schedule m (t - 16)) 1"
    unfolding blk_def idx(1-3) using assms(2) r [of "t - 3"] r [of "t - 8"] r [of "t - 14"] r [of "t - 16"] idx(4)
    by simp
  then show ?thesis using assms(2) by (simp add: schedule.simps [of m t])
qed

lemma ring_at_high:
  assumes "ring_at m t b" "16 \<le> t"
  shows "ring_at m (Suc t) (b[t mod 16 := blk b (t mod 16)])"
proof -
  have "b[t mod 16 := schedule m t] ! (s mod 16) = schedule m s" if s: "Suc t - 16 \<le> s" "s < Suc t" for s
  proof (cases "s = t")
    case True
    then show ?thesis using assms(1) by (simp add: ring_at_def)
  next
    case False
    then have "\<not> 16 dvd t - s" using s assms(2) by (auto dest: dvd_imp_le)
    then have "s mod 16 \<noteq> t mod 16" using s mod_eq_dvd_iff_nat [of s t 16] by auto
    moreover have "b ! (s mod 16) = schedule m s" using assms s False by (simp add: ring_at_def)
    ultimately show ?thesis by simp
  qed
  then show ?thesis
    using assms by (simp add: blk_schedule [OF assms]) (simp add: ring_at_def Suc_diff_le)
qed

lemma code_round_correct:
  assumes "length a = 5" "ring_at m t b"
  shows "\<exists>a' b'. code_round t (a, b) = (a', b') \<and> length a' = 5 \<and> ring_at m (Suc t) b' \<and>
    regs_at (Suc t) a' = sha_round m t (regs_at t a)"
proof -
  define b' where "b' = (if t < 16 then b else b[t mod 16 := blk b (t mod 16)])"
  have b': "ring_at m (Suc t) b'"
    using assms(2) ring_at_low ring_at_high by (simp add: b'_def)
  have "Suc t - 16 \<le> t" "t < Suc t - 16 + 16" by simp_all
  then have w: "b' ! (t mod 16) = schedule m t" using b' by (simp only: ring_at_def)
  have mods: "(Suc t + 4) mod 5 = t mod 5" "(Suc t + 3) mod 5 = (t + 4) mod 5" "(Suc t + 2) mod 5 = (t + 3) mod 5"
    "(Suc t + 1) mod 5 = (t + 2) mod 5" "Suc t mod 5 = (t + 1) mod 5"
    by presburger+
  have neq: "(t + 3) mod 5 \<noteq> t mod 5" "(t + 4) mod 5 \<noteq> t mod 5" "(t + 2) mod 5 \<noteq> t mod 5" "(t + 1) mod 5 \<noteq> t mod 5"
    "(t + 4) mod 5 \<noteq> (t + 3) mod 5" "(t + 2) mod 5 \<noteq> (t + 3) mod 5" "(t + 1) mod 5 \<noteq> (t + 3) mod 5"
    by presburger+
  have bnd: "(t + 3) mod 5 < length a" "t mod 5 < length a" by (simp_all add: assms(1))
  define a1 where "a1 = a[t mod 5 := a ! (t mod 5) +
    (round_fun t (a ! ((t + 3) mod 5)) (a ! ((t + 2) mod 5)) (a ! ((t + 1) mod 5)) +
     b' ! (t mod 16) + round_const t + rol (a ! ((t + 4) mod 5)) 5)]"
  define a2 where "a2 = a1[(t + 3) mod 5 := rol (a1 ! ((t + 3) mod 5)) 30]"
  have "code_round t (a, b) = (a2, b')"
    by (simp add: code_round_def Let_def b'_def a1_def a2_def)
  moreover have "length a2 = 5" by (simp add: a1_def a2_def assms(1))
  moreover have "regs_at (Suc t) a2 = sha_round m t (regs_at t a)"
    unfolding regs_at_def mods a2_def a1_def using neq bnd
    by (simp add: w ac_simps)
  ultimately show ?thesis using b' by blast
qed

lemma code_rounds_correct:
  assumes "length a = 5" "length m = 16"
  shows "\<exists>a' b'. code_rounds t (a, m) = (a', b') \<and> length a' = 5 \<and> ring_at m t b' \<and>
    regs_at t a' = sha_rounds m t (regs_at 0 a)"
proof (induction t)
  case 0
  then show ?case using assms by (simp add: ring_at_init)
next
  case (Suc t)
  then obtain a' b' where 1: "code_rounds t (a, m) = (a', b')" "length a' = 5" "ring_at m t b'"
    "regs_at t a' = sha_rounds m t (regs_at 0 a)" by blast
  from code_round_correct [OF 1(2,3)] show ?case using 1(1,4) by simp
qed


lemma final_add:
  assumes "length h = 5"
  shows "snd (static_for 5 6 (a, h)) =
    [h ! 0 + a ! 4, h ! 1 + a ! 3, h ! 2 + a ! 2, h ! 3 + a ! 1, h ! 4 + a ! 0]"
proof -
  obtain h0 h1 h2 h3 h4 where "h = [h0, h1, h2, h3, h4]"
    using assms by (auto simp: numeral_eq_Suc length_Suc_conv)
  then show ?thesis by (simp add: Sha1Loop_f_def numeral_eq_Suc)
qed

lemma sha1_compress:
  assumes "length h = 5" "length m = 16"
  shows "sha1 h m = sha_compress h m"
proof -
  let ?a = "[h ! 4, h ! 3, h ! 2, h ! 1, h ! 0]"
  obtain a b where 1: "code_rounds 80 (?a, m) = (a, b)" "regs_at 80 a = sha_rounds m 80 (regs_at 0 ?a)"
    using code_rounds_correct [of ?a m 80] assms(2) by auto
  have r: "regs_at 0 ?a = (h ! 0, h ! 1, h ! 2, h ! 3, h ! 4)" by (simp add: regs_at_def)
  have r80: "regs_at 80 a = (a ! 4, a ! 3, a ! 2, a ! 1, a ! 0)" by (simp add: regs_at_def)
  have "sha1 h m = snd (static_for 5 6 (a, h))"
    unfolding sha1_def Let_def all_rounds 1(1) by simp
  then show ?thesis
    unfolding sha_compress_def 1(2) [unfolded r r80, symmetric] by (simp add: final_add [OF assms(1)])
qed

section \<open>Base64\<close>

definition b64_chars :: string where
  "b64_chars = ''ABCDEFGHIJKLMNOPQRSTUVWXYZabcdefghijklmnopqrstuvwxyz0123456789+/''"

definition b64 :: "u8 \<Rightarrow> char" where
  "b64 n = b64_chars ! unat n"

definition quad :: "bytes \<Rightarrow> u8 list" where
  "quad c = [drop_bit 2 (c ! 0 AND 0xfc),
             push_bit 4 (c ! 0 AND 0x03) + drop_bit 4 (c ! 1 AND 0xf0),
             push_bit 2 (c ! 1 AND 0x0f) + drop_bit 6 (c ! 2 AND 0xc0),
             c ! 2 AND 0x3f]"

fun base64_loop :: "bytes \<Rightarrow> bytes \<Rightarrow> string \<Rightarrow> bytes \<times> string" where
  "base64_loop [] char_array ret = (char_array, ret)"
| "base64_loop (c # cs) char_array ret =
     (let char_array = char_array @ [c] in
      if length char_array = 3 then base64_loop cs [] (ret @ map b64 (quad char_array))
      else base64_loop cs char_array ret)"

definition base64 :: "bytes \<Rightarrow> string" where
  "base64 data =
     (case base64_loop data [] [] of (char_array, ret) \<Rightarrow>
        let i = length char_array in
        if i > 0 then
          ret @ map b64 (take (i + 1) (quad (char_array @ replicate (3 - i) 0))) @ replicate (3 - i) CHR ''=''
        else ret)"

text \<open>The encoder for the twenty bytes of a digest.\<close>

definition base64_digest :: "bytes \<Rightarrow> string" where
  "base64_digest src =
     concat (map (\<lambda>i. [b64 (drop_bit 2 (src ! i) AND 63),
                       b64 (push_bit 4 (src ! i AND 3) OR drop_bit 4 (src ! (i + 1) AND 240)),
                       b64 (push_bit 2 (src ! (i + 1) AND 15) OR drop_bit 6 (src ! (i + 2) AND 192)),
                       b64 (src ! (i + 2) AND 63)]) [0, 3, 6, 9, 12, 15]) @
     [b64 (drop_bit 2 (src ! 18) AND 63),
      b64 (push_bit 4 (src ! 18 AND 3) OR drop_bit 4 (src ! 19 AND 240)),
      b64 (push_bit 2 (src ! 19 AND 15)),
      CHR ''='']"

section \<open>The accept key\<close>

definition be32_bytes :: "u32 \<Rightarrow> bytes" where
  "be32_bytes w = [ucast (drop_bit 24 w), ucast (drop_bit 16 w), ucast (drop_bit 8 w), ucast w]"

definition be32_word :: "bytes \<Rightarrow> nat \<Rightarrow> u32" where
  "be32_word p i = ucast (p ! (i + 3)) OR push_bit 8 (ucast (p ! (i + 2))) OR
     push_bit 16 (ucast (p ! (i + 1))) OR push_bit 24 (ucast (p ! i))"

definition generate :: "bytes \<Rightarrow> string" where
  "generate input =
     (let b_output = [0x67452301, 0xefcdab89, 0x98badcfe, 0x10325476, 0xc3d2e1f0];
          b_input = map (\<lambda>i. be32_word input (4 * i)) [0, 1, 2, 3, 4, 5] @
            [0x32353845, 0x41464135, 0x2d453931, 0x342d3437,
             0x44412d39, 0x3543412d, 0x43354142, 0x30444338, 0x35423131, 0x80000000];
          b_output = sha1 b_output b_input;
          last_b = [0, 0, 0, 0, 0, 0, 0, 0, 0, 0, 0, 0, 0, 0, 0, 480];
          b_output = sha1 b_output last_b
      in base64_digest (concat (map be32_bytes b_output)))"

section \<open>The standards\<close>

text \<open>Padding and blocks of SHA-1, for a message of whole bytes.\<close>

definition sha_pad :: "bytes \<Rightarrow> bytes" where
  "sha_pad msg = msg @ [0x80] @ replicate ((119 - length msg mod 64) mod 64) 0 @
     concat (map be32_bytes [of_nat (8 * length msg div 2 ^ 32), of_nat (8 * length msg)])"

fun sha_blocks :: "bytes \<Rightarrow> u32 list list" where
  "sha_blocks b = (if length b < 64 then []
     else map (\<lambda>i. be32_word b (4 * i)) [0..<16] # sha_blocks (drop 64 b))"

declare sha_blocks.simps [simp del]

definition sha_digest :: "bytes \<Rightarrow> bytes" where
  "sha_digest msg = concat (map be32_bytes
     (foldl sha_compress [0x67452301, 0xefcdab89, 0x98badcfe, 0x10325476, 0xc3d2e1f0] (sha_blocks (sha_pad msg))))"

text \<open>\<^verbatim>\<open>258EAFA5-E914-47DA-95CA-C5AB0DC85B11\<close>, the constant of RFC 6455.\<close>

definition ws_guid :: bytes where
  "ws_guid = [0x32, 0x35, 0x38, 0x45, 0x41, 0x46, 0x41, 0x35, 0x2d, 0x45, 0x39, 0x31, 0x34, 0x2d, 0x34, 0x37,
     0x44, 0x41, 0x2d, 0x39, 0x35, 0x43, 0x41, 0x2d, 0x43, 0x35, 0x41, 0x42, 0x30, 0x44, 0x43, 0x38,
     0x35, 0x42, 0x31, 0x31]"

section \<open>The accept key is the standard one\<close>

lemma be32_word_left: "i + 3 < length p \<Longrightarrow> be32_word (p @ q) i = be32_word p i"
  by (simp add: be32_word_def nth_append)

lemma be32_word_right: "length p = n \<Longrightarrow> be32_word (p @ q) (n + i) = be32_word q i"
  by (simp add: be32_word_def nth_append)

lemma sha_pad_key:
  assumes "length key = 24"
  shows "sha_pad (key @ ws_guid) = key @ (ws_guid @ [0x80, 0, 0, 0]) @ replicate 60 0 @ [0, 0, 1, 0xe0]"
proof -
  have l: "length (key @ ws_guid) = 60" using assms by (simp add: ws_guid_def)
  have four: "replicate 4 (0 :: u8) = [0, 0, 0, 0]" "replicate 3 (0 :: u8) = [0, 0, 0]"
    by (simp_all add: numeral_eq_Suc)
  have "replicate 59 (0 :: u8) @ replicate 4 0 = replicate 3 0 @ replicate 60 0"
    unfolding replicate_add [symmetric] by simp
  moreover have "be32_bytes (of_nat (8 * 60 div 2 ^ 32)) = [0, 0, 0, 0]" "be32_bytes (of_nat (8 * 60)) = [0, 0, 1, 0xe0]"
    by (simp_all add: be32_bytes_def)
  ultimately have "replicate 59 (0 :: u8) @ concat (map be32_bytes [of_nat (8 * 60 div 2 ^ 32), of_nat (8 * 60)]) =
      [0, 0, 0] @ replicate 60 0 @ [0, 0, 1, 0xe0]"
    unfolding four by simp
  then show ?thesis unfolding sha_pad_def l by simp
qed

lemma upt_16: "[0..<16] = [0, 1, 2, 3, 4, 5, 6, 7, 8, 9, 10, 11, 12, 13, 14, 15]"
  by (simp add: upt_rec)

lemma guid_words:
  "map (be32_word (ws_guid @ [0x80, 0, 0, 0] @ r)) [0, 4, 8, 12, 16, 20, 24, 28, 32, 36] =
     [0x32353845, 0x41464135, 0x2d453931, 0x342d3437, 0x44412d39, 0x3543412d, 0x43354142, 0x30444338, 0x35423131, 0x80000000]"
  by (simp add: be32_word_def ws_guid_def)

lemma sha_blocks_key:
  assumes "length key = 24"
  shows "sha_blocks (sha_pad (key @ ws_guid)) =
    [map (\<lambda>i. be32_word key (4 * i)) [0, 1, 2, 3, 4, 5] @
       [0x32353845, 0x41464135, 0x2d453931, 0x342d3437, 0x44412d39, 0x3543412d, 0x43354142, 0x30444338, 0x35423131, 0x80000000],
     [0, 0, 0, 0, 0, 0, 0, 0, 0, 0, 0, 0, 0, 0, 0, 480]]"
proof -
  let ?t = "replicate 60 0 @ [0, 0, 1, 0xe0] :: bytes"
  let ?g = "ws_guid @ [0x80, 0, 0, 0] :: bytes"
  have lg: "length ?g = 40" by (simp add: ws_guid_def)
  have lt: "length ?t = 64" by simp
  have p: "sha_pad (key @ ws_guid) = key @ ?g @ ?t" by (simp add: sha_pad_key [OF assms])
  have d: "drop 64 (key @ ?g @ ?t) = ?t" using assms lg by simp
  have left: "be32_word (key @ ?g @ ?t) j = be32_word key j" if "j + 3 < 24" for j
    using that assms by (simp add: be32_word_left)
  have right: "be32_word (key @ ?g @ ?t) (24 + j) = be32_word (?g @ ?t) j" for j
    by (rule be32_word_right [OF assms])
  have first: "map (\<lambda>i. be32_word (key @ ?g @ ?t) (4 * i)) [0..<16] =
      map (\<lambda>i. be32_word key (4 * i)) [0, 1, 2, 3, 4, 5] @
      map (be32_word (?g @ ?t)) [0, 4, 8, 12, 16, 20, 24, 28, 32, 36]"
    unfolding upt_16 using left right [of 0] right [of 4] right [of 8] right [of 12] right [of 16] right [of 20]
      right [of 24] right [of 28] right [of 32] right [of 36]
    by (simp del: append_assoc)
  have second: "map (\<lambda>i. be32_word ?t (4 * i)) [0..<16] = [0, 0, 0, 0, 0, 0, 0, 0, 0, 0, 0, 0, 0, 0, 0, 480]"
    unfolding upt_16 by (simp add: be32_word_def nth_append)
  show ?thesis
    unfolding p sha_blocks.simps [of "key @ ?g @ ?t"] d sha_blocks.simps [of ?t]
    using first second lg assms guid_words [of ?t] by (simp add: sha_blocks.simps)
qed


section \<open>The two encoders agree\<close>

lemma bit_mask8:
  "bit (3 :: u8) n \<longleftrightarrow> n < 2" "bit (15 :: u8) n \<longleftrightarrow> n < 4" "bit (63 :: u8) n \<longleftrightarrow> n < 6"
  "bit (240 :: u8) n \<longleftrightarrow> 4 \<le> n \<and> n < 8" "bit (192 :: u8) n \<longleftrightarrow> 6 \<le> n \<and> n < 8"
  "bit (252 :: u8) n \<longleftrightarrow> 2 \<le> n \<and> n < 8"
proof -
  have "n \<in> {0, 1, 2, 3, 4, 5, 6, 7} \<or> 8 \<le> n" by auto
  then show "bit (3 :: u8) n \<longleftrightarrow> n < 2" "bit (15 :: u8) n \<longleftrightarrow> n < 4" "bit (63 :: u8) n \<longleftrightarrow> n < 6"
    "bit (240 :: u8) n \<longleftrightarrow> 4 \<le> n \<and> n < 8" "bit (192 :: u8) n \<longleftrightarrow> 6 \<le> n \<and> n < 8"
    "bit (252 :: u8) n \<longleftrightarrow> 2 \<le> n \<and> n < 8"
    by (elim disjE insertE emptyE; auto dest: bit_imp_le_length)+
qed

lemmas bit8_simps = bit_and_iff bit_or_iff bit_push_bit_iff possible_bit_word bit_drop_bit_eq comp_apply bit_mask8

text \<open>The four digits of a group, written with disjoint bits.\<close>

definition sextet1 :: "u8 \<Rightarrow> u8" where
  "sextet1 x = drop_bit 2 x AND 63"

definition sextet2 :: "u8 \<Rightarrow> u8 \<Rightarrow> u8" where
  "sextet2 x y = push_bit 4 (x AND 3) OR drop_bit 4 (y AND 240)"

definition sextet3 :: "u8 \<Rightarrow> u8 \<Rightarrow> u8" where
  "sextet3 y z = push_bit 2 (y AND 15) OR drop_bit 6 (z AND 192)"

definition sextet4 :: "u8 \<Rightarrow> u8" where
  "sextet4 z = z AND 63"

lemma quad_digits: "quad [x, y, z] = [sextet1 x, sextet2 x y, sextet3 y z, sextet4 z]"
proof -
  have "drop_bit 2 (x AND 0xfc) = sextet1 x"
    unfolding sextet1_def by (rule bit_word_eqI) (simp only: bit8_simps, auto)
  moreover have "push_bit 4 (x AND 0x03) AND drop_bit 4 (y AND 0xf0) = 0"
    by (rule bit_word_eqI) (simp only: bit8_simps bit_0_eq bot_apply, auto)
  moreover have "push_bit 2 (y AND 0x0f) AND drop_bit 6 (z AND 0xc0) = 0"
    by (rule bit_word_eqI) (simp only: bit8_simps bit_0_eq bot_apply, auto)
  ultimately show ?thesis
    unfolding quad_def sextet2_def sextet3_def sextet4_def
    by (simp only: disjunctive_add_eq_or nth_Cons_0 One_nat_def nth_Cons_Suc numeral_2_eq_2)
qed

lemma sextet3_zero: "push_bit 2 (y AND 15) = sextet3 y 0"
  by (simp add: sextet3_def)

lemma base64_digest_eq:
  assumes "length src = 20"
  shows "base64_digest src = base64 src"
proof -
  obtain a b c d e f g h i j k l m n p q r s t u where
    src: "src = [a, b, c, d, e, f, g, h, i, j, k, l, m, n, p, q, r, s, t, u]"
    using assms by (auto simp: numeral_eq_Suc length_Suc_conv)
  have d: "base64_digest src = concat (map (\<lambda>i. [b64 (sextet1 (src ! i)), b64 (sextet2 (src ! i) (src ! (i + 1))),
      b64 (sextet3 (src ! (i + 1)) (src ! (i + 2))), b64 (sextet4 (src ! (i + 2)))]) [0, 3, 6, 9, 12, 15]) @
      [b64 (sextet1 (src ! 18)), b64 (sextet2 (src ! 18) (src ! 19)), b64 (push_bit 2 (src ! 19 AND 15)), CHR ''='']"
    unfolding base64_digest_def sextet1_def sextet2_def sextet3_def sextet4_def by (rule refl)
  show ?thesis
    unfolding d unfolding src sextet3_zero by (simp add: base64_def quad_digits)
qed

section \<open>Decoding\<close>

definition b64_val :: "char \<Rightarrow> u8" where
  "b64_val c = of_nat (length (takeWhile (\<lambda>x. x \<noteq> c) b64_chars))"

fun base64_decode :: "string \<Rightarrow> bytes" where
  "base64_decode (a # b # c # d # r) =
     (let w = b64_val a; x = b64_val b; y = b64_val c; z = b64_val d;
          p = push_bit 2 w OR drop_bit 4 x;
          q = push_bit 4 x OR drop_bit 2 y;
          s = push_bit 6 y OR z
      in if c = CHR ''='' then [p] else if d = CHR ''='' then [p, q] else p # q # s # base64_decode r)"
| "base64_decode _ = []"

lemma index_of_nth: "distinct xs \<Longrightarrow> i < length xs \<Longrightarrow> length (takeWhile (\<lambda>x. x \<noteq> xs ! i) xs) = i"
proof (induction xs arbitrary: i)
  case (Cons x xs)
  then show ?case by (cases i) auto
qed simp

lemma b64_chars_facts: "length b64_chars = 64" "distinct b64_chars" "CHR ''='' \<notin> set b64_chars"
  by (simp_all add: b64_chars_def)

lemma b64_val_b64:
  assumes "n < (64 :: u8)"
  shows "b64_val (b64 n) = n" "b64 n \<noteq> CHR ''=''"
proof -
  have n: "unat n < length b64_chars" using assms by (simp add: word_less_nat_alt b64_chars_facts)
  show "b64_val (b64 n) = n"
    by (simp add: b64_val_def b64_def index_of_nth [OF b64_chars_facts(2) n])
  show "b64 n \<noteq> CHR ''=''"
    using nth_mem [OF n] b64_chars_facts(3) by (auto simp: b64_def)
qed

lemma less_64: "(\<And>k. 6 \<le> k \<Longrightarrow> \<not> bit n k) \<Longrightarrow> n < (64 :: u8)"
proof -
  assume high: "\<And>k. 6 \<le> k \<Longrightarrow> \<not> bit n k"
  have "bit (take_bit 6 n) k = bit n k" for k
    using high [of k] by (cases "k < 6") (simp_all add: bit_take_bit_iff)
  then have "take_bit 6 n = n" by (intro bit_word_eqI)
  then have "unat n = unat n mod 64"
    using unsigned_take_bit_eq [of 6 n, where 'a = nat] by (simp add: take_bit_eq_mod)
  then have "unat n < 64" by (metis mod_less_divisor zero_less_numeral)
  then show ?thesis by (simp add: word_less_nat_alt)
qed

lemma digits_less: "sextet1 x < 64" "sextet2 x y < 64" "sextet3 y z < 64" "sextet4 z < 64"
  unfolding sextet1_def sextet2_def sextet3_def sextet4_def
  by (rule less_64, simp only: bit8_simps, force dest: bit_imp_le_length)+

lemmas b64_digits [simp] = b64_val_b64 [OF digits_less(1)] b64_val_b64 [OF digits_less(2)]
  b64_val_b64 [OF digits_less(3)] b64_val_b64 [OF digits_less(4)]

lemma eq_bits8:
  fixes a b :: u8
  assumes "\<And>n. n \<in> {0, 1, 2, 3, 4, 5, 6, 7} \<Longrightarrow> bit a n = bit b n"
  shows "a = b"
proof (rule bit_word_eqI)
  fix n assume "n < LENGTH(8)"
  then have "n \<in> {0, 1, 2, 3, 4, 5, 6, 7}" by auto
  then show "bit a n = bit b n" by (rule assms)
qed

lemma digits_join:
  "push_bit 2 (sextet1 x) OR drop_bit 4 (sextet2 x y) = x"
  "push_bit 4 (sextet2 x y) OR drop_bit 2 (sextet3 y z) = y"
  "push_bit 6 (sextet3 y z) OR sextet4 z = z"
  unfolding sextet1_def sextet2_def sextet3_def sextet4_def
  by (rule eq_bits8, elim insertE emptyE; simp only: bit8_simps; simp)+

lemma base64_loop_acc:
  "base64_loop data ca (r @ ret) = (fst (base64_loop data ca ret), r @ snd (base64_loop data ca ret))"
proof (induction data arbitrary: ca ret)
  case (Cons c cs)
  show ?case
    using Cons [of "[]" "ret @ map b64 (quad (ca @ [c]))"] Cons [of "ca @ [c]" ret] by (simp add: Let_def)
qed simp

text \<open>RFC 4648: groups of three bytes, the last one padded.\<close>

fun base64_ref :: "bytes \<Rightarrow> string" where
  "base64_ref (x # y # z # r) =
     [b64 (sextet1 x), b64 (sextet2 x y), b64 (sextet3 y z), b64 (sextet4 z)] @ base64_ref r"
| "base64_ref [x, y] = [b64 (sextet1 x), b64 (sextet2 x y), b64 (sextet3 y 0), CHR ''='']"
| "base64_ref [x] = [b64 (sextet1 x), b64 (sextet2 x 0), CHR ''='', CHR ''='']"
| "base64_ref [] = []"

lemma base64_step: "base64 (x # y # z # r) = map b64 (quad [x, y, z]) @ base64 r"
  using base64_loop_acc [of r "[]" "map b64 (quad [x, y, z])" "[]"]
  by (simp add: base64_def Let_def split: prod.splits)

lemma base64_eq_ref: "base64 data = base64_ref data"
proof (induction data rule: base64_ref.induct)
  case (1 x y z r)
  then show ?case by (simp add: base64_step quad_digits)
next
  case (2 x y)
  then show ?case by (simp add: base64_def quad_digits)
next
  case (3 x)
  then show ?case by (simp add: base64_def quad_digits numeral_2_eq_2)
next
  case 4
  then show ?case by (simp add: base64_def)
qed

section \<open>Properties\<close>

lemma generate_ref:
  assumes "length key = 24"
  shows "generate key = base64_ref (sha_digest (key @ ws_guid))"
proof -
  let ?h0 = "[0x67452301, 0xefcdab89, 0x98badcfe, 0x10325476, 0xc3d2e1f0] :: u32 list"
  let ?b1 = "map (\<lambda>i. be32_word key (4 * i)) [0, 1, 2, 3, 4, 5] @
    [0x32353845, 0x41464135, 0x2d453931, 0x342d3437, 0x44412d39, 0x3543412d, 0x43354142, 0x30444338, 0x35423131, 0x80000000]"
  let ?b2 = "[0, 0, 0, 0, 0, 0, 0, 0, 0, 0, 0, 0, 0, 0, 0, 480] :: u32 list"
  have len: "length (sha_compress h m) = 5" for h m
    by (simp add: sha_compress_def split: prod.splits)
  have 1: "sha1 ?h0 ?b1 = sha_compress ?h0 ?b1" by (rule sha1_compress) simp_all
  have 2: "sha1 (sha_compress ?h0 ?b1) ?b2 = sha_compress (sha_compress ?h0 ?b1) ?b2"
    by (rule sha1_compress) (simp_all only: len, simp)
  have l20: "length (concat (map be32_bytes (sha_compress h m))) = 20" for h m
    by (simp add: sha_compress_def be32_bytes_def split: prod.splits)
  have "sha_digest (key @ ws_guid) = concat (map be32_bytes (sha_compress (sha_compress ?h0 ?b1) ?b2))"
    unfolding sha_digest_def sha_blocks_key [OF assms] foldl.simps by (rule refl)
  moreover have "generate key = base64_digest (concat (map be32_bytes (sha_compress (sha_compress ?h0 ?b1) ?b2)))"
    unfolding generate_def Let_def 1 2 by (rule refl)
  ultimately show ?thesis
    by (simp only: base64_digest_eq [OF l20] base64_eq_ref)
qed

text \<open>
  C38: for every 24-byte key, the accept value the code computes is the base64 form of the
  SHA-1 digest of the key followed by the constant of RFC 6455, with SHA-1 and base64 as
  the standards define them.
\<close>

theorem generate_correct:
  assumes "length key = 24"
  shows "generate key = base64_ref (sha_digest (key @ ws_guid))"
  using assms by (rule generate_ref)

text \<open>The key of the example in RFC 6455.\<close>

definition rfc_key :: bytes where
  "rfc_key = [100, 71, 104, 108, 73, 72, 78, 104, 98, 88, 66, 115, 90, 83, 66, 117, 98, 50, 53, 106, 90, 81, 61, 61]"

theorem generate_correct_witness: "generate rfc_key = base64_ref (sha_digest (rfc_key @ ws_guid))"
  by (rule generate_correct) (simp add: rfc_key_def)

text \<open>
  Base64 text decodes to the bytes it was made from, whatever their number.
\<close>

theorem base64_roundtrip: "base64_decode (base64 data) = data"
  unfolding base64_eq_ref
proof (induction data rule: base64_ref.induct)
  case (1 x y z r)
  then show ?case by (simp add: Let_def digits_join)
next
  case (2 x y)
  then show ?case by (simp add: Let_def digits_join)
next
  case (3 x)
  then show ?case by (simp add: Let_def digits_join)
qed simp

end
