(* ===== verification/Wsock_Upgrade.thy ===== *)
theory Wsock_Upgrade
  imports Http_Server Wsock_Frame Wsock_Handshake
begin

text \<open>
  The HTTP side of the WebSocket classes: \<^verbatim>\<open>wsock_connection.hpp\<close> (upgrade, replies),
  \<^verbatim>\<open>wsock_factory.hpp\<close> (the dispatch of received packages) and the request of
  \<^verbatim>\<open>wsock_client.hpp\<close>. The bundled class \<^verbatim>\<open>HttpUrl\<close> enters as a function from URLs to paths.
\<close>

section \<open>Connections\<close>

datatype WSockStatus = WSOCK_INIT | WSOCK_CONNECTING | WSOCK_OPEN | WSOCK_CLOSING | WSOCK_CLOSED

text \<open>\<open>wc_handler\<close>: the handler of the route, if one was set, and whether it takes messages.\<close>

record wsock_conn =
  is_websocket :: bool
  m_status :: WSockStatus
  first_request :: "HttpRequest option"
  wc_reader :: ws_reader
  wc_handler :: "nat \<times> bool"

definition WSockConnection_new :: "HttpRequest option \<Rightarrow> nat \<times> bool \<Rightarrow> wsock_conn" where
  "WSockConnection_new req h =
     \<lparr>is_websocket = False, m_status = WSOCK_INIT, first_request = req, wc_reader = WSMessageReader 4096, wc_handler = h\<rparr>"

definition wsock_handle_event :: "NetEvent \<Rightarrow> wsock_conn \<Rightarrow> wsock_conn \<times> sock_act list" where
  "wsock_handle_event evt c =
     (if evt = EVT_CONNECT then
        (case first_request c of
           Some r \<Rightarrow> (c\<lparr>m_status := WSOCK_CONNECTING\<rparr>, [send_text_act (encode_request r)])
         | None \<Rightarrow> (c, []))
      else (c, []))"

definition wsock_write :: "string \<Rightarrow> HttpResponse \<Rightarrow> sock_act list" where
  "wsock_write date rsp =
     send_text_act (encode_response date rsp) # (if rs_code rsp \<ge> 200 then [ActClose] else [])"

definition wsock_reply :: "string \<Rightarrow> bool \<Rightarrow> string \<Rightarrow> u32 \<Rightarrow> bool \<Rightarrow> sock_act list" where
  "wsock_reply date connected msg code fin =
     (if connected then [send_text_act (encode_response date (HttpResponse_new code msg ''txt''))] else []) @
     (if fin then [ActClose] else [])"

definition upgrade_response :: "string \<Rightarrow> HttpResponse" where
  "upgrade_response key =
     (let rsp = HttpResponse_new 101 [] ''txt'';
          body = add_header ''Upgrade'' ''websocket'' (rs_body rsp);
          body = add_header ''Connection'' ''Upgrade'' body;
          body = add_header ''Sec-WebSocket-Accept'' (generate (text_bytes key)) body;
          body = add_header ''Accept-Encoding'' ''gzip, deflate'' body
      in rsp\<lparr>rs_body := body\<rparr>)"

definition upgrade_websocket :: "string \<Rightarrow> bool \<Rightarrow> http_decoder \<Rightarrow> wsock_conn \<Rightarrow> bool \<times> wsock_conn \<times> sock_act list" where
  "upgrade_websocket date connected req c =
     (let key = get_header ''Sec-WebSocket-Key'' req in
      if length key = 24 then (True, c\<lparr>is_websocket := True\<rparr>, wsock_write date (upgrade_response key))
      else (False, c, wsock_reply date connected ''bad websocket key'' 400 True))"

section \<open>The factory\<close>

text \<open>
  \<^verbatim>\<open>WSockFactory::handle_data\<close>: the result, the connection, what is done to the socket and the
  message handed to the route's handler. The response of a plain HTTP request has no writer.
\<close>

definition wsock_factory_data ::
  "(string \<Rightarrow> string) \<Rightarrow> u64 \<Rightarrow> string \<Rightarrow> int \<Rightarrow> bool \<Rightarrow>
     (string \<times> HttpHandler) list \<Rightarrow> (string \<times> nat \<times> bool) list \<Rightarrow> bytes \<Rightarrow> wsock_conn \<Rightarrow>
     ws_error + bool \<times> wsock_conn \<times> sock_act list \<times> bytes option" where
  "wsock_factory_data url_path max_size date sent connected http_routers wsock_routers data c =
     (if is_websocket c then
        (case read_websocket max_size (snd (wc_handler c)) data (of_nat (length data)) (wc_reader c) of
           Inl e \<Rightarrow> Inl e
         | Inr (msg, n, r) \<Rightarrow> Inr (True, c\<lparr>wc_reader := r\<rparr>, [], msg))
      else if m_status c = WSOCK_INIT then
        (case http_parse True (bytes_text data) http_decoder_new of (msgLen, req) \<Rightarrow>
           if (of_nat msgLen :: u32) > 0 then
             let path = url_path (hd_url req) in
             if get_header ''Upgrade'' req = ''websocket'' then
               (case map_of wsock_routers path of
                  Some h \<Rightarrow>
                    (case upgrade_websocket date connected req c of (ret, c, acts) \<Rightarrow>
                       Inr (True, if ret then c\<lparr>is_websocket := True, wc_handler := h\<rparr> else c, acts, None))
                | None \<Rightarrow> Inr (True, c, wsock_write date (HttpResponse_new 404 [] ''txt''), None))
             else
               (case map_of http_routers path of
                  Some h \<Rightarrow>
                    (case handler_call date sent h req (HttpResponse_new 0 [] []) of (ret, rsp) \<Rightarrow>
                       Inr (\<not> ret < 0, c, map send_text_act (rs_written rsp), None))
                | None \<Rightarrow> Inr (True, c, wsock_write date (HttpResponse_new 404 [] ''txt''), None))
           else Inr (True, c, [], None))
      else if m_status c = WSOCK_CONNECTING then
        (case http_parse False (bytes_text data) http_decoder_new of (msgLen, rsp) \<Rightarrow>
           Inr (True, if (of_nat msgLen :: u32) > 0 \<and> hd_upgrade rsp then c\<lparr>is_websocket := True\<rparr> else c, [], None))
      else Inr (True, c, [], None))"

definition wsock_register :: "string \<Rightarrow> 'h \<Rightarrow> (string \<times> 'h) list \<Rightarrow> (string \<times> 'h) list" where
  "wsock_register path handler routers = AList.update path handler routers"

section \<open>The client's request\<close>

definition request_headers :: "string \<Rightarrow> string \<Rightarrow> (string \<times> string) list" where
  "request_headers hostname secKey =
     [(''Host'', hostname), (''Connection'', ''Upgrade''), (''Upgrade'', ''websocket''), (''Sec-WebSocket-Version'', ''13''),
      (''Accept-Language'', ''en-us''), (''Accept-Encoding'', ''gzip,deflate''), (''Sec-WebSocket-Key'', secKey)]"

text \<open>\<open>cliKey\<close> are the sixteen random bytes.\<close>

definition create_request :: "string \<Rightarrow> string \<Rightarrow> bytes \<Rightarrow> HttpRequest" where
  "create_request path hostname cliKey =
     (let r = HttpRequest_new HTTP_GET path [] ''txt'' in
      r\<lparr>rq_body := fold (\<lambda>(k, v). add_header k v) (request_headers hostname (base64 cliKey)) (rq_body r)\<rparr>)"

section \<open>The text of the keys\<close>

lemma length_base64_ref: "length (base64_ref data) = 4 * ((length data + 2) div 3)"
proof (induction data rule: base64_ref.induct)
  case (1 x y z r)
  then show ?case by (simp, presburger)
qed simp_all

definition b64_text :: string where
  "b64_text = CHR ''='' # b64_chars"

lemma b64_in: "n < (64 :: u8) \<Longrightarrow> b64 n \<in> set b64_chars"
  by (simp add: b64_def b64_chars_facts word_less_nat_alt)

lemma set_base64_ref: "set (base64_ref data) \<subseteq> set b64_text"
  by (induction data rule: base64_ref.induct) (simp_all add: b64_in digits_less b64_text_def)

lemma base64_header_ok:
  assumes "data \<noteq> []" "k \<noteq> []" "\<forall>c\<in>set k. is_token c"
  shows "header_text_ok (k, base64_ref data)"
proof -
  have "\<forall>c\<in>set b64_text. value_text False c \<and> c \<noteq> CHR '' '' \<and> c \<noteq> TAB" by code_simp
  then have "\<forall>c\<in>set (base64_ref data). value_text False c \<and> c \<noteq> CHR '' '' \<and> c \<noteq> TAB"
    using set_base64_ref [of data] by auto
  moreover have "base64_ref data \<noteq> []"
    using length_base64_ref [of data] assms(1) by (cases data) auto
  ultimately show ?thesis using assms(2,3) by (simp add: header_text_ok_def)
qed

lemma base64_value_ok:
  assumes "length data = 16"
  shows "header_text_ok (''Sec-WebSocket-Key'', base64 data)"
proof -
  have "\<forall>c\<in>set ''Sec-WebSocket-Key''. is_token c" by code_simp
  moreover have "data \<noteq> []" using assms by auto
  ultimately show ?thesis using base64_header_ok [of data "''Sec-WebSocket-Key''"] by (simp only: base64_eq_ref) simp
qed

lemma map_put_subset: "set (map_put k v xs) \<subseteq> insert (k, v) (set xs)"
  by (induction k v xs rule: map_put.induct) auto

lemma add_headers_subset:
  "set (http_headers (fold (\<lambda>(k, v). add_header k v) kvs m)) \<subseteq> set kvs \<union> set (http_headers m)"
proof (induction kvs arbitrary: m)
  case (Cons a kvs)
  obtain k v where a: "a = (k, v)" by (cases a)
  have "set (http_headers (add_header k v m)) \<subseteq> insert (k, v) (set (http_headers m))"
    using map_put_subset by (simp add: add_header_def)
  then show ?case using Cons [of "add_header k v m"] by (auto simp: a)
qed simp

lemma add_headers_calls:
  "fold (\<lambda>(k, v). add_header k v) kvs m = fold run_call (map (\<lambda>(k, v). CallHeader k v) kvs) m"
  by (induction kvs arbitrary: m) auto

text \<open>The parts of the client's request.\<close>

lemma create_request_parts:
  assumes "header_text_ok (''Host'', hostname)" "length cliKey = 16" "r = create_request path hostname cliKey"
  shows "rq_method r = HTTP_GET" "rq_url r = path" "content (rq_body r) = []"
    and "\<forall>h\<in>set (http_headers (rq_body r)). header_text_ok h" "body_framed (http_headers (rq_body r)) []"
    and "map_of (http_headers (rq_body r)) ''Upgrade'' = Some ''websocket''"
    and "map_of (http_headers (rq_body r)) ''Sec-WebSocket-Key'' = Some (base64 cliKey)"
proof -
  let ?hs = "request_headers hostname (base64 cliKey)"
  show "rq_method r = HTTP_GET" "rq_url r = path" "content (rq_body r) = []"
    by (simp_all add: assms(3) create_request_def HttpRequest_new_def request_headers_def set_content_def
        http_body_new_def add_header_def)
  have m: "rq_body r = fold (\<lambda>(k, v). add_header k v) ?hs http_body_new"
    by (simp add: assms(3) create_request_def HttpRequest_new_def set_content_def)
  then have sub: "set (http_headers (rq_body r)) \<subseteq> set ?hs"
    using add_headers_subset [of ?hs http_body_new] by (simp add: http_body_new_def)
  have "header_text_ok (''Connection'', ''Upgrade'')" "header_text_ok (''Upgrade'', ''websocket'')"
    "header_text_ok (''Sec-WebSocket-Version'', ''13'')" "header_text_ok (''Accept-Language'', ''en-us'')"
    "header_text_ok (''Accept-Encoding'', ''gzip,deflate'')" by code_simp+
  then have "\<forall>h\<in>set ?hs. header_text_ok h"
    using assms(1) base64_value_ok [OF assms(2)] by (simp add: request_headers_def)
  then show "\<forall>h\<in>set (http_headers (rq_body r)). header_text_ok h" using sub by blast
  have "\<forall>k\<in>set (map fst (request_headers [] [])). map token k \<notin> {''transfer-encoding'', ''content-length''}" by code_simp
  then have "\<forall>h\<in>set ?hs. map token (fst h) \<notin> {''transfer-encoding'', ''content-length''}"
    by (simp add: request_headers_def)
  then have "\<forall>h\<in>set (http_headers (rq_body r)). map token (fst h) \<notin> {''transfer-encoding'', ''content-length''}"
    using subsetD [OF sub] by (intro ballI) (erule bspec)
  then show "body_framed (http_headers (rq_body r)) []" by (simp add: body_framed_def is_length_def)
  show "map_of (http_headers (rq_body r)) ''Upgrade'' = Some ''websocket''"
    "map_of (http_headers (rq_body r)) ''Sec-WebSocket-Key'' = Some (base64 cliKey)"
    by (simp_all add: m request_headers_def add_header_def map_of_put)
qed

lemma create_request_decoded:
  assumes "header_text_ok (''Host'', hostname)" "length cliKey = 16" "path_text path" "r = create_request path hostname cliKey"
    "length (encode_request r) < 65536"
  obtains d where "http_parse True (encode_request r) http_decoder_new = (length (encode_request r), d)" "hd_url d = path"
    "hd_headers d = http_headers (rq_body r)"
proof -
  note p = create_request_parts [OF assms(1,2,4)]
  have u: "url_text path None = path" by (simp add: url_text_def)
  have "encode_request r = http_request_text (method_strings ! 1) (url_text path None) (http_headers (rq_body r)) []"
    using encode_request_text [of r] p by (simp add: header_text_ok_def u method_strings_def)
  from request_decoded [OF _ _ assms(3) _ p(4,5) this assms(5)] u that show thesis by auto
qed

text \<open>
  C32: the upgrade. The request the client makes for a registered path, if the factory is handed
  the whole of it, turns the connection into a WebSocket of that route: the only thing sent is a
  101 response whose accept value is the Base64 form of the SHA-1 digest of the client's key and
  the constant of RFC 6455, and the connection stays open.
\<close>

theorem wsock_upgrade_accepted:
  assumes "header_text_ok (''Host'', hostname)" "length cliKey = 16" "path_text path"
    and "r = create_request path hostname cliKey" "length (encode_request r) < 65536"
    and "map_of wsock_routers (url_path path) = Some h" "\<not> is_websocket c" "m_status c = WSOCK_INIT"
  shows "\<exists>rsp. wsock_factory_data url_path max_size date sent connected http_routers wsock_routers
      (text_bytes (encode_request r)) c =
    Inr (True, c\<lparr>is_websocket := True, wc_handler := h\<rparr>, [send_text_act (encode_response date rsp)], None) \<and>
    rs_code rsp = 101 \<and> map_of (http_headers (rs_body rsp)) ''Upgrade'' = Some ''websocket'' \<and>
    map_of (http_headers (rs_body rsp)) ''Sec-WebSocket-Accept'' =
      Some (base64_ref (sha_digest (text_bytes (base64 cliKey) @ ws_guid)))"
proof -
  note p = create_request_parts [OF assms(1,2,4)]
  obtain d where d: "http_parse True (encode_request r) http_decoder_new = (length (encode_request r), d)" "hd_url d = path"
    "hd_headers d = http_headers (rq_body r)" using create_request_decoded [OF assms(1-5)] .
  have "unat (of_nat (length (encode_request r)) :: u32) = length (encode_request r)"
    using assms(5) by (simp add: unat_of_nat)
  then have n: "(0 :: u32) < of_nat (length (encode_request r))"
    using encode_request_length [of r] by (simp add: word_less_nat_alt)
  have l: "length (base64 cliKey) = 24" using length_base64_ref [of cliKey] assms(2) by (simp add: base64_eq_ref)
  let ?rsp = "upgrade_response (base64 cliKey)"
  have rsp: "rs_code ?rsp = 101" "map_of (http_headers (rs_body ?rsp)) ''Upgrade'' = Some ''websocket''"
    "map_of (http_headers (rs_body ?rsp)) ''Sec-WebSocket-Accept'' = Some (generate (text_bytes (base64 cliKey)))"
    by (simp_all add: upgrade_response_def HttpResponse_new_def add_header_def map_of_put Let_def)
  have "length (text_bytes (base64 cliKey)) = 24" using l by (simp add: text_bytes_def)
  note acc = generate_ref [OF this]
  have h: "get_header ''Upgrade'' d = ''websocket''" "get_header ''Sec-WebSocket-Key'' d = base64 cliKey"
    using p(6,7) d(3) by (simp_all add: get_header_def)
  have w: "wsock_write date ?rsp = [send_text_act (encode_response date ?rsp)]" by (simp add: wsock_write_def rsp(1))
  show ?thesis
    by (rule exI [of _ ?rsp])
      (use rsp acc in \<open>simp add: wsock_factory_data_def assms(6-8) d(1,2) n h upgrade_websocket_def l w\<close>)
qed

lemma sha_digest_length: "length (sha_digest x) = 20"
proof -
  have "length (foldl sha_compress h bs) = 5" if "length h = 5" for h bs
    using that by (induction bs arbitrary: h) (simp_all add: sha_compress_def split: prod.splits)
  then show ?thesis by (simp add: sha_digest_def length_concat comp_def be32_bytes_def sum_list_triv)
qed

text \<open>The parts of the server's answer.\<close>

lemma upgrade_response_headers:
  "http_headers (rs_body (upgrade_response key)) =
     [(''Accept-Encoding'', ''gzip, deflate''), (''Connection'', ''Upgrade''), (''Sec-WebSocket-Accept'', generate (text_bytes key)),
      (''Upgrade'', ''websocket'')]"
proof -
  have "''Connection'' < ''Upgrade''" "\<not> ''Sec-WebSocket-Accept'' < ''Connection''" "''Sec-WebSocket-Accept'' < ''Upgrade''"
    "''Accept-Encoding'' < ''Connection''" by code_simp+
  then show ?thesis
    by (simp add: upgrade_response_def HttpResponse_new_def add_header_def set_content_def http_body_new_def Let_def)
qed

lemma accept_value:
  assumes "length key = 24"
  shows "header_text_ok (''Sec-WebSocket-Accept'', generate (text_bytes key))" "length (generate (text_bytes key)) = 28"
proof -
  have g: "generate (text_bytes key) = base64_ref (sha_digest (text_bytes key @ ws_guid))"
    using generate_ref [of "text_bytes key"] assms by (simp add: text_bytes_def)
  show "length (generate (text_bytes key)) = 28" by (simp add: g length_base64_ref sha_digest_length)
  have "\<forall>c\<in>set ''Sec-WebSocket-Accept''. is_token c" by code_simp
  moreover have "sha_digest (text_bytes key @ ws_guid) \<noteq> []" using sha_digest_length [of "text_bytes key @ ws_guid"] by auto
  ultimately show "header_text_ok (''Sec-WebSocket-Accept'', generate (text_bytes key))"
    unfolding g by (intro base64_header_ok) simp_all
qed

lemma upgrade_response_parts:
  assumes "length key = 24" "r = upgrade_response key"
  shows "rs_code r = 101" "content (rs_body r) = []"
    and "\<forall>h\<in>set (http_headers (rs_body r)). header_text_ok h" "body_framed (http_headers (rs_body r)) []"
    and "(''Connection'', ''Upgrade'') \<in> set (http_headers (rs_body r))" "(''Upgrade'', ''websocket'') \<in> set (http_headers (rs_body r))"
proof -
  note hs = upgrade_response_headers [of key, folded assms(2)]
  show "rs_code r = 101" "content (rs_body r) = []"
    by (simp_all add: assms(2) upgrade_response_def HttpResponse_new_def add_header_def set_content_def http_body_new_def Let_def)
  show "(''Connection'', ''Upgrade'') \<in> set (http_headers (rs_body r))" "(''Upgrade'', ''websocket'') \<in> set (http_headers (rs_body r))"
    by (simp_all add: hs)
  have "header_text_ok (''Accept-Encoding'', ''gzip, deflate'')" "header_text_ok (''Connection'', ''Upgrade'')"
    "header_text_ok (''Upgrade'', ''websocket'')" by code_simp+
  then show "\<forall>h\<in>set (http_headers (rs_body r)). header_text_ok h" using accept_value(1) [OF assms(1)] by (simp add: hs)
  have "map token ''Accept-Encoding'' \<notin> {''transfer-encoding'', ''content-length''}"
    "map token ''Connection'' \<notin> {''transfer-encoding'', ''content-length''}"
    "map token ''Sec-WebSocket-Accept'' \<notin> {''transfer-encoding'', ''content-length''}"
    "map token ''Upgrade'' \<notin> {''transfer-encoding'', ''content-length''}" by code_simp+
  then show "body_framed (http_headers (rs_body r)) []" by (simp add: body_framed_def is_length_def hs)
qed

lemma upgrade_response_length:
  assumes "length key = 24" "length date < 100"
  shows "length (encode_response date (upgrade_response key)) < 1000"
proof -
  have "status_string 101 = ''HTTP/1.1 101  Web Socket Protocol Handshake''" by code_simp
  then show ?thesis
    using upgrade_response_parts(1,2) [OF assms(1) refl] accept_value(2) [OF assms(1)] assms(2)
    by (simp add: encode_response_def upgrade_response_headers encode_headers_def crlf_def)
qed

text \<open>
  C33: the client's side of the upgrade. A client that has sent its request and is handed the
  whole of the server's answer becomes a WebSocket; nothing is sent and nothing is delivered.
  Every other answer of the library leaves the connection as it is.
\<close>

theorem wsock_upgrade_completed:
  assumes "length key = 24" "header_text_ok (''Date'', date)" "\<not> is_websocket c" "m_status c = WSOCK_CONNECTING"
    and "length (encode_response date (upgrade_response key)) < 65536"
    and "rs_body r = fold run_call cs http_body_new" "\<forall>c\<in>set cs. plain_call c" "rs_code r \<noteq> 101" "length (encode_response date r) < 65536"
  shows "wsock_factory_data url_path max_size date' sent connected http_routers wsock_routers
      (text_bytes (encode_response date (upgrade_response key))) c = Inr (True, c\<lparr>is_websocket := True\<rparr>, [], None) \<and>
    wsock_factory_data url_path max_size date' sent connected http_routers wsock_routers (text_bytes (encode_response date r)) c =
      Inr (True, c, [], None)"
proof -
  note p = upgrade_response_parts [OF assms(1) refl]
  have s: "sent_status 101 = 101" by (simp add: sent_status_def status_table_def)
  have n: "(0 :: u32) < of_nat (length (encode_response date x))" if "length (encode_response date x) < 65536" for x
  proof -
    have "unat (of_nat (length (encode_response date x)) :: u32) = length (encode_response date x)"
      using that by (simp add: unat_of_nat)
    moreover have "0 < length (encode_response date x)" by (simp add: encode_response_def crlf_def)
    ultimately show ?thesis by (simp add: word_less_nat_alt)
  qed
  have h: "(''Connection'', ''Upgrade'') \<in> set (response_headers date (upgrade_response key))"
    "(''Upgrade'', ''websocket'') \<in> set (response_headers date (upgrade_response key))"
    using p(5,6) by (simp_all only: response_headers_def set_append Un_iff simp_thms)
  obtain d where d: "http_parse False (encode_response date (upgrade_response key)) http_decoder_new =
      (length (encode_response date (upgrade_response key)), d)" "hd_upgrade d"
    by (rule response_decoded [of "upgrade_response key" date "''websocket''"]) (use p assms(2,5) s h in simp_all)
  have b: "body_plain (rs_body r)" using body_plain_calls [OF assms(7) body_plain_new] assms(6) by simp
  then have "\<forall>h\<in>set (http_headers (rs_body r)). header_text_ok h" by (simp add: body_plain_def)
  from response_decoded [OF this body_plain_framed [OF b] assms(2,9)] obtain e where
    e: "http_parse False (encode_response date r) http_decoder_new = (length (encode_response date r), e)"
    "sent_status (rs_code r) \<noteq> 101 \<longrightarrow> \<not> hd_upgrade e" by blast
  have "sent_status (rs_code r) \<noteq> 101" using assms(8) by (simp add: sent_status_def word_unat_eq_iff)
  then show ?thesis using d e n [OF assms(5)] n [OF assms(9)] assms(3,4) by (simp add: wsock_factory_data_def)
qed

section \<open>The package handler and the handshake\<close>

lemma encode_create_length: "71 < length (encode_request (create_request path hostname cliKey))"
  by (simp add: create_request_def HttpRequest_new_def set_content_def http_body_new_def request_headers_def add_header_def
      encode_headers_def encode_request_def crlf_def)

text \<open>The second letter of \<^verbatim>\<open>GET\<close> is the head of a frame without a mask and with 69 bytes.\<close>

lemma ws_handle_package_GET:
  assumes "71 \<le> n" "n < 2 ^ 31"
  shows "ws_handle_package (x # 0x45 # rest) (of_nat n) = 71"
proof -
  have "unat (of_nat n :: u32) = n" using assms(2) by (intro unat_of_nat32) simp
  moreover have "take_bit 64 n = n" using assms(2) by (simp add: take_bit_nat_eq_self)
  ultimately show ?thesis
    using assms(1) by (simp add: ws_handle_package_def get_message_length_def sizeof_MinFrameHead_def
        word_less_nat_alt unsigned_ucast_eq take_bit_nat_eq_self)
qed

text \<open>
  C34: the handshake is cut. The package handler of a WebSocket connection treats the client's
  HTTP request as a frame: whatever follows the request, it answers 71 bytes, a proper part of
  the request, so that the factory is never handed the whole of it.
\<close>

theorem wsock_handshake_cut:
  assumes "t = encode_request (create_request path hostname cliKey)" "length t + length rest < 2 ^ 31"
  shows "ws_handle_package (text_bytes t @ rest) (of_nat (length t + length rest)) = 71 \<and> 71 < length t"
proof -
  obtain u where u: "t = CHR ''G'' # CHR ''E'' # u"
    by (simp add: assms(1) create_request_def HttpRequest_new_def encode_request_def)
  have "text_bytes t @ rest = 0x47 # 0x45 # (text_bytes u @ rest)" by (simp add: u text_bytes_def)
  then show ?thesis
    using ws_handle_package_GET [of "length t + length rest"] assms(2) encode_create_length [of path hostname cliKey]
    by (simp add: assms(1))
qed

lemma demo_request_length: "length (encode_request (create_request ''/chat'' ''h'' (replicate 16 7))) < 1000"
  by code_simp

theorem wsock_handshake_cut_witness:
  "ws_handle_package (text_bytes (encode_request (create_request ''/chat'' ''h'' (replicate 16 7))) @ [])
     (of_nat (length (encode_request (create_request ''/chat'' ''h'' (replicate 16 7))) + length ([] :: bytes))) = 71 \<and>
   71 < length (encode_request (create_request ''/chat'' ''h'' (replicate 16 7)))"
  by (rule wsock_handshake_cut [OF refl]) (use demo_request_length in simp)

theorem wsock_upgrade_accepted_witness:
  "\<exists>rsp. wsock_factory_data (\<lambda>u. u) 65536 ''today'' 0 True [] [(''/chat'', 3, True)]
      (text_bytes (encode_request (create_request ''/chat'' ''h'' (replicate 16 7)))) (WSockConnection_new None (0, False)) =
    Inr (True, (WSockConnection_new None (0, False))\<lparr>is_websocket := True, wc_handler := (3, True)\<rparr>,
      [send_text_act (encode_response ''today'' rsp)], None) \<and> rs_code rsp = 101"
proof -
  have 1: "header_text_ok (''Host'', ''h'')" "path_text ''/chat''" by code_simp+
  have 2: "length (encode_request (create_request ''/chat'' ''h'' (replicate 16 7))) < 65536"
    using demo_request_length by linarith
  show ?thesis
    using wsock_upgrade_accepted [OF 1(1) _ 1(2) refl 2, of "[(''/chat'', 3, True)]" "\<lambda>u. u" "(3, True)"
        "WSockConnection_new None (0, False)" 65536 "''today''" 0 True "[]"]
    by (auto simp: WSockConnection_new_def)
qed


theorem wsock_upgrade_completed_witness:
  "wsock_factory_data (\<lambda>u. u) 65536 ''today'' 0 True [] []
     (text_bytes (encode_response ''now'' (upgrade_response (replicate 24 CHR ''x''))))
     ((WSockConnection_new None (0, False))\<lparr>m_status := WSOCK_CONNECTING\<rparr>) =
   Inr (True, (WSockConnection_new None (0, False))\<lparr>m_status := WSOCK_CONNECTING, is_websocket := True\<rparr>, [], None)"
proof -
  have 1: "header_text_ok (''Date'', ''now'')" "\<forall>c\<in>set demo_calls. plain_call c" by code_simp+
  have 2: "length (encode_response ''now'' (upgrade_response (replicate 24 CHR ''x''))) < 1000"
    by (rule upgrade_response_length) simp_all
  have 3: "length (encode_response ''now'' ((HttpResponse_new 200 [] [])\<lparr>rs_body := demo_body\<rparr>)) < 1000" by code_simp
  from wsock_upgrade_completed [of "replicate 24 CHR ''x''" "''now''" "(WSockConnection_new None (0, False))\<lparr>m_status := WSOCK_CONNECTING\<rparr>"
      "(HttpResponse_new 200 [] [])\<lparr>rs_body := demo_body\<rparr>" demo_calls "\<lambda>u. u" 65536 "''today''" 0 True "[]" "[]"] 1 2 3
  show ?thesis by (simp add: WSockConnection_new_def demo_body_def HttpResponse_new_def)
qed

end
