(* ===== verification/Http_Endpoints.thy ===== *)
theory Http_Endpoints
  imports Wsock_Upgrade Tcp_Server
begin

text \<open>
  \<^verbatim>\<open>http_server.hpp\<close>, \<^verbatim>\<open>http_client.hpp\<close>, \<^verbatim>\<open>wsock_server.hpp\<close> and \<^verbatim>\<open>wsock_client.hpp\<close>: the classes that put a
  listener or a connector and a factory together. Workers are numbered as in the listener;
  the factory is handler 0 of a chain, if it is a handler at all.
\<close>

section \<open>Servers\<close>

definition listener_new :: "bool \<Rightarrow> nat \<Rightarrow> tcp_listener" where
  "listener_new handler w =
     \<lparr>lis_running = False, lis_worker = w, user_workers = [], worker_index = 0, acceptor_open = False,
      lis_chain = (if handler then [0] else []), lis_accepts = [], accept_threads = 0, lis_inited = [], stopped_workers = [],
      lis_fresh = w + 1\<rparr>"

text \<open>\<^verbatim>\<open>HttpServer::add_worker\<close>: a worker of the caller, or one that is made and started here.\<close>

definition http_add_worker :: "nat option \<Rightarrow> tcp_listener \<Rightarrow> tcp_listener" where
  "http_add_worker w l =
     (case w of
        Some w \<Rightarrow> add_worker (Some w) l
      | None \<Rightarrow> add_worker (Some (lis_fresh l)) (l\<lparr>lis_fresh := lis_fresh l + 1\<rparr>))"

definition HttpServer_new :: "nat \<Rightarrow> nat \<Rightarrow> tcp_listener" where
  "HttpServer_new w workerNum = (http_add_worker None ^^ workerNum) (listener_new False w)"

text \<open>\<^verbatim>\<open>HttpServer::start\<close> drops the result of the listener; None stands for an exception.\<close>

definition http_server_start :: "nat \<Rightarrow> nat \<Rightarrow> bool \<times> bool \<times> bool \<Rightarrow> tcp_listener \<Rightarrow> bool option \<times> tcp_listener" where
  "http_server_start nworkers sync_threads acceptor l =
     (case acceptor of (open_ok, bind_ok, listen_ok) \<Rightarrow>
        case listener_start nworkers sync_threads open_ok bind_ok listen_ok l of (ret, l) \<Rightarrow>
          (if ret = StartThrows then None else Some True, l))"

definition WSockServer_new :: "nat \<Rightarrow> tcp_listener" where
  "WSockServer_new w = add_worker (Some w) (listener_new True w)"

definition wsock_server_start :: "nat \<Rightarrow> bool \<times> bool \<times> bool \<Rightarrow> tcp_listener \<Rightarrow> bool option \<times> tcp_listener" where
  "wsock_server_start nworkers acceptor l =
     (case acceptor of (open_ok, bind_ok, listen_ok) \<Rightarrow>
        case listener_start nworkers 0 open_ok bind_ok listen_ok l of (ret, l) \<Rightarrow>
          (if ret = StartThrows then None else Some (ret = StartTrue), l))"

section \<open>Clients\<close>

text \<open>
  A client: its connector, its own table of connections and the first request of each. The
  client of HTTP is a factory but not a handler, so that its connector's chain stays empty.
\<close>

record http_client =
  hc_connector :: tcp_connector
  hc_connections :: "(u64 \<times> nat) list"
  hc_first :: "(nat \<times> HttpRequest) list"

definition connector_new :: "bool \<Rightarrow> u64 \<Rightarrow> tcp_connector" where
  "connector_new handler idx =
     \<lparr>cor_workers = [(0, True)], cor_index = 0, connections = [], cor_chain = (if handler then [0] else []), cor_closed = [],
      cor_stopped = [], cor_fresh = 1, conn_index = idx, cor_connecting = []\<rparr>"

definition HttpClient_new :: "u64 \<Rightarrow> http_client" where
  "HttpClient_new idx =
     \<lparr>hc_connector = snd (connector_start 0 (connector_new False idx)), hc_connections = [], hc_first = []\<rparr>"

definition http_get :: "string \<Rightarrow> http_client \<Rightarrow> (bool \<times> http_client) option" where
  "http_get url h =
     (case add_new_connection (hc_connector h) of
        None \<Rightarrow> None
      | Some (cid, c, k) \<Rightarrow>
          Some (True, h\<lparr>hc_connector := k, hc_connections := AList.update cid c (hc_connections h),
                        hc_first := (c, HttpRequest_new HTTP_GET url [] ''txt'') # hc_first h\<rparr>))"

definition http_client_event :: "u64 \<Rightarrow> nat \<Rightarrow> NetEvent \<Rightarrow> http_client \<Rightarrow> http_client \<times> sock_act list" where
  "http_client_event cid c evt h =
     (if evt = EVT_CONNECT then (h, send_first_request (map_of (hc_first h) c))
      else if evt = EVT_DISCONNECT then (h\<lparr>hc_connections := AList.delete cid (hc_connections h)\<rparr>, [])
      else (h, []))"

definition WSockClient_new :: "u64 \<Rightarrow> tcp_connector" where
  "WSockClient_new idx = connector_new True idx"

text \<open>\<^verbatim>\<open>WSockClient::add_connection\<close>; the URL is split by the bundled class into host and path.\<close>

definition wsock_add_connection ::
  "(string \<Rightarrow> string \<times> string) \<Rightarrow> string \<Rightarrow> bytes \<Rightarrow> nat \<times> bool \<Rightarrow> tcp_connector \<Rightarrow> (u64 \<times> nat \<times> wsock_conn \<times> tcp_connector) option" where
  "wsock_add_connection http_url url cliKey handler k =
     (case http_url url of (hostname, path) \<Rightarrow>
        case add_new_connection k of
          None \<Rightarrow> None
        | Some (cid, c, k) \<Rightarrow>
            Some (cid, c, WSockConnection_new (Some (create_request path hostname cliKey)) handler, k))"

section \<open>Properties\<close>

lemma add_workers:
  "user_workers ((http_add_worker None ^^ n) l) = user_workers l @ [lis_fresh l ..< lis_fresh l + n] \<and>
   lis_fresh ((http_add_worker None ^^ n) l) = lis_fresh l + n \<and> lis_running ((http_add_worker None ^^ n) l) = lis_running l"
  by (induction n) (simp_all add: http_add_worker_def add_worker_def)

text \<open>
  A new HTTP server has as many workers as asked for, all different and different from the
  listening one, and says that it started even if the port could not be bound.
\<close>

theorem http_server_workers:
  "user_workers (HttpServer_new w n) = [w + 1 ..< w + 1 + n] \<and>
   fst (http_server_start nworkers threads (True, False, listen_ok) (HttpServer_new w n)) = Some True"
  using add_workers [of n "listener_new False w"]
  by (simp add: HttpServer_new_def listener_new_def http_server_start_def listener_start_def Let_def)

text \<open>
  The first request of an HTTP client is not sent: no handler of its connector's chain reacts
  to the connection, and the connection, which has no routes, does nothing with what it
  receives.
\<close>

theorem http_get_silent:
  assumes "http_get url (HttpClient_new idx) = Some (r, h)"
  shows "cor_chain (hc_connector h) = [] \<and> snd (snd (connector_handle_event True [] evt c)) = [] \<and>
    http_handle_data date sent connected None data = []"
proof -
  have "cor_chain (hc_connector h) = []"
    using assms by (auto simp: http_get_def HttpClient_new_def connector_start_def connector_new_def add_new_connection_def
        connector_get_worker_def next_cid_def put_connection_def Let_def)
  moreover have "snd (snd (connector_handle_event True [] evt c)) = []"
    by (simp add: connector_handle_event_def invoke_event_chain_def Let_def)
  ultimately show ?thesis by (simp add: http_handle_data_def split: prod.split)
qed

end
