(* ===== verification/Tls_Socket.thy ===== *)
theory Tls_Socket
  imports Tcp_Stream
begin

text \<open>
  \<^verbatim>\<open>tcp/asio/tls_socket.hpp\<close>: the class \<^verbatim>\<open>TlsSocket<T>\<close>, a copy of \<^verbatim>\<open>TcpSocket<T>\<close> on an encrypted
  stream. The operations the copy shares with the original are those of \<^verbatim>\<open>Tcp_Socket\<close> on the
  socket inside; the size of the read buffer, connecting, and the handshake are its own.
  OpenSSL appears only through the outcome of handshakes, reads and writes.
\<close>

section \<open>State\<close>

text \<open>\<open>handshakes\<close>: the roles (True for client) of the \<^verbatim>\<open>async_handshake\<close>s under way.\<close>

record 'c tls_socket =
  tls_tcp :: "'c tcp_socket"
  ssl_shakehand :: bool
  handshakes :: "bool list"

definition tls_read_size :: nat where
  "tls_read_size = 1024 * 8"

definition TlsSocket_new :: "bool \<Rightarrow> bytes \<Rightarrow> 'c \<Rightarrow> 'c tls_socket" where
  "TlsSocket_new opened storage c = \<lparr>tls_tcp = TcpSocket_init opened storage c, ssl_shakehand = False, handshakes = []\<rparr>"

definition on_tcp :: "('c tcp_socket \<Rightarrow> 'c tcp_socket) \<Rightarrow> 'c tls_socket \<Rightarrow> 'c tls_socket" where
  "on_tcp f t = t\<lparr>tls_tcp := f (tls_tcp t)\<rparr>"

definition ret_tcp :: "('c tcp_socket \<Rightarrow> int \<times> 'c tcp_socket) \<Rightarrow> 'c tls_socket \<Rightarrow> int \<times> 'c tls_socket" where
  "ret_tcp f t = (case f (tls_tcp t) of (r, s) \<Rightarrow> (r, t\<lparr>tls_tcp := s\<rparr>))"

definition verify_certificate :: "bool \<Rightarrow> bool" where
  "verify_certificate preverified = True"

section \<open>Sending and closing\<close>

definition tls_is_open :: "'c tls_socket \<Rightarrow> bool" where
  "tls_is_open t \<longleftrightarrow> is_open (tls_tcp t)"

definition tls_msend :: "send_arg list \<Rightarrow> 'c tls_socket \<Rightarrow> int \<times> 'c tls_socket" where
  "tls_msend args = ret_tcp (msend args)"

definition tls_sync_send :: "'c conn_ops \<Rightarrow> bool \<Rightarrow> bytes \<Rightarrow> 'c tls_socket \<Rightarrow> int \<times> 'c tls_socket" where
  "tls_sync_send ops ok data = ret_tcp (sync_send ops ok data)"

definition tls_sync_sendv :: "'c conn_ops \<Rightarrow> bool \<Rightarrow> bytes list \<Rightarrow> 'c tls_socket \<Rightarrow> int \<times> 'c tls_socket" where
  "tls_sync_sendv ops ok bufs = ret_tcp (sync_sendv ops ok bufs)"

definition tls_sync_msend :: "'c conn_ops \<Rightarrow> bool \<Rightarrow> send_arg list \<Rightarrow> 'c tls_socket \<Rightarrow> int \<times> 'c tls_socket" where
  "tls_sync_msend ops ok args = ret_tcp (sync_msend ops ok args)"

definition tls_write_done :: "'c conn_ops \<Rightarrow> bool \<Rightarrow> bytes \<Rightarrow> 'c tls_socket \<Rightarrow> 'c tls_socket" where
  "tls_write_done ops ok b = on_tcp (write_done ops ok b)"

definition tls_close :: "'c tls_socket \<Rightarrow> 'c tls_socket" where
  "tls_close = on_tcp close_socket"

definition tls_do_close :: "'c conn_ops \<Rightarrow> 'c tcp_socket \<Rightarrow> 'c tcp_socket" where
  "tls_do_close ops = do_close ops"

text \<open>The body that \<^verbatim>\<open>close()\<close> posts, and the tasks of the loop.\<close>

definition tls_close_task :: "'c conn_ops \<Rightarrow> 'c tcp_socket \<Rightarrow> 'c tcp_socket" where
  "tls_close_task ops = close_task ops"

definition tls_run_task :: "'c conn_ops \<Rightarrow> loop_task \<Rightarrow> 'c tls_socket \<Rightarrow> 'c tls_socket" where
  "tls_run_task ops task =
     on_tcp (\<lambda>s. case task of
               TaskSend \<Rightarrow> if \<not> is_writting s then do_async_write s else s
             | TaskClose \<Rightarrow> tls_close_task ops s)"

section \<open>Reading\<close>

function tls_process_loop ::
  "'c conn_ops \<Rightarrow> nat \<Rightarrow> nat \<Rightarrow> 'c tcp_socket \<Rightarrow> bool \<times> nat \<times> 'c tcp_socket" where
  "tls_process_loop ops pos readPos s =
     (if readPos < pos \<and> has_conn s then
        let mem = drop readPos (read_buffer s);
            r = process_package ops mem (of_nat pos) (conn s);
            pkgLen = fst r;
            s = s\<lparr>conn := snd r\<rparr>
        in if pkgLen \<le> 0 \<or> pkgLen > int pos - int readPos
           then (pkgLen > int tls_read_size, readPos, s)
           else tls_process_loop ops pos (readPos + nat pkgLen) (raise_data ops (take (nat pkgLen) mem) s)
      else (False, readPos, s))"
  by pat_completeness auto

termination
  by (relation "measure (\<lambda>(ops, pos, readPos, s). pos - readPos)") auto

declare tls_process_loop.simps [simp del]

definition tls_process_data :: "'c conn_ops \<Rightarrow> nat \<Rightarrow> 'c tcp_socket \<Rightarrow> bool \<times> 'c tcp_socket" where
  "tls_process_data ops nread s =
     (let s = s\<lparr>read_buffer_pos := read_buffer_pos s + nread\<rparr> in
      case tls_process_loop ops (read_buffer_pos s) 0 s of (tooLarge, readPos, s) \<Rightarrow>
        if tooLarge then (False, tls_do_close ops s)
        else
          let pos = read_buffer_pos s;
              s = (if readPos < pos
                   then s\<lparr>read_buffer := blit (read_buffer s) 0
                            (take (pos - readPos) (drop readPos (read_buffer s)))\<rparr> else s)
          in (True, s\<lparr>read_buffer_pos := pos - readPos\<rparr>))"

definition tls_do_read :: "'c conn_ops \<Rightarrow> 'c tcp_socket \<Rightarrow> 'c tcp_socket" where
  "tls_do_read ops s =
     (if sock_open s then
        if tls_read_size > read_buffer_pos s then s\<lparr>reads := reads s @ [read_buffer_pos s]\<rparr>
        else
          let s = snd (tls_process_data ops 0 s)
          in if read_buffer_pos s \<ge> tls_read_size then tls_do_close ops s else s
      else s)"

definition tls_read_done :: "'c conn_ops \<Rightarrow> nat \<Rightarrow> bytes option \<Rightarrow> 'c tcp_socket \<Rightarrow> 'c tcp_socket" where
  "tls_read_done ops start result s =
     (case result of
        Some data \<Rightarrow>
          tls_do_read ops (snd (tls_process_data ops (length data)
             (s\<lparr>read_buffer := blit (read_buffer s) start data,
                 h_received := h_received s @ data\<rparr>)))
      | None \<Rightarrow> tls_do_close ops (s\<lparr>cache_buffer := []\<rparr>))"

section \<open>Connecting and the handshake\<close>

definition tls_handshake :: "bool \<Rightarrow> 'c tls_socket \<Rightarrow> 'c tls_socket" where
  "tls_handshake isClient t = t\<lparr>handshakes := handshakes t @ [isClient]\<rparr>"

text \<open>
  The completion handler of \<^verbatim>\<open>async_handshake\<close>. It calls the connection's own \<^verbatim>\<open>handle_event\<close>
  (\<open>own\<close>), not \<^verbatim>\<open>process_event\<close>; None is the dereference of a null connection.
\<close>

definition tls_handshake_done ::
  "'c conn_ops \<Rightarrow> (NetEvent \<Rightarrow> 'c \<Rightarrow> 'c \<times> sock_act list) \<Rightarrow> bool \<Rightarrow> 'c tls_socket \<Rightarrow> 'c tls_socket option" where
  "tls_handshake_done ops own ok t =
     (let s = tls_tcp t in
      if ok then
        if has_conn s
        then Some (t\<lparr>ssl_shakehand := True, tls_tcp := tls_do_read ops (run_callback (own EVT_CONNECT (conn s)) s)\<rparr>)
        else None
      else Some (t\<lparr>tls_tcp := s\<lparr>sock_open := False\<rparr>\<rparr>))"

definition tls_init_read :: "'c conn_ops \<Rightarrow> bool \<Rightarrow> 'c tls_socket \<Rightarrow> 'c tls_socket" where
  "tls_init_read ops isClient t =
     (let s = tls_tcp t in
      if has_conn s then
        if \<not> ssl_shakehand t then tls_handshake isClient t
        else t\<lparr>tls_tcp := tls_do_read ops (raise_event ops EVT_CONNECT (s\<lparr>socket_status := SOCKET_OPEN\<rparr>))\<rparr>
      else t)"

definition tls_connect :: "bool \<Rightarrow> bool option \<Rightarrow> 'c tls_socket \<Rightarrow> connect_result \<times> 'c tls_socket" where
  "tls_connect resolved bind t =
     (if \<not> resolved then (ConnectRefused, t)
      else if bind = Some False then (ConnectThrows, t)
      else
        let s = tls_tcp t
        in (ConnectStarted,
            t\<lparr>tls_tcp := s\<lparr>socket_status := SOCKET_CONNECTING, sock_open := True, connects := connects s + 1\<rparr>\<rparr>))"

definition tls_connect_done :: "'c conn_ops \<Rightarrow> bool \<Rightarrow> 'c tls_socket \<Rightarrow> 'c tls_socket" where
  "tls_connect_done ops ok t =
     (if ok then tls_init_read ops True t
      else t\<lparr>tls_tcp := (tls_tcp t)\<lparr>sock_open := False, socket_status := SOCKET_CLOSED\<rparr>\<rparr>)"

section \<open>The transition system\<close>

text \<open>
  As for the plain socket. A listener calls \<^verbatim>\<open>init_read(true)\<close> once on a socket it has accepted;
  \<^verbatim>\<open>connect\<close> is called on sockets that are neither open nor connecting nor accepted.
\<close>

inductive tls_step ::
  "'c conn_ops \<Rightarrow> (NetEvent \<Rightarrow> 'c \<Rightarrow> 'c \<times> sock_act list) \<Rightarrow> 'c tls_socket \<Rightarrow> 'c tls_socket \<Rightarrow> bool"
  for ops :: "'c conn_ops" and own where
  tls_send: "tls_step ops own t (snd (tls_msend args t))"
| tls_sync1: "tls_step ops own t (snd (tls_sync_send ops ok d t))"
| tls_sync2: "tls_step ops own t (snd (tls_sync_sendv ops ok ds t))"
| tls_sync3: "tls_step ops own t (snd (tls_sync_msend ops ok args t))"
| tls_closing: "tls_step ops own t (tls_close t)"
| tls_accept: "socket_status (tls_tcp t) = SOCKET_INIT \<Longrightarrow> sock_open (tls_tcp t) \<Longrightarrow> handshakes t = [] \<Longrightarrow>
    \<not> ssl_shakehand t \<Longrightarrow> tls_step ops own t (tls_init_read ops True t)"
| tls_connecting: "\<not> tls_is_open t \<Longrightarrow> \<not> is_connecting (tls_tcp t) \<Longrightarrow>
    (socket_status (tls_tcp t) = SOCKET_INIT \<Longrightarrow> \<not> sock_open (tls_tcp t)) \<Longrightarrow>
    tls_step ops own t (snd (tls_connect r b t))"
| tls_connected: "connects (tls_tcp t) = Suc n \<Longrightarrow>
    tls_step ops own t (tls_connect_done ops ok (on_tcp (\<lambda>s. s\<lparr>connects := n\<rparr>) t))"
| tls_shaken: "handshakes t = p @ c # q \<Longrightarrow>
    tls_handshake_done ops own ok (t\<lparr>handshakes := p @ q\<rparr>) = Some t' \<Longrightarrow> tls_step ops own t t'"
| tls_task: "tasks (tls_tcp t) = k # ks \<Longrightarrow>
    tls_step ops own t (tls_run_task ops k (on_tcp (\<lambda>s. s\<lparr>tasks := ks\<rparr>) t))"
| tls_write: "writes (tls_tcp t) = p @ b # q \<Longrightarrow>
    tls_step ops own t (tls_write_done ops ok b (on_tcp (\<lambda>s. s\<lparr>writes := p @ q\<rparr>) t))"
| tls_read: "reads (tls_tcp t) = p @ st # q \<Longrightarrow>
    (\<And>d. result = Some d \<Longrightarrow> 0 < length d \<and> length d \<le> tls_read_size - st) \<Longrightarrow>
    tls_step ops own t (on_tcp (\<lambda>s. tls_read_done ops st result (s\<lparr>reads := p @ q\<rparr>)) t)"

inductive tls_reach ::
  "'c conn_ops \<Rightarrow> (NetEvent \<Rightarrow> 'c \<Rightarrow> 'c \<times> sock_act list) \<Rightarrow> 'c tls_socket \<Rightarrow> 'c tls_socket \<Rightarrow> bool"
  for ops :: "'c conn_ops" and own and t0 :: "'c tls_socket" where
  tls_reach_refl: "tls_reach ops own t0 t0"
| tls_reach_step: "tls_reach ops own t0 t \<Longrightarrow> tls_step ops own t t' \<Longrightarrow> tls_reach ops own t0 t'"

section \<open>A socket that is not open\<close>

text \<open>Nothing was accepted, nothing is being written, and the owner was not told of a connection.\<close>

definition quiet :: "'c tcp_socket \<Rightarrow> bool" where
  "quiet s \<longleftrightarrow> socket_status s \<noteq> SOCKET_OPEN \<and> send_buffer s = [] \<and> cache_buffer s = [] \<and> writes s = [] \<and>
     h_accepted s = [] \<and> h_written s = [] \<and> set (h_events s) \<inter> {EVT_CONNECT, EVT_SEND} = {}"

text \<open>The socket stays quiet, and unless it lets go of its connection, it stays as connected as it was.\<close>

definition kept :: "'c tcp_socket \<Rightarrow> 'c tcp_socket \<Rightarrow> bool" where
  "kept s s' \<longleftrightarrow> (quiet s \<longrightarrow> quiet s' \<and>
     (has_conn s' \<longrightarrow> has_conn s \<and> socket_status s' = socket_status s \<and> sock_open s' = sock_open s \<and> connects s' = connects s))"

lemma kept_refl: "kept s s"
  by (simp add: kept_def)

lemma kept_trans: "kept s t \<Longrightarrow> kept t u \<Longrightarrow> kept s u"
  by (auto simp: kept_def)

lemma kept_cb_ext: "cb_ext s s' \<Longrightarrow> kept s s'"
  by (auto simp: cb_ext_def kept_def quiet_def is_open_def)

lemma kept_event:
  assumes "e \<notin> {EVT_CONNECT, EVT_SEND}"
  shows "kept s (raise_event ops e s)"
proof -
  have "kept s (s\<lparr>h_events := h_events s @ [e]\<rparr>)" using assms by (auto simp: kept_def quiet_def)
  then show ?thesis unfolding raise_event_def using kept_trans kept_cb_ext [OF cb_ext_callback] by blast
qed

lemma kept_release: "kept s (raise_release ops s)"
proof -
  have "kept s (s\<lparr>h_events := h_events s @ [EVT_RELEASE]\<rparr>)" by (auto simp: kept_def quiet_def)
  then show ?thesis unfolding raise_release_def using kept_trans kept_cb_ext [OF cb_ext_callback] by blast
qed

lemma quiet_event: "e \<notin> {EVT_CONNECT, EVT_SEND} \<Longrightarrow> quiet s \<Longrightarrow> quiet (raise_event ops e s)"
  using kept_event by (auto simp: kept_def)

lemma quiet_release: "quiet s \<Longrightarrow> quiet (raise_release ops s)"
  using kept_release by (auto simp: kept_def)

lemma quiet_status: "quiet s \<Longrightarrow> st \<noteq> SOCKET_OPEN \<Longrightarrow> quiet (s\<lparr>socket_status := st\<rparr>)"
  by (simp add: quiet_def)

lemma quiet_fields [simp]:
  "quiet (s\<lparr>sock_open := b\<rparr>) = quiet s" "quiet (s\<lparr>has_conn := b\<rparr>) = quiet s" "quiet (s\<lparr>read_buffer_pos := n\<rparr>) = quiet s"
  "quiet (s\<lparr>read_buffer := m\<rparr>) = quiet s" "quiet (s\<lparr>reads := rs\<rparr>) = quiet s" "quiet (s\<lparr>tasks := ts\<rparr>) = quiet s"
  "quiet (s\<lparr>connects := n\<rparr>) = quiet s" "quiet (s\<lparr>h_received := d\<rparr>) = quiet s" "quiet (s\<lparr>conn := c\<rparr>) = quiet s"
  "quiet (s\<lparr>is_writting := b\<rparr>) = quiet s"
  by (simp_all add: quiet_def)

lemma quiet_buffers: "quiet s \<Longrightarrow> quiet (s\<lparr>send_buffer := [], cache_buffer := []\<rparr>)"
  by (simp add: quiet_def)

text \<open>Closing lets go of the connection of a socket that does not reconnect.\<close>

lemma kept_do_close:
  assumes "no_reconnect ops"
  shows "kept s (do_close ops s)"
proof (cases "socket_status s = SOCKET_CLOSING \<or> socket_status s = SOCKET_CLOSED")
  case True
  then show ?thesis by (auto simp: do_close_def kept_refl)
next
  case False
  let ?s = "if socket_status s < SOCKET_CLOSING then s\<lparr>socket_status := SOCKET_CLOSING\<rparr> else s"
  let ?e = "let s = ?s\<lparr>send_buffer := [], cache_buffer := []\<rparr>
    in if socket_status s \<le> SOCKET_CLOSING then raise_event ops EVT_DISCONNECT s else s"
  have q: "quiet s \<Longrightarrow> quiet ?e"
    by (auto simp: Let_def intro!: quiet_event quiet_buffers quiet_status)
  have "\<not> need_reconnect ops c" for c using assms by (simp add: no_reconnect_def)
  moreover have "quiet s \<Longrightarrow> quiet (raise_release ops (?e\<lparr>socket_status := SOCKET_CLOSED, sock_open := False\<rparr>))"
    using q by (intro quiet_release) (simp add: quiet_status)
  ultimately show ?thesis
    using False q by (auto simp: do_close_def kept_def Let_def intro: quiet_status)
qed

lemma kept_close_task:
  assumes "no_reconnect ops"
  shows "kept s (close_task ops s)"
proof -
  let ?s = "s\<lparr>socket_status := SOCKET_CLOSING\<rparr>"
  have r: "\<not> need_reconnect ops c" for c using assms by (simp add: no_reconnect_def)
  have "quiet s \<Longrightarrow> quiet (raise_event ops EVT_DISCONNECT ?s)" by (auto intro!: quiet_event quiet_status)
  then have "quiet s \<Longrightarrow> quiet (raise_release ops ((raise_event ops EVT_DISCONNECT ?s)\<lparr>socket_status := SOCKET_CLOSED, sock_open := False\<rparr>))"
    by (intro quiet_release) (simp add: quiet_status)
  then show ?thesis
    by (auto simp: close_task_def kept_def Let_def r quiet_def less_eq_SocketStatus_def)
qed

lemma kept_loop: "kept s (snd (snd (tls_process_loop ops pos rp s)))"
proof (induction ops pos rp s rule: tls_process_loop.induct)
  case (1 ops pos rp s)
  show ?case
  proof (cases "rp < pos \<and> has_conn s")
    case True
    let ?r = "process_package ops (drop rp (read_buffer s)) (of_nat pos) (conn s)"
    let ?s = "s\<lparr>conn := snd ?r\<rparr>"
    let ?t = "raise_data ops (take (nat (fst ?r)) (drop rp (read_buffer s))) ?s"
    show ?thesis
    proof (cases "fst ?r \<le> 0 \<or> fst ?r > int pos - int rp")
      case stop: True
      then show ?thesis
        using True by (simp add: tls_process_loop.simps [of ops pos rp s] Let_def kept_cb_ext [OF cb_ext_conn])
    next
      case cont: False
      have "kept ?t (snd (snd (tls_process_loop ops pos (rp + nat (fst ?r)) ?t)))"
        using "1" [OF True refl refl refl refl cont] by simp
      then show ?thesis using True cont kept_trans [OF kept_cb_ext [OF cb_ext_trans [OF cb_ext_conn cb_ext_data]]]
        by (simp add: tls_process_loop.simps [of ops pos rp s] Let_def)
    qed
  qed (auto simp: tls_process_loop.simps [of ops pos rp s] kept_refl)
qed

lemma kept_pos [simp]: "kept s (s'\<lparr>read_buffer_pos := n\<rparr>) = kept s s'" "kept (s\<lparr>read_buffer_pos := n\<rparr>) s' = kept s s'"
  "kept s (s'\<lparr>read_buffer := m\<rparr>) = kept s s'" "kept (s\<lparr>read_buffer := m\<rparr>) s' = kept s s'"
  "kept s (s'\<lparr>reads := rs\<rparr>) = kept s s'" "kept (s\<lparr>reads := rs\<rparr>) s' = kept s s'"
  "kept s (s'\<lparr>h_received := d\<rparr>) = kept s s'" "kept (s\<lparr>h_received := d\<rparr>) s' = kept s s'"
  "kept (s\<lparr>tasks := ts\<rparr>) s' = kept s s'" "kept s (s'\<lparr>is_writting := b\<rparr>) = kept s s'"
  by (simp_all add: kept_def)

lemma kept_process_data:
  assumes "no_reconnect ops"
  shows "kept s (snd (tls_process_data ops n s))"
proof -
  let ?s = "s\<lparr>read_buffer_pos := read_buffer_pos s + n\<rparr>"
  obtain big rp u where l: "tls_process_loop ops (read_buffer_pos ?s) 0 ?s = (big, rp, u)"
    by (cases "tls_process_loop ops (read_buffer_pos ?s) 0 ?s")
  have u: "kept s u" using kept_loop [of ?s ops "read_buffer_pos ?s" 0] unfolding l by simp
  then have "kept s (do_close ops u)" using kept_trans kept_do_close [OF assms] by blast
  with u l show ?thesis by (simp add: tls_process_data_def tls_do_close_def Let_def)
qed

lemma kept_do_read:
  assumes "no_reconnect ops"
  shows "kept s (tls_do_read ops s)"
proof -
  note p = kept_process_data [OF assms, of s 0]
  then have "kept s (do_close ops (snd (tls_process_data ops 0 s)))" using kept_trans kept_do_close [OF assms] by blast
  with p show ?thesis by (simp add: tls_do_read_def tls_do_close_def Let_def kept_refl)
qed

lemma kept_read_done:
  assumes "no_reconnect ops"
  shows "kept s (tls_read_done ops st result s)"
proof (cases result)
  case None
  have "kept s (s\<lparr>cache_buffer := []\<rparr>)" by (simp add: kept_def quiet_def)
  then show ?thesis using kept_trans kept_do_close [OF assms] by (fastforce simp: tls_read_done_def tls_do_close_def None)
next
  case (Some d)
  let ?s = "s\<lparr>read_buffer := blit (read_buffer s) st d, h_received := h_received s @ d\<rparr>"
  have "kept s (snd (tls_process_data ops (length d) ?s))" using kept_process_data [OF assms, of ?s "length d"] by simp
  then show ?thesis using kept_trans kept_do_read [OF assms] by (fastforce simp: tls_read_done_def Some)
qed

lemma kept_run_task:
  assumes "no_reconnect ops"
  shows "kept s (run_task ops k s)"
proof (cases k)
  case TaskSend
  then show ?thesis by (auto simp: run_task_def do_async_write_def kept_def quiet_def Let_def)
next
  case TaskClose
  then show ?thesis using kept_close_task [OF assms] by (simp add: run_task_def)
qed

lemma tls_run_task_eq: "tls_run_task ops k = on_tcp (run_task ops k)"
  by (auto simp: tls_run_task_def run_task_def tls_close_task_def fun_eq_iff on_tcp_def split: loop_task.split)

section \<open>The invariant\<close>

text \<open>While the socket has its connection, at most one attempt to connect or to shake hands is under way or done.\<close>

definition tls_inv :: "'c tls_socket \<Rightarrow> bool" where
  "tls_inv t \<longleftrightarrow> quiet (tls_tcp t) \<and>
     (has_conn (tls_tcp t) \<longrightarrow>
        connects (tls_tcp t) + length (handshakes t) + (if ssl_shakehand t then 1 else 0) \<le> 1 \<and>
        (0 < connects (tls_tcp t) \<longrightarrow> socket_status (tls_tcp t) = SOCKET_CONNECTING) \<and>
        (handshakes t \<noteq> [] \<or> ssl_shakehand t \<longrightarrow>
           socket_status (tls_tcp t) = SOCKET_CONNECTING \<or> socket_status (tls_tcp t) = SOCKET_INIT \<and> sock_open (tls_tcp t)))"

lemma tls_inv_kept:
  assumes "tls_inv t" "kept (tls_tcp t) s"
  shows "tls_inv (t\<lparr>tls_tcp := s\<rparr>)"
  using assms by (auto simp: tls_inv_def kept_def)

lemma tls_inv_on_tcp: "tls_inv t \<Longrightarrow> kept (tls_tcp t) (f (tls_tcp t)) \<Longrightarrow> tls_inv (on_tcp f t)"
  by (simp add: on_tcp_def tls_inv_kept)

lemma tls_inv_not_open: "tls_inv t \<Longrightarrow> \<not> is_open (tls_tcp t)"
  by (simp add: tls_inv_def quiet_def is_open_def)

lemma tls_inv_sends:
  assumes "tls_inv t"
  shows "tls_msend args t = (-1, t)" "tls_sync_send ops ok d t = (-1, t)" "tls_sync_sendv ops ok ds t = (-1, t)"
    "tls_sync_msend ops ok args t = (0, t)"
  using tls_inv_not_open [OF assms]
  by (simp_all add: tls_msend_def tls_sync_send_def tls_sync_sendv_def tls_sync_msend_def ret_tcp_def msend_def
      sync_send_def sync_sendv_def sync_msend_def)

lemma tls_inv_shaken:
  assumes "tls_inv t" "no_reconnect ops" "handshakes t = p @ c # q"
    and "tls_handshake_done ops own ok (t\<lparr>handshakes := p @ q\<rparr>) = Some t'"
  shows "tls_inv t'"
proof (cases ok)
  case True
  let ?s = "tls_tcp t"
  let ?u = "tls_do_read ops (run_callback (own EVT_CONNECT (conn ?s)) ?s)"
  have h: "has_conn ?s" and t': "t' = t\<lparr>handshakes := p @ q, ssl_shakehand := True, tls_tcp := ?u\<rparr>"
    using assms(4) True by (auto simp: tls_handshake_done_def Let_def split: if_splits)
  have "tls_inv (t\<lparr>handshakes := p @ q, ssl_shakehand := True\<rparr>)" using assms(1,3) h by (auto simp: tls_inv_def)
  moreover have "kept ?s ?u" by (rule kept_trans [OF kept_cb_ext [OF cb_ext_callback] kept_do_read [OF assms(2)]])
  ultimately show ?thesis using tls_inv_kept [of "t\<lparr>handshakes := p @ q, ssl_shakehand := True\<rparr>" ?u] by (simp add: t')
next
  case False
  then show ?thesis using assms(1,3,4) by (auto simp: tls_handshake_done_def Let_def tls_inv_def)
qed

lemma tls_inv_step:
  assumes "tls_step ops own t t'" "no_reconnect ops" "tls_inv t"
  shows "tls_inv t'"
  using assms(1,3)
proof cases
  case tls_accept
  then show ?thesis using assms(3) by (auto simp: tls_init_read_def tls_handshake_def tls_inv_def Let_def)
next
  case tls_connecting
  then show ?thesis using assms(3)
    by (auto simp: tls_connect_def tls_inv_def Let_def quiet_def is_connecting_def)
next
  case tls_connected
  then show ?thesis using assms(3)
    by (auto simp: tls_connect_done_def tls_init_read_def tls_handshake_def tls_inv_def on_tcp_def Let_def quiet_def)
next
  case tls_shaken
  then show ?thesis using tls_inv_shaken assms(2,3) by blast
next
  case tls_closing
  then show ?thesis using assms(3) by (auto simp: tls_close_def intro!: tls_inv_on_tcp kept_cb_ext cb_ext_close)
next
  case tls_task
  have "on_tcp f (on_tcp g t) = on_tcp (\<lambda>s. f (g s)) t" for f g by (simp add: on_tcp_def)
  with tls_task show ?thesis using assms(2,3)
    by (auto simp: tls_run_task_eq intro!: tls_inv_on_tcp kept_run_task [where s = "s\<lparr>tasks := ts\<rparr>" for s ts, simplified])
next
  case tls_write
  then show ?thesis using assms(3) by (simp add: tls_inv_def quiet_def)
next
  case tls_read
  then show ?thesis using assms(2,3)
    by (auto intro!: tls_inv_on_tcp kept_read_done [where s = "s\<lparr>reads := rs\<rparr>" for s rs, simplified])
qed (simp_all add: tls_inv_sends)

lemma tls_inv_new: "tls_inv (TlsSocket_new opened storage c)"
  by (simp add: tls_inv_def quiet_def TlsSocket_new_def TcpSocket_init_def)

lemma tls_inv_reach: "tls_reach ops own t0 t \<Longrightarrow> no_reconnect ops \<Longrightarrow> tls_inv t0 \<Longrightarrow> tls_inv t"
  by (induction rule: tls_reach.induct) (auto dest: tls_inv_step)


definition tls_demo :: "unit tls_socket" where
  "tls_demo = the (tls_handshake_done default_ops (\<lambda>_ c. (c, [])) True
     ((tls_init_read default_ops True (TlsSocket_new True [] ()))\<lparr>handshakes := []\<rparr>))"


text \<open>
  A second connection on the same socket skips the handshake: \<open>ssl_shakehand\<close> is never reset, so
  that after a reconnection the socket is open at once.
\<close>

theorem tls_reconnect_skips_handshake:
  assumes "ssl_shakehand t" "has_conn (tls_tcp t)" "read_buffer_pos (tls_tcp t) = 0"
    and "\<forall>e c. process_event ops e c = (c, [])"
  shows "tls_is_open (tls_connect_done ops True (snd (tls_connect True None t))) \<and>
    handshakes (tls_connect_done ops True (snd (tls_connect True None t))) = handshakes t"
  using assms
  by (simp add: tls_connect_done_def tls_connect_def tls_init_read_def Let_def tls_is_open_def is_open_def tls_do_read_def
      raise_event_def run_callback_def tls_read_size_def)

end
