(* ===== verification/Spec2Isabelle.thy ===== *)
theory Spec2Isabelle
  imports Loop_Buffer Ikcp_Link Ikcp_Control Kcp_Server Udp Kpipe Knet_Url Http_Endpoints Tls_Socket
begin

text \<open>
  A verification of knet, a header-only C++ library for network servers and clients
  (\<^verbatim>\<open>src/include\<close>).

  \<^bold>\<open>The program.\<close> A worker (\<^verbatim>\<open>knet_worker.hpp\<close>) runs an event loop with timers
  (\<^verbatim>\<open>utils/timer.hpp\<close>). On it live TCP sockets (\<^verbatim>\<open>tcp/asio/tcp_socket.hpp\<close>), each owned by a connection
  (\<^verbatim>\<open>tcp_connection.hpp\<close>) that passes events and data to the handler chain of a listener or a connector
  (\<^verbatim>\<open>tcp_listener.hpp\<close>, \<^verbatim>\<open>tcp_connector.hpp\<close>). Protocols are connection classes with a package handler and a
  factory: the message pipe (\<^verbatim>\<open>pipe\<close>), HTTP (\<^verbatim>\<open>http\<close>) and WebSocket (\<^verbatim>\<open>websocket\<close>). Beside TCP there are
  plain datagrams (\<^verbatim>\<open>udp\<close>) and a reliable protocol over datagrams (\<^verbatim>\<open>kcp\<close>), whose engine is
  \<^verbatim>\<open>kcp/ikcp.c\<close>. URLs and socket options are in \<^verbatim>\<open>utils/knet_url.hpp\<close> and \<^verbatim>\<open>knet.hpp\<close>, a byte ring in
  \<^verbatim>\<open>utils/loop_buffer.hpp\<close>.

  \<^bold>\<open>Style of the model.\<close> Structs and classes are records, enumerations datatypes, fixed-width integers
  words that wrap. Operations are functions on the records; what they hand to the operating
  system or to the user is returned or kept in a history field (fields starting with \<open>h_\<close>, and
  those the theories name as such). Exceptions, null pointers and writes out of bounds are
  error values or \<open>None\<close>. The event loop and the kernel are steps of transition relations: posted
  tasks run in order, asynchronous operations complete in any order and with any outcome.

  \<^bold>\<open>Theories.\<close>
  \<^item> \<^verbatim>\<open>Knet_Prelude\<close>: word types, byte images of integers, serial-number comparison, shared lemmas.
  \<^item> \<^verbatim>\<open>Loop_Buffer\<close> (\<^verbatim>\<open>utils/loop_buffer.hpp\<close>): the ring with free-running 32-bit cursors; it refines a
    queue of bytes (locale \<open>byte_queue\<close>, interpreted as \<open>lb\<close>).
  \<^item> \<^verbatim>\<open>Ikcp_Segment\<close>, \<^verbatim>\<open>Ikcp\<close> (\<^verbatim>\<open>kcp/ikcp.h\<close>, \<^verbatim>\<open>kcp/ikcp.c\<close>): the wire header and all operations of the
    control block. \<^verbatim>\<open>Ikcp_Send\<close>, \<^verbatim>\<open>Ikcp_Flush\<close>, \<^verbatim>\<open>Ikcp_Sender\<close>: fragmentation, the contents and sizes
    of datagrams, the invariant of a sender under any input. \<^verbatim>\<open>Ikcp_Recv\<close>: reassembly of segments in
    any order. \<^verbatim>\<open>Ikcp_Link\<close>: two endpoints over a network that loses, duplicates and reorders, and the
    delivery of messages in order. \<^verbatim>\<open>Ikcp_Control\<close>: round-trip estimates, windows, the time of the
    next update. \<^verbatim>\<open>Ikcp_Frame\<close>: what input keeps, whatever arrives (locale \<open>input_frame\<close>, interpreted
    for the receive queue).
  \<^item> \<^verbatim>\<open>Kcp_Connection\<close>, \<^verbatim>\<open>Kcp_Delivery\<close>, \<^verbatim>\<open>Kcp_Life\<close> (\<^verbatim>\<open>kcp/kcp_connection.hpp\<close>, \<^verbatim>\<open>kcp_message.hpp\<close>): the
    engine behind a socket with handshake and heartbeat; the handshake, the simulation by
    \<^verbatim>\<open>Ikcp_Link\<close>, the life cycle and the cases in which delivery stops. \<^verbatim>\<open>Kcp_Server\<close>
    (\<^verbatim>\<open>kcp_listener.hpp\<close>, \<^verbatim>\<open>kcp_connector.hpp\<close>): the owners of such connections.
  \<^item> \<^verbatim>\<open>Endpoint\<close>: endpoints as text, and the locale \<open>endpoint_server\<close> of a listener that keeps one
    connection per endpoint: any interleaving of datagrams acts on each connection as its own
    datagrams alone. Interpreted as \<open>kcp_clients\<close> in \<^verbatim>\<open>Kcp_Server\<close> and \<open>udp_clients\<close> in \<^verbatim>\<open>Udp\<close> (\<^verbatim>\<open>udp\<close>).
  \<^item> \<^verbatim>\<open>Registry\<close>: the locale \<open>registry\<close> of the tables of the library, interpreted for association lists
    (\<open>alist\<close>), the two tables of the pipe factory (\<open>bound\<close>, \<open>unbound\<close>) and that of the connector
    (\<open>conns\<close>).
  \<^item> \<^verbatim>\<open>Tcp_Socket\<close>, \<^verbatim>\<open>Tcp_Stream\<close> (\<^verbatim>\<open>tcp_socket.hpp\<close>): the socket and its transition system; the bytes
    written are the bytes accepted, and the order of events. \<^verbatim>\<open>Tcp_Framing\<close>: the contract of a package
    handler (locale \<open>package_framing\<close>, interpreted for pipes as \<open>pipe\<close>), under which packages are the
    frames of the stream however it is cut. \<^verbatim>\<open>Tls_Socket\<close> (\<^verbatim>\<open>tls_socket.hpp\<close>): the encrypted socket and its
    handshake, with the proof that it never becomes open.
  \<^item> \<^verbatim>\<open>Timer\<close> (\<^verbatim>\<open>utils/timer.hpp\<close>, \<^verbatim>\<open>knet_worker.hpp\<close>): live timers are armed, stopped ones silent.
  \<^item> \<^verbatim>\<open>Tcp_Connection\<close>, \<^verbatim>\<open>Tcp_Server\<close> (\<^verbatim>\<open>tcp_connection.hpp\<close>, \<^verbatim>\<open>tcp_listener.hpp\<close>, \<^verbatim>\<open>tcp_connector.hpp\<close>): handler
    chains, release, reconnection, accepting, the table of connections. The locale
    \<open>event_observer\<close> says when an owner sees every event of its socket; it is interpreted for the list
    of events (\<open>owner\<close>) and the count of releases (\<open>releases\<close>).
  \<^item> \<^verbatim>\<open>Pipe\<close>, \<^verbatim>\<open>Pipe_Stream\<close>, \<^verbatim>\<open>Pipe_Session\<close>, \<^verbatim>\<open>Kpipe\<close> (\<^verbatim>\<open>pipe\<close>): messages, sessions and the factory;
    end-to-end delivery over TCP, the handshake that binds sessions, and the facade \<^verbatim>\<open>KPipe\<close>.
  \<^item> \<^verbatim>\<open>Knet_Url\<close> (\<^verbatim>\<open>utils/knet_url.hpp\<close>, \<^verbatim>\<open>knet.hpp\<close>): URLs and options; printing and parsing.
  \<^item> \<^verbatim>\<open>Http_Parser\<close>, \<^verbatim>\<open>Http_Execute\<close> (\<^verbatim>\<open>http/http_parser.hpp\<close>): the states, tables and character classes of the
    parser of messages, and \<^verbatim>\<open>http_parser_execute\<close>: one definition per case of its switch, the loops
    over header names and values, callbacks and errors; every byte makes progress, which gives the
    termination of the loop and the meaning of its result. \<^verbatim>\<open>Http_Parse_Url\<close>: the parts of a URL, its host and
    its port. \<^verbatim>\<open>Http_Parser_Run\<close>, \<^verbatim>\<open>Http_Parser_Request\<close>, \<^verbatim>\<open>Http_Parser_Response\<close>: the parser on whole
    messages, part by part, up to one callback per part.
  \<^item> \<^verbatim>\<open>Http_Message\<close>, \<^verbatim>\<open>Http_Server\<close> (\<^verbatim>\<open>http\<close>): messages and their text, which a reference reader of the
    grammar takes apart again; the decoder's callbacks, which the parser calls on the text of the
    encoder, routes, and the reaction to a request.
  \<^item> \<^verbatim>\<open>Wsock_Handshake\<close>, \<^verbatim>\<open>Wsock_Frame\<close>, \<^verbatim>\<open>Wsock_Upgrade\<close> (\<^verbatim>\<open>websocket\<close>): SHA-1 and Base64 against their
    standards, frames and their delivery, the upgrade of an HTTP connection, and why the package
    handler keeps the upgrade from succeeding. \<^verbatim>\<open>Http_Endpoints\<close>: the servers and clients of both.

  \<^bold>\<open>Bounds and termination.\<close> Loops are structural or have a measure; no fuel is used. The theorems on HTTP
  messages are for texts below 65536 bytes, the width of the offsets in a URL, which is also below the
  parser's limit for headers. The only loop of
  the source that may run forever, that of \<^verbatim>\<open>remove_event_handler\<close>, is a partial function whose
  termination is characterised. Counters that the code lets wrap (sequence numbers, cursors) wrap
  here too; theorems about ids that must not repeat (timers, connections) assume that their 64-bit
  counters do not wrap. Delivery over KCP is shown for conversations of fewer than \<open>2 ^ 29\<close>
  fragments, since a network that may repeat a datagram at any later time could otherwise pass an
  old one off as a new one; reassembly itself is shown across the wrap-around of the sequence
  numbers.

  \<^bold>\<open>What is not modelled.\<close> The class \<^verbatim>\<open>HttpUrl\<close> (\<^verbatim>\<open>http/http_url.hpp\<close>) is an argument of the definitions that
  call it. Of the parser, the relaxed mode and the tables of names for statuses and errors are left
  out, and the limit for headers is its default. OpenSSL appears only through the outcome of its
  operations, and the classes in \<^verbatim>\<open>wsock_ssl_*.hpp\<close> repeat the WebSocket classes on the encrypted
  socket. Logging, the singleton template and the bundled
  libraries under \<^verbatim>\<open>deps\<close> have no protocol state. Functions of the templates that do not compile when
  they are instantiated are named in the notes of their components. Threads appear as the
  interleaving of whole operations; data races between them are outside the model.
\<close>

end
